(* ===== verification/Ndl_Prelude.thy ===== *)
theory Ndl_Prelude
  imports Main "HOL-Library.Word" "HOL-Library.Monad_Syntax"
begin

unbundle bit_operations_syntax

text \<open>
  Shared vocabulary of the NDLCom development: the machine types of the C sources
  (\<open>include/ndlcom/Types.h\<close>), checked memory accesses, the build-time configuration of the
  library, and the small lemmas on lists, words and the option monad that several components use.
\<close>

section \<open>Machine types\<close>

type_synonym u8 = "8 word"
type_synonym u16 = "16 word"
type_synonym u32 = "32 word"

text \<open>Collections of rules the components add to.\<close>

named_theorems parser_frame \<open>fields an operation of the parser leaves alone\<close>
named_theorems world_frame \<open>fields an operation of the bridge leaves alone\<close>
named_theorems ptr_simps \<open>reading a link of the store after a write\<close>

section \<open>Checked memory\<close>

text \<open>
  A C buffer is the list of its bytes. \<open>buf_put\<close> is the store \<open>*(p + i) = b\<close>: a store
  outside of the buffer is undefined behaviour, which the model makes visible as \<open>None\<close>.
\<close>

definition buf_put :: "u8 list \<Rightarrow> nat \<Rightarrow> u8 \<Rightarrow> u8 list option" where
  "buf_put m i b = (if i < length m then Some (m[i := b]) else None)"

definition buf_get :: "u8 list \<Rightarrow> nat \<Rightarrow> u8 option" where
  "buf_get m i = (if i < length m then Some (m ! i) else None)"

lemma buf_put_Some: "i < length m \<Longrightarrow> buf_put m i b = Some (m[i := b])"
  by (simp add: buf_put_def)

lemma buf_put_None [simp]: "length m \<le> i \<Longrightarrow> buf_put m i b = None"
  by (simp add: buf_put_def)

lemma buf_get_Some [simp]: "i < length m \<Longrightarrow> buf_get m i = Some (m ! i)"
  by (simp add: buf_get_def)

lemma buf_put_eq_SomeD: "buf_put m i b = Some m' \<Longrightarrow> i < length m \<and> m' = m[i := b]"
  by (simp add: buf_put_def split: if_splits)

section \<open>Lists\<close>

text \<open>Storing the next byte behind an already written prefix.\<close>

lemma list_update_prefix:
  "length ys = n \<Longrightarrow> (ys @ z # zs)[n := b] = ys @ b # zs"
  by auto

lemma take_Suc_update:
  "i < length m \<Longrightarrow> take (Suc i) (m[i := b]) = take i m @ [b]"
  by (simp add: take_Suc_conv_app_nth)

lemma length_eq_4_conv: "length xs = 4 \<longleftrightarrow> (\<exists>a b c d. xs = [a, b, c, d])"
  by (auto simp: length_Suc_conv numeral_eq_Suc)

lemma length_eq_2_conv: "length xs = 2 \<longleftrightarrow> (\<exists>a b. xs = [a, b])"
  by (auto simp: length_Suc_conv numeral_2_eq_2)

lemma count_list_distinct: "distinct xs \<Longrightarrow> x \<in> set xs \<Longrightarrow> count_list xs x = 1"
  by (induction xs) auto

section \<open>Words\<close>

lemma word8_less_256 [simp]: "unat (x :: u8) < 256"
  using unsigned_less [of x, where 'a = nat] by simp

lemma word8_le_255 [simp]: "unat (x :: u8) \<le> 255"
  using word8_less_256 [of x] by linarith

lemma xor_left_cancel_word: "x XOR (x XOR y) = (y :: 'a::len word)"
  by (simp add: xor.assoc [symmetric])

lemma xor_eq_iff_word: "x XOR y = x XOR z \<longleftrightarrow> y = (z :: 'a::len word)"
  by (metis xor_left_cancel_word)

end
