(* ===== verification/Crc16.thy ===== *)
theory Crc16
  imports Ndl_Prelude
begin

text \<open>
  The 16-bit frame check sequence of \<open>src/Crc.c\<close>: the lookup table, the update of the checksum
  by one byte, and the bit-serial algorithm of \<open>test/printTable.c\<close> which generated the table.
\<close>

section \<open>The code\<close>

definition NDLCOM_CRC_INITIAL_VALUE :: u16 where
  "NDLCOM_CRC_INITIAL_VALUE = 0xffff"

definition NDLCOM_CRC_REAL_GOOD_VALUE :: u16 where
  "NDLCOM_CRC_REAL_GOOD_VALUE = 0x0000"

definition ndlcomCrc16Table :: "u16 list" where
  "ndlcomCrc16Table = [
   0x0000, 0x1189, 0x2312, 0x329b, 0x4624, 0x57ad, 0x6536, 0x74bf,
   0x8c48, 0x9dc1, 0xaf5a, 0xbed3, 0xca6c, 0xdbe5, 0xe97e, 0xf8f7,
   0x1081, 0x0108, 0x3393, 0x221a, 0x56a5, 0x472c, 0x75b7, 0x643e,
   0x9cc9, 0x8d40, 0xbfdb, 0xae52, 0xdaed, 0xcb64, 0xf9ff, 0xe876,
   0x2102, 0x308b, 0x0210, 0x1399, 0x6726, 0x76af, 0x4434, 0x55bd,
   0xad4a, 0xbcc3, 0x8e58, 0x9fd1, 0xeb6e, 0xfae7, 0xc87c, 0xd9f5,
   0x3183, 0x200a, 0x1291, 0x0318, 0x77a7, 0x662e, 0x54b5, 0x453c,
   0xbdcb, 0xac42, 0x9ed9, 0x8f50, 0xfbef, 0xea66, 0xd8fd, 0xc974,
   0x4204, 0x538d, 0x6116, 0x709f, 0x0420, 0x15a9, 0x2732, 0x36bb,
   0xce4c, 0xdfc5, 0xed5e, 0xfcd7, 0x8868, 0x99e1, 0xab7a, 0xbaf3,
   0x5285, 0x430c, 0x7197, 0x601e, 0x14a1, 0x0528, 0x37b3, 0x263a,
   0xdecd, 0xcf44, 0xfddf, 0xec56, 0x98e9, 0x8960, 0xbbfb, 0xaa72,
   0x6306, 0x728f, 0x4014, 0x519d, 0x2522, 0x34ab, 0x0630, 0x17b9,
   0xef4e, 0xfec7, 0xcc5c, 0xddd5, 0xa96a, 0xb8e3, 0x8a78, 0x9bf1,
   0x7387, 0x620e, 0x5095, 0x411c, 0x35a3, 0x242a, 0x16b1, 0x0738,
   0xffcf, 0xee46, 0xdcdd, 0xcd54, 0xb9eb, 0xa862, 0x9af9, 0x8b70,
   0x8408, 0x9581, 0xa71a, 0xb693, 0xc22c, 0xd3a5, 0xe13e, 0xf0b7,
   0x0840, 0x19c9, 0x2b52, 0x3adb, 0x4e64, 0x5fed, 0x6d76, 0x7cff,
   0x9489, 0x8500, 0xb79b, 0xa612, 0xd2ad, 0xc324, 0xf1bf, 0xe036,
   0x18c1, 0x0948, 0x3bd3, 0x2a5a, 0x5ee5, 0x4f6c, 0x7df7, 0x6c7e,
   0xa50a, 0xb483, 0x8618, 0x9791, 0xe32e, 0xf2a7, 0xc03c, 0xd1b5,
   0x2942, 0x38cb, 0x0a50, 0x1bd9, 0x6f66, 0x7eef, 0x4c74, 0x5dfd,
   0xb58b, 0xa402, 0x9699, 0x8710, 0xf3af, 0xe226, 0xd0bd, 0xc134,
   0x39c3, 0x284a, 0x1ad1, 0x0b58, 0x7fe7, 0x6e6e, 0x5cf5, 0x4d7c,
   0xc60c, 0xd785, 0xe51e, 0xf497, 0x8028, 0x91a1, 0xa33a, 0xb2b3,
   0x4a44, 0x5bcd, 0x6956, 0x78df, 0x0c60, 0x1de9, 0x2f72, 0x3efb,
   0xd68d, 0xc704, 0xf59f, 0xe416, 0x90a9, 0x8120, 0xb3bb, 0xa232,
   0x5ac5, 0x4b4c, 0x79d7, 0x685e, 0x1ce1, 0x0d68, 0x3ff3, 0x2e7a,
   0xe70e, 0xf687, 0xc41c, 0xd595, 0xa12a, 0xb0a3, 0x8238, 0x93b1,
   0x6b46, 0x7acf, 0x4854, 0x59dd, 0x2d62, 0x3ceb, 0x0e70, 0x1ff9,
   0xf78f, 0xe606, 0xd49d, 0xc514, 0xb1ab, 0xa022, 0x92b9, 0x8330,
   0x7bc7, 0x6a4e, 0x58d5, 0x495c, 0x3de3, 0x2c6a, 0x1ef1, 0x0f78]"

text \<open>\<open>ndlcomDoCrc\<close>: the new checksum for the current one and a new data byte.\<close>

definition ndlcomDoCrc :: "u16 \<Rightarrow> u8 \<Rightarrow> u16" where
  "ndlcomDoCrc currentCrc c =
     drop_bit 8 currentCrc XOR (ndlcomCrc16Table ! unat ((currentCrc XOR ucast c) AND 0xff))"

text \<open>The loop every caller runs: one update per byte of a message.\<close>

definition crc_of :: "u16 \<Rightarrow> u8 list \<Rightarrow> u16" where
  "crc_of crc bs = foldl ndlcomDoCrc crc bs"

text \<open>
  The generator of the table (\<open>printTable1\<close> in \<open>test/printTable.c\<close>, taken from RFC 1662): the
  entry for \<open>b\<close> is \<open>b\<close> after eight rounds of a shift register with the polynomial \<open>0x8408\<close>.
\<close>

definition crc_step :: "u16 \<Rightarrow> u16" where
  "crc_step v = (if v AND 1 = 1 then drop_bit 1 v XOR 0x8408 else drop_bit 1 v)"

fun crc_steps :: "nat \<Rightarrow> u16 \<Rightarrow> u16" where
  "crc_steps 0 v = v"
| "crc_steps (Suc n) v = crc_steps n (crc_step v)"

definition printTable1 :: "u16 list" where
  "printTable1 = map (\<lambda>b. crc_steps 8 (of_nat b)) [0..<256]"

text \<open>The two bytes of a checksum: the value modulo 256, and the rest.\<close>

definition crc_lo :: "u16 \<Rightarrow> u8" where
  "crc_lo crc = ucast crc"

definition crc_hi :: "u16 \<Rightarrow> u8" where
  "crc_hi crc = ucast (drop_bit 8 crc)"

section \<open>The table is the generator's\<close>

lemma length_ndlcomCrc16Table [simp]: "length ndlcomCrc16Table = 256"
  by (simp add: ndlcomCrc16Table_def)

lemma crc_steps_8: "crc_steps 8 v = crc_step (crc_step (crc_step (crc_step (crc_step (crc_step (crc_step (crc_step v)))))))"
  by (simp add: eval_nat_numeral)

lemma crc_step_0 [simp]: "crc_step 0 = 0"
  by (simp add: crc_step_def)

lemma crc_step_1: "crc_step 1 = 0x8408"
  by (simp add: crc_step_def)

lemma crc_step_Bit0: "crc_step (numeral (num.Bit0 n)) = drop_bit 1 (numeral (num.Bit0 n))"
  by (simp add: crc_step_def)

lemma crc_step_Bit1:
  "crc_step (numeral (num.Bit1 n)) = drop_bit 1 (numeral (num.Bit1 n)) XOR 0x8408"
  by (simp add: crc_step_def)

text \<open>Rules that evaluate the generator on a literal, innermost round first.\<close>

lemmas crc_step_eval = crc_steps_8 crc_step_0 crc_step_1 crc_step_Bit0 crc_step_Bit1

lemma printTable1_eq: "printTable1 = ndlcomCrc16Table"
  by (simp add: printTable1_def upt_rec ndlcomCrc16Table_def crc_step_eval)

section \<open>The shift register is linear and injective\<close>

lemma odd_word_iff: "(v :: u16) AND 1 = 1 \<longleftrightarrow> bit v 0"
  by (simp add: and_one_eq bit_0 odd_iff_mod_2_eq_one)

lemma crc_step_linear: "crc_step (x XOR y) = crc_step x XOR crc_step y"
proof -
  have a: "drop_bit 1 (x XOR y) = drop_bit 1 x XOR drop_bit 1 y" by (rule drop_bit_xor)
  show ?thesis
    by (cases "bit x 0"; cases "bit y 0")
      (simp_all only: crc_step_def odd_word_iff a bit_xor_iff, simp_all add: ac_simps)
qed

lemma crc_steps_linear: "crc_steps n (x XOR y) = crc_steps n x XOR crc_steps n y"
  by (induction n arbitrary: x y) (simp_all add: crc_step_linear)

lemma crc_steps_0 [simp]: "crc_steps n 0 = 0"
  by (induction n) simp_all

lemma crc_steps_add: "crc_steps (m + n) v = crc_steps n (crc_steps m v)"
  by (induction m arbitrary: v) simp_all

lemma crc_step_eq_0_iff: "crc_step v = 0 \<longleftrightarrow> v = 0"
proof
  assume z: "crc_step v = 0"
  show "v = 0"
  proof (cases "bit v 0")
    case True
    with z have "drop_bit 1 v XOR 0x8408 = 0" by (simp add: crc_step_def odd_word_iff)
    then have "bit (drop_bit 1 v XOR 0x8408) 15 = bit (0 :: u16) 15" by simp
    moreover have "\<not> bit v 16" using bit_imp_le_length [of v 16] by auto
    ultimately show ?thesis by (simp add: bit_xor_iff bit_drop_bit_eq)
  next
    case False
    with z have d: "drop_bit 1 v = 0" by (simp add: crc_step_def odd_word_iff)
    show ?thesis
    proof (rule bit_word_eqI)
      fix n
      have "bit (drop_bit 1 v) (n - 1) = bit (0 :: u16) (n - 1)" by (simp only: d)
      with False show "bit v n = bit 0 n" by (cases n) (simp_all add: bit_drop_bit_eq)
    qed
  qed
qed simp

lemma crc_steps_eq_0_iff: "crc_steps n v = 0 \<longleftrightarrow> v = 0"
  by (induction n arbitrary: v) (simp_all add: crc_step_eq_0_iff)

lemma word_xor_eq_0_iff: "x XOR y = 0 \<longleftrightarrow> x = (y :: 'a::len word)"
  by (metis xor_eq_iff_word xor_self_eq)

lemma crc_steps_inj: "crc_steps n x = crc_steps n y \<longleftrightarrow> x = y"
  by (metis crc_steps_linear crc_steps_eq_0_iff word_xor_eq_0_iff)

text \<open>As long as only zero bits are shifted out the register is a plain shift.\<close>

lemma crc_steps_shift: "(\<And>i. i < n \<Longrightarrow> \<not> bit v i) \<Longrightarrow> crc_steps n v = drop_bit n v"
proof (induction n arbitrary: v)
  case (Suc n)
  have "\<not> bit v 0" using Suc.prems by simp
  then have "crc_step v = drop_bit 1 v" by (simp add: crc_step_def odd_word_iff)
  moreover have "crc_steps n (drop_bit 1 v) = drop_bit n (drop_bit 1 v)"
    by (rule Suc.IH) (simp add: bit_drop_bit_eq Suc.prems)
  ultimately show ?case by (simp add: drop_bit_drop_bit)
qed simp

lemma table_entry: "i < 256 \<Longrightarrow> ndlcomCrc16Table ! i = crc_steps 8 (of_nat i)"
  by (simp add: printTable1_eq [symmetric] printTable1_def)


section \<open>One byte through the table is eight rounds of the register\<close>

lemma ff_mask: "(0xff :: u16) = mask 8"
  by (simp add: mask_eq_exp_minus_1)

lemma ndlcomDoCrc_bitserial: "ndlcomDoCrc crc c = crc_steps 8 (crc XOR ucast c)"
proof -
  let ?s = "crc XOR ucast c"
  let ?lo = "?s AND mask 8" and ?hi = "?s AND NOT (mask 8)"
  have split: "?s = ?lo XOR ?hi"
    by (rule bit_word_eqI) (auto simp: bit_simps)
  have "unat ?lo < 256"
    using word_and_le1 [of ?s "mask 8"] by (simp add: word_le_nat_alt mask_eq_exp_minus_1)
  then have lo: "ndlcomCrc16Table ! unat ?lo = crc_steps 8 ?lo"
    by (simp add: table_entry)
  have "crc_steps 8 ?hi = drop_bit 8 ?hi"
    by (rule crc_steps_shift) (auto simp: bit_simps)
  also have "\<dots> = drop_bit 8 crc"
    by (rule bit_word_eqI) (auto simp: bit_simps dest: bit_imp_le_length)
  finally have hi: "crc_steps 8 ?hi = drop_bit 8 crc" .
  have "crc_steps 8 ?s = crc_steps 8 ?lo XOR crc_steps 8 ?hi"
    by (subst split) (rule crc_steps_linear)
  also have "\<dots> = drop_bit 8 crc XOR ndlcomCrc16Table ! unat ?lo"
    by (simp only: lo hi xor.commute)
  finally show ?thesis
    by (simp only: ndlcomDoCrc_def ff_mask)
qed

text \<open>Two updates at once: the bytes enter as one 16-bit word, least significant byte first.\<close>

lemma crc_steps_8_byte: "crc_steps 8 (push_bit 8 (ucast (b :: u8))) = ucast b"
proof -
  have "crc_steps 8 (push_bit 8 (ucast b)) = drop_bit 8 (push_bit 8 (ucast b))"
    by (rule crc_steps_shift) (simp add: bit_simps)
  also have "\<dots> = ucast b"
    by (rule bit_word_eqI) (auto simp: bit_simps dest: bit_imp_le_length)
  finally show ?thesis .
qed

lemma crc_of_two:
  "crc_of crc [a, b] = crc_steps 16 (crc XOR (ucast a XOR push_bit 8 (ucast b)))"
proof -
  have "crc_of crc [a, b] = crc_steps 8 (crc_steps 8 (crc XOR ucast a) XOR ucast b)"
    by (simp add: crc_of_def ndlcomDoCrc_bitserial)
  also have "\<dots> = crc_steps 8 (crc_steps 8 (crc XOR ucast a XOR push_bit 8 (ucast b)))"
    by (simp only: crc_steps_linear crc_steps_8_byte xor.assoc)
  also have "\<dots> = crc_steps 16 (crc XOR (ucast a XOR push_bit 8 (ucast b)))"
    using crc_steps_add [of 8 8] by (simp add: xor.assoc)
  finally show ?thesis .
qed

lemma word16_bytes: "w = ucast (crc_lo w) XOR push_bit 8 (ucast (crc_hi w))"
  unfolding crc_lo_def crc_hi_def
  by (rule bit_word_eqI) (auto simp: bit_simps dest: bit_imp_le_length)

lemma word16_of_bytes_eq_iff:
  "w = ucast a XOR push_bit 8 (ucast b) \<longleftrightarrow> a = crc_lo w \<and> b = crc_hi w"
proof
  assume w: "w = ucast a XOR push_bit 8 (ucast b)"
  have "a = ucast w"
    unfolding w by (rule bit_word_eqI) (auto simp: bit_simps dest: bit_imp_le_length)
  moreover have "b = ucast (drop_bit 8 w)"
    unfolding w by (rule bit_word_eqI) (auto simp: bit_simps dest: bit_imp_le_length)
  ultimately show "a = crc_lo w \<and> b = crc_hi w" by (simp add: crc_lo_def crc_hi_def)
qed (metis word16_bytes)

lemma crc_residue: "crc_of crc [a, b] = 0 \<longleftrightarrow> a = crc_lo crc \<and> b = crc_hi crc"
  by (simp add: crc_of_two crc_steps_eq_0_iff word_xor_eq_0_iff word16_of_bytes_eq_iff)


section \<open>Messages\<close>

lemma crc_of_Nil [simp]: "crc_of c [] = c"
  by (simp add: crc_of_def)

lemma crc_of_Cons: "crc_of c (b # bs) = crc_of (ndlcomDoCrc c b) bs"
  by (simp add: crc_of_def)

lemma crc_of_append [simp]: "crc_of c (xs @ ys) = crc_of (crc_of c xs) ys"
  by (simp add: crc_of_def)

lemma crc_of_snoc: "crc_of c (xs @ [b]) = ndlcomDoCrc (crc_of c xs) b"
  by (simp add: crc_of_def)

text \<open>The register fed bit by bit, least significant bit of every byte first.\<close>

fun crc_feed :: "u16 \<Rightarrow> bool list \<Rightarrow> u16" where
  "crc_feed s [] = s"
| "crc_feed s (b # bs) = crc_feed (crc_step (s XOR of_bool b)) bs"

definition bits_of_byte :: "u8 \<Rightarrow> bool list" where
  "bits_of_byte b = map (bit b) [0..<8]"

definition bits_of :: "u8 list \<Rightarrow> bool list" where
  "bits_of bs = concat (map bits_of_byte bs)"

lemma crc_feed_append: "crc_feed s (xs @ ys) = crc_feed (crc_feed s xs) ys"
  by (induction xs arbitrary: s) simp_all

lemma crc_feed_horner:
  "length bs \<le> 16 \<Longrightarrow> crc_feed s bs = crc_steps (length bs) (s XOR horner_sum of_bool 2 bs)"
proof (induction bs arbitrary: s)
  case (Cons b bs)
  define w v where "w = (horner_sum of_bool 2 bs :: u16)" and "v = push_bit 1 w"
  have w: "bit w n \<longleftrightarrow> n < length bs \<and> bs ! n" if "n < 16" for n
    using that Cons.prems by (auto simp: w_def bit_horner_sum_bit_word_iff)
  have v: "bit v n \<longleftrightarrow> n \<noteq> 0 \<and> n < 16 \<and> bit w (n - 1)" for n
    unfolding v_def by (simp only: bit_push_bit_iff) auto
  have "(horner_sum of_bool 2 (b # bs) :: u16) = of_bool b XOR v"
  proof (rule bit_word_eqI)
    fix n assume "n < LENGTH(16)"
    then show "bit (horner_sum of_bool 2 (b # bs) :: u16) n = bit (of_bool b XOR v) n"
      using Cons.prems
      by (cases n)
        (auto simp: bit_horner_sum_bit_word_iff bit_xor_iff bit_of_bool_iff v w simp del: horner_sum_simps)
  qed
  moreover have "crc_step v = w"
  proof -
    have "crc_steps 1 v = drop_bit 1 v"
      by (rule crc_steps_shift) (simp add: v)
    also have "\<dots> = w"
      using Cons.prems
      by (intro bit_word_eqI) (auto simp: bit_drop_bit_eq v w)
    finally show ?thesis by simp
  qed
  ultimately have "crc_step (s XOR horner_sum of_bool 2 (b # bs)) = crc_step (s XOR of_bool b) XOR w"
    by (simp only: xor.assoc [symmetric] crc_step_linear)
  moreover have "crc_feed (crc_step (s XOR of_bool b)) bs = crc_steps (length bs) (crc_step (s XOR of_bool b) XOR w)"
    unfolding w_def using Cons by simp
  ultimately show ?case by simp
qed simp

lemma crc_feed_byte: "crc_feed s (bits_of_byte b) = ndlcomDoCrc s b"
proof -
  have nth: "bits_of_byte b ! n = bit b n" if "n < 8" for n
    using that by (simp add: bits_of_byte_def del: upt_rec_numeral)
  have len: "length (bits_of_byte b) = 8" by (simp add: bits_of_byte_def)
  have "(horner_sum of_bool 2 (bits_of_byte b) :: u16) = ucast b"
  proof (rule bit_word_eqI)
    fix n
    show "bit (horner_sum of_bool 2 (bits_of_byte b) :: u16) n = bit (ucast b :: u16) n"
      using bit_imp_le_length [of b n]
      by (cases "n < 8") (auto simp: bit_horner_sum_bit_word_iff bit_ucast_iff nth len)
  qed
  moreover note len
  ultimately show ?thesis
    using crc_feed_horner [of "bits_of_byte b" s] by (simp add: ndlcomDoCrc_bitserial)
qed

lemma crc_of_feed: "crc_of s bs = crc_feed s (bits_of bs)"
  by (induction bs arbitrary: s) (simp_all add: bits_of_def crc_feed_append crc_feed_byte crc_of_Cons)

lemma crc_feed_linear:
  "length xs = length ys \<Longrightarrow>
    crc_feed s xs XOR crc_feed t ys = crc_feed (s XOR t) (map2 (\<noteq>) xs ys)"
proof (induction xs ys arbitrary: s t rule: list_induct2)
  case (Cons x xs y ys)
  have "crc_step (s XOR of_bool x) XOR crc_step (t XOR of_bool y) = crc_step (s XOR t XOR of_bool (x \<noteq> y))"
    by (cases x; cases y) (simp_all add: crc_step_linear ac_simps)
  with Cons show ?case by (simp only: crc_feed.simps list.map zip_Cons_Cons prod.case xor.assoc)
qed simp

lemma crc_feed_zeros: "crc_feed s (replicate n False) = crc_steps n s"
  by (induction n arbitrary: s) simp_all

lemma horner_eq_0_iff:
  assumes "length w \<le> 16"
  shows "(horner_sum of_bool 2 w :: u16) = 0 \<longleftrightarrow> True \<notin> set w"
proof
  assume z: "(horner_sum of_bool 2 w :: u16) = 0"
  have "\<not> w ! i" if "i < length w" for i
  proof -
    have "bit (horner_sum of_bool 2 w :: u16) i \<longleftrightarrow> w ! i"
      using that assms by (simp add: bit_horner_sum_bit_word_iff)
    then show ?thesis by (simp add: z)
  qed
  then show "True \<notin> set w" by (auto simp: in_set_conv_nth)
next
  assume "True \<notin> set w"
  then show "(horner_sum of_bool 2 w :: u16) = 0"
    by (intro bit_word_eqI) (auto simp: bit_horner_sum_bit_word_iff in_set_conv_nth)
qed

lemma crc_feed_burst:
  assumes "True \<in> set w" and "length w \<le> 16"
  shows "crc_feed 0 (replicate i False @ w @ replicate j False) \<noteq> 0"
proof -
  have "crc_feed 0 w \<noteq> 0"
    using assms by (simp add: crc_feed_horner crc_steps_eq_0_iff horner_eq_0_iff)
  then show ?thesis by (simp add: crc_feed_append crc_feed_zeros crc_steps_eq_0_iff)
qed

text \<open>A pattern whose set bits all lie within 16 positions is a burst.\<close>

lemma burst_decompose:
  assumes "True \<in> set es"
    and near: "\<And>i j. i < length es \<Longrightarrow> j < length es \<Longrightarrow> es ! i \<Longrightarrow> es ! j \<Longrightarrow> i < j + 16"
  obtains i w j where "es = replicate i False @ w @ replicate j False" "True \<in> set w" "length w \<le> 16"
proof -
  let ?pre = "takeWhile Not es" and ?rest = "dropWhile Not es"
  let ?n = "length ?pre"
  have pre: "?pre = replicate ?n False"
    by (intro replicate_eqI) (auto dest: set_takeWhileD)
  have ne: "?rest \<noteq> []" using assms(1) by (auto simp: dropWhile_eq_Nil_conv)
  then have hd: "hd ?rest" using hd_dropWhile [OF ne] by simp
  have es: "es = ?pre @ ?rest" by simp
  have n: "?n < length es" "es ! ?n"
    using ne hd by (auto simp: dropWhile_eq_drop hd_drop_conv_nth)
  have "\<not> drop 16 ?rest ! k" if "k < length (drop 16 ?rest)" for k
  proof
    assume "drop 16 ?rest ! k"
    then have "es ! (?n + 16 + k)" using that
      by (simp add: dropWhile_eq_drop ac_simps)
    moreover have "?n + 16 + k < length es"
      using that by (simp add: dropWhile_eq_drop)
    ultimately show False using near [of "?n + 16 + k" ?n] n by simp
  qed
  then have post: "drop 16 ?rest = replicate (length (drop 16 ?rest)) False"
    by (intro replicate_eqI) (auto simp: in_set_conv_nth simp del: nth_drop length_drop)
  have "True \<in> set (take 16 ?rest)"
    using ne hd by (cases ?rest) auto
  moreover have "es = replicate ?n False @ take 16 ?rest @ replicate (length (drop 16 ?rest)) False"
    by (subst es, subst pre [symmetric], subst post [symmetric]) simp
  ultimately show thesis by (intro that) auto
qed


text \<open>Position \<open>i\<close> of the bit stream is bit \<open>i mod 8\<close> of byte \<open>i div 8\<close>.\<close>

lemma length_bits_of [simp]: "length (bits_of bs) = 8 * length bs"
  by (induction bs) (simp_all add: bits_of_def bits_of_byte_def)

lemma bits_of_inj: "length xs = length ys \<Longrightarrow> bits_of xs = bits_of ys \<longleftrightarrow> xs = ys"
proof (induction xs ys rule: list_induct2)
  case (Cons x xs y ys)
  have "bits_of_byte x = bits_of_byte y \<longleftrightarrow> x = y"
    by (auto simp: bits_of_byte_def intro!: bit_word_eqI)
  with Cons show ?case
    by (simp add: bits_of_def) (simp add: bits_of_byte_def)
qed simp

text \<open>
  The positions at which the bits of two messages differ lie within \<open>k\<close> of each other.
\<close>

definition differ_within :: "nat \<Rightarrow> u8 list \<Rightarrow> u8 list \<Rightarrow> bool" where
  "differ_within k m m' \<longleftrightarrow>
     (\<forall>i < 8 * length m. \<forall>j < 8 * length m.
        bits_of m ! i \<noteq> bits_of m' ! i \<longrightarrow> bits_of m ! j \<noteq> bits_of m' ! j \<longrightarrow> i < j + k)"

lemma crc_of_burst:
  assumes "length m = length m'" and "m \<noteq> m'" and "differ_within 16 m m'"
  shows "crc_of c m \<noteq> crc_of c m'"
proof -
  let ?es = "map2 (\<noteq>) (bits_of m) (bits_of m')"
  have len: "length ?es = 8 * length m" using assms(1) by simp
  have "bits_of m \<noteq> bits_of m'" using assms(1,2) by (simp add: bits_of_inj)
  then obtain k where k: "k < 8 * length m" "bits_of m ! k \<noteq> bits_of m' ! k"
    using assms(1) nth_equalityI [of "bits_of m" "bits_of m'"] by auto
  then have "?es ! k" using assms(1) by simp
  with k len have "True \<in> set ?es" by (metis (full_types) nth_mem)
  then obtain i w j where es: "?es = replicate i False @ w @ replicate j False"
    and w: "True \<in> set w" "length w \<le> 16"
  proof (rule burst_decompose)
    fix i j assume "i < length ?es" "j < length ?es" "?es ! i" "?es ! j"
    then show "i < j + 16" using assms by (simp add: differ_within_def)
  qed
  have "crc_of c m XOR crc_of c m' = crc_feed 0 ?es"
    using assms(1) by (simp add: crc_of_feed crc_feed_linear)
  also have "\<dots> \<noteq> 0" unfolding es using w by (rule crc_feed_burst)
  finally show ?thesis by auto
qed

section \<open>Properties\<close>

text \<open>
  C28: the table-driven checksum of \<open>src/Crc.c\<close> is the bit-serial CRC: running \<open>ndlcomDoCrc\<close> over the
  bytes of a message gives what the shift register of the table's generator gives when it is fed
  the bits of the message one by one, least significant bit of each byte first.
\<close>

theorem ndlcomDoCrc_is_bit_serial:
  "crc_of currentCrc msg = crc_feed currentCrc (bits_of msg)"
  by (rule crc_of_feed)

text \<open>
  The acceptance test of the parser. After any message, exactly one pair of trailing bytes
  leaves the good value behind: the bytes of the checksum itself, least significant first.
\<close>

theorem crc_good_iff_trailer:
  "crc_of NDLCOM_CRC_INITIAL_VALUE (msg @ [a, b]) = NDLCOM_CRC_REAL_GOOD_VALUE \<longleftrightarrow>
     a = crc_lo (crc_of NDLCOM_CRC_INITIAL_VALUE msg) \<and> b = crc_hi (crc_of NDLCOM_CRC_INITIAL_VALUE msg)"
  by (simp add: NDLCOM_CRC_REAL_GOOD_VALUE_def crc_residue)

text \<open>
  Error detection. Two different messages of the same length whose differing bits (in the
  order they are sent, least significant bit of a byte first) lie within 16 positions of each other
  have different checksums: every burst error of up to 16 bits is detected.
\<close>

theorem burst_error_detected:
  assumes "length m = length m'" and "m \<noteq> m'" and "differ_within 16 m m'"
  shows "crc_of c m \<noteq> crc_of c m'"
  using assms by (rule crc_of_burst)

lemma burst_error_detected_witness:
  "crc_of 0xffff [0x31, 0x32] \<noteq> crc_of 0xffff [0x31, 0xb3]"
  by (rule burst_error_detected) (simp_all add: differ_within_def)

end
