(* ===== verification/Packet.thy ===== *)
theory Packet
  imports Crc16
begin

text \<open>
  The packet format of \<open>include/ndlcom/Types.h\<close>: the header, its four bytes on the wire, the
  reserved bytes of the HDLC-like encoding, the size macros, and the frame that carries a packet.
  The macros that can be set at build time are the fields of \<open>config\<close>; every component takes
  the configuration it was built with as an argument.
\<close>

section \<open>Build configuration\<close>

record config =
  NDLCOM_MAX_PAYLOAD_SIZE :: nat
  NDLCOM_MAX_NUMBER_OF_DEVICES :: nat
  big_endian :: bool \<comment> \<open>byte order of the machine the library is compiled for\<close>

definition default_config :: config where
  "default_config =
     \<lparr>NDLCOM_MAX_PAYLOAD_SIZE = 2 ^ 8 - 1, NDLCOM_MAX_NUMBER_OF_DEVICES = 2 ^ 8, big_endian = False\<rparr>"

section \<open>Headers\<close>

record NDLComHeader =
  mReceiverId :: u8
  mSenderId :: u8
  mCounter :: u8
  mDataLen :: u8

text \<open>The packed structure as bytes in memory, and the bytes read through the parser's union.\<close>

definition header_bytes :: "NDLComHeader \<Rightarrow> u8 list" where
  "header_bytes h = [mReceiverId h, mSenderId h, mCounter h, mDataLen h]"

definition header_of_bytes :: "u8 list \<Rightarrow> NDLComHeader" where
  "header_of_bytes raw =
     \<lparr>mReceiverId = raw ! 0, mSenderId = raw ! 1, mCounter = raw ! 2, mDataLen = raw ! 3\<rparr>"

text \<open>The object representation of an \<open>NDLComCrc\<close>, as the encoder reads it through a byte pointer.\<close>

definition crc_bytes :: "config \<Rightarrow> u16 \<Rightarrow> u8 list" where
  "crc_bytes cfg crc = (if big_endian cfg then [crc_hi crc, crc_lo crc] else [crc_lo crc, crc_hi crc])"

section \<open>Constants and sizes\<close>

definition NDLCOM_ESC_CHAR :: u8 where
  "NDLCOM_ESC_CHAR = 0x7d"

definition NDLCOM_START_STOP_FLAG :: u8 where
  "NDLCOM_START_STOP_FLAG = 0x7e"

definition NDLCOM_ADDR_BROADCAST :: u8 where
  "NDLCOM_ADDR_BROADCAST = 0xff"

text \<open>\<open>sizeof(struct NDLComHeader)\<close> and \<open>sizeof(NDLComCrc)\<close>.\<close>

definition sizeof_NDLComHeader :: nat where
  "sizeof_NDLComHeader = 4"

definition sizeof_NDLComCrc :: nat where
  "sizeof_NDLComCrc = 2"

definition NDLCOM_MAX_DECODED_MESSAGE_SIZE :: "config \<Rightarrow> nat" where
  "NDLCOM_MAX_DECODED_MESSAGE_SIZE cfg =
     sizeof_NDLComHeader + NDLCOM_MAX_PAYLOAD_SIZE cfg + sizeof_NDLComCrc"

definition NDLCOM_MAX_DECODED_MESSAGE_SIZE_FOR_PACKET :: "NDLComHeader \<Rightarrow> nat" where
  "NDLCOM_MAX_DECODED_MESSAGE_SIZE_FOR_PACKET header =
     sizeof_NDLComHeader + unat (mDataLen header) + sizeof_NDLComCrc"

definition NDLCOM_MAX_ENCODED_MESSAGE_SIZE :: "config \<Rightarrow> nat" where
  "NDLCOM_MAX_ENCODED_MESSAGE_SIZE cfg = 2 + 2 * NDLCOM_MAX_DECODED_MESSAGE_SIZE cfg"

definition NDLCOM_MAX_ENCODED_MESSAGE_SIZE_FOR_PACKET :: "NDLComHeader \<Rightarrow> nat" where
  "NDLCOM_MAX_ENCODED_MESSAGE_SIZE_FOR_PACKET header =
     2 + 2 * NDLCOM_MAX_DECODED_MESSAGE_SIZE_FOR_PACKET header"

lemmas size_defs = sizeof_NDLComHeader_def sizeof_NDLComCrc_def
  NDLCOM_MAX_DECODED_MESSAGE_SIZE_def NDLCOM_MAX_ENCODED_MESSAGE_SIZE_def
  NDLCOM_MAX_DECODED_MESSAGE_SIZE_FOR_PACKET_def NDLCOM_MAX_ENCODED_MESSAGE_SIZE_FOR_PACKET_def

lemma length_header_bytes [simp]: "length (header_bytes h) = 4"
  by (simp add: header_bytes_def)

lemma length_crc_bytes [simp]: "length (crc_bytes cfg crc) = 2"
  by (simp add: crc_bytes_def)

lemma header_of_header_bytes [simp]: "header_of_bytes (header_bytes h) = h"
  by (simp add: header_of_bytes_def header_bytes_def)

lemma header_bytes_of_bytes: "length raw = 4 \<Longrightarrow> header_bytes (header_of_bytes raw) = raw"
  by (auto simp: length_eq_4_conv header_of_bytes_def header_bytes_def)

lemma header_bytes_inj [simp]: "header_bytes g = header_bytes h \<longleftrightarrow> g = h"
  by (metis header_of_header_bytes)

section \<open>The specification of a frame\<close>

text \<open>
  Byte stuffing: a reserved byte is sent as the escape byte followed by the byte with bit 5
  complemented. A frame is the stuffed header, payload and checksum between two flags.
\<close>

definition reserved :: "u8 \<Rightarrow> bool" where
  "reserved d \<longleftrightarrow> d = NDLCOM_ESC_CHAR \<or> d = NDLCOM_START_STOP_FLAG"

fun stuff :: "u8 list \<Rightarrow> u8 list" where
  "stuff [] = []"
| "stuff (d # ds) = (if reserved d then NDLCOM_ESC_CHAR # (0x20 XOR d) # stuff ds else d # stuff ds)"

definition packet_bytes :: "config \<Rightarrow> NDLComHeader \<Rightarrow> u8 list \<Rightarrow> u8 list" where
  "packet_bytes cfg header payload =
     header_bytes header @ payload @
     crc_bytes cfg (crc_of NDLCOM_CRC_INITIAL_VALUE (header_bytes header @ payload))"

definition frame :: "config \<Rightarrow> NDLComHeader \<Rightarrow> u8 list \<Rightarrow> u8 list" where
  "frame cfg header payload =
     NDLCOM_START_STOP_FLAG # stuff (packet_bytes cfg header payload) @ [NDLCOM_START_STOP_FLAG]"

lemma stuff_append [simp]: "stuff (xs @ ys) = stuff xs @ stuff ys"
  by (induction xs) simp_all

lemma length_stuff_le: "length (stuff ds) \<le> 2 * length ds"
  by (induction ds) simp_all

lemma length_stuff_ge: "length ds \<le> length (stuff ds)"
  by (induction ds) simp_all

lemma reserved_complement: "reserved d \<Longrightarrow> \<not> reserved (0x20 XOR d)"
  by (auto simp: reserved_def NDLCOM_ESC_CHAR_def NDLCOM_START_STOP_FLAG_def)

lemma xor_20_20 [simp]: "(0x20 XOR d) XOR 0x20 = (d :: u8)"
  by (metis xor.commute xor_left_cancel_word)

lemma flag_notin_stuff: "NDLCOM_START_STOP_FLAG \<notin> set (stuff ds)"
  using reserved_complement
  by (induction ds) (auto simp: reserved_def NDLCOM_ESC_CHAR_def NDLCOM_START_STOP_FLAG_def)

lemma length_packet_bytes [simp]: "length (packet_bytes cfg h pl) = 6 + length pl"
  by (simp add: packet_bytes_def)

lemma length_frame_le: "length (frame cfg h pl) \<le> 2 + 2 * (6 + length pl)"
  using length_stuff_le [of "packet_bytes cfg h pl"] by (simp add: frame_def)

end
