(* ===== verification/Encoder.thy ===== *)
theory Encoder
  imports Packet
begin

text \<open>
  \<open>src/Encoder.c\<close>. The output buffer is a byte list that is written in place; every function takes
  the offset its buffer pointer has in it, the size argument it is called with, and returns the
  buffer with the function's result. A write outside of the buffer is \<open>None\<close>. A \<open>size_t\<close> has 64
  bits: the only products and sums that could wrap are written out modulo \<open>SIZE_MODULUS\<close>.
\<close>

section \<open>The code\<close>

definition SIZE_MODULUS :: nat where
  "SIZE_MODULUS = 2 ^ 64"

definition ndlcomEncodeInit :: "u8 list \<Rightarrow> nat \<Rightarrow> nat \<Rightarrow> (u8 list \<times> nat \<times> u16) option" where
  "ndlcomEncodeInit outputBuffer pos outputBufferSize =
     (if outputBufferSize < 1 then Some (outputBuffer, 0, NDLCOM_CRC_INITIAL_VALUE)
      else do {
        outputBuffer \<leftarrow> buf_put outputBuffer pos NDLCOM_START_STOP_FLAG;
        Some (outputBuffer, 1, NDLCOM_CRC_INITIAL_VALUE)
      })"

text \<open>The data loop of \<open>ndlcomEncodeAppendPayload\<close>; \<open>crc\<close> is \<open>None\<close> where the code passes no pointer.\<close>

fun encode_loop :: "u8 list \<Rightarrow> nat \<Rightarrow> u16 option \<Rightarrow> u8 list \<Rightarrow> (u8 list \<times> nat \<times> u16 option) option" where
  "encode_loop outputBuffer pWritePos crc [] = Some (outputBuffer, pWritePos, crc)"
| "encode_loop outputBuffer pWritePos crc (d # pRead) =
     (let crc = map_option (\<lambda>c. ndlcomDoCrc c d) crc in
      if d = NDLCOM_ESC_CHAR \<or> d = NDLCOM_START_STOP_FLAG then do {
        outputBuffer \<leftarrow> buf_put outputBuffer pWritePos NDLCOM_ESC_CHAR;
        outputBuffer \<leftarrow> buf_put outputBuffer (pWritePos + 1) (0x20 XOR d);
        encode_loop outputBuffer (pWritePos + 2) crc pRead
      } else do {
        outputBuffer \<leftarrow> buf_put outputBuffer pWritePos d;
        encode_loop outputBuffer (pWritePos + 1) crc pRead
      })"

definition ndlcomEncodeAppendPayload ::
  "u8 list \<Rightarrow> nat \<Rightarrow> nat \<Rightarrow> u8 list \<Rightarrow> u16 option \<Rightarrow> (u8 list \<times> nat \<times> u16 option) option" where
  "ndlcomEncodeAppendPayload outputBuffer pos outputBufferSize dataBuffer crc =
     (if outputBufferSize < (2 * length dataBuffer) mod SIZE_MODULUS then Some (outputBuffer, 0, crc)
      else do {
        (outputBuffer, pWritePos, crc) \<leftarrow> encode_loop outputBuffer pos crc dataBuffer;
        Some (outputBuffer, pWritePos - pos, crc)
      })"

definition ndlcomEncodeFinalize :: "u8 list \<Rightarrow> nat \<Rightarrow> nat \<Rightarrow> (u8 list \<times> nat) option" where
  "ndlcomEncodeFinalize outputBuffer pos outputBufferSize =
     (if outputBufferSize < 1 then Some (outputBuffer, 0)
      else do {
        outputBuffer \<leftarrow> buf_put outputBuffer pos NDLCOM_START_STOP_FLAG;
        Some (outputBuffer, 1)
      })"

text \<open>The loop over the variable arguments: every section is a pointer and a length.\<close>

fun encode_sections :: "u8 list \<Rightarrow> nat \<Rightarrow> nat \<Rightarrow> u16 option \<Rightarrow> nat \<Rightarrow> u8 list list \<Rightarrow>
    (u8 list \<times> nat \<times> u16 option \<times> nat) option" where
  "encode_sections outputBuffer outputBufferSize wrote crc overallPayloadLen [] =
     Some (outputBuffer, wrote, crc, overallPayloadLen)"
| "encode_sections outputBuffer outputBufferSize wrote crc overallPayloadLen (data # ap) = do {
     (outputBuffer, n, crc) \<leftarrow>
       ndlcomEncodeAppendPayload outputBuffer wrote (outputBufferSize - wrote) data crc;
     encode_sections outputBuffer outputBufferSize (wrote + n) crc
       ((overallPayloadLen + length data) mod SIZE_MODULUS) ap
   }"

definition ndlcomEncodeVar ::
  "config \<Rightarrow> u8 list \<Rightarrow> nat \<Rightarrow> NDLComHeader \<Rightarrow> u8 list list \<Rightarrow> (u8 list \<times> nat) option" where
  "ndlcomEncodeVar cfg outputBuffer outputBufferSize header sections = do {
     (outputBuffer, n, crc) \<leftarrow> ndlcomEncodeInit outputBuffer 0 outputBufferSize;
     let wrote = n;
     (outputBuffer, n, crc) \<leftarrow> ndlcomEncodeAppendPayload outputBuffer wrote
       (outputBufferSize - wrote) (header_bytes header) (Some crc);
     let wrote = wrote + n;
     (outputBuffer, wrote, crc, overallPayloadLen) \<leftarrow>
       encode_sections outputBuffer outputBufferSize wrote crc 0 sections;
     if overallPayloadLen \<noteq> unat (mDataLen header) then Some (outputBuffer, 0)
     else do {
       (outputBuffer, n, _) \<leftarrow> ndlcomEncodeAppendPayload outputBuffer wrote
         (outputBufferSize - wrote) (crc_bytes cfg (the crc)) None;
       let wrote = wrote + n;
       (outputBuffer, n) \<leftarrow> ndlcomEncodeFinalize outputBuffer wrote (outputBufferSize - wrote);
       Some (outputBuffer, wrote + n)
     }
   }"

text \<open>The wrapper reads \<open>mDataLen\<close> bytes behind the data pointer; fewer are a read out of bounds.\<close>

definition ndlcomEncode ::
  "config \<Rightarrow> u8 list \<Rightarrow> nat \<Rightarrow> NDLComHeader \<Rightarrow> u8 list \<Rightarrow> (u8 list \<times> nat) option" where
  "ndlcomEncode cfg outputBuffer outputBufferSize header data =
     (if length data < unat (mDataLen header) then None
      else ndlcomEncodeVar cfg outputBuffer outputBufferSize header [take (unat (mDataLen header)) data])"

section \<open>What the steps write\<close>

text \<open>
  \<open>written m pos bs m'\<close>: the buffer \<open>m'\<close> is \<open>m\<close> with \<open>bs\<close> stored at offset \<open>pos\<close>.
\<close>

definition overwrite :: "u8 list \<Rightarrow> nat \<Rightarrow> u8 list \<Rightarrow> u8 list" where
  "overwrite m pos bs = take pos m @ bs @ drop (pos + length bs) m"

lemma length_overwrite [simp]: "pos + length bs \<le> length m \<Longrightarrow> length (overwrite m pos bs) = length m"
  by (simp add: overwrite_def)

lemma overwrite_Nil [simp]: "overwrite m pos [] = m"
  by (simp add: overwrite_def)

lemma overwrite_append:
  "pos + length (xs @ ys) \<le> length m \<Longrightarrow>
    overwrite (overwrite m pos xs) (pos + length xs) ys = overwrite m pos (xs @ ys)"
  by (simp add: overwrite_def ac_simps)

lemma buf_put_overwrite: "pos < length m \<Longrightarrow> buf_put m pos b = Some (overwrite m pos [b])"
  by (simp add: buf_put_Some overwrite_def upd_conv_take_nth_drop)

lemma take_overwrite: "pos + length bs \<le> length m \<Longrightarrow>
    take (pos + length bs) (overwrite m pos bs) = take pos m @ bs"
  by (simp add: overwrite_def)

lemma encode_loop_writes:
  assumes "pos + length (stuff ds) \<le> length m"
  shows "encode_loop m pos crc ds =
    Some (overwrite m pos (stuff ds), pos + length (stuff ds), map_option (\<lambda>c. crc_of c ds) crc)"
  using assms
proof (induction ds arbitrary: m pos crc)
  case Nil
  then show ?case by (simp add: option.map_ident)
next
  case (Cons d ds)
  show ?case
  proof (cases "reserved d")
    case True
    let ?xs = "[NDLCOM_ESC_CHAR, 0x20 XOR d]"
    have len: "pos + 2 + length (stuff ds) \<le> length m" using Cons.prems True by simp
    have "overwrite (overwrite m pos ?xs) (pos + 2) (stuff ds) = overwrite m pos (?xs @ stuff ds)"
      using overwrite_append [of pos ?xs "stuff ds" m] len by simp
    moreover have "length (overwrite m pos ?xs) = length m" using len by simp
    moreover have "overwrite (overwrite m pos [NDLCOM_ESC_CHAR]) (pos + 1) [0x20 XOR d] = overwrite m pos ?xs"
      using overwrite_append [of pos "[NDLCOM_ESC_CHAR]" "[0x20 XOR d]" m] len by simp
    ultimately show ?thesis
      using True len Cons.IH [of "pos + 2" "overwrite m pos ?xs" "map_option (\<lambda>c. ndlcomDoCrc c d) crc"]
      by (simp add: reserved_def buf_put_overwrite Let_def crc_of_Cons option.map_comp comp_def)
  next
    case False
    have len: "pos + 1 + length (stuff ds) \<le> length m" using Cons.prems False by simp
    have "overwrite (overwrite m pos [d]) (pos + 1) (stuff ds) = overwrite m pos (d # stuff ds)"
      using overwrite_append [of pos "[d]" "stuff ds" m] len by simp
    then show ?thesis
      using False len Cons.IH [of "pos + 1" "overwrite m pos [d]" "map_option (\<lambda>c. ndlcomDoCrc c d) crc"]
      by (simp add: reserved_def buf_put_overwrite Let_def crc_of_Cons option.map_comp comp_def)
  qed
qed

text \<open>
  What a chunk adds to the output: it is stuffed and enters the checksum, unless the rest of the
  buffer is smaller than twice its length; then it is left out altogether.
\<close>

definition emit_chunk :: "nat \<Rightarrow> u8 list \<times> u16 \<Rightarrow> u8 list \<Rightarrow> u8 list \<times> u16" where
  "emit_chunk sz oc c =
     (let (out, crc) = oc in
      if sz - length out < 2 * length c then (out, crc) else (out @ stuff c, crc_of crc c))"

definition emit_flag :: "nat \<Rightarrow> u8 list \<Rightarrow> u8 list" where
  "emit_flag sz out = (if sz - length out < 1 then out else out @ [NDLCOM_START_STOP_FLAG])"

definition encoder_output :: "config \<Rightarrow> nat \<Rightarrow> NDLComHeader \<Rightarrow> u8 list list \<Rightarrow> u8 list" where
  "encoder_output cfg sz header sections =
     (let (out, crc) = foldl (emit_chunk sz) (emit_flag sz [], NDLCOM_CRC_INITIAL_VALUE)
            (header_bytes header # sections) in
      if length (concat sections) \<noteq> unat (mDataLen header) then out
      else emit_flag sz (fst (emit_chunk sz (out, crc) (crc_bytes cfg crc))))"

lemma overwrite_extend:
  "length out + length bs \<le> length m \<Longrightarrow>
    overwrite (overwrite m 0 out) (length out) bs = overwrite m 0 (out @ bs)"
  using overwrite_append [of 0 out bs m] by simp

lemma emit_chunk_bound: "length (fst oc) \<le> sz \<Longrightarrow> length (fst (emit_chunk sz oc c)) \<le> sz"
  using length_stuff_le [of c] by (auto simp: emit_chunk_def Let_def split: prod.splits)

lemma append_payload_emits:
  assumes "length out \<le> sz" and "sz \<le> length m" and "2 * length c < SIZE_MODULUS"
  shows "ndlcomEncodeAppendPayload (overwrite m 0 out) (length out) (sz - length out) c crc =
    (if sz - length out < 2 * length c then Some (overwrite m 0 out, 0, crc)
     else Some (overwrite m 0 (out @ stuff c), length (stuff c), map_option (\<lambda>x. crc_of x c) crc))"
proof (cases "sz - length out < 2 * length c")
  case False
  with assms length_stuff_le [of c] have "length out + length (stuff c) \<le> length m" by linarith
  with assms False show ?thesis
    by (simp add: ndlcomEncodeAppendPayload_def encode_loop_writes overwrite_extend)
qed (use assms in \<open>simp add: ndlcomEncodeAppendPayload_def\<close>)

lemma append_payload_chunk:
  assumes "length out \<le> sz" and "sz \<le> length m" and "2 * length c < SIZE_MODULUS"
  shows append_payload_chunk_Some:
    "ndlcomEncodeAppendPayload (overwrite m 0 out) (length out) (sz - length out) c (Some crc) =
      Some (overwrite m 0 (fst (emit_chunk sz (out, crc) c)),
        length (fst (emit_chunk sz (out, crc) c)) - length out, Some (snd (emit_chunk sz (out, crc) c)))"
  and append_payload_chunk_None:
    "ndlcomEncodeAppendPayload (overwrite m 0 out) (length out) (sz - length out) c None =
      Some (overwrite m 0 (fst (emit_chunk sz (out, crc) c)),
        length (fst (emit_chunk sz (out, crc) c)) - length out, None)"
  using assms by (simp_all add: append_payload_emits emit_chunk_def)

lemma emit_chunk_mono: "length (fst oc) \<le> length (fst (emit_chunk sz oc c))"
  by (simp add: emit_chunk_def Let_def split: prod.splits)

lemma encode_sections_emit:
  assumes "length out \<le> sz" and "sz \<le> length m"
    and "\<And>c. c \<in> set secs \<Longrightarrow> 2 * length c < SIZE_MODULUS"
  shows "encode_sections (overwrite m 0 out) sz (length out) (Some crc) acc secs =
    (let (out', crc') = foldl (emit_chunk sz) (out, crc) secs in
     Some (overwrite m 0 out', length out', Some crc',
       if secs = [] then acc else (acc + length (concat secs)) mod SIZE_MODULUS))"
  using assms
proof (induction secs arbitrary: out crc acc)
  case (Cons c secs)
  let ?oc = "emit_chunk sz (out, crc) c"
  have bound: "length (fst ?oc) \<le> sz" using Cons.prems(1) by (intro emit_chunk_bound) simp
  have app: "ndlcomEncodeAppendPayload (overwrite m 0 out) (length out) (sz - length out) c (Some crc) =
      Some (overwrite m 0 (fst ?oc), length (fst ?oc) - length out, Some (snd ?oc))"
    using Cons.prems by (intro append_payload_chunk_Some) auto
  have mono: "length out + (length (fst ?oc) - length out) = length (fst ?oc)"
    by (simp add: emit_chunk_def)
  have *: "(if secs = [] then (acc + length c) mod SIZE_MODULUS
       else ((acc + length c) mod SIZE_MODULUS + length (concat secs)) mod SIZE_MODULUS) =
      (acc + length (concat (c # secs))) mod SIZE_MODULUS"
    by (simp add: mod_simps ac_simps)
  show ?case
    using Cons.IH [of "fst ?oc" "snd ?oc" "(acc + length c) mod SIZE_MODULUS"] bound Cons.prems(2,3) *
    by (simp add: app mono Let_def split: prod.splits)
qed simp

lemma ndlcomEncodeInit_emits:
  "sz \<le> length m \<Longrightarrow> ndlcomEncodeInit m 0 sz =
    Some (overwrite m 0 (emit_flag sz []), length (emit_flag sz []), NDLCOM_CRC_INITIAL_VALUE)"
  using buf_put_overwrite [of 0 m NDLCOM_START_STOP_FLAG]
  by (cases "sz = 0"; cases m) (simp_all add: ndlcomEncodeInit_def emit_flag_def)

lemma ndlcomEncodeFinalize_emits:
  assumes "length out \<le> sz" and "sz \<le> length m"
  shows "ndlcomEncodeFinalize (overwrite m 0 out) (length out) (sz - length out) =
    Some (overwrite m 0 (emit_flag sz out), length (emit_flag sz out) - length out)"
proof -
  have "length (overwrite m 0 out) = length m" using assms by simp
  then show ?thesis
    using assms by (simp add: ndlcomEncodeFinalize_def emit_flag_def buf_put_overwrite overwrite_extend)
qed

lemma emit_flag_bound: "length out \<le> sz \<Longrightarrow> length (emit_flag sz out) \<le> sz"
  by (simp add: emit_flag_def)

lemma length_emit_flag_ge: "length out \<le> length (emit_flag sz out)"
  by (simp add: emit_flag_def)

lemma foldl_emit_chunk_bound:
  "length (fst oc) \<le> sz \<Longrightarrow> length (fst (foldl (emit_chunk sz) oc cs)) \<le> sz"
  by (induction cs arbitrary: oc) (simp_all add: emit_chunk_bound)

lemma length_member_concat: "c \<in> set cs \<Longrightarrow> length c \<le> length (concat cs)"
  by (auto dest!: split_list)

lemma ndlcomEncodeVar_effect:
  assumes "outputBufferSize \<le> length m" and "length (concat sections) < SIZE_MODULUS div 2"
  shows "ndlcomEncodeVar cfg m outputBufferSize header sections =
      Some (overwrite m 0 (encoder_output cfg outputBufferSize header sections),
        if length (concat sections) \<noteq> unat (mDataLen header) then 0
        else length (encoder_output cfg outputBufferSize header sections)) \<and>
    length (encoder_output cfg outputBufferSize header sections) \<le> outputBufferSize"
proof -
  let ?sz = outputBufferSize
  let ?oc0 = "(emit_flag ?sz [], NDLCOM_CRC_INITIAL_VALUE)"
  let ?oc1 = "emit_chunk ?sz ?oc0 (header_bytes header)"
  obtain out crc where oc: "foldl (emit_chunk ?sz) ?oc1 sections = (out, crc)" by fastforce
  have b0: "length (fst ?oc0) \<le> ?sz" by (simp add: emit_flag_def)
  have b1: "length (fst ?oc1) \<le> ?sz" using b0 by (rule emit_chunk_bound)
  have b2: "length out \<le> ?sz" using foldl_emit_chunk_bound [OF b1, of sections] oc by simp
  let ?oc3 = "emit_chunk ?sz (out, crc) (crc_bytes cfg crc)"
  have b3: "length (fst ?oc3) \<le> ?sz" using b2 by (intro emit_chunk_bound) simp
  have small: "2 * length c < SIZE_MODULUS" if "c \<in> set sections" for c
    using length_member_concat [OF that] assms(2) by linarith
  have hdr: "ndlcomEncodeAppendPayload (overwrite m 0 (emit_flag ?sz [])) (length (emit_flag ?sz []))
      (?sz - length (emit_flag ?sz [])) (header_bytes header) (Some NDLCOM_CRC_INITIAL_VALUE) =
    Some (overwrite m 0 (fst ?oc1), length (fst ?oc1) - length (emit_flag ?sz []), Some (snd ?oc1))"
    by (rule append_payload_chunk_Some) (use b0 assms(1) in \<open>auto simp: SIZE_MODULUS_def\<close>)
  have w1: "length (emit_flag ?sz []) + (length (fst ?oc1) - length (emit_flag ?sz [])) = length (fst ?oc1)"
    using emit_chunk_mono [of ?oc0] by simp
  have secs: "encode_sections (overwrite m 0 (fst ?oc1)) ?sz (length (fst ?oc1)) (Some (snd ?oc1)) 0 sections =
    Some (overwrite m 0 out, length out, Some crc, length (concat sections))"
    using encode_sections_emit [OF b1 assms(1) small] oc assms(2) by (simp add: Let_def)
  have trl: "ndlcomEncodeAppendPayload (overwrite m 0 out) (length out) (?sz - length out)
      (crc_bytes cfg crc) None =
    Some (overwrite m 0 (fst ?oc3), length (fst ?oc3) - length out, None)"
    by (rule append_payload_chunk_None) (use b2 assms(1) in \<open>auto simp: SIZE_MODULUS_def\<close>)
  have w3: "length out + (length (fst ?oc3) - length out) = length (fst ?oc3)"
    using emit_chunk_mono [of "(out, crc)"] by simp
  note fin = ndlcomEncodeFinalize_emits [OF b3 assms(1)]
  have w4: "length (fst ?oc3) + (length (emit_flag ?sz (fst ?oc3)) - length (fst ?oc3)) =
      length (emit_flag ?sz (fst ?oc3))"
    using length_emit_flag_ge [of "fst ?oc3" ?sz] by simp
  show ?thesis
    using b2 emit_flag_bound [OF b3]
    by (simp add: ndlcomEncodeVar_def ndlcomEncodeInit_emits [OF assms(1)] Let_def hdr w1 secs trl w3
        fin w4 encoder_output_def oc)
qed

text \<open>With a buffer of the documented size no chunk is left out and the output is the frame.\<close>

lemma foldl_emit_chunk_fits:
  assumes "length (fst oc) + 2 * length (concat cs) \<le> sz"
  shows "foldl (emit_chunk sz) oc cs = (fst oc @ stuff (concat cs), crc_of (snd oc) (concat cs))"
  using assms
proof (induction cs arbitrary: oc)
  case (Cons c cs)
  have fits: "\<not> sz - length (fst oc) < 2 * length c" using Cons.prems by simp
  have "length (stuff c) \<le> 2 * length c" by (rule length_stuff_le)
  then have "length (fst oc @ stuff c) + 2 * length (concat cs) \<le> sz"
    using Cons.prems by simp
  then show ?case
    using fits Cons.IH [of "(fst oc @ stuff c, crc_of (snd oc) c)"]
    by (simp add: emit_chunk_def case_prod_unfold)
qed (simp add: crc_of_def)

lemma encoder_output_frame:
  assumes "length (concat sections) = unat (mDataLen header)"
    and "NDLCOM_MAX_ENCODED_MESSAGE_SIZE_FOR_PACKET header \<le> sz"
  shows "encoder_output cfg sz header sections = frame cfg header (concat sections)"
proof -
  let ?body = "header_bytes header @ concat sections"
  have room: "2 + 2 * (length ?body + 2) \<le> sz" using assms by (simp add: size_defs)
  have stuffed: "length (stuff ?body) \<le> 2 * length ?body" by (rule length_stuff_le)
  let ?crc = "crc_of NDLCOM_CRC_INITIAL_VALUE ?body"
  have trailer: "length (stuff (crc_bytes cfg ?crc)) \<le> 4" using length_stuff_le [of "crc_bytes cfg ?crc"] by simp
  have "foldl (emit_chunk sz) (emit_flag sz [], NDLCOM_CRC_INITIAL_VALUE) (header_bytes header # sections) =
      (NDLCOM_START_STOP_FLAG # stuff ?body, ?crc)"
    using room by (subst foldl_emit_chunk_fits) (simp_all add: emit_flag_def)
  moreover have "\<not> sz - length (NDLCOM_START_STOP_FLAG # stuff ?body) < 2 * length (crc_bytes cfg ?crc)"
    using room stuffed by simp
  moreover have "\<not> sz - length (NDLCOM_START_STOP_FLAG # stuff ?body @ stuff (crc_bytes cfg ?crc)) < 1"
    using room stuffed trailer by simp
  ultimately show ?thesis
    using assms(1)
    by (simp add: encoder_output_def emit_chunk_def [of _ "(_ # _, _)"] emit_flag_def [of _ "_ # _"]
        frame_def packet_bytes_def del: foldl_Cons)
qed

lemma data_len_small: "unat (mDataLen header) < SIZE_MODULUS div 2"
  by (rule less_le_trans [OF word8_less_256]) (simp add: SIZE_MODULUS_def)

lemma ndlcomEncode_effect:
  assumes "NDLCOM_MAX_ENCODED_MESSAGE_SIZE_FOR_PACKET header \<le> length m"
    and "unat (mDataLen header) \<le> length data"
  shows "ndlcomEncode cfg m (length m) header data =
    (let f = frame cfg header (take (unat (mDataLen header)) data) in Some (overwrite m 0 f, length f))"
proof -
  let ?secs = "[take (unat (mDataLen header)) data]"
  have len: "length (concat ?secs) = unat (mDataLen header)" using assms(2) by simp
  have "length (concat ?secs) < SIZE_MODULUS div 2"
    unfolding len by (rule data_len_small)
  then show ?thesis
    using ndlcomEncodeVar_effect [of "length m" m ?secs cfg header] assms
      encoder_output_frame [OF len assms(1)]
    by (simp add: ndlcomEncode_def Let_def)
qed

section \<open>Properties\<close>

text \<open>
  C5: memory safety and exact effect of the variadic encoder, for every buffer size and every list of
  sections. It never writes outside of the \<open>outputBufferSize\<close> bytes it is given, leaves the rest of
  the buffer alone, and stores exactly \<open>encoder_output\<close>; its result is the number of these bytes,
  or 0 if the sections do not add up to the length the header announces.
\<close>

theorem ndlcomEncodeVar_writes:
  assumes "outputBufferSize \<le> length m" and "length (concat sections) < SIZE_MODULUS div 2"
  shows "ndlcomEncodeVar cfg m outputBufferSize header sections =
      Some (overwrite m 0 (encoder_output cfg outputBufferSize header sections),
        if length (concat sections) \<noteq> unat (mDataLen header) then 0
        else length (encoder_output cfg outputBufferSize header sections)) \<and>
    length (encoder_output cfg outputBufferSize header sections) \<le> outputBufferSize"
  using assms by (rule ndlcomEncodeVar_effect)

text \<open>A buffer of seven bytes: the checksum and the closing flag of a packet that needs eight do not fit.\<close>

lemma ndlcomEncodeVar_writes_witness:
  "ndlcomEncodeVar default_config (replicate 9 0) 7 (header_of_bytes [1, 2, 3, 1]) [[5]] =
      Some (overwrite (replicate 9 0) 0
        (encoder_output default_config 7 (header_of_bytes [1, 2, 3, 1]) [[5]]),
        length (encoder_output default_config 7 (header_of_bytes [1, 2, 3, 1]) [[5]])) \<and>
    length (encoder_output default_config 7 (header_of_bytes [1, 2, 3, 1]) [[5]]) \<le> 7"
  using ndlcomEncodeVar_writes [of 7 "replicate 9 0" "[[5]]" default_config "header_of_bytes [1, 2, 3, 1]"]
  by (simp add: SIZE_MODULUS_def header_of_bytes_def)

text \<open>
  The encoder produces the frame of the packet, whatever way the payload is cut into sections,
  provided the buffer has the size of \<open>NDLCOM_MAX_ENCODED_MESSAGE_SIZE_FOR_PACKET\<close>; the frame
  starts and ends with the only flags in it, and the bytes behind it are untouched.
\<close>

theorem ndlcomEncodeVar_frame:
  assumes "NDLCOM_MAX_ENCODED_MESSAGE_SIZE_FOR_PACKET header \<le> length m"
    and "length (concat sections) = unat (mDataLen header)"
  shows "ndlcomEncodeVar cfg m (length m) header sections =
      Some (overwrite m 0 (frame cfg header (concat sections)), length (frame cfg header (concat sections))) \<and>
    (\<exists>body. frame cfg header (concat sections) =
      NDLCOM_START_STOP_FLAG # body @ [NDLCOM_START_STOP_FLAG] \<and> NDLCOM_START_STOP_FLAG \<notin> set body)"
proof -
  have "length (concat sections) < SIZE_MODULUS div 2"
    unfolding assms(2) by (rule data_len_small)
  then show ?thesis
    using ndlcomEncodeVar_effect [of "length m" m sections cfg header] assms
      encoder_output_frame [OF assms(2) assms(1)] flag_notin_stuff
    by (auto simp: frame_def)
qed

lemma ndlcomEncodeVar_frame_witness:
  "ndlcomEncodeVar default_config (replicate 20 0) 20 (header_of_bytes [1, 2, 3, 2]) [[0x7e], [], [0x7d]] =
      Some (overwrite (replicate 20 0) 0 (frame default_config (header_of_bytes [1, 2, 3, 2]) [0x7e, 0x7d]),
        length (frame default_config (header_of_bytes [1, 2, 3, 2]) [0x7e, 0x7d]))"
  using ndlcomEncodeVar_frame [of "header_of_bytes [1, 2, 3, 2]" "replicate 20 0" "[[0x7e], [], [0x7d]]"
      default_config]
  by (simp add: size_defs header_of_bytes_def)

text \<open>
  The wrapper \<open>ndlcomEncode\<close> reads exactly \<open>mDataLen\<close> bytes behind its data pointer, and for a
  buffer of the documented size stores the frame of the header and these bytes.
\<close>

theorem ndlcomEncode_frame:
  assumes "NDLCOM_MAX_ENCODED_MESSAGE_SIZE_FOR_PACKET header \<le> length m"
    and "unat (mDataLen header) \<le> length data"
  shows "ndlcomEncode cfg m (length m) header data =
    (let f = frame cfg header (take (unat (mDataLen header)) data) in Some (overwrite m 0 f, length f))"
  using assms by (rule ndlcomEncode_effect)

lemma ndlcomEncode_frame_witness:
  "ndlcomEncode default_config (replicate 16 9) 16 (header_of_bytes [1, 2, 3, 1]) [7, 8] =
    Some (overwrite (replicate 16 9) 0 (frame default_config (header_of_bytes [1, 2, 3, 1]) [7]),
      length (frame default_config (header_of_bytes [1, 2, 3, 1]) [7]))"
  using ndlcomEncode_frame [of "header_of_bytes [1, 2, 3, 1]" "replicate 16 9" "[7, 8]" default_config]
  by (simp add: size_defs header_of_bytes_def Let_def)

end
