(* ===== verification/Parser.thy ===== *)
theory Parser
  imports Encoder
begin

text \<open>
  \<open>src/Parser.c\<close>: the state machine that cuts packets out of a byte stream. The two write pointers
  are offsets into the arrays they point into, and a store behind the end of an array is \<open>None\<close>.
  The specification below is a deframer on the decoded bytes since the last reset; the code is shown
  to simulate it.
\<close>

section \<open>The state\<close>

datatype NDLComParserState =
    mcERROR | mcWAIT_HEADER | mcWAIT_DATA | mcWAIT_FIRST_CRC_BYTE | mcWAIT_SECOND_CRC_BYTE
  | mcCOMPLETE | mcNUMBER_OF_STATES

record NDLComParser =
  mHeader_raw :: "u8 list" \<comment> \<open>the bytes of the union \<open>mHeader\<close>\<close>
  mDataCRC :: u16
  mLastWasESC :: bool
  mpHeaderWritePos :: nat \<comment> \<open>offset from \<open>mHeader.raw\<close>\<close>
  mpData :: "u8 list"
  mpDataWritePos :: nat \<comment> \<open>offset from \<open>mpData\<close>\<close>
  mState :: NDLComParserState
  mNumberOfCRCFails :: u32

abbreviation mHeader_hdr :: "NDLComParser \<Rightarrow> NDLComHeader" where
  "mHeader_hdr parser \<equiv> header_of_bytes (mHeader_raw parser)"

text \<open>The values of the enumeration, and the names of the states.\<close>

fun state_value :: "NDLComParserState \<Rightarrow> nat" where
  "state_value mcERROR = 0"
| "state_value mcWAIT_HEADER = 1"
| "state_value mcWAIT_DATA = 2"
| "state_value mcWAIT_FIRST_CRC_BYTE = 3"
| "state_value mcWAIT_SECOND_CRC_BYTE = 4"
| "state_value mcCOMPLETE = 5"
| "state_value mcNUMBER_OF_STATES = 6"

definition ndlcomParserStateName :: "string option list" where
  "ndlcomParserStateName =
     [Some ''ERROR'', Some ''WAIT_HEADER'', Some ''WAIT_DATA'', Some ''WAIT_FIRST_CRC_BYTE'',
      Some ''WAIT_SECOND_CRC_BYTE'', Some ''COMPLETE'', None]"

text \<open>
  \<open>sizeof(struct NDLComParser)\<close> with the alignment of a 64-bit machine: header, checksum and escape
  mark share the first word, then a pointer, the data, and a pointer, the state and the counter.
\<close>

definition NDLCOM_PARSER_MIN_BUFFER_SIZE :: "config \<Rightarrow> nat" where
  "NDLCOM_PARSER_MIN_BUFFER_SIZE cfg = 16 + 8 * ((NDLCOM_MAX_PAYLOAD_SIZE cfg + 7) div 8) + 16"

section \<open>The operations\<close>

definition ndlcomParserDestroyPacket :: "NDLComParser \<Rightarrow> NDLComParser" where
  "ndlcomParserDestroyPacket parser =
     parser\<lparr>mState := mcWAIT_HEADER, mDataCRC := NDLCOM_CRC_INITIAL_VALUE, mpHeaderWritePos := 0,
       mpDataWritePos := 0, mLastWasESC := False\<rparr>"

definition ndlcomParserResetNumberOfCRCFails :: "NDLComParser \<Rightarrow> NDLComParser" where
  "ndlcomParserResetNumberOfCRCFails parser = parser\<lparr>mNumberOfCRCFails := 0\<rparr>"

text \<open>\<open>pBuffer\<close> is \<open>None\<close> for a null pointer, else the memory it points to, read as the structure.\<close>

definition ndlcomParserCreate :: "config \<Rightarrow> NDLComParser option \<Rightarrow> nat \<Rightarrow> NDLComParser option" where
  "ndlcomParserCreate cfg pBuffer dataBufSize =
     (case pBuffer of
        None \<Rightarrow> None
      | Some parser \<Rightarrow>
          if dataBufSize < NDLCOM_PARSER_MIN_BUFFER_SIZE cfg then None
          else Some (ndlcomParserResetNumberOfCRCFails (ndlcomParserDestroyPacket parser)))"

definition ndlcomParserDestroy :: "NDLComParser \<Rightarrow> NDLComParser" where
  "ndlcomParserDestroy parser = parser\<lparr>mState := mcERROR\<rparr>"

text \<open>
  The body of the receive loop for one byte. It ends by \<open>continue\<close>, by \<open>return 0\<close>, or it falls
  through to the test for a complete packet behind the \<open>switch\<close>.
\<close>

datatype loop_exit = Continue | Return_zero | Fall_through

definition receive_header_byte :: "config \<Rightarrow> NDLComParser \<Rightarrow> u8 \<Rightarrow> NDLComParser option" where
  "receive_header_byte cfg parser c = do {
     raw \<leftarrow> buf_put (mHeader_raw parser) (mpHeaderWritePos parser) c;
     let parser = parser\<lparr>mHeader_raw := raw, mpHeaderWritePos := mpHeaderWritePos parser + 1,
           mDataCRC := ndlcomDoCrc (mDataCRC parser) c\<rparr>;
     Some (if mpHeaderWritePos parser = sizeof_NDLComHeader then
         (if unat (mDataLen (mHeader_hdr parser)) > NDLCOM_MAX_PAYLOAD_SIZE cfg
          then parser\<lparr>mState := mcERROR\<rparr>
          else if mDataLen (mHeader_hdr parser) = 0 then parser\<lparr>mState := mcWAIT_FIRST_CRC_BYTE\<rparr>
          else parser\<lparr>mState := mcWAIT_DATA\<rparr>)
       else parser)
   }"

definition receive_data_byte :: "NDLComParser \<Rightarrow> u8 \<Rightarrow> NDLComParser option" where
  "receive_data_byte parser c = do {
     buf \<leftarrow> buf_put (mpData parser) (mpDataWritePos parser) c;
     let parser = parser\<lparr>mpData := buf, mpDataWritePos := mpDataWritePos parser + 1,
           mDataCRC := ndlcomDoCrc (mDataCRC parser) c\<rparr>;
     Some (if mpDataWritePos parser = unat (mDataLen (mHeader_hdr parser))
       then parser\<lparr>mState := mcWAIT_FIRST_CRC_BYTE\<rparr> else parser)
   }"

definition receive_second_crc_byte :: "NDLComParser \<Rightarrow> u8 \<Rightarrow> NDLComParser" where
  "receive_second_crc_byte parser c =
     (let parser = parser\<lparr>mDataCRC := ndlcomDoCrc (mDataCRC parser) c\<rparr> in
      if mDataCRC parser = NDLCOM_CRC_REAL_GOOD_VALUE then parser\<lparr>mState := mcCOMPLETE\<rparr>
      else ndlcomParserDestroyPacket (parser\<lparr>mNumberOfCRCFails := mNumberOfCRCFails parser + 1\<rparr>))"

definition receive_switch :: "config \<Rightarrow> NDLComParser \<Rightarrow> u8 \<Rightarrow> (NDLComParser \<times> loop_exit) option" where
  "receive_switch cfg parser c =
     (case mState parser of
        mcWAIT_HEADER \<Rightarrow> map_option (\<lambda>p. (p, Fall_through)) (receive_header_byte cfg parser c)
      | mcWAIT_DATA \<Rightarrow> map_option (\<lambda>p. (p, Fall_through)) (receive_data_byte parser c)
      | mcWAIT_FIRST_CRC_BYTE \<Rightarrow>
          Some (parser\<lparr>mDataCRC := ndlcomDoCrc (mDataCRC parser) c, mState := mcWAIT_SECOND_CRC_BYTE\<rparr>,
            Fall_through)
      | mcWAIT_SECOND_CRC_BYTE \<Rightarrow> Some (receive_second_crc_byte parser c, Fall_through)
      | mcCOMPLETE \<Rightarrow> Some (parser, Return_zero)
      | mcERROR \<Rightarrow> Some (ndlcomParserDestroyPacket parser, Fall_through)
      | mcNUMBER_OF_STATES \<Rightarrow> Some (ndlcomParserDestroyPacket parser, Fall_through))"

definition receive_byte :: "config \<Rightarrow> NDLComParser \<Rightarrow> u8 \<Rightarrow> (NDLComParser \<times> loop_exit) option" where
  "receive_byte cfg parser c =
     (if c = NDLCOM_START_STOP_FLAG then Some (ndlcomParserDestroyPacket parser, Continue)
      else if mLastWasESC parser then receive_switch cfg (parser\<lparr>mLastWasESC := False\<rparr>) (c XOR 0x20)
      else if c = NDLCOM_ESC_CHAR then Some (parser\<lparr>mLastWasESC := True\<rparr>, Continue)
      else receive_switch cfg parser c)"

fun receive_loop :: "config \<Rightarrow> NDLComParser \<Rightarrow> nat \<Rightarrow> u8 list \<Rightarrow> (NDLComParser \<times> nat) option" where
  "receive_loop cfg parser dataRead [] = Some (parser, dataRead)"
| "receive_loop cfg parser dataRead (c # newData) =
     (case receive_byte cfg parser c of
        None \<Rightarrow> None
      | Some (parser, Continue) \<Rightarrow> receive_loop cfg parser (dataRead + 1) newData
      | Some (parser, Return_zero) \<Rightarrow> Some (parser, 0)
      | Some (parser, Fall_through) \<Rightarrow>
          if mState parser = mcCOMPLETE then Some (parser, dataRead + 1)
          else receive_loop cfg parser (dataRead + 1) newData)"

definition ndlcomParserReceive :: "config \<Rightarrow> NDLComParser \<Rightarrow> u8 list \<Rightarrow> (NDLComParser \<times> nat) option" where
  "ndlcomParserReceive cfg parser newData = receive_loop cfg parser 0 newData"

definition ndlcomParserHasPacket :: "NDLComParser \<Rightarrow> bool" where
  "ndlcomParserHasPacket parser \<longleftrightarrow> mState parser = mcCOMPLETE"

definition ndlcomParserGetHeader :: "NDLComParser \<Rightarrow> NDLComHeader option" where
  "ndlcomParserGetHeader parser = (if mState parser = mcCOMPLETE then Some (mHeader_hdr parser) else None)"

text \<open>The pointer to the payload, as the array it points to; its first \<open>mDataLen\<close> bytes are the payload.\<close>

definition ndlcomParserGetPacket :: "NDLComParser \<Rightarrow> u8 list option" where
  "ndlcomParserGetPacket parser = (if mState parser = mcCOMPLETE then Some (mpData parser) else None)"

definition ndlcomDetectNewPaket :: "u8 \<Rightarrow> bool" where
  "ndlcomDetectNewPaket c \<longleftrightarrow> c = NDLCOM_START_STOP_FLAG"

definition ndlcomParserGetState :: "NDLComParser \<Rightarrow> string option" where
  "ndlcomParserGetState parser =
     (if state_value (mState parser) > state_value mcNUMBER_OF_STATES then None
      else ndlcomParserStateName ! state_value (mState parser))"

definition ndlcomParserGetNumberOfCRCFails :: "NDLComParser \<Rightarrow> u32" where
  "ndlcomParserGetNumberOfCRCFails parser = mNumberOfCRCFails parser"

section \<open>The specification: a deframer\<close>

text \<open>
  The bytes decoded since the last reset, while they are collected; the packet of an oversized
  header is dropped, and a packet that is complete and correct is reported.
\<close>

datatype phase = Collect "u8 list" | Oversized | Packet_ready NDLComHeader "u8 list"

record deframer =
  df_escape :: bool
  df_phase :: phase
  df_fails :: u32

text \<open>The phase a body of decoded bytes leads to, and whether it is discarded for its checksum.\<close>

definition classify :: "config \<Rightarrow> u8 list \<Rightarrow> phase \<times> bool" where
  "classify cfg bs =
     (if length bs < 4 then (Collect bs, False)
      else if unat (bs ! 3) > NDLCOM_MAX_PAYLOAD_SIZE cfg then (Oversized, False)
      else if length bs < 4 + unat (bs ! 3) + 2 then (Collect bs, False)
      else if crc_of NDLCOM_CRC_INITIAL_VALUE bs = 0
        then (Packet_ready (header_of_bytes bs) (take (unat (bs ! 3)) (drop 4 bs)), False)
      else (Collect [], True))"

definition deframe_decoded :: "config \<Rightarrow> deframer \<Rightarrow> u8 \<Rightarrow> deframer" where
  "deframe_decoded cfg d c =
     (case df_phase d of
        Collect bs \<Rightarrow>
          let (ph, bad) = classify cfg (bs @ [c])
          in d\<lparr>df_phase := ph, df_fails := df_fails d + (if bad then 1 else 0)\<rparr>
      | Oversized \<Rightarrow> d\<lparr>df_phase := Collect []\<rparr>
      | Packet_ready h pl \<Rightarrow> d)"

definition deframe_byte :: "config \<Rightarrow> deframer \<Rightarrow> u8 \<Rightarrow> deframer" where
  "deframe_byte cfg d c =
     (if c = NDLCOM_START_STOP_FLAG then d\<lparr>df_escape := False, df_phase := Collect []\<rparr>
      else if df_escape d then deframe_decoded cfg (d\<lparr>df_escape := False\<rparr>) (c XOR 0x20)
      else if c = NDLCOM_ESC_CHAR then d\<lparr>df_escape := True\<rparr>
      else deframe_decoded cfg d c)"

fun is_ready :: "phase \<Rightarrow> bool" where
  "is_ready (Packet_ready h pl) = True"
| "is_ready (Collect bs) = False"
| "is_ready Oversized = False"

fun deframe :: "config \<Rightarrow> deframer \<Rightarrow> u8 list \<Rightarrow> deframer \<times> nat" where
  "deframe cfg d [] = (d, 0)"
| "deframe cfg d (c # cs) =
     (if is_ready (df_phase (deframe_byte cfg d c)) then (deframe_byte cfg d c, 1)
      else (fst (deframe cfg (deframe_byte cfg d c) cs), snd (deframe cfg (deframe_byte cfg d c) cs) + 1))"

section \<open>The code simulates the specification\<close>

text \<open>The fields of a parser that has decoded the bytes \<open>bs\<close> of an unfinished packet.\<close>

definition collecting :: "config \<Rightarrow> NDLComParser \<Rightarrow> u8 list \<Rightarrow> bool" where
  "collecting cfg p bs \<longleftrightarrow>
     mDataCRC p = crc_of NDLCOM_CRC_INITIAL_VALUE bs \<and>
     (if length bs < 4
      then mState p = mcWAIT_HEADER \<and> mpHeaderWritePos p = length bs \<and>
        take (length bs) (mHeader_raw p) = bs \<and> mpDataWritePos p = 0
      else mHeader_raw p = take 4 bs \<and> unat (bs ! 3) \<le> NDLCOM_MAX_PAYLOAD_SIZE cfg \<and>
        (if length bs < 4 + unat (bs ! 3)
         then mState p = mcWAIT_DATA \<and> mpDataWritePos p = length bs - 4 \<and>
           take (length bs - 4) (mpData p) = drop 4 bs
         else length bs < 4 + unat (bs ! 3) + 2 \<and>
           mState p = (if length bs = 4 + unat (bs ! 3) then mcWAIT_FIRST_CRC_BYTE
             else mcWAIT_SECOND_CRC_BYTE) \<and>
           take (unat (bs ! 3)) (mpData p) = take (unat (bs ! 3)) (drop 4 bs)))"

definition parser_abs :: "config \<Rightarrow> NDLComParser \<Rightarrow> deframer \<Rightarrow> bool" where
  "parser_abs cfg p d \<longleftrightarrow>
     length (mHeader_raw p) = 4 \<and> length (mpData p) = NDLCOM_MAX_PAYLOAD_SIZE cfg \<and>
     mLastWasESC p = df_escape d \<and> mNumberOfCRCFails p = df_fails d \<and>
     (case df_phase d of
        Collect bs \<Rightarrow> collecting cfg p bs
      | Oversized \<Rightarrow> mState p = mcERROR
      | Packet_ready h pl \<Rightarrow> mState p = mcCOMPLETE \<and> mHeader_hdr p = h \<and>
          unat (mDataLen h) \<le> length (mpData p) \<and> take (unat (mDataLen h)) (mpData p) = pl)"

text \<open>What every reachable parser has: the sizes of its arrays, and a deframer it simulates.\<close>

definition parser_wf :: "config \<Rightarrow> NDLComParser \<Rightarrow> bool" where
  "parser_wf cfg p \<longleftrightarrow> (\<exists>d. parser_abs cfg p d)"

lemma parser_abs_destroyed:
  assumes "length (mHeader_raw p) = 4" and "length (mpData p) = NDLCOM_MAX_PAYLOAD_SIZE cfg"
  shows "parser_abs cfg (ndlcomParserDestroyPacket p)
    \<lparr>df_escape = False, df_phase = Collect [], df_fails = mNumberOfCRCFails p\<rparr>"
  using assms by (simp add: parser_abs_def ndlcomParserDestroyPacket_def collecting_def)

lemma parser_abs_ready: "parser_abs cfg p d \<Longrightarrow> ndlcomParserHasPacket p \<longleftrightarrow> is_ready (df_phase d)"
  by (auto simp: parser_abs_def ndlcomParserHasPacket_def collecting_def split: phase.splits if_splits)

lemma parser_abs_lengths:
  "parser_abs cfg p d \<Longrightarrow> length (mHeader_raw p) = 4 \<and> length (mpData p) = NDLCOM_MAX_PAYLOAD_SIZE cfg"
  by (simp add: parser_abs_def)

lemma crc_of_single [simp]: "crc_of c [b] = ndlcomDoCrc c b"
  by (simp add: crc_of_def)

lemma header_of_bytes_snoc: "4 \<le> length bs \<Longrightarrow> header_of_bytes (bs @ [c]) = header_of_bytes (take 4 bs)"
  by (auto simp: header_of_bytes_def nth_append)

lemma collecting_escape [simp]: "collecting cfg (p\<lparr>mLastWasESC := b\<rparr>) bs = collecting cfg p bs"
  by (simp add: collecting_def)

lemma step_header:
  assumes abs: "parser_abs cfg p d" and ph: "df_phase d = Collect bs" and short: "length bs < 4"
  shows "\<exists>p'. receive_switch cfg p c = Some (p', Fall_through) \<and> parser_abs cfg p' (deframe_decoded cfg d c)"
proof -
  have p: "mState p = mcWAIT_HEADER" "mpHeaderWritePos p = length bs" "length (mHeader_raw p) = 4"
    "take (length bs) (mHeader_raw p) = bs" "mpDataWritePos p = 0"
    "mDataCRC p = crc_of NDLCOM_CRC_INITIAL_VALUE bs"
    using abs ph short by (simp_all add: parser_abs_def collecting_def)
  have put: "buf_put (mHeader_raw p) (length bs) c = Some ((mHeader_raw p)[length bs := c])"
    using p short by (simp add: buf_put_Some)
  have written: "take (Suc (length bs)) ((mHeader_raw p)[length bs := c]) = bs @ [c]"
    using p short by (simp add: take_Suc_update)
  show ?thesis
  proof (cases "length bs = 3")
    case False
    then show ?thesis
      using abs ph short p put written
      by (simp add: receive_switch_def receive_header_byte_def Let_def sizeof_NDLComHeader_def
          deframe_decoded_def classify_def parser_abs_def collecting_def)
  next
    case True
    then have raw: "(mHeader_raw p)[length bs := c] = bs @ [c]"
      using written p by simp
    then show ?thesis
      using abs ph True p put
      by (auto simp: receive_switch_def receive_header_byte_def Let_def sizeof_NDLComHeader_def
          deframe_decoded_def classify_def parser_abs_def collecting_def header_of_bytes_def
          nth_append unat_eq_zero)
  qed
qed

lemma step_data:
  assumes abs: "parser_abs cfg p d" and ph: "df_phase d = Collect bs"
    and long: "4 \<le> length bs" "length bs < 4 + unat (bs ! 3)"
  shows "\<exists>p'. receive_switch cfg p c = Some (p', Fall_through) \<and> parser_abs cfg p' (deframe_decoded cfg d c)"
proof -
  have p: "mState p = mcWAIT_DATA" "mpDataWritePos p = length bs - 4" "mHeader_raw p = take 4 bs"
    "length (mpData p) = NDLCOM_MAX_PAYLOAD_SIZE cfg" "unat (bs ! 3) \<le> NDLCOM_MAX_PAYLOAD_SIZE cfg"
    "take (length bs - 4) (mpData p) = drop 4 bs"
    "mDataCRC p = crc_of NDLCOM_CRC_INITIAL_VALUE bs"
    using abs ph long by (simp_all add: parser_abs_def collecting_def)
  have put: "buf_put (mpData p) (length bs - 4) c = Some ((mpData p)[length bs - 4 := c])"
    using p long by (simp add: buf_put_Some)
  have suc: "Suc (length bs - 4) = length bs - 3" "Suc (length bs) - 4 = length bs - 3" using long by simp_all
  have written: "take (length bs - 3) ((mpData p)[length bs - 4 := c]) = drop 4 bs @ [c]"
    using p long take_Suc_update [of "length bs - 4" "mpData p" c] unfolding suc by simp
  have len: "mDataLen (header_of_bytes (take 4 bs)) = bs ! 3" by (simp add: header_of_bytes_def)
  show ?thesis
  proof (cases "length bs - 3 = unat (bs ! 3)")
    case True
    then have "Suc (length bs) = 4 + unat (bs ! 3)" using long by linarith
    with True show ?thesis
      using abs ph long p put written len suc
      by (simp add: receive_switch_def receive_data_byte_def Let_def
          deframe_decoded_def classify_def parser_abs_def collecting_def nth_append)
  next
    case False
    then have "Suc (length bs) < 4 + unat (bs ! 3)" using long by linarith
    with False show ?thesis
      using abs ph long p put written len suc
      by (simp add: receive_switch_def receive_data_byte_def Let_def
          deframe_decoded_def classify_def parser_abs_def collecting_def nth_append)
  qed
qed

lemma step_crc:
  assumes abs: "parser_abs cfg p d" and ph: "df_phase d = Collect bs"
    and long: "4 \<le> length bs" "4 + unat (bs ! 3) \<le> length bs" and esc: "\<not> df_escape d"
  shows "\<exists>p'. receive_switch cfg p c = Some (p', Fall_through) \<and> parser_abs cfg p' (deframe_decoded cfg d c)"
proof -
  have p: "mHeader_raw p = take 4 bs" "length bs < 4 + unat (bs ! 3) + 2"
    "length (mpData p) = NDLCOM_MAX_PAYLOAD_SIZE cfg" "unat (bs ! 3) \<le> NDLCOM_MAX_PAYLOAD_SIZE cfg"
    "take (unat (bs ! 3)) (mpData p) = take (unat (bs ! 3)) (drop 4 bs)"
    "mDataCRC p = crc_of NDLCOM_CRC_INITIAL_VALUE bs"
    using abs ph long by (simp_all add: parser_abs_def collecting_def)
  have hdr: "header_of_bytes (bs @ [c]) = header_of_bytes (take 4 bs)" "mDataLen (header_of_bytes (take 4 bs)) = bs ! 3"
    using header_of_bytes_snoc [OF long(1)] by (simp_all add: header_of_bytes_def)
  show ?thesis
  proof (cases "length bs = 4 + unat (bs ! 3)")
    case True
    then have st: "mState p = mcWAIT_FIRST_CRC_BYTE" using abs ph long by (simp add: parser_abs_def collecting_def)
    show ?thesis
      using abs ph long p st True
      by (simp add: receive_switch_def deframe_decoded_def classify_def parser_abs_def collecting_def
          nth_append)
  next
    case False
    then have st: "mState p = mcWAIT_SECOND_CRC_BYTE" using abs ph long by (simp add: parser_abs_def collecting_def)
    have len: "length bs = 4 + unat (bs ! 3) + 1" using False p long by simp
    show ?thesis
      using abs ph long p st len hdr esc
      by (auto simp: receive_switch_def receive_second_crc_byte_def Let_def deframe_decoded_def classify_def
          parser_abs_def collecting_def nth_append NDLCOM_CRC_REAL_GOOD_VALUE_def
          ndlcomParserDestroyPacket_def)
  qed
qed

lemma step_decoded:
  assumes "parser_abs cfg p d" and "\<not> is_ready (df_phase d)" and "\<not> df_escape d"
  shows "\<exists>p'. receive_switch cfg p c = Some (p', Fall_through) \<and> parser_abs cfg p' (deframe_decoded cfg d c)"
proof (cases "df_phase d")
  case (Collect bs)
  then show ?thesis
    using step_header [OF assms(1) Collect] step_data [OF assms(1) Collect]
      step_crc [OF assms(1) Collect _ _ assms(3)] by (metis not_le)
next
  case Oversized
  then show ?thesis
    using assms by (simp add: receive_switch_def deframe_decoded_def parser_abs_def
        ndlcomParserDestroyPacket_def collecting_def)
qed (use assms(2) in simp)

lemma step_byte:
  assumes "parser_abs cfg p d" and "\<not> is_ready (df_phase d)"
  shows "\<exists>p' ctl. receive_byte cfg p c = Some (p', ctl) \<and> parser_abs cfg p' (deframe_byte cfg d c) \<and>
    ctl \<noteq> Return_zero \<and> (ctl = Continue \<longrightarrow> \<not> ndlcomParserHasPacket p')"
proof -
  have esc: "mLastWasESC p = df_escape d" using assms(1) by (simp add: parser_abs_def)
  have set_esc: "parser_abs cfg (p\<lparr>mLastWasESC := b\<rparr>) (d\<lparr>df_escape := b\<rparr>)" for b
    using assms(1) by (cases "df_phase d") (simp_all add: parser_abs_def)
  consider "c = NDLCOM_START_STOP_FLAG" | "c \<noteq> NDLCOM_START_STOP_FLAG" "df_escape d"
    | "c = NDLCOM_ESC_CHAR" "c \<noteq> NDLCOM_START_STOP_FLAG" "\<not> df_escape d"
    | "c \<noteq> NDLCOM_START_STOP_FLAG" "\<not> df_escape d" "c \<noteq> NDLCOM_ESC_CHAR" by blast
  then show ?thesis
  proof cases
    case 1
    then show ?thesis
      using parser_abs_destroyed [of p cfg] parser_abs_lengths [OF assms(1)] assms(1)
      by (simp add: receive_byte_def deframe_byte_def ndlcomParserHasPacket_def ndlcomParserDestroyPacket_def
          parser_abs_def collecting_def)
  next
    case 2
    then show ?thesis
      using step_decoded [OF set_esc [of False], of "c XOR 0x20"] assms(2) esc
      by (auto simp: receive_byte_def deframe_byte_def)
  next
    case 3
    then show ?thesis
      using set_esc [of True] esc assms(2) parser_abs_ready [OF set_esc [of True]]
      by (simp add: receive_byte_def deframe_byte_def)
  next
    case 4
    then show ?thesis
      using step_decoded [OF assms 4(2), of c] esc by (auto simp: receive_byte_def deframe_byte_def)
  qed
qed

lemma receive_loop_simulates:
  assumes "parser_abs cfg p d" and "\<not> ndlcomParserHasPacket p"
  shows "\<exists>p'. receive_loop cfg p k xs = Some (p', k + snd (deframe cfg d xs)) \<and>
    parser_abs cfg p' (fst (deframe cfg d xs))"
  using assms
proof (induction xs arbitrary: p d k)
  case (Cons c xs)
  have nr: "\<not> is_ready (df_phase d)" using Cons.prems parser_abs_ready by blast
  obtain p' ctl where s: "receive_byte cfg p c = Some (p', ctl)" "parser_abs cfg p' (deframe_byte cfg d c)"
    "ctl \<noteq> Return_zero" "ctl = Continue \<longrightarrow> \<not> ndlcomParserHasPacket p'"
    using step_byte [OF Cons.prems(1) nr, of c] by blast
  have ready: "ndlcomParserHasPacket p' \<longleftrightarrow> is_ready (df_phase (deframe_byte cfg d c))"
    by (rule parser_abs_ready [OF s(2)])
  show ?case
  proof (cases "ndlcomParserHasPacket p'")
    case True
    then have "ctl = Fall_through" using s(3,4) by (cases ctl) auto
    with True ready s show ?thesis by (simp add: ndlcomParserHasPacket_def)
  next
    case False
    then show ?thesis
      using Cons.IH [OF s(2) False, of "k + 1"] s ready
      by (cases ctl) (auto simp: ndlcomParserHasPacket_def)
  qed
qed simp

section \<open>The deframer\<close>

lemma deframe_bound: "snd (deframe cfg d xs) \<le> length xs"
  by (induction xs arbitrary: d) auto

lemma deframe_all: "\<not> is_ready (df_phase (fst (deframe cfg d xs))) \<Longrightarrow> snd (deframe cfg d xs) = length xs"
  by (induction xs arbitrary: d) (auto split: if_splits)

lemma deframe_append:
  "\<not> is_ready (df_phase d) \<Longrightarrow> deframe cfg d (xs @ ys) =
    (if is_ready (df_phase (fst (deframe cfg d xs))) then deframe cfg d xs
     else (fst (deframe cfg (fst (deframe cfg d xs)) ys),
       length xs + snd (deframe cfg (fst (deframe cfg d xs)) ys)))"
  by (induction xs arbitrary: d) simp_all

lemma classify_Collect:
  "length bs < 4 \<or> unat (bs ! 3) \<le> NDLCOM_MAX_PAYLOAD_SIZE cfg \<and> length bs < 6 + unat (bs ! 3) \<Longrightarrow>
    classify cfg bs = (Collect bs, False)"
  by (auto simp: classify_def)

lemma deframer_no_escape [simp]: "\<not> df_escape d \<Longrightarrow> d\<lparr>df_escape := False\<rparr> = d"
  by (cases d) simp

lemma deframe_byte_escaped:
  assumes "\<not> df_escape d" and "reserved b"
  shows "deframe_byte cfg (deframe_byte cfg d NDLCOM_ESC_CHAR) (0x20 XOR b) = deframe_decoded cfg d b"
    "df_phase (deframe_byte cfg d NDLCOM_ESC_CHAR) = df_phase d"
proof -
  have "0x20 XOR b \<noteq> NDLCOM_START_STOP_FLAG" using assms(2)
    by (auto simp: reserved_def NDLCOM_ESC_CHAR_def NDLCOM_START_STOP_FLAG_def)
  moreover have "NDLCOM_ESC_CHAR \<noteq> NDLCOM_START_STOP_FLAG"
    by (simp add: NDLCOM_ESC_CHAR_def NDLCOM_START_STOP_FLAG_def)
  ultimately show "deframe_byte cfg (deframe_byte cfg d NDLCOM_ESC_CHAR) (0x20 XOR b) = deframe_decoded cfg d b"
    "df_phase (deframe_byte cfg d NDLCOM_ESC_CHAR) = df_phase d"
    using assms(1) by (simp_all add: deframe_byte_def)
qed

lemma deframe_byte_plain:
  "\<not> df_escape d \<Longrightarrow> \<not> reserved b \<Longrightarrow> deframe_byte cfg d b = deframe_decoded cfg d b"
  by (simp add: deframe_byte_def reserved_def)

text \<open>A stuffed byte is one decoded byte.\<close>

lemma deframe_stuff_Cons:
  assumes "\<not> df_escape d" and "\<not> is_ready (df_phase d)" and "\<not> is_ready (df_phase (deframe_decoded cfg d b))"
  shows "deframe cfg d (stuff (b # bs) @ ys) =
    (fst (deframe cfg (deframe_decoded cfg d b) (stuff bs @ ys)),
     length (stuff [b]) + snd (deframe cfg (deframe_decoded cfg d b) (stuff bs @ ys)))"
  using assms by (simp add: deframe_byte_escaped deframe_byte_plain)

lemma deframe_stuff_last:
  assumes "\<not> df_escape d" and "\<not> is_ready (df_phase d)" and "is_ready (df_phase (deframe_decoded cfg d b))"
  shows "deframe cfg d (stuff [b] @ ys) = (deframe_decoded cfg d b, length (stuff [b]))"
  using assms by (simp add: deframe_byte_escaped deframe_byte_plain)

lemma deframe_decoded_Collect:
  "df_phase d = Collect bs \<Longrightarrow> deframe_decoded cfg d b =
    d\<lparr>df_phase := fst (classify cfg (bs @ [b])),
      df_fails := df_fails d + (if snd (classify cfg (bs @ [b])) then 1 else 0)\<rparr>"
  by (simp add: deframe_decoded_def case_prod_unfold)

text \<open>A prefix that does not complete a packet is collected, whatever follows.\<close>

lemma deframe_collects:
  assumes "df_escape d = False" and "df_phase d = Collect acc"
    and "\<And>k. k \<le> length bs \<Longrightarrow> classify cfg (acc @ take k bs) = (Collect (acc @ take k bs), False)"
  shows "deframe cfg d (stuff bs @ ys) =
    (fst (deframe cfg (d\<lparr>df_phase := Collect (acc @ bs)\<rparr>) ys),
     length (stuff bs) + snd (deframe cfg (d\<lparr>df_phase := Collect (acc @ bs)\<rparr>) ys))"
  using assms
proof (induction bs arbitrary: d acc)
  case Nil
  then show ?case by (simp flip: Nil(2))
next
  case (Cons b bs)
  let ?d = "d\<lparr>df_phase := Collect (acc @ [b])\<rparr>"
  have dec: "deframe_decoded cfg d b = ?d"
    using Cons.prems(3) [of 1] Cons.prems(2) by (simp add: deframe_decoded_Collect)
  have pre: "classify cfg ((acc @ [b]) @ take k bs) = (Collect ((acc @ [b]) @ take k bs), False)"
    if "k \<le> length bs" for k
    using Cons.prems(3) [of "Suc k"] that by simp
  have "deframe cfg d (stuff (b # bs) @ ys) =
      (fst (deframe cfg ?d (stuff bs @ ys)), length (stuff [b]) + snd (deframe cfg ?d (stuff bs @ ys)))"
    using deframe_stuff_Cons [of d cfg b bs ys] Cons.prems(1,2) dec by simp
  also have "\<dots> = (fst (deframe cfg (d\<lparr>df_phase := Collect (acc @ b # bs)\<rparr>) ys),
      length (stuff (b # bs)) + snd (deframe cfg (d\<lparr>df_phase := Collect (acc @ b # bs)\<rparr>) ys))"
    using Cons.IH [of ?d "acc @ [b]"] Cons.prems(1) pre by simp
  finally show ?case .
qed

text \<open>The bytes of a packet of acceptable length, up to and including the last one.\<close>

definition packet_shaped :: "config \<Rightarrow> u8 list \<Rightarrow> bool" where
  "packet_shaped cfg bs \<longleftrightarrow>
     length bs = 6 + unat (bs ! 3) \<and> unat (bs ! 3) \<le> NDLCOM_MAX_PAYLOAD_SIZE cfg"

lemma packet_shaped_prefix:
  assumes "packet_shaped cfg bs" and "k < length bs"
  shows "classify cfg (take k bs) = (Collect (take k bs), False)"
  using assms by (intro classify_Collect) (auto simp: packet_shaped_def)

lemma classify_packet_shaped:
  "packet_shaped cfg bs \<Longrightarrow> classify cfg bs =
    (if crc_of NDLCOM_CRC_INITIAL_VALUE bs = 0
     then (Packet_ready (header_of_bytes bs) (take (unat (bs ! 3)) (drop 4 bs)), False) else (Collect [], True))"
  by (auto simp: classify_def packet_shaped_def)

lemma deframe_packet:
  assumes "packet_shaped cfg bs" and "df_escape d = False" and "df_phase d = Collect []"
  shows "deframe cfg d (stuff bs @ ys) =
    (if crc_of NDLCOM_CRC_INITIAL_VALUE bs = 0
     then (d\<lparr>df_phase := Packet_ready (header_of_bytes bs) (take (unat (bs ! 3)) (drop 4 bs))\<rparr>,
       length (stuff bs))
     else (fst (deframe cfg (d\<lparr>df_fails := df_fails d + 1\<rparr>) ys),
       length (stuff bs) + snd (deframe cfg (d\<lparr>df_fails := df_fails d + 1\<rparr>) ys)))"
proof -
  obtain cs b where bs: "bs = cs @ [b]"
    using assms(1) by (cases bs rule: rev_cases) (auto simp: packet_shaped_def)
  let ?d = "d\<lparr>df_phase := Collect cs\<rparr>"
  have col: "deframe cfg d (stuff cs @ zs) =
      (fst (deframe cfg ?d zs), length (stuff cs) + snd (deframe cfg ?d zs))" for zs
    using packet_shaped_prefix [OF assms(1)] assms(2,3) bs
    by (intro deframe_collects [where acc = "[]", simplified]) (auto simp: less_Suc_eq_le)
  note shape = classify_packet_shaped [OF assms(1)]
  have dec: "deframe_decoded cfg ?d b =
      (if crc_of NDLCOM_CRC_INITIAL_VALUE bs = 0
       then d\<lparr>df_phase := Packet_ready (header_of_bytes bs) (take (unat (bs ! 3)) (drop 4 bs))\<rparr>
       else d\<lparr>df_fails := df_fails d + 1\<rparr>)"
    using shape assms(3) by (simp add: deframe_decoded_Collect bs)
  show ?thesis
  proof (cases "crc_of NDLCOM_CRC_INITIAL_VALUE bs = 0")
    case True
    then show ?thesis
      using col [of "stuff [b] @ ys"] deframe_stuff_last [of ?d cfg b ys] dec assms(2)
      by (simp add: bs)
  next
    case False
    then show ?thesis
      using col [of "stuff [b] @ ys"] deframe_stuff_Cons [of ?d cfg b "[]" ys] dec assms(2,3)
      by (simp add: bs)
  qed
qed

section \<open>The receive loop\<close>

lemma receive_loop_flag:
  "receive_loop cfg p k (NDLCOM_START_STOP_FLAG # xs) =
    receive_loop cfg (ndlcomParserDestroyPacket p) (k + 1) xs"
  by (simp add: receive_byte_def)

lemma not_HasPacket_destroyed [simp]: "\<not> ndlcomParserHasPacket (ndlcomParserDestroyPacket p)"
  by (simp add: ndlcomParserHasPacket_def ndlcomParserDestroyPacket_def)

lemma receive_simulates:
  assumes "parser_abs cfg p d" and "\<not> ndlcomParserHasPacket p"
  obtains p' where "ndlcomParserReceive cfg p xs = Some (p', snd (deframe cfg d xs))"
    and "parser_abs cfg p' (fst (deframe cfg d xs))"
  using receive_loop_simulates [OF assms, of 0 xs] by (auto simp: ndlcomParserReceive_def)

text \<open>A parser that holds a packet drops it at a flag and otherwise takes nothing.\<close>

lemma receive_byte_ready:
  assumes "parser_abs cfg p d" and "ndlcomParserHasPacket p"
  shows "c = NDLCOM_START_STOP_FLAG \<and> receive_byte cfg p c = Some (ndlcomParserDestroyPacket p, Continue) \<or>
    (\<exists>p' ctl. receive_byte cfg p c = Some (p', ctl) \<and> ctl \<noteq> Fall_through \<and> parser_wf cfg p' \<and>
      ndlcomParserHasPacket p')"
proof -
  have st: "mState p = mcCOMPLETE" using assms(2) by (simp add: ndlcomParserHasPacket_def)
  have set_esc: "parser_wf cfg (p\<lparr>mLastWasESC := b\<rparr>)" for b
  proof -
    have "parser_abs cfg (p\<lparr>mLastWasESC := b\<rparr>) (d\<lparr>df_escape := b\<rparr>)"
      using assms by (cases "df_phase d") (simp_all add: parser_abs_def)
    then show ?thesis by (auto simp: parser_wf_def)
  qed
  have "parser_wf cfg p" using assms(1) by (auto simp: parser_wf_def)
  then show ?thesis
    using set_esc st by (simp add: receive_byte_def receive_switch_def ndlcomParserHasPacket_def)
qed

lemma receive_loop_wf:
  assumes "parser_wf cfg p"
  shows "\<exists>p' n. receive_loop cfg p k xs = Some (p', n) \<and> parser_wf cfg p' \<and> n \<le> k + length xs \<and>
    (n = k + length xs \<or> ndlcomParserHasPacket p')"
  using assms
proof (induction xs arbitrary: p k)
  case (Cons c xs)
  obtain d where abs: "parser_abs cfg p d" using Cons.prems by (auto simp: parser_wf_def)
  show ?case
  proof (cases "ndlcomParserHasPacket p")
    case False
    obtain p' where p': "receive_loop cfg p k (c # xs) = Some (p', k + snd (deframe cfg d (c # xs)))"
      "parser_abs cfg p' (fst (deframe cfg d (c # xs)))"
      using receive_loop_simulates [OF abs False] by blast
    then show ?thesis
      using deframe_bound [of cfg d "c # xs"] deframe_all [of cfg d "c # xs"] parser_abs_ready [OF p'(2)]
      by (auto simp: parser_wf_def)
  next
    case True
    from receive_byte_ready [OF abs True, of c] show ?thesis
    proof (elim disjE exE conjE)
      assume flag: "receive_byte cfg p c = Some (ndlcomParserDestroyPacket p, Continue)"
      have "parser_wf cfg (ndlcomParserDestroyPacket p)"
        using parser_abs_destroyed [of p cfg] parser_abs_lengths [OF abs] by (auto simp: parser_wf_def)
      from Cons.IH [OF this, of "k + 1"] flag show ?thesis by simp
    next
      fix p' ctl
      assume kept: "receive_byte cfg p c = Some (p', ctl)" "ctl \<noteq> Fall_through" "parser_wf cfg p'"
        "ndlcomParserHasPacket p'"
      from Cons.IH [OF kept(3), of "k + 1"] kept show ?thesis by (cases ctl) auto
    qed
  qed
qed simp

lemma parser_abs_fresh:
  assumes "length (mHeader_raw p) = 4" and "length (mpData p) = NDLCOM_MAX_PAYLOAD_SIZE cfg"
  shows "parser_abs cfg (ndlcomParserResetNumberOfCRCFails (ndlcomParserDestroyPacket p))
    \<lparr>df_escape = False, df_phase = Collect [], df_fails = 0\<rparr>"
  using assms by (simp add: parser_abs_def ndlcomParserResetNumberOfCRCFails_def
      ndlcomParserDestroyPacket_def collecting_def)

lemma receive_byte_busy:
  assumes "\<not> ndlcomParserHasPacket p" and "receive_byte cfg p c = Some (p', ctl)"
  shows "ctl \<noteq> Return_zero" "ctl = Continue \<Longrightarrow> \<not> ndlcomParserHasPacket p'"
  using assms
  by (auto simp: receive_byte_def receive_switch_def ndlcomParserHasPacket_def
      ndlcomParserDestroyPacket_def split: if_splits NDLComParserState.splits)

lemma receive_loop_append:
  "\<not> ndlcomParserHasPacket p \<Longrightarrow> receive_loop cfg p k (xs @ ys) =
    (case receive_loop cfg p k xs of None \<Rightarrow> None
     | Some (p', n) \<Rightarrow> if ndlcomParserHasPacket p' then Some (p', n) else receive_loop cfg p' n ys)"
proof (induction xs arbitrary: p k)
  case (Cons c xs)
  show ?case
  proof (cases "receive_byte cfg p c")
    case (Some r)
    obtain p' ctl where "r = (p', ctl)" by fastforce
    then show ?thesis
      using Some receive_byte_busy [OF Cons.prems, of cfg c p' ctl] Cons.IH [of p' "k + 1"]
      by (cases ctl) (simp_all add: ndlcomParserHasPacket_def)
  qed simp
qed simp

lemma receive_loop_count:
  "\<not> ndlcomParserHasPacket p \<Longrightarrow>
    receive_loop cfg p k xs = map_option (map_prod id ((+) k)) (receive_loop cfg p 0 xs)"
proof (induction xs arbitrary: p k)
  case (Cons c xs)
  show ?case
  proof (cases "receive_byte cfg p c")
    case (Some r)
    obtain p' ctl where "r = (p', ctl)" by fastforce
    then show ?thesis
      using Some receive_byte_busy [OF Cons.prems, of cfg c p' ctl] Cons.IH [of p' "k + 1"]
        Cons.IH [of p' 1]
      by (cases ctl) (auto simp: ndlcomParserHasPacket_def option.map_comp comp_def intro!: option.map_cong)
  qed simp
qed simp


section \<open>What a reported packet is\<close>

text \<open>The decoded bytes of a stretch of input without flags, and whether an escape is still open.\<close>

definition decode_byte :: "u8 list \<times> bool \<Rightarrow> u8 \<Rightarrow> u8 list \<times> bool" where
  "decode_byte st c =
     (if snd st then (fst st @ [c XOR 0x20], False)
      else if c = NDLCOM_ESC_CHAR then (fst st, True)
      else (fst st @ [c], False))"

definition decoded :: "u8 list \<Rightarrow> u8 list \<times> bool" where
  "decoded w = foldl decode_byte ([], False) w"

lemma decoded_stuff: "foldl decode_byte (acc, False) (stuff bs) = (acc @ bs, False)"
  by (induction bs arbitrary: acc) (auto simp: decode_byte_def reserved_def)

lemma packet_of_shape:
  assumes "packet_shaped cfg bs" and "crc_of NDLCOM_CRC_INITIAL_VALUE bs = 0"
  shows "bs = packet_bytes (cfg\<lparr>big_endian := False\<rparr>) (header_of_bytes bs) (take (unat (bs ! 3)) (drop 4 bs))"
proof -
  let ?pl = "take (unat (bs ! 3)) (drop 4 bs)"
  have len: "length bs = 6 + unat (bs ! 3)" using assms(1) by (simp add: packet_shaped_def)
  have hdr: "take 4 bs = header_bytes (header_of_bytes bs)"
    using header_bytes_of_bytes [of "take 4 bs"] len by (simp add: header_of_bytes_def)
  have "length (drop (4 + unat (bs ! 3)) bs) = 2" using len by simp
  then obtain a b where ab: "drop (4 + unat (bs ! 3)) bs = [a, b]"
    unfolding length_eq_2_conv by blast
  have "bs = take 4 bs @ drop 4 bs" by simp
  also have "drop 4 bs = ?pl @ drop (unat (bs ! 3)) (drop 4 bs)"
    by (rule append_take_drop_id [symmetric])
  also have "drop (unat (bs ! 3)) (drop 4 bs) = [a, b]" using ab by (simp add: ac_simps)
  finally have split: "bs = (header_bytes (header_of_bytes bs) @ ?pl) @ [a, b]" by (simp add: hdr)
  have "crc_of (crc_of NDLCOM_CRC_INITIAL_VALUE (header_bytes (header_of_bytes bs) @ ?pl)) [a, b] = 0"
    using assms(2) by (subst (asm) split) (simp only: crc_of_append)
  then have "[a, b] = crc_bytes (cfg\<lparr>big_endian := False\<rparr>)
      (crc_of NDLCOM_CRC_INITIAL_VALUE (header_bytes (header_of_bytes bs) @ ?pl))"
    by (simp add: crc_residue crc_bytes_def del: crc_of_append)
  with split show ?thesis unfolding packet_bytes_def by simp
qed

lemma packet_bytes_shaped:
  assumes "length pl = unat (mDataLen h)" and "length pl \<le> NDLCOM_MAX_PAYLOAD_SIZE cfg"
  shows "packet_shaped cfg (packet_bytes cfg' h pl)" "packet_bytes cfg' h pl ! 3 = mDataLen h"
    "header_of_bytes (packet_bytes cfg' h pl) = h"
    "take (unat (mDataLen h)) (drop 4 (packet_bytes cfg' h pl)) = pl"
proof -
  show len: "packet_bytes cfg' h pl ! 3 = mDataLen h"
    by (simp add: packet_bytes_def header_bytes_def)
  then show "packet_shaped cfg (packet_bytes cfg' h pl)" using assms by (simp add: packet_shaped_def)
qed (use assms in \<open>simp_all add: packet_bytes_def header_of_bytes_def header_bytes_def\<close>)

lemma packet_bytes_crc:
  "\<not> big_endian cfg \<Longrightarrow> crc_of NDLCOM_CRC_INITIAL_VALUE (packet_bytes cfg h pl) = 0"
  using crc_residue [of "crc_of NDLCOM_CRC_INITIAL_VALUE (header_bytes h @ pl)"]
  by (simp add: packet_bytes_def crc_bytes_def)

text \<open>The input that led to a phase of the deframer, up to what came before the last reset.\<close>

definition tracks :: "config \<Rightarrow> deframer \<Rightarrow> u8 list \<Rightarrow> bool" where
  "tracks cfg d w \<longleftrightarrow>
     NDLCOM_START_STOP_FLAG \<notin> set w \<and>
     (case df_phase d of
        Collect bs \<Rightarrow> decoded w = (bs, df_escape d) \<and> classify cfg bs = (Collect bs, False)
      | Oversized \<Rightarrow> True
      | Packet_ready h pl \<Rightarrow> \<exists>bs. decoded w = (bs, False) \<and> packet_shaped cfg bs \<and>
          crc_of NDLCOM_CRC_INITIAL_VALUE bs = 0 \<and> h = header_of_bytes bs \<and>
          pl = take (unat (bs ! 3)) (drop 4 bs))"

lemma classify_Nil [simp]: "classify cfg [] = (Collect [], False)"
  by (simp add: classify_def)

lemma decoded_Nil [simp]: "decoded [] = ([], False)"
  by (simp add: decoded_def)

lemma decoded_snoc: "decoded (w @ [c]) = decode_byte (decoded w) c"
  by (simp add: decoded_def)

lemma classify_snoc_cases:
  assumes "classify cfg bs = (Collect bs, False)"
  shows "classify cfg (bs @ [b]) = (Collect (bs @ [b]), False) \<or> classify cfg (bs @ [b]) = (Oversized, False) \<or>
    packet_shaped cfg (bs @ [b])"
  using assms
  by (auto simp: classify_def packet_shaped_def nth_append not_less split: if_splits)

lemma tracks_decoded:
  assumes "tracks cfg d w" and "df_phase d = Collect bs" and "decoded (w @ [c]) = (bs @ [b], False)"
    and "c \<noteq> NDLCOM_START_STOP_FLAG" and "df_escape d' = False" and "df_phase d' = df_phase d"
  shows "\<exists>v u. w @ [c] = v @ u \<and> tracks cfg (deframe_decoded cfg d' b) u"
proof -
  have flag: "NDLCOM_START_STOP_FLAG \<notin> set (w @ [c])" and cl: "classify cfg bs = (Collect bs, False)"
    using assms(1,2,4) by (simp_all add: tracks_def)
  from classify_snoc_cases [OF cl, of b] show ?thesis
  proof (elim disjE)
    assume shaped: "packet_shaped cfg (bs @ [b])"
    note cls = classify_packet_shaped [OF shaped]
    show ?thesis
    proof (cases "crc_of NDLCOM_CRC_INITIAL_VALUE (bs @ [b]) = 0")
      case True
      then have "tracks cfg (deframe_decoded cfg d' b) (w @ [c])"
        using assms flag cls shaped by (simp add: deframe_decoded_Collect tracks_def del: crc_of_append)
      then show ?thesis by (metis append_Nil)
    next
      case False
      then have "tracks cfg (deframe_decoded cfg d' b) []"
        using assms cls by (simp add: deframe_decoded_Collect tracks_def del: crc_of_append)
      then show ?thesis by (metis append_Nil2)
    qed
  next
    assume "classify cfg (bs @ [b]) = (Collect (bs @ [b]), False)"
    then have "tracks cfg (deframe_decoded cfg d' b) (w @ [c])"
      using assms flag by (simp add: deframe_decoded_Collect tracks_def)
    then show ?thesis by (metis append_Nil)
  next
    assume "classify cfg (bs @ [b]) = (Oversized, False)"
    then have "tracks cfg (deframe_decoded cfg d' b) (w @ [c])"
      using assms flag by (simp add: deframe_decoded_Collect tracks_def)
    then show ?thesis by (metis append_Nil)
  qed
qed

lemma tracks_step:
  assumes "tracks cfg d w" and "\<not> is_ready (df_phase d)"
  shows "\<exists>v u. w @ [c] = v @ u \<and> tracks cfg (deframe_byte cfg d c) u"
proof (cases "c = NDLCOM_START_STOP_FLAG")
  case True
  then have "tracks cfg (deframe_byte cfg d c) []" by (simp add: deframe_byte_def tracks_def)
  then show ?thesis by (metis append_Nil2)
next
  case flag: False
  show ?thesis
  proof (cases "df_phase d")
    case (Collect bs)
    then have dec: "decoded w = (bs, df_escape d)" using assms(1) by (simp add: tracks_def)
    consider "df_escape d" | "\<not> df_escape d" "c = NDLCOM_ESC_CHAR" | "\<not> df_escape d" "c \<noteq> NDLCOM_ESC_CHAR"
      by blast
    then show ?thesis
    proof cases
      case 1
      then show ?thesis
        using tracks_decoded [OF assms(1) Collect, of c "c XOR 0x20" "d\<lparr>df_escape := False\<rparr>"] dec flag
        by (simp add: decoded_snoc decode_byte_def deframe_byte_def)
    next
      case 2
      then have "tracks cfg (deframe_byte cfg d c) (w @ [c])"
        using assms(1) Collect dec flag
        by (simp add: deframe_byte_def tracks_def decoded_snoc decode_byte_def)
      then show ?thesis by (metis append_Nil)
    next
      case 3
      then show ?thesis
        using tracks_decoded [OF assms(1) Collect, of c c d] dec flag
        by (simp add: decoded_snoc decode_byte_def deframe_byte_def)
    qed
  next
    case Oversized
    then have "tracks cfg (deframe_byte cfg d c) []"
      using flag by (auto simp: deframe_byte_def deframe_decoded_def tracks_def)
    then show ?thesis by (metis append_Nil2)
  qed (use assms(2) in simp)
qed

lemma deframe_tracks:
  assumes "tracks cfg d w" and "\<not> is_ready (df_phase d)"
  shows "\<exists>v u. w @ take (snd (deframe cfg d xs)) xs = v @ u \<and> tracks cfg (fst (deframe cfg d xs)) u"
  using assms
proof (induction xs arbitrary: d w)
  case Nil
  then show ?case by (metis append_Nil append_Nil2 deframe.simps(1) fst_conv take_Nil)
next
  case (Cons c xs)
  obtain v u where vu: "w @ [c] = v @ u" "tracks cfg (deframe_byte cfg d c) u"
    using tracks_step [OF Cons.prems, of c] by blast
  show ?case
  proof (cases "is_ready (df_phase (deframe_byte cfg d c))")
    case True
    with vu show ?thesis by auto
  next
    case False
    obtain v' u' where v'u': "u @ take (snd (deframe cfg (deframe_byte cfg d c) xs)) xs = v' @ u'"
      "tracks cfg (fst (deframe cfg (deframe_byte cfg d c) xs)) u'"
      using Cons.IH [OF vu(2) False] by blast
    have "w @ take (snd (deframe cfg d (c # xs))) (c # xs) =
        (w @ [c]) @ take (snd (deframe cfg (deframe_byte cfg d c) xs)) xs" using False by simp
    also have "\<dots> = (v @ v') @ u'" using vu(1) v'u'(1) by simp
    finally have "w @ take (snd (deframe cfg d (c # xs))) (c # xs) = (v @ v') @ u'" .
    moreover have "tracks cfg (fst (deframe cfg d (c # xs))) u'" using v'u'(2) False by simp
    ultimately show ?thesis by blast
  qed
qed

section \<open>Frames\<close>

text \<open>After a flag, whatever the state before, the stuffed bytes of a packet are judged by their checksum.\<close>

lemma receive_flag_then:
  assumes "length (mHeader_raw p) = 4" and "length (mpData p) = NDLCOM_MAX_PAYLOAD_SIZE cfg"
  obtains p' where
    "ndlcomParserReceive cfg p (NDLCOM_START_STOP_FLAG # xs) =
      Some (p', 1 + snd (deframe cfg \<lparr>df_escape = False, df_phase = Collect [], df_fails = mNumberOfCRCFails p\<rparr> xs))"
    and "parser_abs cfg p' (fst (deframe cfg
      \<lparr>df_escape = False, df_phase = Collect [], df_fails = mNumberOfCRCFails p\<rparr> xs))"
  using receive_loop_simulates [OF parser_abs_destroyed [OF assms] not_HasPacket_destroyed, of 1 xs]
  unfolding ndlcomParserReceive_def receive_loop_flag by auto

lemma parser_abs_getters:
  assumes "parser_abs cfg p d" and "df_phase d = Packet_ready h pl"
  shows "ndlcomParserHasPacket p" "ndlcomParserGetHeader p = Some h"
    "\<exists>mem. ndlcomParserGetPacket p = Some mem \<and> take (unat (mDataLen h)) mem = pl"
    "ndlcomParserGetNumberOfCRCFails p = df_fails d"
  using assms by (auto simp: parser_abs_def ndlcomParserHasPacket_def ndlcomParserGetHeader_def
      ndlcomParserGetPacket_def ndlcomParserGetNumberOfCRCFails_def)

lemma parser_abs_after_packet:
  assumes "parser_abs cfg p d"
  shows "parser_abs cfg (ndlcomParserDestroyPacket p) (d\<lparr>df_escape := False, df_phase := Collect []\<rparr>)"
proof -
  have fails: "mNumberOfCRCFails p = df_fails d" using assms by (simp add: parser_abs_def)
  have d': "d\<lparr>df_escape := False, df_phase := Collect []\<rparr> = \<lparr>df_escape = False, df_phase = Collect [], df_fails = df_fails d\<rparr>"
    by (rule deframer.equality) simp_all
  show ?thesis unfolding d' fails [symmetric] using parser_abs_lengths [OF assms] by (intro parser_abs_destroyed) simp_all
qed

text \<open>What a caller gets from a parser that reports a packet.\<close>

lemma parser_abs_packet:
  assumes "parser_abs cfg p d" and "df_phase d = Packet_ready h pl"
  obtains mem where "ndlcomParserHasPacket p" and "ndlcomParserGetHeader p = Some h" and "ndlcomParserGetPacket p = Some mem"
    and "take (unat (mDataLen h)) mem = pl" and "unat (mDataLen h) \<le> length mem"
proof -
  obtain mem where mem: "ndlcomParserGetPacket p = Some mem" "take (unat (mDataLen h)) mem = pl"
    using parser_abs_getters(3) [OF assms] by blast
  moreover have "unat (mDataLen h) \<le> length mem"
    using assms mem(1) by (auto simp: parser_abs_def ndlcomParserGetPacket_def split: if_splits)
  ultimately show thesis using that parser_abs_getters(1,2) [OF assms] by blast
qed

lemma receive_frame:
  assumes "length (mHeader_raw p) = 4" and "length (mpData p) = NDLCOM_MAX_PAYLOAD_SIZE cfg"
    and "length pl = unat (mDataLen h)" and "length pl \<le> NDLCOM_MAX_PAYLOAD_SIZE cfg"
    and "\<not> big_endian cfg'"
  shows "\<exists>p'. ndlcomParserReceive cfg p
      (NDLCOM_START_STOP_FLAG # stuff (packet_bytes cfg' h pl) @ rest) =
        Some (p', 1 + length (stuff (packet_bytes cfg' h pl))) \<and>
    parser_abs cfg p' \<lparr>df_escape = False, df_phase = Packet_ready h pl, df_fails = mNumberOfCRCFails p\<rparr>"
proof -
  let ?d = "\<lparr>df_escape = False, df_phase = Collect [], df_fails = mNumberOfCRCFails p\<rparr>"
  note shape = packet_bytes_shaped [OF assms(3,4), of cfg']
  have "deframe cfg ?d (stuff (packet_bytes cfg' h pl) @ rest) =
      (?d\<lparr>df_phase := Packet_ready h pl\<rparr>, length (stuff (packet_bytes cfg' h pl)))"
    using deframe_packet [OF shape(1), of ?d rest] packet_bytes_crc [OF assms(5)] shape by simp
  then show ?thesis
    using receive_flag_then [OF assms(1,2), of "stuff (packet_bytes cfg' h pl) @ rest"] by auto
qed

section \<open>Properties\<close>

text \<open>
  C2: the receive loop implements the deframer: from every parser that does not hold a packet it
  reports the number of bytes the deframer takes, and afterwards it holds a packet, counts checksum
  failures and keeps its arrays as the deframer does.
\<close>

theorem ndlcomParserReceive_refines_deframer:
  assumes "parser_abs cfg p d" and "\<not> ndlcomParserHasPacket p"
  shows "\<exists>p'. ndlcomParserReceive cfg p newData = Some (p', snd (deframe cfg d newData)) \<and>
    parser_abs cfg p' (fst (deframe cfg d newData)) \<and>
    (ndlcomParserHasPacket p' \<longleftrightarrow> is_ready (df_phase (fst (deframe cfg d newData)))) \<and>
    ndlcomParserGetNumberOfCRCFails p' = df_fails (fst (deframe cfg d newData))"
proof -
  obtain p' where p': "ndlcomParserReceive cfg p newData = Some (p', snd (deframe cfg d newData))"
    "parser_abs cfg p' (fst (deframe cfg d newData))"
    using receive_simulates [OF assms] .
  moreover have "mNumberOfCRCFails p' = df_fails (fst (deframe cfg d newData))"
    using p'(2) by (simp add: parser_abs_def)
  ultimately show ?thesis
    using parser_abs_ready [OF p'(2)] by (simp add: ndlcomParserGetNumberOfCRCFails_def)
qed

definition blank_parser :: "config \<Rightarrow> NDLComParser" where
  "blank_parser cfg =
     \<lparr>mHeader_raw = replicate 4 0, mDataCRC = NDLCOM_CRC_INITIAL_VALUE, mLastWasESC = False,
       mpHeaderWritePos = 0, mpData = replicate (NDLCOM_MAX_PAYLOAD_SIZE cfg) 0, mpDataWritePos = 0,
       mState = mcWAIT_HEADER, mNumberOfCRCFails = 0\<rparr>"

lemma parser_abs_blank:
  "parser_abs cfg (blank_parser cfg) \<lparr>df_escape = False, df_phase = Collect [], df_fails = 0\<rparr>"
  by (simp add: parser_abs_def collecting_def blank_parser_def)

lemma not_HasPacket_blank: "\<not> ndlcomParserHasPacket (blank_parser cfg)"
  by (simp add: ndlcomParserHasPacket_def blank_parser_def)

lemma ndlcomParserReceive_refines_deframer_witness:
  "\<exists>p'. ndlcomParserReceive default_config (blank_parser default_config) [0x7d, 0x5e, 3] = Some (p', 3) \<and>
    parser_abs default_config p' \<lparr>df_escape = False, df_phase = Collect [0x7e, 3], df_fails = 0\<rparr>"
  using ndlcomParserReceive_refines_deframer [OF parser_abs_blank not_HasPacket_blank,
      of default_config "[0x7d, 0x5e, 3]"]
  by (simp add: deframe_byte_def deframe_decoded_def classify_def NDLCOM_ESC_CHAR_def
      NDLCOM_START_STOP_FLAG_def numeral_3_eq_3 del: One_nat_def) blast

text \<open>
  C3: memory safety and the invariant. From every well-formed parser, also one that still holds a
  packet or was destroyed, no write leaves the arrays of the parser, whatever bytes arrive; the
  parser stays well formed, and bytes are left over only because it holds a packet.
\<close>

theorem ndlcomParserReceive_safe:
  assumes "parser_wf cfg p"
  shows "\<exists>p' n. ndlcomParserReceive cfg p newData = Some (p', n) \<and> parser_wf cfg p' \<and>
    n \<le> length newData \<and> (n = length newData \<or> ndlcomParserHasPacket p')"
  using receive_loop_wf [OF assms, of 0 newData] by (simp add: ndlcomParserReceive_def)

lemma parser_wf_blank: "parser_wf cfg (blank_parser cfg)"
  using parser_abs_blank by (auto simp: parser_wf_def)

lemma ndlcomParserReceive_safe_witness:
  "\<exists>p' n. ndlcomParserReceive default_config (blank_parser default_config) (replicate 1000 0x55) = Some (p', n) \<and>
    parser_wf default_config p' \<and> n \<le> 1000"
  using ndlcomParserReceive_safe [OF parser_wf_blank, of default_config "replicate 1000 0x55"] by auto

text \<open>
  C32: how the stream is cut into chunks does not matter. Two calls with two chunks do what one call
  with both does, except that a packet that completes in the first chunk stops the parser there.
\<close>

theorem ndlcomParserReceive_append:
  assumes "\<not> ndlcomParserHasPacket p"
  shows "ndlcomParserReceive cfg p (xs @ ys) = do {
      (p', n) \<leftarrow> ndlcomParserReceive cfg p xs;
      if ndlcomParserHasPacket p' then Some (p', n)
      else do { (p'', k) \<leftarrow> ndlcomParserReceive cfg p' ys; Some (p'', n + k) }
    }"
proof (cases "receive_loop cfg p 0 xs")
  case (Some r)
  then show ?thesis
    using receive_loop_append [OF assms, of cfg 0 xs ys] receive_loop_count [of "fst r" cfg "snd r" ys]
    by (auto simp: ndlcomParserReceive_def split: prod.splits Option.bind_split option.splits)
qed (use receive_loop_append [OF assms, of cfg 0 xs ys] in \<open>simp add: ndlcomParserReceive_def\<close>)

lemma ndlcomParserReceive_append_witness:
  "ndlcomParserReceive default_config (blank_parser default_config) ([0x7d] @ [0x5e]) = do {
      (p', n) \<leftarrow> ndlcomParserReceive default_config (blank_parser default_config) [0x7d];
      if ndlcomParserHasPacket p' then Some (p', n)
      else do { (p'', k) \<leftarrow> ndlcomParserReceive default_config p' [0x5e]; Some (p'', n + k) }
    }"
  by (rule ndlcomParserReceive_append [OF not_HasPacket_blank])

text \<open>
  C4: soundness. When a parser that starts afresh reports a packet, the bytes it has taken end with
  a stretch without flags that decodes to this packet: header, payload and, least significant byte
  first, their checksum; the payload has the length the header says and fits the parser.
\<close>

theorem ndlcomParserReceive_sound:
  assumes "ndlcomParserCreate cfg (Some mem) dataBufSize = Some p"
    and "length (mHeader_raw mem) = 4" and "length (mpData mem) = NDLCOM_MAX_PAYLOAD_SIZE cfg"
    and "ndlcomParserReceive cfg p newData = Some (p', n)" and "ndlcomParserHasPacket p'"
  shows "\<exists>h data pre w. ndlcomParserGetHeader p' = Some h \<and> ndlcomParserGetPacket p' = Some data \<and>
    unat (mDataLen h) \<le> length data \<and> take n newData = pre @ w \<and> NDLCOM_START_STOP_FLAG \<notin> set w \<and>
    decoded w = (packet_bytes (cfg\<lparr>big_endian := False\<rparr>) h (take (unat (mDataLen h)) data), False)"
proof -
  let ?d = "\<lparr>df_escape = False, df_phase = Collect [], df_fails = 0\<rparr>"
  have abs: "parser_abs cfg p ?d" and np: "\<not> ndlcomParserHasPacket p"
    using assms(1) parser_abs_fresh [OF assms(2,3)] parser_abs_ready [OF parser_abs_fresh [OF assms(2,3)]]
    by (auto simp: ndlcomParserCreate_def split: if_splits)
  have n: "n = snd (deframe cfg ?d newData)" and abs': "parser_abs cfg p' (fst (deframe cfg ?d newData))"
    using receive_simulates [OF abs np, of newData] assms(4) by auto
  obtain h pl where ready: "df_phase (fst (deframe cfg ?d newData)) = Packet_ready h pl"
    using parser_abs_ready [OF abs'] assms(5) by (cases "df_phase (fst (deframe cfg ?d newData))") auto
  have "tracks cfg ?d []" by (simp add: tracks_def)
  then obtain pre w where w: "take n newData = pre @ w" "tracks cfg (fst (deframe cfg ?d newData)) w"
    using deframe_tracks [of cfg ?d "[]" newData] n by auto
  obtain bs where bs: "decoded w = (bs, False)" "packet_shaped cfg bs" "crc_of NDLCOM_CRC_INITIAL_VALUE bs = 0"
    "h = header_of_bytes bs" "pl = take (unat (bs ! 3)) (drop 4 bs)" "NDLCOM_START_STOP_FLAG \<notin> set w"
    using w(2) ready by (auto simp: tracks_def)
  have pkt: "decoded w = (packet_bytes (cfg\<lparr>big_endian := False\<rparr>) h pl, False)"
    using packet_of_shape [OF bs(2,3)] bs by simp
  have "unat (mDataLen h) \<le> length (mpData p')" using abs' ready by (simp add: parser_abs_def)
  then show ?thesis
    using parser_abs_getters [OF abs' ready] pkt w(1) bs(6) abs' ready
    by (auto simp: ndlcomParserGetPacket_def split: if_splits)
qed

lemma ndlcomParserReceive_sound_witness:
  "\<exists>p p' n h data pre w.
    ndlcomParserCreate default_config (Some (blank_parser default_config))
      (NDLCOM_PARSER_MIN_BUFFER_SIZE default_config) = Some p \<and>
    ndlcomParserReceive default_config p (frame default_config (header_of_bytes [1, 2, 3, 1]) [0x7d]) = Some (p', n) \<and>
    ndlcomParserGetHeader p' = Some h \<and> ndlcomParserGetPacket p' = Some data \<and>
    decoded w = (packet_bytes default_config h (take (unat (mDataLen h)) data), False) \<and>
    take n (frame default_config (header_of_bytes [1, 2, 3, 1]) [0x7d]) = pre @ w"
proof -
  let ?h = "header_of_bytes [1, 2, 3, 1] :: NDLComHeader" and ?c = default_config
  let ?f = "frame ?c ?h [0x7d]"
  obtain p where p: "ndlcomParserCreate ?c (Some (blank_parser ?c)) (NDLCOM_PARSER_MIN_BUFFER_SIZE ?c) = Some p"
    "length (mHeader_raw p) = 4" "length (mpData p) = NDLCOM_MAX_PAYLOAD_SIZE ?c"
    by (simp add: ndlcomParserCreate_def ndlcomParserDestroyPacket_def blank_parser_def
        ndlcomParserResetNumberOfCRCFails_def)
  have "\<exists>p'. ndlcomParserReceive ?c p (NDLCOM_START_STOP_FLAG # stuff (packet_bytes ?c ?h [0x7d]) @ [NDLCOM_START_STOP_FLAG]) =
        Some (p', 1 + length (stuff (packet_bytes ?c ?h [0x7d]))) \<and>
    parser_abs ?c p' \<lparr>df_escape = False, df_phase = Packet_ready ?h [0x7d], df_fails = mNumberOfCRCFails p\<rparr>"
    by (rule receive_frame [OF p(2,3)]) (simp_all add: header_of_bytes_def default_config_def size_defs)
  then obtain p' n where r: "ndlcomParserReceive ?c p ?f = Some (p', n)" "ndlcomParserHasPacket p'"
    using parser_abs_getters(1) by (fastforce simp: frame_def)
  have "\<exists>h data pre w. ndlcomParserGetHeader p' = Some h \<and> ndlcomParserGetPacket p' = Some data \<and>
    unat (mDataLen h) \<le> length data \<and> take n ?f = pre @ w \<and> NDLCOM_START_STOP_FLAG \<notin> set w \<and>
    decoded w = (packet_bytes (?c\<lparr>big_endian := False\<rparr>) h (take (unat (mDataLen h)) data), False)"
    by (rule ndlcomParserReceive_sound [OF p(1) _ _ r]) (simp_all add: blank_parser_def)
  moreover have "?c\<lparr>big_endian := False\<rparr> = ?c" by (simp add: default_config_def)
  ultimately show ?thesis using p(1) r(1) by metis
qed

text \<open>
  C1: round trip. On a machine with little-endian byte order, the encoder's frame makes the parser
  report the packet that was encoded, in whatever state it was when the frame began; the closing flag
  is left unread, and no checksum failure is counted.
\<close>

theorem encoder_parser_roundtrip:
  assumes "parser_wf cfg p" and "length pl = unat (mDataLen h)"
    and "unat (mDataLen h) \<le> NDLCOM_MAX_PAYLOAD_SIZE cfg" and "\<not> big_endian cfg"
    and "NDLCOM_MAX_ENCODED_MESSAGE_SIZE_FOR_PACKET h \<le> length m"
    and "ndlcomEncode cfg m (length m) h pl = Some (m', n)"
  shows "\<exists>p' data. ndlcomParserReceive cfg p (take n m') = Some (p', n - 1) \<and>
    ndlcomParserHasPacket p' \<and> ndlcomParserGetHeader p' = Some h \<and>
    ndlcomParserGetPacket p' = Some data \<and> take (unat (mDataLen h)) data = pl \<and>
    ndlcomParserGetNumberOfCRCFails p' = ndlcomParserGetNumberOfCRCFails p"
proof -
  let ?f = "frame cfg h pl"
  obtain d where abs: "parser_abs cfg p d" using assms(1) by (auto simp: parser_wf_def)
  have mem: "length (mHeader_raw p) = 4" "length (mpData p) = NDLCOM_MAX_PAYLOAD_SIZE cfg"
    using parser_abs_lengths [OF abs] by simp_all
  have le: "length pl \<le> NDLCOM_MAX_PAYLOAD_SIZE cfg" using assms(2,3) by simp
  have enc: "m' = overwrite m 0 ?f" "n = length ?f"
    using ndlcomEncode_effect [OF assms(5), of pl cfg] assms(2,6) by (simp_all add: Let_def)
  have "length ?f \<le> length m"
    using length_frame_le [of cfg h pl] assms(2,5) by (simp add: size_defs)
  then have "take n m' = ?f" using enc take_overwrite [of 0 ?f m] by simp
  then have bytes: "take n m' = NDLCOM_START_STOP_FLAG # stuff (packet_bytes cfg h pl) @ [NDLCOM_START_STOP_FLAG]"
    by (simp add: frame_def)
  obtain p' where p': "ndlcomParserReceive cfg p (take n m') = Some (p', n - 1)"
    "parser_abs cfg p' \<lparr>df_escape = False, df_phase = Packet_ready h pl, df_fails = mNumberOfCRCFails p\<rparr>"
    using receive_frame [OF mem assms(2) le assms(4), of "[NDLCOM_START_STOP_FLAG]"] bytes enc(2)
    by (auto simp: frame_def)
  show ?thesis
    using p'(1) parser_abs_getters [OF p'(2)] by (simp add: ndlcomParserGetNumberOfCRCFails_def)
qed

lemma encoder_parser_roundtrip_witness:
  "\<exists>m' n p' data. ndlcomEncode default_config (replicate 16 0) 16 (header_of_bytes [0x7e, 2, 3, 1]) [0x7d] = Some (m', n) \<and>
    ndlcomParserReceive default_config (blank_parser default_config) (take n m') = Some (p', n - 1) \<and>
    ndlcomParserGetPacket p' = Some data \<and> take 1 data = [0x7d]"
proof -
  let ?h = "header_of_bytes [0x7e, 2, 3, 1] :: NDLComHeader"
  obtain m' n where enc: "ndlcomEncode default_config (replicate 16 0) (length (replicate 16 0 :: u8 list)) ?h [0x7d] = Some (m', n)"
    using ndlcomEncode_effect [of ?h "replicate 16 0" "[0x7d]" default_config]
    by (simp add: size_defs header_of_bytes_def Let_def)
  have "\<exists>p' data. ndlcomParserReceive default_config (blank_parser default_config) (take n m') = Some (p', n - 1) \<and>
    ndlcomParserHasPacket p' \<and> ndlcomParserGetHeader p' = Some ?h \<and>
    ndlcomParserGetPacket p' = Some data \<and> take (unat (mDataLen ?h)) data = [0x7d] \<and>
    ndlcomParserGetNumberOfCRCFails p' = ndlcomParserGetNumberOfCRCFails (blank_parser default_config)"
    by (rule encoder_parser_roundtrip [OF parser_wf_blank _ _ _ _ enc])
      (simp_all add: size_defs header_of_bytes_def default_config_def)
  then show ?thesis using enc by (auto simp: header_of_bytes_def)
qed

text \<open>
  C27: damage on the line. If the decoded bytes of a packet are altered by a burst of up to 16 bits
  that spares the length byte, the parser takes the whole frame, counts one checksum failure, holds
  no packet, and waits for the next header.
\<close>

theorem damaged_packet_rejected:
  assumes "parser_wf cfg p" and "length pl = unat (mDataLen h)"
    and "unat (mDataLen h) \<le> NDLCOM_MAX_PAYLOAD_SIZE cfg" and "\<not> big_endian cfg'"
    and "length damaged = length (packet_bytes cfg' h pl)" and "damaged \<noteq> packet_bytes cfg' h pl"
    and "damaged ! 3 = mDataLen h" and "differ_within 16 (packet_bytes cfg' h pl) damaged"
  shows "\<exists>p'. ndlcomParserReceive cfg p (NDLCOM_START_STOP_FLAG # stuff damaged) =
      Some (p', 1 + length (stuff damaged)) \<and>
    \<not> ndlcomParserHasPacket p' \<and>
    ndlcomParserGetNumberOfCRCFails p' = ndlcomParserGetNumberOfCRCFails p + 1 \<and>
    ndlcomParserGetState p' = Some ''WAIT_HEADER''"
proof -
  obtain d where abs: "parser_abs cfg p d" using assms(1) by (auto simp: parser_wf_def)
  let ?d = "\<lparr>df_escape = False, df_phase = Collect [], df_fails = mNumberOfCRCFails p\<rparr>"
  have shape: "packet_shaped cfg damaged" using assms(2,3,5,7) by (simp add: packet_shaped_def)
  have "crc_of NDLCOM_CRC_INITIAL_VALUE damaged \<noteq> 0"
    using crc_of_burst [OF assms(5) [symmetric] assms(6) [symmetric] assms(8), of NDLCOM_CRC_INITIAL_VALUE]
      packet_bytes_crc [OF assms(4), of h pl] by simp
  then have "deframe cfg ?d (stuff damaged) =
      (?d\<lparr>df_fails := mNumberOfCRCFails p + 1\<rparr>, length (stuff damaged))"
    using deframe_packet [OF shape, of ?d "[]"] by simp
  moreover obtain p' where
    "ndlcomParserReceive cfg p (NDLCOM_START_STOP_FLAG # stuff damaged) =
      Some (p', 1 + snd (deframe cfg ?d (stuff damaged)))"
    "parser_abs cfg p' (fst (deframe cfg ?d (stuff damaged)))"
    using receive_flag_then [of p cfg "stuff damaged"] parser_abs_lengths [OF abs] by blast
  ultimately show ?thesis
    by (simp add: parser_abs_def collecting_def ndlcomParserHasPacket_def ndlcomParserGetNumberOfCRCFails_def ndlcomParserGetState_def
        ndlcomParserStateName_def)
qed

lemma damaged_packet_rejected_witness:
  "\<exists>p'. ndlcomParserReceive default_config (blank_parser default_config)
      (NDLCOM_START_STOP_FLAG # stuff (list_update (packet_bytes default_config (header_of_bytes [1, 2, 3, 1]) [7]) 4 6)) =
      Some (p', 1 + length (stuff (list_update (packet_bytes default_config (header_of_bytes [1, 2, 3, 1]) [7]) 4 6))) \<and>
    \<not> ndlcomParserHasPacket p'"
proof -
  let ?h = "header_of_bytes [1, 2, 3, 1] :: NDLComHeader"
  obtain a b where pb: "packet_bytes default_config ?h [7] = [1, 2, 3, 1, 7, a, b]"
    by (simp add: packet_bytes_def header_bytes_def header_of_bytes_def crc_bytes_def default_config_def)
  have "differ_within 16 [1, 2, 3, 1, 7, a, b] [1, 2, 3, 1, 6, a, b]"
  proof -
    have "bits_of [1, 2, 3, 1, 7, a, b] = bits_of [1, 2, 3, 1] @ bits_of [7] @ bits_of [a, b]"
      "bits_of [1, 2, 3, 1, 6, a, b] = bits_of [1, 2, 3, 1] @ bits_of [6] @ bits_of [a, b]"
      by (simp_all add: bits_of_def)
    then have *: "32 \<le> i \<and> i < 40" if "i < 56" "bits_of [1, 2, 3, 1, 7, a, b] ! i \<noteq> bits_of [1, 2, 3, 1, 6, a, b] ! i" for i
      using that by (simp add: nth_append split: if_splits)
    show ?thesis
      unfolding differ_within_def
    proof (intro allI impI)
      fix i j
      assume "i < 8 * length [1, 2, 3, 1, 7, a, b]" "j < 8 * length [1, 2, 3, 1, 7, a, b]"
        "bits_of [1, 2, 3, 1, 7, a, b] ! i \<noteq> bits_of [1, 2, 3, 1, 6, a, b] ! i"
        "bits_of [1, 2, 3, 1, 7, a, b] ! j \<noteq> bits_of [1, 2, 3, 1, 6, a, b] ! j"
      then show "i < j + 16" using * [of i] * [of j] by simp
    qed
  qed
  then have "differ_within 16 (packet_bytes default_config ?h [7]) ((packet_bytes default_config ?h [7])[4 := 6])"
    by (simp add: pb)
  moreover have "(packet_bytes default_config ?h [7])[4 := 6] ! 3 = mDataLen ?h"
    "(packet_bytes default_config ?h [7])[4 := 6] \<noteq> packet_bytes default_config ?h [7]"
    by (simp_all add: pb) (simp add: header_of_bytes_def)
  moreover have "length [7 :: u8] = unat (mDataLen ?h)" "unat (mDataLen ?h) \<le> NDLCOM_MAX_PAYLOAD_SIZE default_config"
    "\<not> big_endian default_config"
    by (simp_all add: header_of_bytes_def default_config_def)
  ultimately show ?thesis
    using damaged_packet_rejected [OF parser_wf_blank, of "[7]" ?h default_config default_config
        "(packet_bytes default_config ?h [7])[4 := 6]"] by auto
qed

text \<open>
  C33: a packet that is larger than the parser's buffer is not skipped as a whole: after its header
  and one more byte the parser is back at the start of a packet, so that a packet inside the
  oversized payload is reported as if it had been sent.
\<close>

theorem oversized_payload_is_parsed:
  assumes "parser_wf cfg p" and "NDLCOM_MAX_PAYLOAD_SIZE cfg < unat (mDataLen big)"
    and "length pl = unat (mDataLen h)" and "unat (mDataLen h) \<le> NDLCOM_MAX_PAYLOAD_SIZE cfg"
    and "\<not> big_endian cfg'"
  shows "\<exists>p' n. ndlcomParserReceive cfg p
      (NDLCOM_START_STOP_FLAG # stuff (header_bytes big @ x # packet_bytes cfg' h pl @ rest)) = Some (p', n) \<and>
    ndlcomParserGetHeader p' = Some h \<and>
    (\<exists>data. ndlcomParserGetPacket p' = Some data \<and> take (unat (mDataLen h)) data = pl)"
proof -
  obtain d where abs: "parser_abs cfg p d" using assms(1) by (auto simp: parser_wf_def)
  let ?d = "\<lparr>df_escape = False, df_phase = Collect [], df_fails = mNumberOfCRCFails p\<rparr>"
  let ?b3 = "[mReceiverId big, mSenderId big, mCounter big]"
  let ?tail = "stuff (packet_bytes cfg' h pl) @ stuff rest"
  have le: "length pl \<le> NDLCOM_MAX_PAYLOAD_SIZE cfg" using assms(3,4) by simp
  note shape = packet_bytes_shaped [OF assms(3) le, of cfg']
  have bytes: "stuff (header_bytes big @ x # packet_bytes cfg' h pl @ rest) =
      stuff ?b3 @ stuff (mDataLen big # [x]) @ ?tail"
    by (simp add: header_bytes_def)
  have hdr: "fst (deframe cfg ?d (stuff ?b3 @ ys)) = fst (deframe cfg (?d\<lparr>df_phase := Collect ?b3\<rparr>) ys)" for ys
    by (subst deframe_collects [where acc = "[]"]) (auto intro: classify_Collect)
  have over: "deframe_decoded cfg (?d\<lparr>df_phase := Collect ?b3\<rparr>) (mDataLen big) = ?d\<lparr>df_phase := Oversized\<rparr>"
    using assms(2) by (simp add: deframe_decoded_Collect classify_def)
  have skip: "deframe_decoded cfg (?d\<lparr>df_phase := Oversized\<rparr>) x = ?d"
    by (simp add: deframe_decoded_def)
  have "fst (deframe cfg ?d (stuff (header_bytes big @ x # packet_bytes cfg' h pl @ rest))) =
      fst (deframe cfg ?d ?tail)"
    unfolding bytes hdr
    using deframe_stuff_Cons [of "?d\<lparr>df_phase := Collect ?b3\<rparr>" cfg "mDataLen big" "[x]" ?tail]
      deframe_stuff_Cons [of "?d\<lparr>df_phase := Oversized\<rparr>" cfg x "[]" ?tail] over skip
    by simp
  also have "\<dots> = ?d\<lparr>df_phase := Packet_ready h pl\<rparr>"
    using deframe_packet [OF shape(1), of ?d "stuff rest"] packet_bytes_crc [OF assms(5)] shape by simp
  finally show ?thesis
    using receive_flag_then [of p cfg "stuff (header_bytes big @ x # packet_bytes cfg' h pl @ rest)"]
      parser_abs_lengths [OF abs] parser_abs_getters [of cfg _ "?d\<lparr>df_phase := Packet_ready h pl\<rparr>" h pl]
    by (metis deframer.select_convs(2) deframer.update_convs(2))
qed

lemma oversized_payload_is_parsed_witness:
  "\<exists>p' n. ndlcomParserReceive (default_config\<lparr>NDLCOM_MAX_PAYLOAD_SIZE := 16\<rparr>)
      (blank_parser (default_config\<lparr>NDLCOM_MAX_PAYLOAD_SIZE := 16\<rparr>))
      (NDLCOM_START_STOP_FLAG # stuff (header_bytes (header_of_bytes [1, 2, 3, 100]) @
        0 # packet_bytes default_config (header_of_bytes [1, 9, 9, 1]) [0x42] @ replicate 92 0)) = Some (p', n) \<and>
    ndlcomParserGetHeader p' = Some (header_of_bytes [1, 9, 9, 1])"
  using oversized_payload_is_parsed [OF parser_wf_blank, of "default_config\<lparr>NDLCOM_MAX_PAYLOAD_SIZE := 16\<rparr>"
      "header_of_bytes [1, 2, 3, 100]" "[0x42]" "header_of_bytes [1, 9, 9, 1]" default_config 0 "replicate 92 0"]
  by (auto simp: default_config_def header_of_bytes_def)


end
