(* ===== verification/Header_Prepare.thy ===== *)
theory Header_Prepare
  imports Packet
begin

text \<open>
  \<open>src/HeaderPrepare.c\<close>: filling in a header, with one 8-bit packet counter per receiver.
\<close>

record NDLComHeaderConfig =
  mCounterForReceiver :: "u8 list" \<comment> \<open>\<open>NDLCOM_MAX_NUMBER_OF_DEVICES\<close> entries of one byte\<close>
  mOwnSenderId :: u8

definition header_config_wf :: "config \<Rightarrow> NDLComHeaderConfig \<Rightarrow> bool" where
  "header_config_wf cfg c \<longleftrightarrow> length (mCounterForReceiver c) = NDLCOM_MAX_NUMBER_OF_DEVICES cfg"

definition memset :: "u8 list \<Rightarrow> u8 \<Rightarrow> nat \<Rightarrow> u8 list" where
  "memset m b n = replicate n b @ drop n m"

definition ndlcomHeaderPrepareInit :: "NDLComHeaderConfig \<Rightarrow> u8 \<Rightarrow> NDLComHeaderConfig" where
  "ndlcomHeaderPrepareInit c ownSenderId =
     c\<lparr>mOwnSenderId := ownSenderId,
       mCounterForReceiver := memset (mCounterForReceiver c) 0 (length (mCounterForReceiver c) div 1)\<rparr>"

text \<open>The header is passed with the contents it had: \<open>mCounter\<close> is not always written.\<close>

definition ndlcomHeaderPrepare ::
  "config \<Rightarrow> NDLComHeaderConfig \<Rightarrow> NDLComHeader \<Rightarrow> u8 \<Rightarrow> u8 \<Rightarrow> NDLComHeaderConfig \<times> NDLComHeader" where
  "ndlcomHeaderPrepare cfg c header receiverId dataLength =
     (let header = header\<lparr>mReceiverId := receiverId, mSenderId := mOwnSenderId c\<rparr>;
          (c, header) =
            (if unat receiverId < NDLCOM_MAX_NUMBER_OF_DEVICES cfg
             then (c\<lparr>mCounterForReceiver :=
                      (mCounterForReceiver c)[unat receiverId := mCounterForReceiver c ! unat receiverId + 1]\<rparr>,
                   header\<lparr>mCounter := mCounterForReceiver c ! unat receiverId\<rparr>)
             else (c, header))
      in (c, header\<lparr>mDataLen := dataLength\<rparr>))"

text \<open>A device that prepares a sequence of headers, for the given receivers and lengths.\<close>

fun prepare_all ::
  "config \<Rightarrow> NDLComHeaderConfig \<Rightarrow> NDLComHeader \<Rightarrow> (u8 \<times> u8) list \<Rightarrow> NDLComHeaderConfig \<times> NDLComHeader list" where
  "prepare_all cfg c junk [] = (c, [])"
| "prepare_all cfg c junk ((receiverId, dataLength) # reqs) =
     (let (c, h) = ndlcomHeaderPrepare cfg c junk receiverId dataLength;
          (c, hs) = prepare_all cfg c junk reqs
      in (c, h # hs))"

lemma header_config_wf_init [simp]:
  "header_config_wf cfg (ndlcomHeaderPrepareInit c own) = header_config_wf cfg c"
  by (simp add: header_config_wf_def ndlcomHeaderPrepareInit_def memset_def)

lemma counter_init [simp]:
  "header_config_wf cfg c \<Longrightarrow> i < NDLCOM_MAX_NUMBER_OF_DEVICES cfg \<Longrightarrow>
    mCounterForReceiver (ndlcomHeaderPrepareInit c own) ! i = 0"
  by (simp add: header_config_wf_def ndlcomHeaderPrepareInit_def memset_def)

lemma prepare_wf [simp]:
  "header_config_wf cfg (fst (ndlcomHeaderPrepare cfg c junk r n)) = header_config_wf cfg c"
  by (simp add: header_config_wf_def ndlcomHeaderPrepare_def Let_def)

lemma prepare_sender [simp]: "mOwnSenderId (fst (ndlcomHeaderPrepare cfg c junk r n)) = mOwnSenderId c"
  by (simp add: ndlcomHeaderPrepare_def Let_def)

lemma prepare_counters:
  assumes "header_config_wf cfg c" and "unat s < NDLCOM_MAX_NUMBER_OF_DEVICES cfg"
  shows "mCounterForReceiver (fst (ndlcomHeaderPrepare cfg c junk r n)) ! unat s =
    mCounterForReceiver c ! unat s + (if r = s then 1 else 0)"
  using assms by (auto simp: word_unat_eq_iff header_config_wf_def ndlcomHeaderPrepare_def Let_def)

lemma prepare_header:
  assumes "unat r < NDLCOM_MAX_NUMBER_OF_DEVICES cfg"
  shows "snd (ndlcomHeaderPrepare cfg c junk r n) =
    \<lparr>mReceiverId = r, mSenderId = mOwnSenderId c, mCounter = mCounterForReceiver c ! unat r, mDataLen = n\<rparr>"
  using assms by (cases junk) (simp add: ndlcomHeaderPrepare_def Let_def)

lemma prepare_all_headers:
  assumes "header_config_wf cfg c" and "\<And>r n. (r, n) \<in> set reqs \<Longrightarrow> unat r < NDLCOM_MAX_NUMBER_OF_DEVICES cfg"
  shows "snd (prepare_all cfg c junk reqs) =
    map (\<lambda>i. \<lparr>mReceiverId = fst (reqs ! i), mSenderId = mOwnSenderId c,
      mCounter = mCounterForReceiver c ! unat (fst (reqs ! i)) +
        of_nat (count_list (map fst (take i reqs)) (fst (reqs ! i))),
      mDataLen = snd (reqs ! i)\<rparr>) [0..<length reqs]"
  using assms
proof (induction reqs arbitrary: c)
  case (Cons req reqs)
  obtain r n where req: "req = (r, n)" by fastforce
  let ?c = "fst (ndlcomHeaderPrepare cfg c junk r n)"
  have r: "unat r < NDLCOM_MAX_NUMBER_OF_DEVICES cfg" using Cons.prems(2) req by auto
  have rs: "\<And>r n. (r, n) \<in> set reqs \<Longrightarrow> unat r < NDLCOM_MAX_NUMBER_OF_DEVICES cfg"
    using Cons.prems(2) by auto
  have in_range: "unat (fst (reqs ! i)) < NDLCOM_MAX_NUMBER_OF_DEVICES cfg" if "i < length reqs" for i
    using rs [of "fst (reqs ! i)" "snd (reqs ! i)"] nth_mem [OF that] by simp
  have IH: "snd (prepare_all cfg ?c junk reqs) =
    map (\<lambda>i. \<lparr>mReceiverId = fst (reqs ! i), mSenderId = mOwnSenderId c,
      mCounter = mCounterForReceiver ?c ! unat (fst (reqs ! i)) +
        of_nat (count_list (map fst (take i reqs)) (fst (reqs ! i))),
      mDataLen = snd (reqs ! i)\<rparr>) [0..<length reqs]"
    using Cons.IH [of ?c] Cons.prems(1) rs by simp
  have "snd (prepare_all cfg c junk (req # reqs)) = snd (ndlcomHeaderPrepare cfg c junk r n) # snd (prepare_all cfg ?c junk reqs)"
    by (simp add: req case_prod_unfold Let_def)
  also have "\<dots> = map (\<lambda>i. \<lparr>mReceiverId = fst ((req # reqs) ! i), mSenderId = mOwnSenderId c,
      mCounter = mCounterForReceiver c ! unat (fst ((req # reqs) ! i)) +
        of_nat (count_list (map fst (take i (req # reqs))) (fst ((req # reqs) ! i))),
      mDataLen = snd ((req # reqs) ! i)\<rparr>) (0 # map Suc [0..<length reqs])"
    using prepare_header [OF r] prepare_counters [OF Cons.prems(1) in_range]
    by (auto simp: IH req)
  also have "0 # map Suc [0..<length reqs] = [0..<length (req # reqs)]"
    unfolding map_Suc_upt by (simp only: list.size upt_conv_Cons [OF zero_less_Suc] add_0 add_Suc_right) simp
  finally show ?case .
qed simp

section \<open>Properties\<close>

text \<open>
  The packet counters. After a device was initialised with its id, the headers it prepares carry
  this id as the sender, and the \<open>i\<close>-th header carries the number of earlier headers for the same
  receiver, modulo 256; sequences for different receivers do not disturb each other.
\<close>

theorem ndlcomHeaderPrepare_counts:
  assumes "header_config_wf cfg c" and "\<forall>(r, n) \<in> set reqs. unat r < NDLCOM_MAX_NUMBER_OF_DEVICES cfg"
  shows "snd (prepare_all cfg (ndlcomHeaderPrepareInit c ownSenderId) junk reqs) =
    map (\<lambda>i. \<lparr>mReceiverId = fst (reqs ! i), mSenderId = ownSenderId,
      mCounter = of_nat (count_list (map fst (take i reqs)) (fst (reqs ! i))),
      mDataLen = snd (reqs ! i)\<rparr>) [0..<length reqs]"
proof -
  let ?c = "ndlcomHeaderPrepareInit c ownSenderId"
  have zero: "mCounterForReceiver ?c ! unat (fst (reqs ! i)) = 0" if "i < length reqs" for i
    using assms nth_mem [OF that] by (intro counter_init) auto
  have own: "mOwnSenderId ?c = ownSenderId" by (simp add: ndlcomHeaderPrepareInit_def)
  have "snd (prepare_all cfg ?c junk reqs) =
    map (\<lambda>i. \<lparr>mReceiverId = fst (reqs ! i), mSenderId = mOwnSenderId ?c,
      mCounter = mCounterForReceiver ?c ! unat (fst (reqs ! i)) +
        of_nat (count_list (map fst (take i reqs)) (fst (reqs ! i))),
      mDataLen = snd (reqs ! i)\<rparr>) [0..<length reqs]"
    using assms by (intro prepare_all_headers) auto
  then show ?thesis using zero own by simp
qed

lemma ndlcomHeaderPrepare_counts_witness:
  "snd (prepare_all default_config (ndlcomHeaderPrepareInit \<lparr>mCounterForReceiver = replicate 256 7, mOwnSenderId = 0\<rparr> 9)
      (header_of_bytes [0, 0, 0, 0]) [(4, 1), (5, 2), (4, 3)]) =
    [\<lparr>mReceiverId = 4, mSenderId = 9, mCounter = 0, mDataLen = 1\<rparr>,
     \<lparr>mReceiverId = 5, mSenderId = 9, mCounter = 0, mDataLen = 2\<rparr>,
     \<lparr>mReceiverId = 4, mSenderId = 9, mCounter = 1, mDataLen = 3\<rparr>]"
  by (subst ndlcomHeaderPrepare_counts)
    (simp_all add: header_config_wf_def default_config_def upt_rec)

end
