(* ===== verification/Routing.thy ===== *)
theory Routing
  imports Packet
begin

text \<open>
  \<open>src/Routing.c\<close>: the table that maps device ids to the interface behind which they were last seen.
  The \<open>void *\<close> of an entry is null, the bridge itself, or an external interface.
\<close>

section \<open>The code\<close>

datatype ptr = Null | Bridge_ptr | Iface_ptr nat

type_synonym NDLComRoutingTable = "ptr list"

definition NDLCOM_ROUTING_ALL_INTERFACES :: ptr where
  "NDLCOM_ROUTING_ALL_INTERFACES = Null"

definition ndlcomRoutingTableInit :: "config \<Rightarrow> NDLComRoutingTable \<Rightarrow> NDLComRoutingTable" where
  "ndlcomRoutingTableInit cfg table =
     fold (\<lambda>i table. table[i := NDLCOM_ROUTING_ALL_INTERFACES]) [0..<NDLCOM_MAX_NUMBER_OF_DEVICES cfg] table"

definition ndlcomRoutingGetDestination :: "config \<Rightarrow> NDLComRoutingTable \<Rightarrow> u8 \<Rightarrow> ptr" where
  "ndlcomRoutingGetDestination cfg table receiverId =
     (if unat receiverId < NDLCOM_MAX_NUMBER_OF_DEVICES cfg then table ! unat receiverId
      else NDLCOM_ROUTING_ALL_INTERFACES)"

definition ndlcomRoutingTableUpdate ::
  "config \<Rightarrow> NDLComRoutingTable \<Rightarrow> u8 \<Rightarrow> ptr \<Rightarrow> NDLComRoutingTable" where
  "ndlcomRoutingTableUpdate cfg table senderId pInterface =
     (if unat senderId \<ge> NDLCOM_MAX_NUMBER_OF_DEVICES cfg then table
      else table[unat senderId := pInterface])"

definition ndlcomRoutingTableInvalidateInterface ::
  "config \<Rightarrow> NDLComRoutingTable \<Rightarrow> ptr \<Rightarrow> NDLComRoutingTable" where
  "ndlcomRoutingTableInvalidateInterface cfg table pInterface =
     fold (\<lambda>i table. if table ! i = pInterface then table[i := NDLCOM_ROUTING_ALL_INTERFACES] else table)
       [0..<NDLCOM_MAX_NUMBER_OF_DEVICES cfg] table"

definition routing_wf :: "config \<Rightarrow> NDLComRoutingTable \<Rightarrow> bool" where
  "routing_wf cfg table \<longleftrightarrow> length table = NDLCOM_MAX_NUMBER_OF_DEVICES cfg"

section \<open>The contract of a routing table\<close>

text \<open>What the users of a routing table rely on, and what follows for histories of its operations.\<close>

datatype routing_op = Learn u8 ptr | Forget ptr

locale routing_table =
  fixes wf :: "'t \<Rightarrow> bool"
    and in_range :: "u8 \<Rightarrow> bool"
    and init :: "'t \<Rightarrow> 't"
    and lookup :: "'t \<Rightarrow> u8 \<Rightarrow> ptr"
    and learn :: "'t \<Rightarrow> u8 \<Rightarrow> ptr \<Rightarrow> 't"
    and forget :: "'t \<Rightarrow> ptr \<Rightarrow> 't"
  assumes wf_init: "wf t \<Longrightarrow> wf (init t)"
    and wf_learn: "wf t \<Longrightarrow> wf (learn t i p)"
    and wf_forget: "wf t \<Longrightarrow> wf (forget t p)"
    and lookup_init: "wf t \<Longrightarrow> lookup (init t) i = Null"
    and lookup_learn: "wf t \<Longrightarrow> lookup (learn t j p) i = (if i = j \<and> in_range j then p else lookup t i)"
    and lookup_forget: "wf t \<Longrightarrow> lookup (forget t p) i = (if lookup t i = p then Null else lookup t i)"
begin

lemmas laws = wf_init wf_learn wf_forget lookup_init lookup_learn lookup_forget

definition run :: "'t \<Rightarrow> routing_op list \<Rightarrow> 't" where
  "run t ops = foldl (\<lambda>t op. case op of Learn i p \<Rightarrow> learn t i p | Forget p \<Rightarrow> forget t p) t ops"

lemma run_Nil [simp]: "run t [] = t"
  by (simp add: run_def)

lemma run_snoc: "run t (ops @ [op]) = (case op of Learn i p \<Rightarrow> learn (run t ops) i p | Forget p \<Rightarrow> forget (run t ops) p)"
  by (cases op) (simp_all add: run_def)

lemma wf_run: "wf t \<Longrightarrow> wf (run t ops)"
  by (induction ops rule: rev_induct) (simp_all add: run_snoc laws split: routing_op.split)

lemma forgotten: "wf t \<Longrightarrow> p \<noteq> Null \<Longrightarrow> lookup (forget t p) i \<noteq> p"
  by (simp add: lookup_forget)

lemma lookup_out_of_range:
  assumes "wf t" and "lookup t i = Null" and "\<not> in_range i"
  shows "lookup (run t ops) i = Null"
  using assms by (induction ops rule: rev_induct) (auto simp: run_snoc laws wf_run split: routing_op.split)

text \<open>A pointer that is in the table was learned for this id, and neither replaced nor forgotten since.\<close>

lemma lookup_run:
  assumes "wf t" and "lookup t i = Null" and "lookup (run t ops) i = p" and "p \<noteq> Null"
  shows "\<exists>before after. ops = before @ Learn i p # after \<and> Forget p \<notin> set after \<and> (\<forall>q. Learn i q \<notin> set after)"
  using assms(3)
proof (induction ops rule: rev_induct)
  case Nil
  then show ?case using assms by simp
next
  case (snoc op ops)
  note wf = wf_run [OF assms(1), of ops]
  have in_range: "in_range i" using lookup_out_of_range [OF assms(1,2)] snoc.prems assms(4) by blast
  show ?case
  proof (cases "op = Learn i p")
    case True
    then show ?thesis by (metis empty_iff empty_set)
  next
    case False
    then have "lookup (run t ops) i = p \<and> op \<noteq> Forget p \<and> (\<forall>q. op \<noteq> Learn i q)"
      using snoc.prems assms(4) wf in_range by (cases op) (auto simp: run_snoc laws split: if_splits)
    with snoc.IH obtain before after where "ops = before @ Learn i p # after" "Forget p \<notin> set after"
      "\<forall>q. Learn i q \<notin> set after" "op \<noteq> Forget p" "\<forall>q. op \<noteq> Learn i q" by blast
    then show ?thesis by (intro exI [of _ before] exI [of _ "after @ [op]"]) auto
  qed
qed

end

section \<open>The code keeps the contract\<close>

lemma fold_set_Null:
  "n \<le> length t \<Longrightarrow> fold (\<lambda>i t. t[i := x]) [0..<n] t = replicate n x @ drop n t"
proof (induction n)
  case (Suc n)
  then have "drop n t = t ! n # drop (Suc n) t" by (simp add: Cons_nth_drop_Suc)
  with Suc show ?case by (simp add: list_update_append replicate_app_Cons_same)
qed simp

lemma fold_invalidate:
  "n \<le> length t \<Longrightarrow> fold (\<lambda>i t. if t ! i = p then t[i := x] else t) [0..<n] t =
    map (\<lambda>q. if q = p then x else q) (take n t) @ drop n t"
proof (induction n)
  case (Suc n)
  then have "drop n t = t ! n # drop (Suc n) t" by (simp add: Cons_nth_drop_Suc)
  with Suc show ?case by (auto simp: take_Suc_conv_app_nth nth_append list_update_append)
qed simp

lemma routing_init_eq:
  "routing_wf cfg t \<Longrightarrow> ndlcomRoutingTableInit cfg t = replicate (NDLCOM_MAX_NUMBER_OF_DEVICES cfg) Null"
  by (simp add: routing_wf_def ndlcomRoutingTableInit_def fold_set_Null NDLCOM_ROUTING_ALL_INTERFACES_def)

lemma routing_invalidate_eq:
  "routing_wf cfg t \<Longrightarrow> ndlcomRoutingTableInvalidateInterface cfg t p = map (\<lambda>q. if q = p then Null else q) t"
  by (simp add: routing_wf_def ndlcomRoutingTableInvalidateInterface_def fold_invalidate
      NDLCOM_ROUTING_ALL_INTERFACES_def)

lemmas routing_defs = routing_wf_def ndlcomRoutingGetDestination_def ndlcomRoutingTableUpdate_def
  NDLCOM_ROUTING_ALL_INTERFACES_def

interpretation rt: routing_table "routing_wf cfg" "\<lambda>i. unat i < NDLCOM_MAX_NUMBER_OF_DEVICES cfg"
  "ndlcomRoutingTableInit cfg" "ndlcomRoutingGetDestination cfg" "ndlcomRoutingTableUpdate cfg"
  "ndlcomRoutingTableInvalidateInterface cfg" for cfg
proof unfold_locales
  show "routing_wf cfg (ndlcomRoutingTableInvalidateInterface cfg t p)" if "routing_wf cfg t" for t p
    using that by (simp add: routing_invalidate_eq) (simp add: routing_wf_def)
  show "ndlcomRoutingGetDestination cfg (ndlcomRoutingTableInvalidateInterface cfg t p) i =
      (if ndlcomRoutingGetDestination cfg t i = p then Null else ndlcomRoutingGetDestination cfg t i)"
    if "routing_wf cfg t" for t p i
    using that by (simp add: routing_invalidate_eq) (simp add: routing_defs)
qed (auto simp: routing_init_eq routing_defs word_unat_eq_iff [symmetric] nth_list_update)

section \<open>Properties\<close>

text \<open>The operations of the bridge on its table, as a history.\<close>

fun routing_step :: "config \<Rightarrow> NDLComRoutingTable \<Rightarrow> routing_op \<Rightarrow> NDLComRoutingTable" where
  "routing_step cfg table (Learn senderId pInterface) = ndlcomRoutingTableUpdate cfg table senderId pInterface"
| "routing_step cfg table (Forget pInterface) = ndlcomRoutingTableInvalidateInterface cfg table pInterface"

lemma foldl_routing_step: "foldl (routing_step cfg) t ops = rt.run cfg t ops"
  by (simp add: rt.run_def) (rule foldl_cong; auto split: routing_op.split)

text \<open>
  C19: what a lookup may return. After the table was initialised and any history of updates and
  invalidations, a destination other than "all interfaces" was learned for exactly this id, and since
  then neither was another destination learned for it nor was this interface invalidated.
\<close>

theorem routing_destination_was_learned:
  assumes "routing_wf cfg table"
    and "ndlcomRoutingGetDestination cfg
      (foldl (routing_step cfg) (ndlcomRoutingTableInit cfg table) ops) receiverId = p"
    and "p \<noteq> NDLCOM_ROUTING_ALL_INTERFACES"
  shows "\<exists>before after. ops = before @ Learn receiverId p # after \<and> Forget p \<notin> set after \<and>
    (\<forall>q. Learn receiverId q \<notin> set after)"
  using rt.lookup_run [OF rt.wf_init rt.lookup_init] assms
  by (simp add: foldl_routing_step NDLCOM_ROUTING_ALL_INTERFACES_def)

lemma routing_destination_was_learned_witness:
  "\<exists>before after. [Learn 1 (Iface_ptr 0), Learn 2 (Iface_ptr 1), Forget (Iface_ptr 0)] =
    before @ Learn 2 (Iface_ptr 1) # after \<and> Forget (Iface_ptr 1) \<notin> set after"
proof -
  have wf: "routing_wf default_config (replicate 256 Null)" by (simp add: routing_wf_def default_config_def)
  have dest: "ndlcomRoutingGetDestination default_config
      (foldl (routing_step default_config) (ndlcomRoutingTableInit default_config (replicate 256 Null))
        [Learn 1 (Iface_ptr 0), Learn 2 (Iface_ptr 1), Forget (Iface_ptr 0)]) 2 = Iface_ptr 1"
    using wf by (simp add: rt.laws) (simp add: default_config_def)
  show ?thesis
    using routing_destination_was_learned [OF wf dest] by (simp add: NDLCOM_ROUTING_ALL_INTERFACES_def) blast
qed

end
