(* ===== verification/Linked_List.thy ===== *)
theory Linked_List
  imports Ndl_Prelude
begin

text \<open>
  \<open>include/ndlcom/list.h\<close>: circular doubly linked lists that are threaded through the structures they
  link. The store of the links maps the address of a \<open>struct list_head\<close> to its two pointers; an
  operation returns the store with the writes the code does, in the order it does them. \<open>dlist\<close>
  relates a head in the store to the list of the entries behind it.
\<close>

section \<open>The code\<close>

record 'n links =
  lnext :: "'n \<Rightarrow> 'n"
  lprev :: "'n \<Rightarrow> 'n"

definition set_next :: "'n \<Rightarrow> 'n \<Rightarrow> 'n links \<Rightarrow> 'n links" where
  "set_next x y l = l\<lparr>lnext := (lnext l)(x := y)\<rparr>"

definition set_prev :: "'n \<Rightarrow> 'n \<Rightarrow> 'n links \<Rightarrow> 'n links" where
  "set_prev x y l = l\<lparr>lprev := (lprev l)(x := y)\<rparr>"

definition INIT_LIST_HEAD :: "'n \<Rightarrow> 'n links \<Rightarrow> 'n links" where
  "INIT_LIST_HEAD list l = set_prev list list (set_next list list l)"

definition list_add_between :: "'n \<Rightarrow> 'n \<Rightarrow> 'n \<Rightarrow> 'n links \<Rightarrow> 'n links" where
  "list_add_between inew p n l =
     set_next p inew (set_prev inew p (set_next inew n (set_prev n inew l)))"

definition list_add :: "'n \<Rightarrow> 'n \<Rightarrow> 'n links \<Rightarrow> 'n links" where
  "list_add inew head l = list_add_between inew head (lnext l head) l"

definition list_add_tail :: "'n \<Rightarrow> 'n \<Rightarrow> 'n links \<Rightarrow> 'n links" where
  "list_add_tail inew head l = list_add_between inew (lprev l head) head l"

definition list_del_between :: "'n \<Rightarrow> 'n \<Rightarrow> 'n links \<Rightarrow> 'n links" where
  "list_del_between p n l = set_next p n (set_prev n p l)"

definition list_del_entry :: "'n \<Rightarrow> 'n links \<Rightarrow> 'n links" where
  "list_del_entry entry l = list_del_between (lprev l entry) (lnext l entry) l"

text \<open>The two poison addresses are arguments: they are not nodes of the program.\<close>

definition list_del :: "'n \<Rightarrow> 'n \<Rightarrow> 'n \<Rightarrow> 'n links \<Rightarrow> 'n links" where
  "list_del LIST_POISON1 LIST_POISON2 entry l =
     set_prev entry LIST_POISON2 (set_next entry LIST_POISON1 (list_del_entry entry l))"

definition list_replace :: "'n \<Rightarrow> 'n \<Rightarrow> 'n links \<Rightarrow> 'n links" where
  "list_replace old inew l =
     (let l = set_next inew (lnext l old) l;
          l = set_prev (lnext l inew) inew l;
          l = set_prev inew (lprev l old) l
      in set_next (lprev l inew) inew l)"

definition list_replace_init :: "'n \<Rightarrow> 'n \<Rightarrow> 'n links \<Rightarrow> 'n links" where
  "list_replace_init old inew l = INIT_LIST_HEAD old (list_replace old inew l)"

definition list_del_init :: "'n \<Rightarrow> 'n links \<Rightarrow> 'n links" where
  "list_del_init entry l = INIT_LIST_HEAD entry (list_del_entry entry l)"

definition list_move :: "'n \<Rightarrow> 'n \<Rightarrow> 'n links \<Rightarrow> 'n links" where
  "list_move list head l = list_add list head (list_del_entry list l)"

definition list_move_tail :: "'n \<Rightarrow> 'n \<Rightarrow> 'n links \<Rightarrow> 'n links" where
  "list_move_tail list head l = list_add_tail list head (list_del_entry list l)"

definition list_is_last :: "'n \<Rightarrow> 'n \<Rightarrow> 'n links \<Rightarrow> bool" where
  "list_is_last list head l \<longleftrightarrow> lnext l list = head"

definition list_empty :: "'n links \<Rightarrow> 'n \<Rightarrow> bool" where
  "list_empty l head \<longleftrightarrow> lnext l head = head"

definition list_empty_careful :: "'n links \<Rightarrow> 'n \<Rightarrow> bool" where
  "list_empty_careful l head \<longleftrightarrow> lnext l head = head \<and> lnext l head = lprev l head"

definition list_rotate_left :: "'n \<Rightarrow> 'n links \<Rightarrow> 'n links" where
  "list_rotate_left head l = (if \<not> list_empty l head then list_move_tail (lnext l head) head l else l)"

definition list_is_singular :: "'n \<Rightarrow> 'n links \<Rightarrow> bool" where
  "list_is_singular head l \<longleftrightarrow> \<not> list_empty l head \<and> lnext l head = lprev l head"

definition list_cut_position_inner :: "'n \<Rightarrow> 'n \<Rightarrow> 'n \<Rightarrow> 'n links \<Rightarrow> 'n links" where
  "list_cut_position_inner list head entry l =
     (let new_first = lnext l entry;
          l = set_next list (lnext l head) l;
          l = set_prev (lnext l list) list l;
          l = set_prev list entry l;
          l = set_next entry list l;
          l = set_next head new_first l
      in set_prev new_first head l)"

definition list_cut_position :: "'n \<Rightarrow> 'n \<Rightarrow> 'n \<Rightarrow> 'n links \<Rightarrow> 'n links" where
  "list_cut_position list head entry l =
     (if list_empty l head then l
      else if list_is_singular head l \<and> lnext l head \<noteq> entry \<and> head \<noteq> entry then l
      else if entry = head then INIT_LIST_HEAD list l
      else list_cut_position_inner list head entry l)"

definition list_splice_between :: "'n \<Rightarrow> 'n \<Rightarrow> 'n \<Rightarrow> 'n links \<Rightarrow> 'n links" where
  "list_splice_between list p n l =
     (let first = lnext l list; last = lprev l list
      in set_prev n last (set_next last n (set_next p first (set_prev first p l))))"

definition list_splice :: "'n \<Rightarrow> 'n \<Rightarrow> 'n links \<Rightarrow> 'n links" where
  "list_splice list head l =
     (if \<not> list_empty l list then list_splice_between list head (lnext l head) l else l)"

definition list_splice_tail :: "'n \<Rightarrow> 'n \<Rightarrow> 'n links \<Rightarrow> 'n links" where
  "list_splice_tail list head l =
     (if \<not> list_empty l list then list_splice_between list (lprev l head) head l else l)"

definition list_splice_init :: "'n \<Rightarrow> 'n \<Rightarrow> 'n links \<Rightarrow> 'n links" where
  "list_splice_init list head l =
     (if \<not> list_empty l list then INIT_LIST_HEAD list (list_splice_between list head (lnext l head) l) else l)"

definition list_splice_tail_init :: "'n \<Rightarrow> 'n \<Rightarrow> 'n links \<Rightarrow> 'n links" where
  "list_splice_tail_init list head l =
     (if \<not> list_empty l list then INIT_LIST_HEAD list (list_splice_between list (lprev l head) head l) else l)"

text \<open>
  The iteration macros. The program state holds the links, so a loop body may change the list it is
  called from; a loop that does not end has the value \<open>None\<close>, as has a body that does not return.
\<close>

partial_function (option) list_for_each_entry ::
  "('s \<Rightarrow> 'n links) \<Rightarrow> 'n \<Rightarrow> ('n \<Rightarrow> 's \<Rightarrow> 's option) \<Rightarrow> 'n \<Rightarrow> 's \<Rightarrow> 's option" where
  "list_for_each_entry links head body pos s =
     (if pos = head then Some s
      else do { s \<leftarrow> body pos s; list_for_each_entry links head body (lnext (links s) pos) s })"

text \<open>The loops that look for an entry and return from inside the loop.\<close>

partial_function (option) list_search_entry :: "'n links \<Rightarrow> 'n \<Rightarrow> ('n \<Rightarrow> bool) \<Rightarrow> 'n \<Rightarrow> bool option" where
  "list_search_entry l head P pos =
     (if pos = head then Some False
      else if P pos then Some True
      else list_search_entry l head P (lnext l pos))"

text \<open>
  \<open>list_for_each_entry_safe\<close> with the macro \<open>CHECK_LIST_IN_LOOP\<close> of \<open>src/Bridge.c\<close> at the end of its body.
  The body says whether it gets to the macro or was left by a \<open>continue\<close> before it.
\<close>

partial_function (option) list_for_each_entry_safe ::
  "('s \<Rightarrow> 'n links) \<Rightarrow> 'n \<Rightarrow> ('n \<Rightarrow> 's \<Rightarrow> ('s \<times> bool) option) \<Rightarrow> 'n \<Rightarrow> 'n \<Rightarrow> 's \<Rightarrow> 's option" where
  "list_for_each_entry_safe links head body pos n s =
     (if pos = head then Some s
      else do {
        (s, check) \<leftarrow> body pos s;
        let (pos, n) =
          (if check \<and> list_empty (links s) pos then (n, n)
           else if check \<and> list_empty (links s) n then (pos, pos)
           else (pos, n));
        list_for_each_entry_safe links head body n (lnext (links s) n) s
      })"

section \<open>Reading after a write\<close>

lemma lnext_set_next [ptr_simps]: "lnext (set_next x y l) = (lnext l)(x := y)"
  by (simp add: set_next_def)

lemma lprev_set_next [ptr_simps]: "lprev (set_next x y l) = lprev l"
  by (simp add: set_next_def)

lemma lnext_set_prev [ptr_simps]: "lnext (set_prev x y l) = lnext l"
  by (simp add: set_prev_def)

lemma lprev_set_prev [ptr_simps]: "lprev (set_prev x y l) = (lprev l)(x := y)"
  by (simp add: set_prev_def)

section \<open>Chains of links\<close>

fun chain :: "'n links \<Rightarrow> 'n list \<Rightarrow> bool" where
  "chain l [] = True"
| "chain l [x] = True"
| "chain l (x # y # zs) = (lnext l x = y \<and> lprev l y = x \<and> chain l (y # zs))"

lemma chain_join: "chain l (xs @ y # ys) \<longleftrightarrow> chain l (xs @ [y]) \<and> chain l (y # ys)"
proof (induction xs)
  case (Cons x xs)
  then show ?case by (cases xs) auto
qed simp

lemma chain_edge: "chain l (xs @ p # n # ys) \<longleftrightarrow>
    chain l (xs @ [p]) \<and> lnext l p = n \<and> lprev l n = p \<and> chain l (n # ys)"
  using chain_join [of l xs p "n # ys"] by auto

lemma chain_set_next: "p \<notin> set (butlast xs) \<Longrightarrow> chain (set_next p v l) xs = chain l xs"
  by (induction l xs rule: chain.induct) (auto simp: ptr_simps)

lemma chain_set_prev: "p \<notin> set (tl xs) \<Longrightarrow> chain (set_prev p v l) xs = chain l xs"
proof (induction l xs rule: chain.induct)
  case (3 l x y zs)
  then show ?case by (cases zs) (auto simp: ptr_simps)
qed simp_all

lemma chain_cong:
  "(\<And>n. n \<in> set xs \<Longrightarrow> lnext l n = lnext l' n \<and> lprev l n = lprev l' n) \<Longrightarrow> chain l xs = chain l' xs"
  by (induction l xs rule: chain.induct) simp_all

section \<open>Circular lists\<close>

definition dlist :: "'n links \<Rightarrow> 'n \<Rightarrow> 'n list \<Rightarrow> bool" where
  "dlist l h xs \<longleftrightarrow> distinct (h # xs) \<and> chain l (h # xs @ [h])"

lemma dlist_distinct: "dlist l h xs \<Longrightarrow> distinct (h # xs)"
  by (simp add: dlist_def)

lemma dlist_frame:
  "dlist l h xs \<Longrightarrow> (\<And>n. n = h \<or> n \<in> set xs \<Longrightarrow> lnext l' n = lnext l n \<and> lprev l' n = lprev l n) \<Longrightarrow>
    dlist l' h xs"
  unfolding dlist_def using chain_cong [of "h # xs @ [h]" l l'] by auto

text \<open>The edges of a circular list: behind every prefix comes the rest, or the head again.\<close>

lemma dlist_cut:
  assumes "dlist l h (xs @ ys)"
  obtains as p n bs where "h # xs = as @ [p]" "ys @ [h] = n # bs" "p = last (h # xs)" "n = hd (ys @ [h])"
    "set as \<subseteq> set (h # xs)" "set bs \<subseteq> set (ys @ [h])"
    "p \<notin> set as" "n \<notin> set bs" "n \<notin> set (tl (h # xs))" "p \<notin> set ys"
    "chain l (h # xs)" "chain l (ys @ [h])" "lnext l p = n" "lprev l n = p"
proof -
  define as where "as = butlast (h # xs)"
  define p where "p = last (h # xs)"
  define n where "n = hd (ys @ [h])"
  define bs where "bs = tl (ys @ [h])"
  have l: "h # xs = as @ [p]" and r: "ys @ [h] = n # bs"
    by (simp_all add: as_def p_def n_def bs_def)
  have dist: "distinct (h # xs @ ys)" using assms by (simp add: dlist_def)
  have dl: "distinct (as @ [p])" using dist unfolding l [symmetric] by auto
  have dr: "distinct (n # bs)" using dist unfolding r [symmetric] by auto
  have "chain l (as @ p # n # bs)"
    using assms l r by (simp add: dlist_def) (metis append_Cons append_assoc append_Nil)
  then have c: "chain l (as @ [p])" "lnext l p = n" "lprev l n = p" "chain l (n # bs)"
    by (simp_all add: chain_edge)
  have "n \<notin> set (tl (h # xs))" using dist unfolding n_def by (cases ys) auto
  moreover have "p \<notin> set ys" using dist unfolding p_def by (cases xs rule: rev_cases) auto
  moreover have "set as \<subseteq> set (h # xs)" "set bs \<subseteq> set (ys @ [h])" unfolding l r by auto
  moreover have "p \<notin> set as" "n \<notin> set bs" using dl dr by auto
  moreover have "chain l (h # xs)" "chain l (ys @ [h])" unfolding l r by (rule c)+
  ultimately show thesis
    by (intro that [OF l r p_def n_def] c)
qed

lemma dlist_next: "dlist l h (xs @ ys) \<Longrightarrow> lnext l (last (h # xs)) = hd (ys @ [h])"
  by (erule dlist_cut) (simp only:)

lemma dlist_prev: "dlist l h (xs @ ys) \<Longrightarrow> lprev l (hd (ys @ [h])) = last (h # xs)"
  by (erule dlist_cut) (simp only:)

lemma dlist_first: "dlist l h xs \<Longrightarrow> lnext l h = hd (xs @ [h])"
  using dlist_next [of l h "[]" xs] by simp

lemma dlist_last: "dlist l h xs \<Longrightarrow> lprev l h = last (h # xs)"
  using dlist_prev [of l h xs "[]"] by simp

lemma dlist_entry_next: "dlist l h (xs @ x # ys) \<Longrightarrow> lnext l x = hd (ys @ [h])"
  using dlist_next [of l h "xs @ [x]" ys] by simp

lemma dlist_entry_prev: "dlist l h (xs @ x # ys) \<Longrightarrow> lprev l x = last (h # xs)"
  using dlist_prev [of l h xs "x # ys"] by simp

lemma dlist_empty_iff: "dlist l h xs \<Longrightarrow> list_empty l h \<longleftrightarrow> xs = []"
  using dlist_first [of l h xs] dlist_distinct [of l h xs] by (cases xs) (auto simp: list_empty_def)

lemma dlist_entry_not_empty: "dlist l h xs \<Longrightarrow> x \<in> set xs \<Longrightarrow> \<not> list_empty l x"
proof -
  assume d: "dlist l h xs" and x: "x \<in> set xs"
  from split_list [OF x] obtain us vs where xs: "xs = us @ x # vs" by blast
  have "lnext l x = hd (vs @ [h])" using dlist_entry_next d xs by metis
  then show ?thesis using dlist_distinct [OF d] xs by (cases vs) (auto simp: list_empty_def)
qed

section \<open>What the operations do\<close>

lemma dlist_INIT: "dlist (INIT_LIST_HEAD h l) h []"
  by (simp add: dlist_def INIT_LIST_HEAD_def ptr_simps)

lemma dlist_add_between:
  assumes "dlist l h (xs @ ys)" and "x \<notin> set (h # xs @ ys)" and "p = last (h # xs)" and "n = hd (ys @ [h])"
  shows "dlist (list_add_between x p n l) h (xs @ x # ys)"
proof -
  let ?l = "list_add_between x p n l"
  obtain as bs where ab: "h # xs = as @ [p]" "ys @ [h] = n # bs"
    "set as \<subseteq> set (h # xs)" "set bs \<subseteq> set (ys @ [h])"
    "p \<notin> set as" "n \<notin> set bs" "n \<notin> set (tl (h # xs))" "p \<notin> set ys"
    "chain l (h # xs)" "chain l (ys @ [h])" "lnext l p = n" "lprev l n = p"
    using dlist_cut [OF assms(1)] assms(3,4) by metis
  have px: "p \<noteq> x" "n \<noteq> x" using assms(2,3,4) by (cases xs rule: rev_cases; cases ys; auto)+
  have bl: "butlast (h # xs) = as" using ab(1) by (metis butlast_snoc)
  have tl: "tl (ys @ [h]) = bs" using ab(2) by (metis list.sel(3))
  have xas: "x \<notin> set as" "x \<notin> set bs" "x \<notin> set (tl (h # xs))" "x \<notin> set ys" using ab(3,4) assms(2) by auto
  have left: "chain ?l (h # xs)"
    unfolding list_add_between_def
    using ab(5,7,9) xas by (simp add: chain_set_next chain_set_prev bl del: butlast.simps)
  have right: "chain ?l (ys @ [h])"
    unfolding list_add_between_def
    using ab(6,8,10) xas by (simp add: chain_set_next chain_set_prev tl)
  have edges: "lnext ?l p = x" "lprev ?l x = p" "lnext ?l x = n" "lprev ?l n = x"
    using px by (auto simp: list_add_between_def ptr_simps)
  have "chain ?l (x # n # bs)" using right edges ab(2) by simp
  then have "chain ?l (as @ p # x # n # bs)"
    using left edges ab(1) by (simp only: chain_edge simp_thms)
  also have "as @ p # x # n # bs = h # (xs @ x # ys) @ [h]"
    using ab(1,2) by (metis append_Cons append_assoc append_Nil)
  finally show ?thesis using assms(1,2) by (auto simp: dlist_def)
qed

lemma dlist_add: "dlist l h xs \<Longrightarrow> x \<notin> set (h # xs) \<Longrightarrow> dlist (list_add x h l) h (x # xs)"
  using dlist_add_between [of l h "[]" xs x] dlist_first [of l h xs] by (simp add: list_add_def)

lemma dlist_add_tail: "dlist l h xs \<Longrightarrow> x \<notin> set (h # xs) \<Longrightarrow> dlist (list_add_tail x h l) h (xs @ [x])"
  using dlist_add_between [of l h xs "[]" x] dlist_last [of l h xs] by (simp add: list_add_tail_def)

lemma dlist_del_between:
  assumes "dlist l h (xs @ x # ys)" and "p = last (h # xs)" and "n = hd (ys @ [h])"
  shows "dlist (list_del_between p n l) h (xs @ ys)"
proof -
  let ?l = "list_del_between p n l"
  have dist: "distinct (h # xs @ x # ys)" using assms(1) by (rule dlist_distinct)
  have c: "chain l (h # xs @ [x])" "chain l (x # ys @ [h])"
    using assms(1) chain_join [of l "h # xs" x "ys @ [h]"] by (simp_all add: dlist_def)
  define as where "as = butlast (h # xs)"
  define bs where "bs = tl (ys @ [h])"
  have l: "h # xs = as @ [p]" and r: "ys @ [h] = n # bs"
    by (simp_all add: as_def assms bs_def)
  have left: "chain l (h # xs)" using c(1) chain_join [of l as p "[x]"] l by (metis append_Cons append_assoc append_Nil)
  have right: "chain l (ys @ [h])" using c(2) by (cases ys) auto
  have n_tl: "n \<notin> set (tl (h # xs))" "n \<notin> set (tl (ys @ [h]))" using dist assms(3) by (cases ys; auto)+
  have p_bl: "p \<notin> set (butlast (h # xs))" "p \<notin> set ys"
    using dist assms(2) by (cases xs rule: rev_cases; auto)+
  have left': "chain ?l (h # xs)"
    unfolding list_del_between_def using left n_tl(1) p_bl(1)
    by (simp add: chain_set_next chain_set_prev del: butlast.simps)
  have right': "chain ?l (ys @ [h])"
    unfolding list_del_between_def using right n_tl(2) p_bl(2) by (simp add: chain_set_next chain_set_prev)
  have edges: "lnext ?l p = n" "lprev ?l n = p" by (simp_all add: list_del_between_def ptr_simps)
  have "chain ?l (as @ p # n # bs)"
    using left' right' edges by (simp only: l r chain_edge simp_thms)
  also have "as @ p # n # bs = h # (xs @ ys) @ [h]"
    using l r by (metis append_Cons append_assoc append_Nil)
  finally show ?thesis using dist by (simp add: dlist_def)
qed

lemma dlist_del_entry: "dlist l h (xs @ x # ys) \<Longrightarrow> dlist (list_del_entry x l) h (xs @ ys)"
  unfolding list_del_entry_def
  by (rule dlist_del_between) (simp_all only: dlist_entry_prev dlist_entry_next)

text \<open>The ends of a cut list belong to it.\<close>

lemma last_in: "last (h # xs) \<in> set (h # xs)"
  by (rule last_in_set) simp

lemma hd_in: "hd (ys @ [h]) \<in> set (h # ys)"
  by (cases ys) simp_all

lemma list_add_untouched:
  assumes "dlist l h xs" and "m \<notin> set (h # xs)" and "m \<noteq> x"
  shows "lnext (list_add x h l) m = lnext l m \<and> lprev (list_add x h l) m = lprev l m"
  using assms hd_in [of xs h] dlist_first [OF assms(1)]
  by (auto simp: list_add_def list_add_between_def ptr_simps)

lemma list_add_tail_untouched:
  assumes "dlist l h xs" and "m \<notin> set (h # xs)" and "m \<noteq> x"
  shows "lnext (list_add_tail x h l) m = lnext l m \<and> lprev (list_add_tail x h l) m = lprev l m"
  using assms last_in [of h xs] dlist_last [OF assms(1)]
  by (auto simp: list_add_tail_def list_add_between_def ptr_simps)

lemma list_del_entry_untouched:
  assumes "dlist l h (xs @ x # ys)" and "m \<notin> set (h # xs @ ys)"
  shows "lnext (list_del_entry x l) m = lnext l m \<and> lprev (list_del_entry x l) m = lprev l m"
proof -
  have "m \<noteq> last (h # xs)" "m \<noteq> hd (ys @ [h])"
    using assms(2) last_in [of h xs] hd_in [of ys h] by auto
  then show ?thesis
    using dlist_entry_prev [OF assms(1)] dlist_entry_next [OF assms(1)]
    by (auto simp: list_del_entry_def list_del_between_def ptr_simps)
qed

lemma INIT_LIST_HEAD_untouched:
  "m \<noteq> x \<Longrightarrow> lnext (INIT_LIST_HEAD x l) m = lnext l m \<and> lprev (INIT_LIST_HEAD x l) m = lprev l m"
  by (simp add: INIT_LIST_HEAD_def ptr_simps)

lemma dlist_del_init:
  assumes "dlist l h (xs @ x # ys)"
  shows "dlist (list_del_init x l) h (xs @ ys)" and "dlist (list_del_init x l) x []"
proof -
  have "x \<notin> set (h # xs @ ys)" using dlist_distinct [OF assms] by auto
  then show "dlist (list_del_init x l) h (xs @ ys)"
    unfolding list_del_init_def
    by (intro dlist_frame [OF dlist_del_entry [OF assms]] INIT_LIST_HEAD_untouched) auto
  show "dlist (list_del_init x l) x []" unfolding list_del_init_def by (rule dlist_INIT)
qed

lemma list_del_init_untouched:
  assumes "dlist l h (xs @ x # ys)" and "m \<notin> set (h # xs @ x # ys)"
  shows "lnext (list_del_init x l) m = lnext l m \<and> lprev (list_del_init x l) m = lprev l m"
  using assms list_del_entry_untouched [OF assms(1), of m] INIT_LIST_HEAD_untouched [of m x]
  by (simp add: list_del_init_def)

lemma dlist_move_tail:
  assumes "dlist l h (xs @ x # ys)"
  shows "dlist (list_move_tail x h l) h (xs @ ys @ [x])"
proof -
  have "x \<notin> set (h # xs @ ys)" using dlist_distinct [OF assms] by auto
  from dlist_add_tail [OF dlist_del_entry [OF assms] this] show ?thesis by (simp add: list_move_tail_def)
qed

lemma dlist_move:
  assumes "dlist l h (xs @ x # ys)"
  shows "dlist (list_move x h l) h (x # xs @ ys)"
proof -
  have "x \<notin> set (h # xs @ ys)" using dlist_distinct [OF assms] by auto
  from dlist_add [OF dlist_del_entry [OF assms] this] show ?thesis by (simp add: list_move_def)
qed

lemma dlist_rotate_left: "dlist l h xs \<Longrightarrow> dlist (list_rotate_left h l) h (rotate1 xs)"
proof (cases xs)
  case Nil
  then show "dlist l h xs \<Longrightarrow> ?thesis" using dlist_empty_iff [of l h "[]"] by (simp add: list_rotate_left_def)
next
  case (Cons x ys)
  assume d: "dlist l h xs"
  have "\<not> list_empty l h" using dlist_empty_iff [OF d] Cons by simp
  moreover have "lnext l h = x" using dlist_first [OF d] Cons by simp
  ultimately show ?thesis
    using dlist_move_tail [of l h "[]" x ys] d Cons by (simp add: list_rotate_left_def)
qed

lemma dlist_singular: "dlist l h xs \<Longrightarrow> list_is_singular h l \<longleftrightarrow> length xs = 1"
  using dlist_empty_iff [of l h xs] dlist_first [of l h xs] dlist_last [of l h xs] dlist_distinct [of l h xs]
  by (cases xs; cases xs rule: rev_cases) (auto simp: list_is_singular_def)

lemma dlist_is_last: "dlist l h (xs @ x # ys) \<Longrightarrow> list_is_last x h l \<longleftrightarrow> ys = []"
  using dlist_entry_next [of l h xs x ys] dlist_distinct [of l h "xs @ x # ys"]
  by (cases ys) (auto simp: list_is_last_def)

lemma dlist_empty_careful: "dlist l h xs \<Longrightarrow> list_empty_careful l h \<longleftrightarrow> xs = []"
  using dlist_first [of l h xs] dlist_last [of l h xs] dlist_distinct [of l h xs]
  by (cases xs) (auto simp: list_empty_careful_def)

lemma dlist_replace_entry:
  assumes "dlist l h (xs @ x # ys)" and "y \<notin> set (h # xs @ x # ys)"
  shows "dlist (list_replace x y l) h (xs @ y # ys)"
proof -
  let ?p = "last (h # xs)" and ?n = "hd (ys @ [h])"
  have x: "lprev l x = ?p" "lnext l x = ?n"
    using assms(1) by (rule dlist_entry_prev, rule dlist_entry_next)
  have y: "?p \<noteq> y" "?n \<noteq> y" "?p \<noteq> x" "?n \<noteq> x"
    using assms last_in [of h xs] hd_in [of ys h] dlist_distinct [OF assms(1)] by auto
  have "dlist (list_add_between y ?p ?n (list_del_entry x l)) h (xs @ y # ys)"
    using dlist_add_between [OF dlist_del_entry [OF assms(1)]] assms(2) by simp
  moreover have "lnext (list_replace x y l) m = lnext (list_add_between y ?p ?n (list_del_entry x l)) m \<and>
      lprev (list_replace x y l) m = lprev (list_add_between y ?p ?n (list_del_entry x l)) m" for m
    using x y by (simp add: list_replace_def list_add_between_def list_del_entry_def list_del_between_def
        ptr_simps Let_def)
  ultimately show ?thesis by (rule dlist_frame)
qed

section \<open>Cutting and joining\<close>

lemma chain_dlist: "distinct (h # xs) \<Longrightarrow> chain l (h # xs) \<Longrightarrow>
    lnext l (last (h # xs)) = h \<Longrightarrow> lprev l h = last (h # xs) \<Longrightarrow> dlist l h xs"
  using chain_edge [of l "butlast (h # xs)" "last (h # xs)" h "[]"]
  by (simp add: dlist_def del: butlast.simps last.simps) (metis append_Cons append_butlast_last_id append_assoc append_Nil list.distinct(1))

text \<open>The entries of a list that is not empty, seen from its head.\<close>

lemma dlist_inner:
  assumes "dlist l g zs" and "zs \<noteq> []"
  shows "lnext l g = hd zs" "lprev l g = last zs" "chain l zs" "hd zs \<notin> set (tl zs)" "last zs \<notin> set (butlast zs)"
proof -
  have d: "distinct zs" using dlist_distinct [OF assms(1)] by simp
  show "lnext l g = hd zs" "lprev l g = last zs"
    using dlist_first [OF assms(1)] dlist_last [OF assms(1)] assms(2) by simp_all
  have "chain l (g # zs @ [g])" using assms(1) by (simp add: dlist_def)
  then show "chain l zs"
    using chain_join [of l "g # butlast zs" "last zs" "[g]"] assms(2)
    by (metis append_Cons append_assoc append_butlast_last_id append_Nil chain.simps(3) list.exhaust)
  show "hd zs \<notin> set (tl zs)" using d assms(2) by (cases zs) auto
  show "last zs \<notin> set (butlast zs)" using d assms(2) by (cases zs rule: rev_cases) auto
qed

lemma dlist_splice:
  assumes "dlist l g zs" and "zs \<noteq> []" and "dlist l h (xs @ ys)" and "set (g # zs) \<inter> set (h # xs @ ys) = {}"
    and "p = last (h # xs)" and "n = hd (ys @ [h])"
  shows "dlist (list_splice_between g p n l) h (xs @ zs @ ys)"
proof -
  let ?l = "list_splice_between g p n l"
  let ?f = "hd zs" and ?t = "last zs"
  note ft = dlist_inner(1,2) [OF assms(1,2)] and cz = dlist_inner(3) [OF assms(1,2)]
    and f_tl = dlist_inner(4) [OF assms(1,2)] and t_bl = dlist_inner(5) [OF assms(1,2)]
  obtain as bs where ab: "h # xs = as @ [p]" "ys @ [h] = n # bs"
    "p \<notin> set as" "n \<notin> set bs" "n \<notin> set (tl (h # xs))" "p \<notin> set ys"
    "chain l (h # xs)" "chain l (ys @ [h])"
    using dlist_cut [OF assms(3)] assms(5,6) by metis
  have inz: "?f \<in> set zs" "?t \<in> set zs" using assms(2) by simp_all
  have inh: "p \<in> set (h # xs)" "n \<in> set (h # ys)" unfolding assms(5,6) by (rule last_in, rule hd_in)
  have sep: "p \<notin> set zs" "n \<notin> set zs" "?f \<notin> set (h # xs)" "?f \<notin> set (ys @ [h])" "?t \<notin> set (h # xs)" "?t \<notin> set (ys @ [h])"
    using inz inh assms(4) by auto
  have bl: "butlast (h # xs) = as" using ab(1) by (metis butlast_snoc)
  have tl: "tl (ys @ [h]) = bs" using ab(2) by (metis list.sel(3))
  have as_sub: "set as \<subseteq> set (h # xs)" "set bs \<subseteq> set (ys @ [h])" unfolding ab(1,2) by auto
  have t_as: "?t \<notin> set as" "?f \<notin> set (tl (h # xs))" using sep as_sub by auto
  have left: "chain ?l (h # xs)"
    unfolding list_splice_between_def Let_def ft
    using ab(3,5,7) t_as by (simp add: chain_set_next chain_set_prev bl del: butlast.simps)
  have pn_z: "p \<notin> set (butlast zs)" "n \<notin> set (tl zs)"
    using sep(1,2) in_set_butlastD [of p zs] list.set_sel(2) [of zs n] assms(2) by blast+
  have mid: "chain ?l zs"
    unfolding list_splice_between_def Let_def ft
    using cz t_bl f_tl pn_z by (simp add: chain_set_next chain_set_prev)
  have f_bs: "?f \<notin> set bs" "?t \<notin> set ys" using sep as_sub by auto
  have right: "chain ?l (ys @ [h])"
    unfolding list_splice_between_def Let_def ft
    using ab(4,6,8) f_bs by (simp add: chain_set_next chain_set_prev tl)
  have edges: "lnext ?l p = ?f" "lprev ?l ?f = p" "lnext ?l ?t = n" "lprev ?l n = ?t"
    using sep inz by (auto simp: list_splice_between_def ft ptr_simps Let_def)
  have "chain ?l (butlast zs @ ?t # n # bs)"
    using mid right edges assms(2) unfolding ab(2) by (simp only: chain_edge simp_thms append_butlast_last_id)
  then have "chain ?l (?f # tl zs @ n # bs)"
    using assms(2) by (metis append_Cons append_assoc append_butlast_last_id append_Nil list.collapse)
  then have "chain ?l (as @ p # ?f # tl zs @ n # bs)"
    using left edges unfolding ab(1) by (simp only: chain_edge simp_thms)
  also have "as @ p # ?f # tl zs @ n # bs = h # (xs @ zs @ ys) @ [h]"
    using ab(1,2) assms(2) by (metis append_Cons append_assoc append_Nil list.collapse)
  finally show ?thesis
    using dlist_distinct [OF assms(3)] dlist_distinct [OF assms(1)] assms(4) by (auto simp: dlist_def)
qed

lemma dlist_splice_head:
  assumes "dlist l g zs" and "dlist l h xs" and "set (g # zs) \<inter> set (h # xs) = {}"
  shows "dlist (list_splice g h l) h (zs @ xs)"
  using assms dlist_splice [OF assms(1) _ _ _ refl refl, of h "[]" xs] dlist_empty_iff [OF assms(1)]
    dlist_first [OF assms(2)]
  by (simp add: list_splice_def)

lemma dlist_splice_tail:
  assumes "dlist l g zs" and "dlist l h xs" and "set (g # zs) \<inter> set (h # xs) = {}"
  shows "dlist (list_splice_tail g h l) h (xs @ zs)"
  using assms dlist_splice [OF assms(1) _ _ _ refl refl, of h xs "[]"] dlist_empty_iff [OF assms(1)]
    dlist_last [OF assms(2)]
  by (simp add: list_splice_tail_def)

lemma dlist_splice_init:
  assumes "dlist l g zs" and "dlist l h xs" and "set (g # zs) \<inter> set (h # xs) = {}"
  shows "dlist (list_splice_init g h l) h (zs @ xs)" "dlist (list_splice_init g h l) g []"
    "dlist (list_splice_tail_init g h l) h (xs @ zs)" "dlist (list_splice_tail_init g h l) g []"
proof -
  have untouched: "lnext (INIT_LIST_HEAD g l') m = lnext l' m \<and> lprev (INIT_LIST_HEAD g l') m = lprev l' m"
    if "m = h \<or> m \<in> set (zs @ xs)" for m l'
    using that assms(3) dlist_distinct [OF assms(1)] by (intro INIT_LIST_HEAD_untouched) auto
  note head = dlist_splice_head [OF assms] and tail = dlist_splice_tail [OF assms]
  have "dlist (list_splice_init g h l) h (zs @ xs) \<and> dlist (list_splice_init g h l) g []"
  proof (cases "list_empty l g")
    case True
    then show ?thesis using assms dlist_empty_iff [OF assms(1)] by (simp add: list_splice_init_def)
  next
    case False
    then show ?thesis using dlist_frame [OF head] untouched dlist_INIT
      by (auto simp: list_splice_init_def list_splice_def)
  qed
  then show "dlist (list_splice_init g h l) h (zs @ xs)" "dlist (list_splice_init g h l) g []" by simp_all
  have "dlist (list_splice_tail_init g h l) h (xs @ zs) \<and> dlist (list_splice_tail_init g h l) g []"
  proof (cases "list_empty l g")
    case True
    then show ?thesis using assms dlist_empty_iff [OF assms(1)] by (simp add: list_splice_tail_init_def)
  next
    case False
    then show ?thesis using dlist_frame [OF tail] untouched dlist_INIT
      by (auto simp: list_splice_tail_init_def list_splice_tail_def)
  qed
  then show "dlist (list_splice_tail_init g h l) h (xs @ zs)" "dlist (list_splice_tail_init g h l) g []" by simp_all
qed

section \<open>The loops\<close>

lemma list_search_entry_suffix:
  assumes "dlist l h (xs @ ys)"
  shows "list_search_entry l h P (hd (ys @ [h])) = Some (\<exists>y \<in> set ys. P y)"
  using assms
proof (induction ys arbitrary: xs)
  case Nil
  then show ?case by (simp add: list_search_entry.simps)
next
  case (Cons y ys)
  have "y \<noteq> h" using dlist_distinct [OF Cons.prems] by auto
  moreover have "lnext l y = hd (ys @ [h])" using Cons.prems by (rule dlist_entry_next)
  ultimately show ?case
    using Cons.IH [of "xs @ [y]"] Cons.prems by (subst list_search_entry.simps) auto
qed

lemma list_search_entry_all:
  "dlist l h xs \<Longrightarrow> list_search_entry l h P (lnext l h) = Some (\<exists>x \<in> set xs. P x)"
  using list_search_entry_suffix [of l h "[]" xs P] dlist_first [of l h xs] by simp

text \<open>Running the body over a list of entries, one after the other.\<close>

fun run_entries :: "('n \<Rightarrow> 's \<Rightarrow> 's option) \<Rightarrow> 'n list \<Rightarrow> 's \<Rightarrow> 's option" where
  "run_entries body [] s = Some s"
| "run_entries body (x # xs) s = do { s \<leftarrow> body x s; run_entries body xs s }"

lemma run_entries_map: "run_entries body (map g xs) s = run_entries (\<lambda>x. body (g x)) xs s"
  by (induction xs arbitrary: s) (auto split: Option.bind_split)

lemma list_for_each_entry_suffix:
  assumes "dlist (links s) h (xs @ ys)"
    and "\<And>y s s'. y \<in> set ys \<Longrightarrow> body y s = Some s' \<Longrightarrow> links s' = links s"
  shows "list_for_each_entry links h body (hd (ys @ [h])) s = run_entries body ys s"
  using assms
proof (induction ys arbitrary: xs s)
  case Nil
  then show ?case by (simp add: list_for_each_entry.simps)
next
  case (Cons y ys)
  have y: "y \<noteq> h" using dlist_distinct [OF Cons.prems(1)] by auto
  show ?case
  proof (cases "body y s")
    case None
    then show ?thesis using y by (subst list_for_each_entry.simps) simp
  next
    case (Some s')
    then have same: "links s' = links s" using Cons.prems(2) by auto
    have "lnext (links s) y = hd (ys @ [h])" using Cons.prems(1) by (rule dlist_entry_next)
    then show ?thesis
      using Cons.IH [of s' "xs @ [y]"] Cons.prems same Some y by (subst list_for_each_entry.simps) auto
  qed
qed

lemma list_for_each_entry_all:
  assumes "dlist (links s) h xs"
    and "\<And>x s s'. x \<in> set xs \<Longrightarrow> body x s = Some s' \<Longrightarrow> links s' = links s"
  shows "list_for_each_entry links h body (lnext (links s) h) s = run_entries body xs s"
  using list_for_each_entry_suffix [of links s h "[]" xs body] dlist_first [OF assms(1)] assms by simp

text \<open>
  The safe loop. A body may add entries before the current one and remove entries up to and including
  the current one; the entries behind it must stay as they are. Then every entry is visited once.
\<close>

lemma list_for_each_entry_safe_suffix:
  assumes "dlist (links s) h (xs @ ys)" and "I s"
    and step: "\<And>us y vs s s' c. I s \<Longrightarrow> dlist (links s) h (us @ y # vs) \<Longrightarrow> y \<in> set ys \<Longrightarrow>
      body y s = Some (s', c) \<Longrightarrow>
      I s' \<and> (\<exists>us'. dlist (links s') h (us' @ y # vs) \<or>
        c \<and> dlist (links s') h (us' @ vs) \<and> list_empty (links s') y)"
  shows "list_for_each_entry_safe links h body (hd (ys @ [h])) (lnext (links s) (hd (ys @ [h]))) s =
    run_entries (\<lambda>y s. map_option fst (body y s)) ys s"
  using assms
proof (induction ys arbitrary: xs s)
  case Nil
  then show ?case by (simp add: list_for_each_entry_safe.simps)
next
  case (Cons y ys)
  have y: "y \<noteq> h" using dlist_distinct [OF Cons.prems(1)] by auto
  have n: "lnext (links s) y = hd (ys @ [h])" using Cons.prems(1) by (rule dlist_entry_next)
  show ?case
  proof (cases "body y s")
    case None
    then show ?thesis using y by (subst list_for_each_entry_safe.simps) simp
  next
    case (Some r)
    obtain s' c where r: "body y s = Some (s', c)" using Some by (cases r) auto
    have after: "I s'" "\<exists>us'. dlist (links s') h (us' @ y # ys) \<or>
        c \<and> dlist (links s') h (us' @ ys) \<and> list_empty (links s') y"
      using Cons.prems(3) [OF Cons.prems(2,1) _ r] by auto
    have rest: "list_for_each_entry_safe links h body (hd (ys @ [h])) (lnext (links s') (hd (ys @ [h]))) s' =
        run_entries (\<lambda>y s. map_option fst (body y s)) ys s'" if "dlist (links s') h (us' @ ys)" for us'
      using Cons.IH [OF that after(1)] Cons.prems(3) by (meson list.set_intros(2))
    show ?thesis
    proof (cases "list_empty (links s') y \<and> c")
      case True
      have "\<exists>us'. dlist (links s') h (us' @ ys)"
        using after(2) by (metis append_Cons append_assoc append_Nil)
      with rest show ?thesis using y r n True by (subst list_for_each_entry_safe.simps) auto
    next
      case False
      then obtain us' where d: "dlist (links s') h (us' @ y # ys)" using after(2) by blast
      have "\<not> list_empty (links s') (hd (ys @ [h]))"
        using dlist_empty_iff [OF d] dlist_entry_not_empty [OF d] by (cases ys) auto
      moreover have "\<not> list_empty (links s') y" using dlist_entry_not_empty [OF d] by simp
      ultimately show ?thesis using rest [of "us' @ [y]"] d y r n
        by (subst list_for_each_entry_safe.simps) auto
    qed
  qed
qed

lemma list_for_each_entry_safe_all:
  assumes "dlist (links s) h xs" and "I s"
    and "\<And>us y vs s s' c. I s \<Longrightarrow> dlist (links s) h (us @ y # vs) \<Longrightarrow> y \<in> set xs \<Longrightarrow>
      body y s = Some (s', c) \<Longrightarrow>
      I s' \<and> (\<exists>us'. dlist (links s') h (us' @ y # vs) \<or>
        c \<and> dlist (links s') h (us' @ vs) \<and> list_empty (links s') y)"
  shows "list_for_each_entry_safe links h body (lnext (links s) h) (lnext (links s) (lnext (links s) h)) s =
    run_entries (\<lambda>y s. map_option fst (body y s)) xs s"
  using list_for_each_entry_safe_suffix [of links s h "[]" xs I body] dlist_first [OF assms(1)] assms by simp

text \<open>An entry that is no longer in a list but is the loop's next one is visited for ever.\<close>

lemma list_for_each_entry_safe_stuck:
  assumes "x \<noteq> h" and "list_empty (links s) x" and "body x s = Some (s, True)"
  shows "list_for_each_entry_safe links h body x x s = None"
proof -
  have *: "\<not> (links' = links \<and> h' = h \<and> body' = body \<and> pos = x \<and> n = x \<and> t = s)"
    if "list_for_each_entry_safe links' h' body' pos n t = Some r" for links' h' body' pos n t r
    using that
  proof (induction links' h' body' pos n t r rule: list_for_each_entry_safe.raw_induct [rotated, consumes 1])
    case (1 f links' h' body' pos n t r)
    show ?case
    proof
      assume args: "links' = links \<and> h' = h \<and> body' = body \<and> pos = x \<and> n = x \<and> t = s"
      then have "f links h body x x s = Some r"
        using 1(2) assms by (simp add: list_empty_def)
      then show False using 1(1) [of links h body x x s r] by simp
    qed
  qed
  show ?thesis
    using * [of links h body x x s] by (cases "list_for_each_entry_safe links h body x x s") simp_all
qed

section \<open>A store of lists\<close>

text \<open>
  The heads \<open>H\<close> of a store and the list of each of them. An entry that is in no list is a head with the
  empty list: this is what \<open>INIT_LIST_HEAD\<close> and \<open>list_del_init\<close> make of it.
\<close>

definition shape :: "'n links \<Rightarrow> 'n set \<Rightarrow> ('n \<Rightarrow> 'n list) \<Rightarrow> bool" where
  "shape l H f \<longleftrightarrow> (\<forall>h \<in> H. dlist l h (f h)) \<and>
     (\<forall>h \<in> H. \<forall>k \<in> H. h \<noteq> k \<longrightarrow> set (h # f h) \<inter> set (k # f k) = {})"

lemma shape_dlist: "shape l H f \<Longrightarrow> h \<in> H \<Longrightarrow> dlist l h (f h)"
  by (simp add: shape_def)

lemma shape_disjoint: "shape l H f \<Longrightarrow> h \<in> H \<Longrightarrow> k \<in> H \<Longrightarrow> h \<noteq> k \<Longrightarrow> set (h # f h) \<inter> set (k # f k) = {}"
  by (simp add: shape_def)

text \<open>Linking an entry into a list at any position that the other lists do not notice.\<close>

lemma shape_insert:
  assumes "shape l H f" and "h \<in> H" and "x \<in> H" and "x \<noteq> h" and "f x = []"
    and h: "dlist l' h ys" "set ys = insert x (set (f h))"
    and untouched: "\<And>n. n \<notin> set (h # f h) \<Longrightarrow> n \<noteq> x \<Longrightarrow> lnext l' n = lnext l n \<and> lprev l' n = lprev l n"
  shows "shape l' (H - {x}) (f(h := ys))"
proof -
  have other: "dlist l' k (f k)" if "k \<in> H" "k \<noteq> x" "k \<noteq> h" for k
  proof (rule dlist_frame [OF shape_dlist [OF assms(1) that(1)]])
    fix n assume "n = k \<or> n \<in> set (f k)"
    then have "n \<notin> set (h # f h)" "n \<noteq> x"
      using shape_disjoint [OF assms(1) that(1) assms(2) that(3)]
        shape_disjoint [OF assms(1) that(1) assms(3) that(2)] by auto
    then show "lnext l' n = lnext l n \<and> lprev l' n = lprev l n" by (rule untouched)
  qed
  have "set (k # (f(h := ys)) k) \<inter> set (m # (f(h := ys)) m) = {}"
    if "k \<in> H - {x}" "m \<in> H - {x}" "k \<noteq> m" for k m
    using shape_disjoint [OF assms(1), of k m] shape_disjoint [OF assms(1) _ assms(3), of k]
      shape_disjoint [OF assms(1) _ assms(3), of m] that assms(5) h(2) by (auto split: if_splits)
  with h(1) other show ?thesis unfolding shape_def by auto
qed

lemma shape_fresh: "shape l H f \<Longrightarrow> h \<in> H \<Longrightarrow> x \<in> H \<Longrightarrow> x \<noteq> h \<Longrightarrow> x \<notin> set (h # f h)"
  using shape_disjoint [of l H f h x] by auto

lemma shape_add:
  assumes "shape l H f" and "h \<in> H" and "x \<in> H" and "x \<noteq> h" and "f x = []"
  shows "shape (list_add x h l) (H - {x}) (f(h := x # f h))"
  using shape_dlist [OF assms(1,2)]
  by (intro shape_insert [OF assms] dlist_add shape_fresh [OF assms(1-4)]) (auto simp: list_add_untouched)

lemma shape_add_tail:
  assumes "shape l H f" and "h \<in> H" and "x \<in> H" and "x \<noteq> h" and "f x = []"
  shows "shape (list_add_tail x h l) (H - {x}) (f(h := f h @ [x]))"
  using shape_dlist [OF assms(1,2)]
  by (intro shape_insert [OF assms] dlist_add_tail shape_fresh [OF assms(1-4)])
    (auto simp: list_add_tail_untouched)

lemma shape_del:
  assumes "shape l H f" and "h \<in> H" and "f h = xs @ x # ys"
  shows "shape (list_del_init x l) (insert x H) (f(h := xs @ ys, x := []))"
proof -
  let ?f = "f(h := xs @ ys, x := [])"
  have dh: "dlist l h (xs @ x # ys)" using shape_dlist [OF assms(1,2)] assms(3) by simp
  have dist: "distinct (h # xs @ x # ys)" using dh by (rule dlist_distinct)
  have x: "k \<noteq> x" "x \<notin> set (f k)" if "k \<in> H" "k \<noteq> h" for k
    using shape_disjoint [OF assms(1) that(1) assms(2) that(2)] assms(3) by auto
  have other: "dlist (list_del_init x l) k (f k)" if "k \<in> H" "k \<noteq> h" for k
  proof (rule dlist_frame [OF shape_dlist [OF assms(1) that(1)]])
    fix n assume "n = k \<or> n \<in> set (f k)"
    then have "n \<notin> set (h # xs @ x # ys)"
      using shape_disjoint [OF assms(1) that(1) assms(2) that(2)] assms(3) by auto
    then show "lnext (list_del_init x l) n = lnext l n \<and> lprev (list_del_init x l) n = lprev l n"
      by (rule list_del_init_untouched [OF dh])
  qed
  have hx: "h \<noteq> x" using dist by auto
  have "dlist (list_del_init x l) k (?f k)" if "k \<in> insert x H" for k
    using that dlist_del_init [OF dh] other hx by auto
  moreover have "set (k # ?f k) \<inter> set (m # ?f m) = {}" if "k \<in> insert x H" "m \<in> insert x H" "k \<noteq> m" for k m
    using that shape_disjoint [OF assms(1), of k m] shape_disjoint [OF assms(1) assms(2), of m]
      shape_disjoint [OF assms(1) _ assms(2), of k] x dist assms(3) by (auto split: if_splits)
  ultimately show ?thesis unfolding shape_def by blast
qed

lemma shape_INIT:
  assumes "shape l H f" and "x \<notin> H" and "\<And>h. h \<in> H \<Longrightarrow> x \<notin> set (f h)"
  shows "shape (INIT_LIST_HEAD x l) (insert x H) (f(x := []))"
proof -
  have "dlist (INIT_LIST_HEAD x l) h (f h)" if "h \<in> H" for h
    using assms that by (intro dlist_frame [OF shape_dlist [OF assms(1) that]] INIT_LIST_HEAD_untouched) auto
  moreover have "set (k # (f(x := [])) k) \<inter> set (m # (f(x := [])) m) = {}"
    if "k \<in> insert x H" "m \<in> insert x H" "k \<noteq> m" for k m
    using that shape_disjoint [OF assms(1), of k m] assms(2,3) by (auto split: if_splits)
  ultimately show ?thesis using dlist_INIT [of x l] assms(2) unfolding shape_def by auto
qed

lemma shape_not_head:
  assumes "shape l H f" and "h \<in> H" and "x \<in> set (f h)"
  shows "x \<notin> H"
proof
  assume "x \<in> H"
  moreover have "x \<noteq> h" using dlist_distinct [OF shape_dlist [OF assms(1,2)]] assms(3) by auto
  ultimately show False using shape_disjoint [OF assms(1,2), of x] assms(3) by auto
qed

section \<open>The contract of the intrusive lists\<close>

text \<open>
  What the users of the lists rely on. \<open>is_shape l H f\<close> says which lists a store holds; the operations
  move an entry that is in no list to the front of a list, and back.
\<close>

locale list_store =
  fixes is_shape :: "'l \<Rightarrow> 'n set \<Rightarrow> ('n \<Rightarrow> 'n list) \<Rightarrow> bool"
    and add :: "'n \<Rightarrow> 'n \<Rightarrow> 'l \<Rightarrow> 'l"
    and del :: "'n \<Rightarrow> 'l \<Rightarrow> 'l"
    and is_empty :: "'l \<Rightarrow> 'n \<Rightarrow> bool"
  assumes add_shape: "is_shape l H f \<Longrightarrow> h \<in> H \<Longrightarrow> x \<in> H \<Longrightarrow> x \<noteq> h \<Longrightarrow> f x = [] \<Longrightarrow>
      is_shape (add x h l) (H - {x}) (f(h := x # f h))"
    and del_shape: "is_shape l H f \<Longrightarrow> h \<in> H \<Longrightarrow> f h = xs @ x # ys \<Longrightarrow>
      is_shape (del x l) (insert x H) (f(h := xs @ ys, x := []))"
    and empty_head: "is_shape l H f \<Longrightarrow> h \<in> H \<Longrightarrow> is_empty l h \<longleftrightarrow> f h = []"
    and empty_member: "is_shape l H f \<Longrightarrow> h \<in> H \<Longrightarrow> x \<in> set (f h) \<Longrightarrow> \<not> is_empty l x"
    and not_head: "is_shape l H f \<Longrightarrow> h \<in> H \<Longrightarrow> x \<in> set (f h) \<Longrightarrow> x \<notin> H"
    and distinct_list: "is_shape l H f \<Longrightarrow> h \<in> H \<Longrightarrow> distinct (f h)"
    and one_list: "is_shape l H f \<Longrightarrow> h \<in> H \<Longrightarrow> k \<in> H \<Longrightarrow> x \<in> set (f h) \<Longrightarrow> x \<in> set (f k) \<Longrightarrow> h = k"
begin

text \<open>Taking an entry out that is in the list leaves the others in order.\<close>

lemma del_member:
  assumes "is_shape l H f" and "h \<in> H" and "x \<in> set (f h)"
  shows "is_shape (del x l) (insert x H) (f(h := remove1 x (f h), x := []))"
proof -
  obtain xs ys where split: "f h = xs @ x # ys" "x \<notin> set xs" using assms(3) by (meson split_list_first)
  then have "remove1 x (f h) = xs @ ys" by (simp add: remove1_append)
  then show ?thesis using del_shape [OF assms(1,2) split(1)] by simp
qed

lemma add_del:
  assumes "is_shape l H f" and "h \<in> H" and "x \<in> H" and "x \<noteq> h" and "f x = []"
  shows "is_shape (del x (add x h l)) H f"
proof -
  have "is_shape (del x (add x h l)) (insert x (H - {x})) ((f(h := x # f h))(h := [] @ f h, x := []))"
    using assms(2,4) by (intro del_shape [OF add_shape [OF assms]]) auto
  moreover have "insert x (H - {x}) = H" "(f(h := x # f h))(h := [] @ f h, x := []) = f"
    using assms(3,5) by auto
  ultimately show ?thesis by simp
qed

text \<open>Whether an entry is in a list can be seen from the entry alone.\<close>

lemma empty_iff_unlisted:
  assumes "is_shape l H f" and "x \<in> H \<and> f x = [] \<or> h \<in> H \<and> x \<in> set (f h)"
  shows "is_empty l x \<longleftrightarrow> x \<in> H"
  using assms empty_head [OF assms(1)] empty_member [OF assms(1)] not_head [OF assms(1)] by blast

end

interpretation ls: list_store shape list_add list_del_init list_empty
proof unfold_locales
  fix l H and f :: "'n \<Rightarrow> 'n list" and h x k
  assume s: "shape l H f" and h: "h \<in> H"
  show "list_empty l h \<longleftrightarrow> f h = []" by (rule dlist_empty_iff [OF shape_dlist [OF s h]])
  show "distinct (f h)" using dlist_distinct [OF shape_dlist [OF s h]] by simp
  show "\<not> list_empty l x" if "x \<in> set (f h)" using dlist_entry_not_empty [OF shape_dlist [OF s h] that] .
  show "x \<notin> H" if "x \<in> set (f h)" using shape_not_head [OF s h that] .
  show "h = k" if "k \<in> H" "x \<in> set (f h)" "x \<in> set (f k)"
    using shape_disjoint [OF s h that(1)] that by auto
qed (simp_all add: shape_add shape_del)

section \<open>Properties\<close>

text \<open>
  A program that links and unlinks entries, and the lists it is meant to handle: an entry may be
  linked when it is in no list, behind a head that is not itself linked, and taken out at any time.
\<close>

datatype 'n list_op = Link_front 'n 'n | Link_back 'n 'n | Unlink 'n

fun list_op_step :: "'n list_op \<Rightarrow> 'n links \<Rightarrow> 'n links" where
  "list_op_step (Link_front x h) l = list_add x h l"
| "list_op_step (Link_back x h) l = list_add_tail x h l"
| "list_op_step (Unlink x) l = list_del_init x l"

type_synonym 'n lists = "'n set \<times> ('n \<Rightarrow> 'n list)"

fun may_link :: "'n \<Rightarrow> 'n \<Rightarrow> 'n lists \<Rightarrow> bool" where
  "may_link x h (H, f) \<longleftrightarrow> x \<in> H \<and> h \<in> H \<and> x \<noteq> h \<and> f x = []"

inductive lists_step :: "'n list_op \<Rightarrow> 'n lists \<Rightarrow> 'n lists \<Rightarrow> bool" where
  link_front: "may_link x h (H, f) \<Longrightarrow> lists_step (Link_front x h) (H, f) (H - {x}, f(h := x # f h))"
| link_back: "may_link x h (H, f) \<Longrightarrow> lists_step (Link_back x h) (H, f) (H - {x}, f(h := f h @ [x]))"
| unlinked: "h \<in> H \<Longrightarrow> f h = xs @ x # ys \<Longrightarrow>
    lists_step (Unlink x) (H, f) (insert x H, f(h := xs @ ys, x := []))"

inductive lists_steps :: "'n list_op list \<Rightarrow> 'n lists \<Rightarrow> 'n lists \<Rightarrow> bool" where
  none: "lists_steps [] a a"
| one_more: "lists_step op a b \<Longrightarrow> lists_steps ops b c \<Longrightarrow> lists_steps (op # ops) a c"

lemma lists_step_shape:
  "lists_step op (H, f) (H', f') \<Longrightarrow> shape l H f \<Longrightarrow> shape (list_op_step op l) H' f'"
  by (auto elim!: lists_step.cases simp: shape_add shape_add_tail shape_del)

lemma lists_steps_shape:
  "lists_steps ops a b \<Longrightarrow> shape l (fst a) (snd a) \<Longrightarrow> shape (fold list_op_step ops l) (fst b) (snd b)"
proof (induction ops a b arbitrary: l rule: lists_steps.induct)
  case (one_more op a b ops c)
  have "shape (list_op_step op l) (fst b) (snd b)"
    using lists_step_shape [of op "fst a" "snd a" "fst b" "snd b" l] one_more.hyps(1) one_more.prems by simp
  then show ?case using one_more.IH by simp
qed simp



end
