(* ===== verification/World.thy ===== *)
theory World
  imports Parser Header_Prepare Routing Linked_List
begin

text \<open>
  The memory the bridge works on: one bridge with the external interfaces, bridge handlers, nodes and
  node handlers that exist, each named by a number, and the links of all their \<open>struct list_head\<close>
  members. Function pointers are values: a handler is either \<open>ndlcomNodeMessageHandler\<close> with a node as
  its context, or a function of the application. What the application's functions do is a parameter.
  Here are the structures and the functions of \<open>src/ExternalInterface.c\<close>, \<open>src/BridgeHandler.c\<close> and
  \<open>src/NodeHandler.c\<close>.
\<close>

section \<open>Addresses\<close>

text \<open>A \<open>struct NDLComBridgeHandler\<close> stands alone or is the one inside of a node.\<close>

datatype handler_id = Free_handler nat | Handler_of_node nat

text \<open>The addresses of the \<open>struct list_head\<close> members.\<close>

datatype node =
    BridgeHandlerList \<comment> \<open>\<open>bridge.bridgeHandlerList\<close>\<close>
  | ExternalInterfaceList \<comment> \<open>\<open>bridge.externalInterfaceList\<close>\<close>
  | Iface_list nat \<comment> \<open>\<open>list\<close> of an external interface\<close>
  | Handler_list handler_id \<comment> \<open>\<open>list\<close> of a bridge handler\<close>
  | NodeHandlerList nat \<comment> \<open>\<open>nodeHandlerList\<close> of a node\<close>
  | Node_handler_list nat \<comment> \<open>\<open>list\<close> of a node handler\<close>

text \<open>\<open>container_of\<close>: the structure a member is part of, if it is the member of such a structure.\<close>

fun iface_of :: "node \<Rightarrow> nat option" where
  "iface_of (Iface_list i) = Some i"
| "iface_of _ = None"

fun bridge_handler_of :: "node \<Rightarrow> handler_id option" where
  "bridge_handler_of (Handler_list h) = Some h"
| "bridge_handler_of _ = None"

fun node_handler_of :: "node \<Rightarrow> nat option" where
  "node_handler_of (Node_handler_list k) = Some k"
| "node_handler_of _ = None"

section \<open>Structures\<close>

text \<open>A function pointer of handler type together with the context it was registered with.\<close>

datatype handler_fkt = Node_message_handler nat | User_handler nat

record NDLComExternalInterface =
  ei_bridge :: ptr
  ei_flags :: u8
  ei_parser :: NDLComParser
  ei_io :: nat \<comment> \<open>\<open>context\<close>, \<open>read\<close> and \<open>write\<close>: the endpoint in the environment\<close>

record NDLComBridgeHandler =
  bh_bridge :: ptr
  bh_flags :: u8
  bh_handler :: handler_fkt

record NDLComNodeHandler =
  nh_node :: "nat option"
  nh_flags :: u8
  nh_handler :: nat

record NDLComNode =
  headerConfig :: NDLComHeaderConfig

record 'e world =
  links :: "node links"
  routingTable :: NDLComRoutingTable
  bridge_flags :: u8
  ifaces :: "nat \<Rightarrow> NDLComExternalInterface"
  handlers :: "handler_id \<Rightarrow> NDLComBridgeHandler"
  nodes :: "nat \<Rightarrow> NDLComNode"
  nodeHandlers :: "nat \<Rightarrow> NDLComNodeHandler"
  env :: 'e

text \<open>
  The functions of the application. \<open>write\<close> and \<open>read\<close> of an interface act on the environment only;
  a handler may do everything, also call the library, and might not return (\<open>None\<close>). Handlers get the
  header, the payload, and the interface the message came from, or null.
\<close>

record 'e callbacks =
  cb_write :: "nat \<Rightarrow> u8 list \<Rightarrow> 'e \<Rightarrow> 'e"
  cb_read :: "nat \<Rightarrow> nat \<Rightarrow> 'e \<Rightarrow> u8 list \<times> 'e"
  cb_handler :: "nat \<Rightarrow> NDLComHeader \<Rightarrow> u8 list \<Rightarrow> ptr \<Rightarrow> 'e world \<Rightarrow> 'e world option"

section \<open>Flags\<close>

definition NDLCOM_EXTERNAL_INTERFACE_FLAGS_DEFAULT :: u8 where
  "NDLCOM_EXTERNAL_INTERFACE_FLAGS_DEFAULT = 0x00"

definition NDLCOM_EXTERNAL_INTERFACE_FLAGS_DEBUG_MIRROR :: u8 where
  "NDLCOM_EXTERNAL_INTERFACE_FLAGS_DEBUG_MIRROR = 0x01"

definition NDLCOM_BRIDGE_HANDLER_FLAGS_DEFAULT :: u8 where
  "NDLCOM_BRIDGE_HANDLER_FLAGS_DEFAULT = 0x00"

definition NDLCOM_BRIDGE_HANDLER_FLAGS_NO_MESSAGES_FROM_INTERNAL :: u8 where
  "NDLCOM_BRIDGE_HANDLER_FLAGS_NO_MESSAGES_FROM_INTERNAL = 0x01"

definition NDLCOM_NODE_HANDLER_FLAGS_DEFAULT :: u8 where
  "NDLCOM_NODE_HANDLER_FLAGS_DEFAULT = 0x00"

definition NDLCOM_NODE_HANDLER_FLAGS_NO_MESSAGES_FROM_INTERNAL :: u8 where
  "NDLCOM_NODE_HANDLER_FLAGS_NO_MESSAGES_FROM_INTERNAL = 0x01"

definition NDLCOM_BRIDGE_FLAGS_FORWARDING_ENABLED :: u8 where
  "NDLCOM_BRIDGE_FLAGS_FORWARDING_ENABLED = 0x01"

text \<open>The tests of single flags.\<close>

definition is_mirror :: "NDLComExternalInterface \<Rightarrow> bool" where
  "is_mirror ei \<longleftrightarrow> ei_flags ei AND NDLCOM_EXTERNAL_INTERFACE_FLAGS_DEBUG_MIRROR \<noteq> 0"

definition ignores_internal :: "NDLComBridgeHandler \<Rightarrow> bool" where
  "ignores_internal bh \<longleftrightarrow> bh_flags bh AND NDLCOM_BRIDGE_HANDLER_FLAGS_NO_MESSAGES_FROM_INTERNAL \<noteq> 0"

definition node_handler_ignores_internal :: "NDLComNodeHandler \<Rightarrow> bool" where
  "node_handler_ignores_internal nh \<longleftrightarrow>
     nh_flags nh AND NDLCOM_NODE_HANDLER_FLAGS_NO_MESSAGES_FROM_INTERNAL \<noteq> 0"

section \<open>Updates of one structure\<close>

definition upd_iface :: "nat \<Rightarrow> (NDLComExternalInterface \<Rightarrow> NDLComExternalInterface) \<Rightarrow> 'e world \<Rightarrow> 'e world" where
  "upd_iface i g w = w\<lparr>ifaces := (ifaces w)(i := g (ifaces w i))\<rparr>"

definition upd_handler :: "handler_id \<Rightarrow> (NDLComBridgeHandler \<Rightarrow> NDLComBridgeHandler) \<Rightarrow> 'e world \<Rightarrow> 'e world" where
  "upd_handler h g w = w\<lparr>handlers := (handlers w)(h := g (handlers w h))\<rparr>"

definition upd_nodeHandler :: "nat \<Rightarrow> (NDLComNodeHandler \<Rightarrow> NDLComNodeHandler) \<Rightarrow> 'e world \<Rightarrow> 'e world" where
  "upd_nodeHandler k g w = w\<lparr>nodeHandlers := (nodeHandlers w)(k := g (nodeHandlers w k))\<rparr>"

definition upd_node :: "nat \<Rightarrow> (NDLComNode \<Rightarrow> NDLComNode) \<Rightarrow> 'e world \<Rightarrow> 'e world" where
  "upd_node n g w = w\<lparr>nodes := (nodes w)(n := g (nodes w n))\<rparr>"

definition upd_links :: "(node links \<Rightarrow> node links) \<Rightarrow> 'e world \<Rightarrow> 'e world" where
  "upd_links g w = w\<lparr>links := g (links w)\<rparr>"

lemma links_upd [simp]:
  "links (upd_iface i gi w) = links w" "links (upd_handler h gh w) = links w"
  "links (upd_nodeHandler k gk w) = links w" "links (upd_node n gn w) = links w"
  "links (upd_links gl w) = gl (links w)"
  by (simp_all add: upd_iface_def upd_handler_def upd_nodeHandler_def upd_node_def upd_links_def)

lemmas upd_defs = upd_iface_def upd_handler_def upd_nodeHandler_def upd_node_def upd_links_def

section \<open>\<open>src/ExternalInterface.c\<close>, \<open>src/BridgeHandler.c\<close>, \<open>src/NodeHandler.c\<close>\<close>

definition ndlcomExternalInterfaceSetFlags :: "nat \<Rightarrow> u8 \<Rightarrow> 'e world \<Rightarrow> 'e world" where
  "ndlcomExternalInterfaceSetFlags i flags w = upd_iface i (ei_flags_update (\<lambda>_. flags)) w"

definition ndlcomExternalInterfaceInit :: "config \<Rightarrow> nat \<Rightarrow> nat \<Rightarrow> u8 \<Rightarrow> 'e world \<Rightarrow> 'e world" where
  "ndlcomExternalInterfaceInit cfg i io flags w =
     (let w = upd_iface i (\<lambda>ei. ei\<lparr>ei_io := io, ei_bridge := Null\<rparr>) w;
          w = ndlcomExternalInterfaceSetFlags i flags w;
          w = (case ndlcomParserCreate cfg (Some (ei_parser (ifaces w i))) (NDLCOM_PARSER_MIN_BUFFER_SIZE cfg) of
                 Some p \<Rightarrow> upd_iface i (ei_parser_update (\<lambda>_. p)) w
               | None \<Rightarrow> w)
      in upd_links (INIT_LIST_HEAD (Iface_list i)) w)"

definition ndlcomExternalInterfaceGetCrcFails :: "nat \<Rightarrow> 'e world \<Rightarrow> u32" where
  "ndlcomExternalInterfaceGetCrcFails i w = ndlcomParserGetNumberOfCRCFails (ei_parser (ifaces w i))"

definition ndlcomBridgeHandlerSetFlags :: "handler_id \<Rightarrow> u8 \<Rightarrow> 'e world \<Rightarrow> 'e world" where
  "ndlcomBridgeHandlerSetFlags h flags w = upd_handler h (bh_flags_update (\<lambda>_. flags)) w"

definition ndlcomBridgeHandlerInit :: "handler_id \<Rightarrow> handler_fkt \<Rightarrow> u8 \<Rightarrow> 'e world \<Rightarrow> 'e world" where
  "ndlcomBridgeHandlerInit h handler flags w =
     (let w = upd_handler h (bh_handler_update (\<lambda>_. handler)) w;
          w = ndlcomBridgeHandlerSetFlags h flags w;
          w = upd_handler h (bh_bridge_update (\<lambda>_. Null)) w
      in upd_links (INIT_LIST_HEAD (Handler_list h)) w)"

definition ndlcomNodeHandlerSetFlags :: "nat \<Rightarrow> u8 \<Rightarrow> 'e world \<Rightarrow> 'e world" where
  "ndlcomNodeHandlerSetFlags k flags w = upd_nodeHandler k (nh_flags_update (\<lambda>_. flags)) w"

definition ndlcomNodeHandlerInit :: "nat \<Rightarrow> nat \<Rightarrow> u8 \<Rightarrow> 'e world \<Rightarrow> 'e world" where
  "ndlcomNodeHandlerInit k handler flags w =
     (let w = upd_nodeHandler k (nh_handler_update (\<lambda>_. handler)) w;
          w = ndlcomNodeHandlerSetFlags k flags w;
          w = upd_nodeHandler k (nh_node_update (\<lambda>_. None)) w
      in upd_links (INIT_LIST_HEAD (Node_handler_list k)) w)"

text \<open>Calls through the function pointers of an interface.\<close>

definition iface_write :: "'e callbacks \<Rightarrow> nat \<Rightarrow> u8 list \<Rightarrow> 'e world \<Rightarrow> 'e world" where
  "iface_write cb i bytes w = w\<lparr>env := cb_write cb (ei_io (ifaces w i)) bytes (env w)\<rparr>"

definition iface_read :: "'e callbacks \<Rightarrow> nat \<Rightarrow> nat \<Rightarrow> 'e world \<Rightarrow> (u8 list \<times> 'e world) option" where
  "iface_read cb i count w =
     (let (bytes, e) = cb_read cb (ei_io (ifaces w i)) count (env w)
      in if length bytes > count then None else Some (bytes, w\<lparr>env := e\<rparr>))"

lemma iface_write_frame [simp]:
  "links (iface_write cb i bytes w) = links w" "routingTable (iface_write cb i bytes w) = routingTable w"
  "ifaces (iface_write cb i bytes w) = ifaces w" "handlers (iface_write cb i bytes w) = handlers w"
  "bridge_flags (iface_write cb i bytes w) = bridge_flags w" "nodes (iface_write cb i bytes w) = nodes w"
  "nodeHandlers (iface_write cb i bytes w) = nodeHandlers w"
  by (simp_all add: iface_write_def)

section \<open>The lists of a world\<close>

definition list_entries :: "node set" where
  "list_entries = range Iface_list \<union> range Handler_list \<union> range Node_handler_list"

text \<open>
  The well-formedness of the links: the heads are the lists of the bridge and of the nodes and all
  entries that are in no list; the bridge's lists hold interfaces and bridge handlers, a node's list
  holds node handlers, and an entry is no list.
\<close>

definition world_lists :: "'e world \<Rightarrow> node set \<Rightarrow> (node \<Rightarrow> node list) \<Rightarrow> bool" where
  "world_lists w H f \<longleftrightarrow> shape (links w) H f \<and> BridgeHandlerList \<in> H \<and> ExternalInterfaceList \<in> H \<and>
     (\<forall>n. NodeHandlerList n \<in> H) \<and>
     set (f BridgeHandlerList) \<subseteq> range Handler_list \<and> set (f ExternalInterfaceList) \<subseteq> range Iface_list \<and>
     (\<forall>n. set (f (NodeHandlerList n)) \<subseteq> range Node_handler_list) \<and>
     (\<forall>x \<in> H \<inter> list_entries. f x = [])"

lemma world_lists_dlist:
  assumes "world_lists w H f"
  shows "dlist (links w) BridgeHandlerList (f BridgeHandlerList)"
    and "dlist (links w) ExternalInterfaceList (f ExternalInterfaceList)"
    and "dlist (links w) (NodeHandlerList n) (f (NodeHandlerList n))"
  using assms by (auto simp: world_lists_def intro: shape_dlist)

lemma world_lists_cong: "links w' = links w \<Longrightarrow> world_lists w' H f = world_lists w H f"
  by (simp add: world_lists_def)

end
