(* ===== verification/Bridge.thy ===== *)
theory Bridge
  imports World
begin

text \<open>
  \<open>src/Bridge.c\<close>, and the message handler of \<open>src/Node.c\<close> that the bridge calls: reading the external
  interfaces, learning routes, forwarding, and the handlers of the internal side. A call that does
  not return, or leaves its buffers, is \<open>None\<close>.
\<close>

section \<open>The message handler of a node\<close>

definition node_handler_body ::
  "'e callbacks \<Rightarrow> NDLComHeader \<Rightarrow> u8 list \<Rightarrow> ptr \<Rightarrow> node \<Rightarrow> 'e world \<Rightarrow> 'e world option" where
  "node_handler_body cb header payload origin pos w = do {
     k \<leftarrow> node_handler_of pos;
     if origin = Null \<and> node_handler_ignores_internal (nodeHandlers w k) then Some w
     else cb_handler cb (nh_handler (nodeHandlers w k)) header payload origin w
   }"

definition ndlcomNodeMessageHandler ::
  "'e callbacks \<Rightarrow> nat \<Rightarrow> NDLComHeader \<Rightarrow> u8 list \<Rightarrow> ptr \<Rightarrow> 'e world \<Rightarrow> 'e world option" where
  "ndlcomNodeMessageHandler cb n header payload origin w =
     (if mReceiverId header = mOwnSenderId (headerConfig (nodes w n)) \<or> mReceiverId header = NDLCOM_ADDR_BROADCAST
      then list_for_each_entry links (NodeHandlerList n) (node_handler_body cb header payload origin)
        (lnext (links w) (NodeHandlerList n)) w
      else Some w)"

definition call_handler ::
  "'e callbacks \<Rightarrow> handler_fkt \<Rightarrow> NDLComHeader \<Rightarrow> u8 list \<Rightarrow> ptr \<Rightarrow> 'e world \<Rightarrow> 'e world option" where
  "call_handler cb f header payload origin w =
     (case f of
        Node_message_handler n \<Rightarrow> ndlcomNodeMessageHandler cb n header payload origin w
      | User_handler k \<Rightarrow> cb_handler cb k header payload origin w)"

section \<open>Forwarding\<close>

definition deviceIdIsNotInternallyUsed :: "config \<Rightarrow> 'e world \<Rightarrow> u8 \<Rightarrow> bool" where
  "deviceIdIsNotInternallyUsed cfg w deviceId \<longleftrightarrow>
     ndlcomRoutingGetDestination cfg (routingTable w) deviceId \<noteq> Bridge_ptr"

definition forwarding_enabled :: "'e world \<Rightarrow> bool" where
  "forwarding_enabled w \<longleftrightarrow> bridge_flags w AND NDLCOM_BRIDGE_FLAGS_FORWARDING_ENABLED \<noteq> 0"

text \<open>The bodies of the loop over the mirrors and of the loop over all other interfaces.\<close>

definition write_unless_origin ::
  "'e callbacks \<Rightarrow> (NDLComExternalInterface \<Rightarrow> bool) \<Rightarrow> u8 list \<Rightarrow> ptr \<Rightarrow> node \<Rightarrow> 'e world \<Rightarrow> 'e world option" where
  "write_unless_origin cb wanted bytes origin pos w = do {
     i \<leftarrow> iface_of pos;
     Some (if origin \<noteq> Iface_ptr i then if wanted (ifaces w i) then iface_write cb i bytes w else w else w)
   }"

text \<open>
  The transmit buffer is a variable length array; its initial contents do not matter, as only the
  \<open>len\<close> bytes the encoder reports are passed on.
\<close>

definition ndlcomBridgeProcessOutgoingMessage ::
  "config \<Rightarrow> 'e callbacks \<Rightarrow> NDLComHeader \<Rightarrow> u8 list \<Rightarrow> ptr \<Rightarrow> 'e world \<Rightarrow> 'e world option" where
  "ndlcomBridgeProcessOutgoingMessage cfg cb header payload origin w = do {
     let destination = ndlcomRoutingGetDestination cfg (routingTable w) (mReceiverId header);
     let size_of_txBuffer = NDLCOM_MAX_ENCODED_MESSAGE_SIZE_FOR_PACKET header;
     (txBuffer, len) \<leftarrow> ndlcomEncode cfg (replicate size_of_txBuffer 0) size_of_txBuffer header payload;
     let bytes = take len txBuffer;
     w \<leftarrow> list_for_each_entry links ExternalInterfaceList (write_unless_origin cb is_mirror bytes origin)
           (lnext (links w) ExternalInterfaceList) w;
     if \<not> forwarding_enabled w \<and> origin \<noteq> Bridge_ptr \<and> destination \<noteq> Bridge_ptr then Some w
     else if destination = NDLCOM_ROUTING_ALL_INTERFACES then
       list_for_each_entry links ExternalInterfaceList (write_unless_origin cb (\<lambda>ei. \<not> is_mirror ei) bytes origin)
         (lnext (links w) ExternalInterfaceList) w
     else if destination = origin then Some w
     else (case destination of
             Bridge_ptr \<Rightarrow> Some w
           | Iface_ptr i \<Rightarrow> Some (iface_write cb i bytes w)
           | Null \<Rightarrow> Some w)
   }"

section \<open>Handling of a message\<close>

definition bridge_handler_body ::
  "'e callbacks \<Rightarrow> NDLComHeader \<Rightarrow> u8 list \<Rightarrow> ptr \<Rightarrow> node \<Rightarrow> 'e world \<Rightarrow> ('e world \<times> bool) option" where
  "bridge_handler_body cb header payload origin pos w = do {
     h \<leftarrow> bridge_handler_of pos;
     if ignores_internal (handlers w h) \<and> origin = Bridge_ptr then Some (w, False)
     else do {
       w \<leftarrow> call_handler cb (bh_handler (handlers w h)) header payload
             (if origin = Bridge_ptr then Null else origin) w;
       Some (w, True)
     }
   }"

definition ndlcomBridgeProcessDecodedMessage ::
  "config \<Rightarrow> 'e callbacks \<Rightarrow> NDLComHeader \<Rightarrow> u8 list \<Rightarrow> ptr \<Rightarrow> 'e world \<Rightarrow> 'e world option" where
  "ndlcomBridgeProcessDecodedMessage cfg cb header payload origin w = do {
     w \<leftarrow> ndlcomBridgeProcessOutgoingMessage cfg cb header payload origin w;
     list_for_each_entry_safe links BridgeHandlerList (bridge_handler_body cb header payload origin)
       (lnext (links w) BridgeHandlerList) (lnext (links w) (lnext (links w) BridgeHandlerList)) w
   }"

definition ndlcomBridgeSendRaw ::
  "config \<Rightarrow> 'e callbacks \<Rightarrow> NDLComHeader \<Rightarrow> u8 list \<Rightarrow> 'e world \<Rightarrow> 'e world option" where
  "ndlcomBridgeSendRaw cfg cb header payload w =
     ndlcomBridgeProcessDecodedMessage cfg cb header payload Bridge_ptr w"

section \<open>Reading\<close>

definition NDLCOM_BRIDGE_TEMPORARY_RXBUFFER_SIZE :: "config \<Rightarrow> nat" where
  "NDLCOM_BRIDGE_TEMPORARY_RXBUFFER_SIZE cfg = NDLCOM_MAX_ENCODED_MESSAGE_SIZE cfg"

text \<open>The routing table learns the sender of a message, unless it came from a mirror or claims our id.\<close>

definition learn_sender :: "config \<Rightarrow> nat \<Rightarrow> NDLComHeader \<Rightarrow> 'e world \<Rightarrow> 'e world" where
  "learn_sender cfg i header w =
     (if \<not> is_mirror (ifaces w i) then
        if deviceIdIsNotInternallyUsed cfg w (mSenderId header)
        then w\<lparr>routingTable := ndlcomRoutingTableUpdate cfg (routingTable w) (mSenderId header) (Iface_ptr i)\<rparr>
        else w
      else w)"

partial_function (option) process_bytes ::
  "config \<Rightarrow> 'e callbacks \<Rightarrow> nat \<Rightarrow> u8 list \<Rightarrow> nat \<Rightarrow> 'e world \<Rightarrow> (nat \<times> 'e world) option" where
  "process_bytes cfg cb i rawReadBuffer bytesProcessed w = do {
     (parser, n) \<leftarrow> ndlcomParserReceive cfg (ei_parser (ifaces w i)) (drop bytesProcessed rawReadBuffer);
     let w = upd_iface i (ei_parser_update (\<lambda>_. parser)) w;
     let bytesProcessed = bytesProcessed + n;
     if ndlcomParserHasPacket parser then do {
       header \<leftarrow> ndlcomParserGetHeader parser;
       payload \<leftarrow> ndlcomParserGetPacket parser;
       w \<leftarrow> ndlcomBridgeProcessDecodedMessage cfg cb header payload (Iface_ptr i) (learn_sender cfg i header w);
       let w = upd_iface i (ei_parser_update ndlcomParserDestroyPacket) w;
       if list_empty (links w) (Iface_list i) then Some (bytesProcessed, w)
       else if length rawReadBuffer \<noteq> bytesProcessed
         then process_bytes cfg cb i rawReadBuffer bytesProcessed w
         else Some (bytesProcessed, w)
     }
     else if length rawReadBuffer \<noteq> bytesProcessed
       then process_bytes cfg cb i rawReadBuffer bytesProcessed w
       else Some (bytesProcessed, w)
   }"

definition ndlcomBridgeProcessExternalInterface ::
  "config \<Rightarrow> 'e callbacks \<Rightarrow> nat \<Rightarrow> 'e world \<Rightarrow> (nat \<times> 'e world) option" where
  "ndlcomBridgeProcessExternalInterface cfg cb i w = do {
     (rawReadBuffer, w) \<leftarrow> iface_read cb i (NDLCOM_BRIDGE_TEMPORARY_RXBUFFER_SIZE cfg) w;
     if length rawReadBuffer = 0 then Some (0, w)
     else process_bytes cfg cb i rawReadBuffer 0 w
   }"

text \<open>The loop over the interfaces; the state carries the sum of the processed bytes.\<close>

definition process_once_body ::
  "config \<Rightarrow> 'e callbacks \<Rightarrow> node \<Rightarrow> nat \<times> 'e world \<Rightarrow> ((nat \<times> 'e world) \<times> bool) option" where
  "process_once_body cfg cb pos s = do {
     i \<leftarrow> iface_of pos;
     (n, w) \<leftarrow> ndlcomBridgeProcessExternalInterface cfg cb i (snd s);
     Some ((fst s + n, w), True)
   }"

definition ndlcomBridgeProcessOnce :: "config \<Rightarrow> 'e callbacks \<Rightarrow> 'e world \<Rightarrow> (nat \<times> 'e world) option" where
  "ndlcomBridgeProcessOnce cfg cb w =
     list_for_each_entry_safe (links \<circ> snd) ExternalInterfaceList (process_once_body cfg cb)
       (lnext (links w) ExternalInterfaceList) (lnext (links w) (lnext (links w) ExternalInterfaceList)) (0, w)"

partial_function (option) process_until_idle ::
  "config \<Rightarrow> 'e callbacks \<Rightarrow> nat \<Rightarrow> 'e world \<Rightarrow> (nat \<times> 'e world) option" where
  "process_until_idle cfg cb bytesReadOverall w = do {
     (bytesRead, w) \<leftarrow> ndlcomBridgeProcessOnce cfg cb w;
     if bytesRead > 0 then process_until_idle cfg cb (bytesReadOverall + bytesRead) w
     else Some (bytesReadOverall + bytesRead, w)
   }"

definition ndlcomBridgeProcess :: "config \<Rightarrow> 'e callbacks \<Rightarrow> 'e world \<Rightarrow> (nat \<times> 'e world) option" where
  "ndlcomBridgeProcess cfg cb w = process_until_idle cfg cb 0 w"

section \<open>Setting up\<close>

definition ndlcomBridgeInit :: "config \<Rightarrow> 'e world \<Rightarrow> 'e world" where
  "ndlcomBridgeInit cfg w =
     (let w = upd_links (INIT_LIST_HEAD BridgeHandlerList) w;
          w = upd_links (INIT_LIST_HEAD ExternalInterfaceList) w;
          w = w\<lparr>routingTable := ndlcomRoutingTableInit cfg (routingTable w)\<rparr>
      in w\<lparr>bridge_flags := NDLCOM_BRIDGE_FLAGS_FORWARDING_ENABLED\<rparr>)"

definition ndlcomBridgeSetFlags :: "u8 \<Rightarrow> 'e world \<Rightarrow> 'e world" where
  "ndlcomBridgeSetFlags flags w = w\<lparr>bridge_flags := flags\<rparr>"

definition ndlcomBridgeAddRoutingInformationForDeviceId :: "config \<Rightarrow> u8 \<Rightarrow> nat \<Rightarrow> 'e world \<Rightarrow> 'e world" where
  "ndlcomBridgeAddRoutingInformationForDeviceId cfg deviceId i w =
     w\<lparr>routingTable := ndlcomRoutingTableUpdate cfg (routingTable w) deviceId (Iface_ptr i)\<rparr>"

definition ndlcomBridgeMarkDeviceIdAsInternal :: "config \<Rightarrow> u8 \<Rightarrow> 'e world \<Rightarrow> 'e world" where
  "ndlcomBridgeMarkDeviceIdAsInternal cfg deviceId w =
     w\<lparr>routingTable := ndlcomRoutingTableUpdate cfg (routingTable w) deviceId Bridge_ptr\<rparr>"

definition ndlcomBridgeClearInternalDeviceId :: "config \<Rightarrow> u8 \<Rightarrow> 'e world \<Rightarrow> 'e world" where
  "ndlcomBridgeClearInternalDeviceId cfg deviceId w =
     w\<lparr>routingTable := ndlcomRoutingTableUpdate cfg (routingTable w) deviceId NDLCOM_ROUTING_ALL_INTERFACES\<rparr>"

definition ndlcomBridgeCheckBridgeHandler :: "handler_id \<Rightarrow> 'e world \<Rightarrow> bool option" where
  "ndlcomBridgeCheckBridgeHandler h w =
     list_search_entry (links w) BridgeHandlerList (\<lambda>it. it = Handler_list h) (lnext (links w) BridgeHandlerList)"

definition ndlcomBridgeCheckExternalInterface :: "nat \<Rightarrow> 'e world \<Rightarrow> bool option" where
  "ndlcomBridgeCheckExternalInterface i w =
     list_search_entry (links w) ExternalInterfaceList (\<lambda>it. it = Iface_list i)
       (lnext (links w) ExternalInterfaceList)"

definition ndlcomBridgeRegisterBridgeHandler :: "handler_id \<Rightarrow> 'e world \<Rightarrow> 'e world option" where
  "ndlcomBridgeRegisterBridgeHandler h w = do {
     found \<leftarrow> ndlcomBridgeCheckBridgeHandler h w;
     if found then Some w
     else Some (upd_handler h (bh_bridge_update (\<lambda>_. Bridge_ptr))
       (upd_links (list_add (Handler_list h) BridgeHandlerList) w))
   }"

definition ndlcomBridgeRegisterExternalInterface :: "nat \<Rightarrow> 'e world \<Rightarrow> 'e world option" where
  "ndlcomBridgeRegisterExternalInterface i w = do {
     found \<leftarrow> ndlcomBridgeCheckExternalInterface i w;
     if found then Some w
     else Some (upd_iface i (ei_bridge_update (\<lambda>_. Bridge_ptr))
       (upd_links (list_add (Iface_list i) ExternalInterfaceList) w))
   }"

definition ndlcomBridgeDeregisterBridgeHandler :: "handler_id \<Rightarrow> 'e world \<Rightarrow> 'e world option" where
  "ndlcomBridgeDeregisterBridgeHandler h w = do {
     found \<leftarrow> ndlcomBridgeCheckBridgeHandler h w;
     if \<not> found then Some w
     else Some (upd_handler h (bh_bridge_update (\<lambda>_. Null)) (upd_links (list_del_init (Handler_list h)) w))
   }"

definition ndlcomBridgeDeregisterExternalInterface :: "config \<Rightarrow> nat \<Rightarrow> 'e world \<Rightarrow> 'e world option" where
  "ndlcomBridgeDeregisterExternalInterface cfg i w = do {
     found \<leftarrow> ndlcomBridgeCheckExternalInterface i w;
     if \<not> found then Some w
     else do {
       let w = w\<lparr>routingTable := ndlcomRoutingTableInvalidateInterface cfg (routingTable w) (Iface_ptr i)\<rparr>;
       Some (upd_iface i (ei_bridge_update (\<lambda>_. Null)) (upd_links (list_del_init (Iface_list i)) w))
     }
   }"

definition ndlcomExternalInterfaceSetRoutingForDeviceId :: "config \<Rightarrow> nat \<Rightarrow> u8 \<Rightarrow> 'e world \<Rightarrow> 'e world" where
  "ndlcomExternalInterfaceSetRoutingForDeviceId cfg i deviceId w =
     (if ei_bridge (ifaces w i) = Null then w
      else ndlcomBridgeAddRoutingInformationForDeviceId cfg deviceId i w)"

section \<open>What is written where\<close>

text \<open>The interfaces a message is written to, in order: first the mirrors, then by its destination.\<close>

definition mirror_targets :: "'e world \<Rightarrow> ptr \<Rightarrow> nat list \<Rightarrow> nat list" where
  "mirror_targets w origin is = filter (\<lambda>i. origin \<noteq> Iface_ptr i \<and> is_mirror (ifaces w i)) is"

definition routed_targets :: "config \<Rightarrow> 'e world \<Rightarrow> NDLComHeader \<Rightarrow> ptr \<Rightarrow> nat list \<Rightarrow> nat list" where
  "routed_targets cfg w header origin is =
     (let destination = ndlcomRoutingGetDestination cfg (routingTable w) (mReceiverId header) in
      if \<not> forwarding_enabled w \<and> origin \<noteq> Bridge_ptr \<and> destination \<noteq> Bridge_ptr then []
      else if destination = Null then filter (\<lambda>i. origin \<noteq> Iface_ptr i \<and> \<not> is_mirror (ifaces w i)) is
      else if destination = origin then []
      else (case destination of Iface_ptr i \<Rightarrow> [i] | _ \<Rightarrow> []))"

definition message_targets :: "config \<Rightarrow> 'e world \<Rightarrow> NDLComHeader \<Rightarrow> ptr \<Rightarrow> nat list \<Rightarrow> nat list" where
  "message_targets cfg w header origin is = mirror_targets w origin is @ routed_targets cfg w header origin is"

definition write_all :: "'e callbacks \<Rightarrow> u8 list \<Rightarrow> nat list \<Rightarrow> 'e world \<Rightarrow> 'e world" where
  "write_all cb bytes is w = fold (\<lambda>i. iface_write cb i bytes) is w"

lemma write_all_simps [simp]:
  "write_all cb bytes [] w = w"
  "write_all cb bytes (i # is) w = write_all cb bytes is (iface_write cb i bytes w)"
  "write_all cb bytes (is @ js) w = write_all cb bytes js (write_all cb bytes is w)"
  by (simp_all add: write_all_def)

lemma write_all_frame [world_frame]:
  "links (write_all cb bytes is w) = links w" "routingTable (write_all cb bytes is w) = routingTable w"
  "ifaces (write_all cb bytes is w) = ifaces w" "handlers (write_all cb bytes is w) = handlers w"
  "bridge_flags (write_all cb bytes is w) = bridge_flags w" "nodes (write_all cb bytes is w) = nodes w"
  "nodeHandlers (write_all cb bytes is w) = nodeHandlers w"
  by (induction "is" arbitrary: w) simp_all

lemma run_writes:
  "run_entries (write_unless_origin cb P bytes origin) (map Iface_list is) w =
    Some (write_all cb bytes (filter (\<lambda>i. origin \<noteq> Iface_ptr i \<and> P (ifaces w i)) is) w)"
  by (induction "is" arbitrary: w) (simp_all add: write_unless_origin_def)

lemma write_loop:
  assumes "dlist (links w) ExternalInterfaceList (map Iface_list is)"
  shows "list_for_each_entry links ExternalInterfaceList (write_unless_origin cb P bytes origin)
      (lnext (links w) ExternalInterfaceList) w =
    Some (write_all cb bytes (filter (\<lambda>i. origin \<noteq> Iface_ptr i \<and> P (ifaces w i)) is) w)"
proof -
  have "links s' = links s"
    if "x \<in> set (map Iface_list is)" "write_unless_origin cb P bytes origin x s = Some s'" for x s s'
    using that by (auto simp: write_unless_origin_def)
  from list_for_each_entry_all [where links = links and s = w, OF assms this] show ?thesis
    by (simp add: run_writes)
qed

lemma process_outgoing_effect:
  assumes "dlist (links w) ExternalInterfaceList (map Iface_list is)"
    and "unat (mDataLen header) \<le> length payload"
  shows "ndlcomBridgeProcessOutgoingMessage cfg cb header payload origin w =
    Some (write_all cb (frame cfg header (take (unat (mDataLen header)) payload))
      (message_targets cfg w header origin is) w)"
proof -
  let ?f = "frame cfg header (take (unat (mDataLen header)) payload)"
  let ?sz = "NDLCOM_MAX_ENCODED_MESSAGE_SIZE_FOR_PACKET header"
  have enc: "ndlcomEncode cfg (replicate ?sz 0) ?sz header payload = Some (overwrite (replicate ?sz 0) 0 ?f, length ?f)"
    using ndlcomEncode_effect [of header "replicate ?sz 0" payload cfg] assms(2) by (simp add: Let_def)
  have "length ?f \<le> ?sz"
    using length_frame_le [of cfg header "take (unat (mDataLen header)) payload"] assms(2) by (simp add: size_defs)
  then have bytes: "take (length ?f) (overwrite (replicate ?sz 0) 0 ?f) = ?f"
    using take_overwrite [of 0 ?f "replicate ?sz 0"] by simp
  let ?w = "write_all cb ?f (mirror_targets w origin is) w"
  have m: "list_for_each_entry links ExternalInterfaceList (write_unless_origin cb is_mirror ?f origin)
      (lnext (links w) ExternalInterfaceList) w = Some ?w"
    using write_loop [OF assms(1)] by (simp add: mirror_targets_def)
  have r: "list_for_each_entry links ExternalInterfaceList (write_unless_origin cb (\<lambda>ei. \<not> is_mirror ei) ?f origin)
      (lnext (links w) ExternalInterfaceList) ?w =
    Some (write_all cb ?f (filter (\<lambda>i. origin \<noteq> Iface_ptr i \<and> \<not> is_mirror (ifaces w i)) is) ?w)"
    using write_loop [of ?w "is" cb "\<lambda>ei. \<not> is_mirror ei" ?f origin] assms(1) by (simp add: world_frame)
  show ?thesis
    by (simp add: ndlcomBridgeProcessOutgoingMessage_def enc bytes m r message_targets_def routed_targets_def
        Let_def forwarding_enabled_def world_frame NDLCOM_ROUTING_ALL_INTERFACES_def split: ptr.split)
qed

section \<open>Calling the handlers\<close>

text \<open>
  Handlers that leave the lists and the interface structures of the library alone whenever they return; and
  handlers that also return always. A handler that throws only meets the first.
\<close>

definition handlers_leave_lists :: "'e callbacks \<Rightarrow> bool" where
  "handlers_leave_lists cb \<longleftrightarrow>
     (\<forall>k header payload origin w w'. cb_handler cb k header payload origin w = Some w' \<longrightarrow>
        links w' = links w \<and> ifaces w' = ifaces w)"

definition handlers_keep_lists :: "'e callbacks \<Rightarrow> bool" where
  "handlers_keep_lists cb \<longleftrightarrow>
     (\<forall>k header payload origin w. \<exists>w'. cb_handler cb k header payload origin w = Some w' \<and>
        links w' = links w \<and> ifaces w' = ifaces w)"

lemma handlers_leaveD:
  "handlers_leave_lists cb \<Longrightarrow> cb_handler cb k header payload origin w = Some w' \<Longrightarrow>
    links w' = links w \<and> ifaces w' = ifaces w"
  unfolding handlers_leave_lists_def by blast

lemma handlers_keep_leave: "handlers_keep_lists cb \<Longrightarrow> handlers_leave_lists cb"
  unfolding handlers_keep_lists_def handlers_leave_lists_def by (metis option.inject)

text \<open>
  It is enough that handlers return for the calls that happen: with an interface of the bridge or no origin at
  all, and with a payload of the length that the header has.
\<close>

definition handlers_return :: "'e callbacks \<Rightarrow> nat list \<Rightarrow> bool" where
  "handlers_return cb is \<longleftrightarrow> handlers_leave_lists cb \<and>
     (\<forall>k header payload origin w. origin = Null \<or> origin \<in> Iface_ptr ` set is \<longrightarrow> unat (mDataLen header) \<le> length payload \<longrightarrow>
        cb_handler cb k header payload origin w \<noteq> None)"

lemma handlers_keep_return: "handlers_keep_lists cb \<Longrightarrow> handlers_return cb is"
  using handlers_keep_leave unfolding handlers_return_def handlers_keep_lists_def by (metis option.distinct(1))

lemma handlers_return_leave: "handlers_return cb is \<Longrightarrow> handlers_leave_lists cb"
  by (simp add: handlers_return_def)

lemma handlers_returnE:
  assumes "handlers_return cb is" and "origin = Null \<or> origin \<in> Iface_ptr ` set is" and "unat (mDataLen header) \<le> length payload"
  obtains w' where "cb_handler cb k header payload origin w = Some w'"
  using assms unfolding handlers_return_def by blast

text \<open>The calls one message causes in a node, and in the bridge.\<close>

definition deliver_node ::
  "'e callbacks \<Rightarrow> NDLComHeader \<Rightarrow> u8 list \<Rightarrow> ptr \<Rightarrow> nat list \<Rightarrow> 'e world \<Rightarrow> 'e world option" where
  "deliver_node cb header payload origin ks w =
     run_entries (node_handler_body cb header payload origin) (map Node_handler_list ks) w"

definition deliver_bridge ::
  "'e callbacks \<Rightarrow> NDLComHeader \<Rightarrow> u8 list \<Rightarrow> ptr \<Rightarrow> handler_id list \<Rightarrow> 'e world \<Rightarrow> 'e world option" where
  "deliver_bridge cb header payload origin hs w =
     run_entries (\<lambda>y w. map_option fst (bridge_handler_body cb header payload origin y w)) (map Handler_list hs) w"

text \<open>What every step keeps, a run over a list keeps; if every step returns, the run returns.\<close>

lemma run_entries_preserve:
  assumes "run_entries body xs w = Some w'" and "Q w"
    and "\<And>x v v'. x \<in> set xs \<Longrightarrow> Q v \<Longrightarrow> body x v = Some v' \<Longrightarrow> Q v'"
  shows "Q w'"
  using assms
proof (induction xs arbitrary: w)
  case (Cons x xs)
  then obtain v where v: "body x w = Some v" "run_entries body xs v = Some w'"
    by (cases "body x w") auto
  then show ?case using Cons by (metis list.set_intros)
qed simp

lemma run_entries_returns:
  assumes "\<And>x w. x \<in> set xs \<Longrightarrow> P w \<Longrightarrow> \<exists>w'. body x w = Some w' \<and> P w'" and "P w"
  shows "\<exists>w'. run_entries body xs w = Some w' \<and> P w'"
  using assms
proof (induction xs arbitrary: w)
  case (Cons x xs)
  from Cons.prems(1) [of x w] Cons.prems(2) obtain w' where "body x w = Some w'" "P w'" by auto
  with Cons.IH [of w'] Cons.prems(1) show ?case by auto
qed simp

definition same_lists :: "'e world \<Rightarrow> 'e world \<Rightarrow> bool" where
  "same_lists w w' \<longleftrightarrow> links w' = links w \<and> ifaces w' = ifaces w"

definition node_lists :: "'e world \<Rightarrow> bool" where
  "node_lists w \<longleftrightarrow> (\<forall>n. \<exists>ks. dlist (links w) (NodeHandlerList n) (map Node_handler_list ks))"

lemma same_lists_node_lists: "same_lists w w' \<Longrightarrow> node_lists w' = node_lists w"
  by (simp add: same_lists_def node_lists_def)

lemma node_handler_body_leaves:
  "handlers_leave_lists cb \<Longrightarrow> node_handler_body cb header payload origin pos w = Some w' \<Longrightarrow> same_lists w w'"
  by (auto simp: node_handler_body_def same_lists_def dest: handlers_leaveD split: if_splits Option.bind_splits)

lemma node_handler_body_returns:
  assumes "handlers_return cb is" and "origin = Null \<or> origin \<in> Iface_ptr ` set is" and "unat (mDataLen header) \<le> length payload"
  shows "\<exists>w'. node_handler_body cb header payload origin (Node_handler_list k) w = Some w'"
  using handlers_returnE [OF assms, of "nh_handler (nodeHandlers w k)" w]
  by (auto simp: node_handler_body_def)

lemma node_message_handler_effect:
  assumes "handlers_leave_lists cb" and "dlist (links w) (NodeHandlerList n) (map Node_handler_list ks)"
  shows "ndlcomNodeMessageHandler cb n header payload origin w =
    (if mReceiverId header = mOwnSenderId (headerConfig (nodes w n)) \<or> mReceiverId header = NDLCOM_ADDR_BROADCAST
     then deliver_node cb header payload origin ks w else Some w)"
proof -
  have "links s' = links s" if "node_handler_body cb header payload origin x s = Some s'" for x s s'
    using node_handler_body_leaves [OF assms(1) that] by (simp add: same_lists_def)
  then have "list_for_each_entry links (NodeHandlerList n) (node_handler_body cb header payload origin)
      (lnext (links w) (NodeHandlerList n)) w = deliver_node cb header payload origin ks w"
    unfolding deliver_node_def by (intro list_for_each_entry_all [where links = links and s = w, OF assms(2)])
  then show ?thesis by (simp add: ndlcomNodeMessageHandler_def)
qed

lemma deliver_node_leaves:
  assumes "handlers_leave_lists cb" and "deliver_node cb header payload origin ks w = Some w'"
  shows "same_lists w w'"
  by (rule run_entries_preserve [where Q = "same_lists w", OF assms(2) [unfolded deliver_node_def]])
    (use node_handler_body_leaves [OF assms(1)] in \<open>auto simp: same_lists_def\<close>)

lemma deliver_node_returns:
  assumes "handlers_return cb is" and "origin = Null \<or> origin \<in> Iface_ptr ` set is" and "unat (mDataLen header) \<le> length payload"
  shows "\<exists>w'. deliver_node cb header payload origin ks w = Some w'"
proof -
  have "\<exists>v'. node_handler_body cb header payload origin x v = Some v' \<and> True"
    if "x \<in> set (map Node_handler_list ks)" for x v
    using that node_handler_body_returns [OF assms] by auto
  then have "\<exists>w'. run_entries (node_handler_body cb header payload origin) (map Node_handler_list ks) w = Some w' \<and> True"
    by (rule run_entries_returns) simp_all
  then show ?thesis by (simp add: deliver_node_def)
qed

lemma call_handler_leaves:
  assumes "handlers_leave_lists cb" and "node_lists w" and "call_handler cb f header payload origin w = Some w'"
  shows "same_lists w w'"
proof (cases f)
  case (Node_message_handler n)
  obtain ks where "dlist (links w) (NodeHandlerList n) (map Node_handler_list ks)"
    using assms(2) by (auto simp: node_lists_def)
  from node_message_handler_effect [OF assms(1) this] show ?thesis
    using assms(3) Node_message_handler deliver_node_leaves [OF assms(1)]
    by (auto simp: call_handler_def same_lists_def split: if_splits)
next
  case (User_handler k)
  then show ?thesis using handlers_leaveD [OF assms(1)] assms(3) by (simp add: call_handler_def same_lists_def)
qed

lemma call_handler_returns:
  assumes "handlers_return cb is" and "origin = Null \<or> origin \<in> Iface_ptr ` set is" and "unat (mDataLen header) \<le> length payload"
    and "node_lists w"
  shows "\<exists>w'. call_handler cb f header payload origin w = Some w'"
proof (cases f)
  case (Node_message_handler n)
  obtain ks where "dlist (links w) (NodeHandlerList n) (map Node_handler_list ks)"
    using assms(4) by (auto simp: node_lists_def)
  from node_message_handler_effect [OF handlers_return_leave [OF assms(1)] this] show ?thesis
    using deliver_node_returns [OF assms(1-3)] Node_message_handler by (simp add: call_handler_def)
next
  case (User_handler k)
  then show ?thesis using handlers_returnE [OF assms(1-3)] by (simp add: call_handler_def) metis
qed

lemma bridge_handler_body_leaves:
  assumes "handlers_leave_lists cb" and "node_lists w" and "bridge_handler_body cb header payload origin pos w = Some r"
  shows "same_lists w (fst r)"
  using assms(3) call_handler_leaves [OF assms(1,2)]
  by (auto simp: bridge_handler_body_def same_lists_def split: if_splits Option.bind_splits)

lemma bridge_handler_body_returns:
  assumes "handlers_return cb is" and "origin = Bridge_ptr \<or> origin \<in> Iface_ptr ` set is" and "unat (mDataLen header) \<le> length payload"
    and "node_lists w"
  shows "\<exists>r. bridge_handler_body cb header payload origin (Handler_list h) w = Some r"
proof -
  obtain w' where "call_handler cb (bh_handler (handlers w h)) header payload (if origin = Bridge_ptr then Null else origin) w = Some w'"
    using call_handler_returns [OF assms(1) _ assms(3,4), of "if origin = Bridge_ptr then Null else origin" "bh_handler (handlers w h)"]
      assms(2) by auto
  then show ?thesis by (simp add: bridge_handler_body_def) blast
qed

lemma deliver_bridge_leaves:
  assumes "handlers_leave_lists cb" and "node_lists w" and "deliver_bridge cb header payload origin hs w = Some w'"
  shows "links w' = links w" and "ifaces w' = ifaces w"
proof -
  have "node_lists w' \<and> same_lists w w'"
  proof (rule run_entries_preserve [where Q = "\<lambda>v. node_lists v \<and> same_lists w v", OF assms(3) [unfolded deliver_bridge_def]])
    fix x v v'
    assume v: "node_lists v \<and> same_lists w v"
      and "map_option fst (bridge_handler_body cb header payload origin x v) = Some v'"
    then obtain r where "bridge_handler_body cb header payload origin x v = Some r" "v' = fst r" by auto
    then have "same_lists v v'" using bridge_handler_body_leaves [OF assms(1)] v by blast
    then show "node_lists v' \<and> same_lists w v'" using v same_lists_node_lists by (auto simp: same_lists_def)
  qed (use assms(2) in \<open>simp add: same_lists_def\<close>)
  then show "links w' = links w" and "ifaces w' = ifaces w" by (simp_all add: same_lists_def)
qed

lemma deliver_bridge_returns:
  assumes "handlers_return cb is" and "origin = Bridge_ptr \<or> origin \<in> Iface_ptr ` set is" and "unat (mDataLen header) \<le> length payload"
    and "node_lists w"
  shows "\<exists>w'. deliver_bridge cb header payload origin hs w = Some w'"
proof -
  have step: "\<exists>s'. map_option fst (bridge_handler_body cb header payload origin x s) = Some s' \<and> node_lists s'"
    if "x \<in> set (map Handler_list hs)" "node_lists s" for x s
  proof -
    have "\<exists>r. bridge_handler_body cb header payload origin x s = Some r"
      using bridge_handler_body_returns [OF assms(1-3) that(2)] that(1) by auto
    then obtain r where r: "bridge_handler_body cb header payload origin x s = Some r" by blast
    have "node_lists (fst r)"
      using bridge_handler_body_leaves [OF handlers_return_leave [OF assms(1)] that(2) r] same_lists_node_lists that(2)
      by blast
    with r show ?thesis by simp
  qed
  have "\<exists>w'. run_entries (\<lambda>y v. map_option fst (bridge_handler_body cb header payload origin y v)) (map Handler_list hs) w =
      Some w' \<and> node_lists w'"
    by (rule run_entries_returns [OF step assms(4)])
  then show ?thesis by (auto simp: deliver_bridge_def)
qed

lemma process_decoded_effect:
  assumes "handlers_leave_lists cb" and "node_lists w"
    and "dlist (links w) ExternalInterfaceList (map Iface_list is)"
    and "dlist (links w) BridgeHandlerList (map Handler_list hs)"
    and "unat (mDataLen header) \<le> length payload"
  shows "ndlcomBridgeProcessDecodedMessage cfg cb header payload origin w =
    deliver_bridge cb header payload origin hs
      (write_all cb (frame cfg header (take (unat (mDataLen header)) payload))
        (message_targets cfg w header origin is) w)"
proof -
  let ?w = "write_all cb (frame cfg header (take (unat (mDataLen header)) payload))
      (message_targets cfg w header origin is) w"
  have out: "ndlcomBridgeProcessOutgoingMessage cfg cb header payload origin w = Some ?w"
    by (rule process_outgoing_effect [OF assms(3,5)])
  have dl: "dlist (links ?w) BridgeHandlerList (map Handler_list hs)" using assms(4) by (simp add: world_frame)
  have inv: "node_lists ?w" using assms(2) by (simp add: node_lists_def world_frame)
  have step: "node_lists s' \<and> (\<exists>us'. dlist (links s') BridgeHandlerList (us' @ y # vs) \<or>
        c \<and> dlist (links s') BridgeHandlerList (us' @ vs) \<and> list_empty (links s') y)"
    if s: "node_lists s" "dlist (links s) BridgeHandlerList (us @ y # vs)" "y \<in> set (map Handler_list hs)"
      "bridge_handler_body cb header payload origin y s = Some (s', c)" for us y vs s s' c
    using bridge_handler_body_leaves [OF assms(1) s(1,4)] s(1,2) same_lists_node_lists
    by (auto simp: same_lists_def)
  show ?thesis
    using list_for_each_entry_safe_all [where links = links and s = ?w and I = node_lists, OF dl inv step]
    by (simp add: ndlcomBridgeProcessDecodedMessage_def out deliver_bridge_def)
qed

section \<open>Processing a stream\<close>

text \<open>The packets in a piece of the byte stream, and what is left in the deframer.\<close>

lemma deframe_takes: "bs \<noteq> [] \<Longrightarrow> 0 < snd (deframe cfg d bs)"
  by (cases bs) simp_all

function packets :: "config \<Rightarrow> deframer \<Rightarrow> u8 list \<Rightarrow> (NDLComHeader \<times> u8 list) list \<times> deframer" where
  "packets cfg d bs =
     (if bs = [] then ([], d)
      else case df_phase (fst (deframe cfg d bs)) of
        Packet_ready h pl \<Rightarrow>
          let r = packets cfg ((fst (deframe cfg d bs))\<lparr>df_escape := False, df_phase := Collect []\<rparr>)
                (drop (snd (deframe cfg d bs)) bs)
          in ((h, pl) # fst r, snd r)
      | _ \<Rightarrow> ([], fst (deframe cfg d bs)))"
  by pat_completeness auto
termination
  by (relation "measure (\<lambda>(cfg, d, bs). length bs)") (simp_all add: deframe_takes)

declare packets.simps [simp del]

text \<open>
  One message that the interface \<open>i\<close> received: the parser holds it, the table learns its sender, it is
  written to its targets, the handlers are called, and the parser is made ready for the next one.
  \<open>is\<close> and \<open>hs\<close> are the registered interfaces and handlers.
\<close>

inductive message_step ::
  "config \<Rightarrow> 'e callbacks \<Rightarrow> nat \<Rightarrow> nat list \<Rightarrow> handler_id list \<Rightarrow> NDLComHeader \<times> u8 list \<Rightarrow>
    'e world \<Rightarrow> 'e world \<Rightarrow> bool"
  for cfg cb i "is" hs where
  message: "unat (mDataLen h) \<le> length mem \<Longrightarrow> take (unat (mDataLen h)) mem = pl \<Longrightarrow>
    w1 = learn_sender cfg i h (upd_iface i (ei_parser_update (\<lambda>_. p)) w) \<Longrightarrow>
    deliver_bridge cb h mem (Iface_ptr i) hs
      (write_all cb (frame cfg h pl) (message_targets cfg w1 h (Iface_ptr i) is) w1) = Some w2 \<Longrightarrow>
    message_step cfg cb i is hs (h, pl) w (upd_iface i (ei_parser_update ndlcomParserDestroyPacket) w2)"

text \<open>A sequence of them; the bytes behind the last one only change the parser.\<close>

inductive message_steps ::
  "config \<Rightarrow> 'e callbacks \<Rightarrow> nat \<Rightarrow> nat list \<Rightarrow> handler_id list \<Rightarrow> (NDLComHeader \<times> u8 list) list \<Rightarrow>
    'e world \<Rightarrow> 'e world \<Rightarrow> bool"
  for cfg cb i "is" hs where
  rest: "message_steps cfg cb i is hs [] w (upd_iface i (ei_parser_update (\<lambda>_. p)) w)"
| next_message: "message_step cfg cb i is hs m w w1 \<Longrightarrow> message_steps cfg cb i is hs ms w1 w2 \<Longrightarrow>
    message_steps cfg cb i is hs (m # ms) w w2"

text \<open>A message whose handling does not return, because one of the handlers does not.\<close>

definition message_fails ::
  "config \<Rightarrow> 'e callbacks \<Rightarrow> nat \<Rightarrow> nat list \<Rightarrow> handler_id list \<Rightarrow> NDLComHeader \<times> u8 list \<Rightarrow> 'e world \<Rightarrow> bool" where
  "message_fails cfg cb i is hs m w \<longleftrightarrow>
     (\<exists>p mem. let h = fst m; w1 = learn_sender cfg i h (upd_iface i (ei_parser_update (\<lambda>_. p)) w) in
        unat (mDataLen h) \<le> length mem \<and> take (unat (mDataLen h)) mem = snd m \<and>
        deliver_bridge cb h mem (Iface_ptr i) hs
          (write_all cb (frame cfg h (snd m)) (message_targets cfg w1 h (Iface_ptr i) is) w1) = None)"

text \<open>The messages before the one that fails are handled.\<close>

definition stops_at_message ::
  "config \<Rightarrow> 'e callbacks \<Rightarrow> nat \<Rightarrow> nat list \<Rightarrow> handler_id list \<Rightarrow> (NDLComHeader \<times> u8 list) list \<Rightarrow> 'e world \<Rightarrow> bool" where
  "stops_at_message cfg cb i is hs ms w \<longleftrightarrow>
     (\<exists>before m after w1. ms = before @ m # after \<and> message_steps cfg cb i is hs before w w1 \<and>
        message_fails cfg cb i is hs m w1)"

inductive_cases message_stepE: "message_step cfg cb i is hs m w w'"
inductive_cases message_steps_NilE: "message_steps cfg cb i is hs [] w w'"
inductive_cases message_steps_ConsE: "message_steps cfg cb i is hs (m # ms) w w'"

text \<open>What the handlers of a stream rely on: the lists hold what they hold.\<close>

definition registered :: "'e world \<Rightarrow> nat list \<Rightarrow> handler_id list \<Rightarrow> bool" where
  "registered w is hs \<longleftrightarrow> node_lists w \<and> dlist (links w) ExternalInterfaceList (map Iface_list is) \<and>
     dlist (links w) BridgeHandlerList (map Handler_list hs)"

lemma registered_cong: "links w' = links w \<Longrightarrow> registered w' is hs = registered w is hs"
  by (simp add: registered_def node_lists_def)

lemma learn_sender_frame [world_frame]:
  "links (learn_sender cfg i h w) = links w" "ifaces (learn_sender cfg i h w) = ifaces w"
  "handlers (learn_sender cfg i h w) = handlers w" "env (learn_sender cfg i h w) = env w"
  by (simp_all add: learn_sender_def)

lemma upd_parser_same: "ei_parser (ifaces w i) = p \<Longrightarrow> upd_iface i (ei_parser_update (\<lambda>_. p)) w = w"
  by (cases "ifaces w i") (auto simp: upd_iface_def intro!: world.equality)

lemma stops_at_first:
  assumes "message_fails cfg cb i is hs m w"
  shows "stops_at_message cfg cb i is hs (m # ms) w"
proof -
  have "message_steps cfg cb i is hs [] w w"
    using message_steps.rest [of cfg cb i "is" hs w "ei_parser (ifaces w i)"] by (simp add: upd_parser_same)
  with assms show ?thesis unfolding stops_at_message_def by (metis append_Nil)
qed

lemma stops_later:
  assumes "message_step cfg cb i is hs m w w1" and "stops_at_message cfg cb i is hs ms w1"
  shows "stops_at_message cfg cb i is hs (m # ms) w"
  using assms unfolding stops_at_message_def by (metis append_Cons message_steps.next_message)

text \<open>Either a handler did not return, or all bytes are used and the messages in them are handled.\<close>

definition stream_result ::
  "config \<Rightarrow> 'e callbacks \<Rightarrow> nat \<Rightarrow> nat list \<Rightarrow> handler_id list \<Rightarrow> u8 list \<Rightarrow> nat \<Rightarrow> deframer \<Rightarrow> 'e world \<Rightarrow> bool" where
  "stream_result cfg cb i is hs buf done d w \<longleftrightarrow> (let (ms, d') = packets cfg d (drop done buf) in
     process_bytes cfg cb i buf done w = None \<and> \<not> handlers_return cb is \<and> stops_at_message cfg cb i is hs ms w \<or>
     (\<exists>w'. process_bytes cfg cb i buf done w = Some (length buf, w') \<and> message_steps cfg cb i is hs ms w w' \<and>
       registered w' is hs \<and> parser_abs cfg (ei_parser (ifaces w' i)) d' \<and> \<not> is_ready (df_phase d')))"

text \<open>Bytes that complete no packet.\<close>

lemma process_bytes_rest:
  assumes "registered w is hs" and "done < length buf"
    and "ndlcomParserReceive cfg (ei_parser (ifaces w i)) (drop done buf) = Some (p, snd (deframe cfg d (drop done buf)))"
    and "parser_abs cfg p (fst (deframe cfg d (drop done buf)))"
    and "\<not> is_ready (df_phase (fst (deframe cfg d (drop done buf))))"
  shows "stream_result cfg cb i is hs buf done d w"
proof -
  let ?bs = "drop done buf"
  let ?d = "fst (deframe cfg d ?bs)" and ?w = "upd_iface i (ei_parser_update (\<lambda>_. p)) w"
  have all: "snd (deframe cfg d ?bs) = length ?bs" using deframe_all [of cfg d ?bs] assms(5) by simp
  have pk: "packets cfg d ?bs = ([], ?d)"
    using assms(2,5) by (subst packets.simps) (cases "df_phase ?d"; simp)
  have "process_bytes cfg cb i buf done w = Some (length buf, ?w)"
    using parser_abs_ready [OF assms(4)] assms(2,5) all by (subst process_bytes.simps) (simp add: assms(3))
  moreover have "registered ?w is hs" using assms(1) by (simp add: registered_def node_lists_def)
  moreover have "message_steps cfg cb i is hs [] w ?w" by (rule message_steps.rest)
  ultimately show ?thesis using assms(4,5) unfolding stream_result_def pk by (simp add: upd_iface_def)
qed

text \<open>Bytes that complete a packet: a handler did not return, or the packet is handled and the parser cleared.\<close>

lemma process_bytes_packet:
  assumes "handlers_leave_lists cb" and "registered w is hs" and "i \<in> set is"
    and "ndlcomParserReceive cfg (ei_parser (ifaces w i)) (drop done buf) = Some (p, n)"
    and "parser_abs cfg p d" and "df_phase d = Packet_ready h pl"
  shows "process_bytes cfg cb i buf done w = None \<and> \<not> handlers_return cb is \<and> message_fails cfg cb i is hs (h, pl) w \<or>
    (\<exists>w'. message_step cfg cb i is hs (h, pl) w w' \<and> registered w' is hs \<and>
      parser_abs cfg (ei_parser (ifaces w' i)) (d\<lparr>df_escape := False, df_phase := Collect []\<rparr>) \<and>
      process_bytes cfg cb i buf done w =
        (if length buf \<noteq> done + n then process_bytes cfg cb i buf (done + n) w' else Some (done + n, w')))"
proof -
  obtain mem where hp: "ndlcomParserHasPacket p" and mem: "ndlcomParserGetHeader p = Some h" "ndlcomParserGetPacket p = Some mem"
    "take (unat (mDataLen h)) mem = pl" and len: "unat (mDataLen h) \<le> length mem"
    by (rule parser_abs_packet [OF assms(5,6)])
  let ?w1 = "learn_sender cfg i h (upd_iface i (ei_parser_update (\<lambda>_. p)) w)"
  let ?w2 = "write_all cb (frame cfg h pl) (message_targets cfg ?w1 h (Iface_ptr i) is) ?w1"
  have reg1: "registered ?w1 is hs" using assms(2) by (simp add: registered_def node_lists_def world_frame)
  then have node2: "node_lists ?w2" by (simp add: registered_def node_lists_def world_frame)
  have dec: "ndlcomBridgeProcessDecodedMessage cfg cb h mem (Iface_ptr i) ?w1 = deliver_bridge cb h mem (Iface_ptr i) hs ?w2"
    using process_decoded_effect [OF assms(1) _ _ _ len, of ?w1 "is" hs] reg1 mem(3)
    by (simp add: registered_def)
  show ?thesis
  proof (cases "deliver_bridge cb h mem (Iface_ptr i) hs ?w2")
    case None
    then have "process_bytes cfg cb i buf done w = None"
      by (subst process_bytes.simps) (simp add: assms(4) hp mem dec)
    moreover have "\<not> handlers_return cb is"
      using deliver_bridge_returns [of cb "is" "Iface_ptr i" h mem, OF _ _ len node2, where hs = hs] assms(3) None by auto
    moreover have "message_fails cfg cb i is hs (h, pl) w"
      using len mem(3) None unfolding message_fails_def by (auto simp: Let_def)
    ultimately show ?thesis by simp
  next
    case (Some w3)
    note w3 = Some deliver_bridge_leaves [OF assms(1) node2 Some]
    let ?w4 = "upd_iface i (ei_parser_update ndlcomParserDestroyPacket) w3"
    have step: "message_step cfg cb i is hs (h, pl) w ?w4"
      by (rule message_step.message [OF len mem(3) refl w3(1)])
    have reg4: "registered ?w4 is hs" using assms(2) w3(2) by (simp add: registered_def node_lists_def world_frame)
    have "\<not> list_empty (links ?w4) (Iface_list i)"
      using reg4 assms(3) dlist_entry_not_empty [of "links ?w4" ExternalInterfaceList "map Iface_list is" "Iface_list i"]
      by (auto simp: registered_def)
    then have "process_bytes cfg cb i buf done w =
        (if length buf \<noteq> done + n then process_bytes cfg cb i buf (done + n) ?w4 else Some (done + n, ?w4))"
      by (subst process_bytes.simps) (simp add: assms(4) hp mem dec w3(1))
    moreover have "ei_parser (ifaces ?w4 i) = ndlcomParserDestroyPacket p"
      using w3(3) by (simp add: upd_iface_def world_frame)
    ultimately show ?thesis using step reg4 parser_abs_after_packet [OF assms(5)] by auto
  qed
qed

lemma stream_result_next:
  assumes "packets cfg d (drop done buf) = ((h, pl) # fst (packets cfg d' (drop next_done buf)), snd (packets cfg d' (drop next_done buf)))"
    and "message_step cfg cb i is hs (h, pl) w w'"
    and "process_bytes cfg cb i buf done w = process_bytes cfg cb i buf next_done w'"
    and "stream_result cfg cb i is hs buf next_done d' w'"
  shows "stream_result cfg cb i is hs buf done d w"
  using assms(4) unfolding stream_result_def assms(1,3)
  by (auto simp: case_prod_beta Let_def intro: message_steps.next_message [OF assms(2)] stops_later [OF assms(2)])

lemma process_bytes_refines:
  assumes "handlers_leave_lists cb" and "registered w is hs" and "i \<in> set is"
    and "parser_abs cfg (ei_parser (ifaces w i)) d" and "\<not> is_ready (df_phase d)"
    and "done < length buf"
  shows "stream_result cfg cb i is hs buf done d w"
  using assms(2,4-6)
proof (induction "length buf - done" arbitrary: d "done" w rule: less_induct)
  case less
  let ?bs = "drop done buf"
  let ?d = "fst (deframe cfg d ?bs)" and ?n = "snd (deframe cfg d ?bs)"
  have np: "\<not> ndlcomParserHasPacket (ei_parser (ifaces w i))" using parser_abs_ready [OF less.prems(2)] less.prems(3) by simp
  obtain p where p: "ndlcomParserReceive cfg (ei_parser (ifaces w i)) ?bs = Some (p, ?n)" "parser_abs cfg p ?d"
    using receive_simulates [OF less.prems(2) np] by blast
  have ne: "?bs \<noteq> []" using less.prems(4) by simp
  show ?case
  proof (cases "df_phase ?d")
    case (Packet_ready h pl)
    let ?d' = "?d\<lparr>df_escape := False, df_phase := Collect []\<rparr>"
    have pk: "packets cfg d ?bs = ((h, pl) # fst (packets cfg ?d' (drop (done + ?n) buf)), snd (packets cfg ?d' (drop (done + ?n) buf)))"
      using ne Packet_ready by (subst packets.simps) (simp add: Let_def ac_simps)
    have n: "0 < ?n" "?n \<le> length ?bs" using deframe_takes [OF ne] deframe_bound by blast+
    show ?thesis
    proof (cases "process_bytes cfg cb i buf done w = None \<and> \<not> handlers_return cb is \<and> message_fails cfg cb i is hs (h, pl) w")
      case True
      then show ?thesis using stops_at_first unfolding stream_result_def pk by fastforce
    next
      case False
      then obtain w' where w': "message_step cfg cb i is hs (h, pl) w w'" "registered w' is hs" "parser_abs cfg (ei_parser (ifaces w' i)) ?d'"
        "process_bytes cfg cb i buf done w =
          (if length buf \<noteq> done + ?n then process_bytes cfg cb i buf (done + ?n) w' else Some (done + ?n, w'))"
        using process_bytes_packet [OF assms(1) less.prems(1) assms(3) p Packet_ready] by blast
      show ?thesis
      proof (cases "length buf = done + ?n")
        case True
        have "message_steps cfg cb i is hs [(h, pl)] w w'"
          using message_steps.next_message [OF w'(1) message_steps.rest [where p = "ei_parser (ifaces w' i)"]] by (simp add: upd_parser_same)
        then show ?thesis using True w' unfolding stream_result_def pk by (simp add: packets.simps)
      next
        case False
        with n less.prems(4) have "done + ?n < length buf" and "length buf - (done + ?n) < length buf - done" by auto
        with less.hyps w' have "stream_result cfg cb i is hs buf (done + ?n) ?d' w'" by simp
        from stream_result_next [OF pk w'(1) _ this] show ?thesis using w'(4) False by simp
      qed
    qed
  qed (auto intro: process_bytes_rest [OF less.prems(1,4) p])
qed

section \<open>Invariants of the messages\<close>

text \<open>A property of worlds that every handler call preserves.\<close>

definition handlers_preserve :: "'e callbacks \<Rightarrow> ('e world \<Rightarrow> bool) \<Rightarrow> bool" where
  "handlers_preserve cb Q \<longleftrightarrow>
     (\<forall>k header payload origin w w'. Q w \<longrightarrow> cb_handler cb k header payload origin w = Some w' \<longrightarrow> Q w')"

lemma deliver_node_preserve:
  assumes "deliver_node cb header payload origin ks w = Some w'" and "Q w" and "handlers_preserve cb Q"
  shows "Q w'"
proof (rule run_entries_preserve [where Q = Q, OF assms(1) [unfolded deliver_node_def] assms(2)])
  fix x v v'
  assume "x \<in> set (map Node_handler_list ks)" "Q v" "node_handler_body cb header payload origin x v = Some v'"
  then show "Q v'"
    using assms(3) by (auto simp: node_handler_body_def handlers_preserve_def split: if_splits)
qed

text \<open>Together with the lists, which the handlers keep.\<close>

lemma deliver_bridge_preserve:
  fixes w w' :: "'e world"
  assumes "deliver_bridge cb header payload origin hs w = Some w'" and "Q w" and "handlers_preserve cb Q"
    and "handlers_leave_lists cb" and "node_lists w"
  shows "Q w'"
proof -
  have "Q w' \<and> node_lists w'"
  proof (rule run_entries_preserve [where Q = "\<lambda>v. Q v \<and> node_lists v", OF assms(1) [unfolded deliver_bridge_def]])
    show "Q w \<and> node_lists w" using assms by simp
    fix x and v v' :: "'e world"
    assume x: "x \<in> set (map Handler_list hs)" and v: "Q v \<and> node_lists v"
      and b: "map_option fst (bridge_handler_body cb header payload origin x v) = Some v'"
    obtain h where h: "x = Handler_list h" using x by auto
    have lists: "node_lists v'"
      using bridge_handler_body_leaves [OF assms(4), of v header payload origin x] same_lists_node_lists v b
      by fastforce
    have "Q v'"
    proof (cases "bh_handler (handlers v h)")
      case (User_handler k)
      then show ?thesis using b h v assms(3)
        by (auto simp: bridge_handler_body_def call_handler_def handlers_preserve_def
            split: if_splits Option.bind_splits)
    next
      case (Node_message_handler n)
      obtain ks where "dlist (links v) (NodeHandlerList n) (map Node_handler_list ks)"
        using v by (auto simp: node_lists_def)
      from node_message_handler_effect [OF assms(4) this] show ?thesis
        using b h v Node_message_handler deliver_node_preserve [where Q = Q, OF _ _ assms(3)]
        by (auto simp: bridge_handler_body_def call_handler_def split: if_splits Option.bind_splits)
    qed
    with lists show "Q v' \<and> node_lists v'" by simp
  qed
  then show ?thesis by simp
qed

lemma write_all_preserve:
  "Q w \<Longrightarrow> (\<And>i v. Q v \<Longrightarrow> Q (iface_write cb i bytes v)) \<Longrightarrow> Q (write_all cb bytes is w)"
  by (induction "is" arbitrary: w) simp_all

lemma message_step_preserve:
  assumes "message_step cfg cb i is hs m w w'" and "Q w" and "handlers_preserve cb Q"
    and "handlers_leave_lists cb" and "node_lists w"
    and wr: "\<And>j bytes v. Q v \<Longrightarrow> Q (iface_write cb j bytes v)"
    and pa: "\<And>g v. Q v \<Longrightarrow> Q (upd_iface i (ei_parser_update g) v)"
    and le: "\<And>h v. Q v \<Longrightarrow> Q (learn_sender cfg i h v)"
  shows "Q w'"
  using assms(1)
proof cases
  case (message h mem pl w1 p w2)
  have "Q w1" unfolding message(5) using assms(2) by (intro le pa)
  then have "Q (write_all cb (frame cfg h pl) (message_targets cfg w1 h (Iface_ptr i) is) w1)"
    by (rule write_all_preserve) (rule wr)
  moreover have "node_lists (write_all cb (frame cfg h pl) (message_targets cfg w1 h (Iface_ptr i) is) w1)"
    using assms(5) by (simp add: node_lists_def world_frame message(5))
  ultimately have "Q w2" by (rule deliver_bridge_preserve [OF message(6) _ assms(3,4)])
  then show ?thesis unfolding message(2) by (rule pa)
qed

lemma message_step_frame:
  assumes "message_step cfg cb i is hs m w w'" and "handlers_leave_lists cb" and "node_lists w"
  shows "links w' = links w \<and> (\<forall>j. j \<noteq> i \<longrightarrow> ifaces w' j = ifaces w j) \<and>
    ei_flags (ifaces w' i) = ei_flags (ifaces w i) \<and> ei_io (ifaces w' i) = ei_io (ifaces w i)"
  using assms(1)
proof cases
  case (message h mem pl w1 p w2)
  let ?v = "write_all cb (frame cfg h pl) (message_targets cfg w1 h (Iface_ptr i) is) w1"
  have "node_lists ?v" using assms(3) by (simp add: node_lists_def world_frame message(5))
  note same = deliver_bridge_leaves [OF assms(2) this message(6)]
  then show ?thesis unfolding message(2,5) by (simp add: world_frame) (simp add: upd_iface_def)
qed

lemma message_steps_frame:
  assumes "message_steps cfg cb i is hs ms w w'" and "handlers_leave_lists cb" and "node_lists w"
  shows "links w' = links w \<and> (\<forall>j. j \<noteq> i \<longrightarrow> ifaces w' j = ifaces w j) \<and>
    ei_flags (ifaces w' i) = ei_flags (ifaces w i) \<and> ei_io (ifaces w' i) = ei_io (ifaces w i)"
  using assms
proof (induction rule: message_steps.induct)
  case (rest w p)
  then show ?case by (simp add: upd_iface_def)
next
  case (next_message m w w1 ms w2)
  have "node_lists w1" using message_step_frame [OF next_message(1,4,5)] next_message(5) by (simp add: node_lists_def)
  with next_message message_step_frame [OF next_message(1,4,5)] show ?case by simp
qed

lemma message_steps_preserve:
  assumes "message_steps cfg cb i is hs ms w w'" and "Q w" and "handlers_preserve cb Q"
    and "handlers_leave_lists cb" and "node_lists w"
    and wr: "\<And>j bytes v. Q v \<Longrightarrow> Q (iface_write cb j bytes v)"
    and pa: "\<And>g v. Q v \<Longrightarrow> Q (upd_iface i (ei_parser_update g) v)"
    and le: "\<And>h v. Q v \<Longrightarrow> Q (learn_sender cfg i h v)"
  shows "Q w'"
  using assms(1,2,5)
proof (induction rule: message_steps.induct)
  case (rest w p)
  then show ?case by (intro pa)
next
  case (next_message m w w1 ms w2)
  have "node_lists w1"
    using message_step_frame [OF next_message(1) assms(4)] next_message(5) by (simp add: node_lists_def)
  moreover have "Q w1"
    by (rule message_step_preserve [OF next_message(1,4) assms(3,4) next_message(5)]) (fact wr pa le)+
  ultimately show ?case using next_message.IH by blast
qed

section \<open>The interfaces of a bridge\<close>

definition bridge_ok :: "config \<Rightarrow> 'e world \<Rightarrow> nat list \<Rightarrow> handler_id list \<Rightarrow> bool" where
  "bridge_ok cfg w is hs \<longleftrightarrow> registered w is hs \<and>
     (\<forall>i \<in> set is. parser_wf cfg (ei_parser (ifaces w i)) \<and> \<not> ndlcomParserHasPacket (ei_parser (ifaces w i)))"

lemma process_interface_run:
  assumes "handlers_leave_lists cb" and "bridge_ok cfg w is hs" and "i \<in> set is"
    and "cb_read cb (ei_io (ifaces w i)) (NDLCOM_BRIDGE_TEMPORARY_RXBUFFER_SIZE cfg) (env w) = (bytes, e)"
    and "length bytes \<le> NDLCOM_BRIDGE_TEMPORARY_RXBUFFER_SIZE cfg"
    and "parser_abs cfg (ei_parser (ifaces w i)) d"
  shows "ndlcomBridgeProcessExternalInterface cfg cb i w = None \<and> \<not> handlers_return cb is \<and>
      stops_at_message cfg cb i is hs (fst (packets cfg d bytes)) (w\<lparr>env := e\<rparr>) \<or>
    (\<exists>w'. ndlcomBridgeProcessExternalInterface cfg cb i w = Some (length bytes, w') \<and>
      message_steps cfg cb i is hs (fst (packets cfg d bytes)) (w\<lparr>env := e\<rparr>) w' \<and>
      bridge_ok cfg w' is hs \<and> parser_abs cfg (ei_parser (ifaces w' i)) (snd (packets cfg d bytes)))"
proof -
  let ?w = "w\<lparr>env := e\<rparr>"
  have rd: "iface_read cb i (NDLCOM_BRIDGE_TEMPORARY_RXBUFFER_SIZE cfg) w = Some (bytes, ?w)"
    using assms(4,5) by (simp add: iface_read_def)
  have reg: "registered ?w is hs" and np: "\<not> ndlcomParserHasPacket (ei_parser (ifaces w i))"
    using assms(2,3) by (simp_all add: bridge_ok_def registered_def node_lists_def)
  have nr: "\<not> is_ready (df_phase d)" using parser_abs_ready [OF assms(6)] np by simp
  show ?thesis
  proof (cases "bytes = []")
    case True
    have "message_steps cfg cb i is hs [] ?w ?w"
      using message_steps.rest [of cfg cb i "is" hs ?w "ei_parser (ifaces ?w i)"] by (simp add: upd_parser_same)
    then show ?thesis
      using True rd assms(2,6) by (auto simp: ndlcomBridgeProcessExternalInterface_def packets.simps bridge_ok_def
          registered_def node_lists_def)
  next
    case False
    have ok: "bridge_ok cfg w' is hs"
      if w': "message_steps cfg cb i is hs (fst (packets cfg d bytes)) ?w w'" "registered w' is hs"
        "parser_abs cfg (ei_parser (ifaces w' i)) (snd (packets cfg d bytes))"
        "\<not> is_ready (df_phase (snd (packets cfg d bytes)))" for w'
    proof -
      have "node_lists ?w" using reg by (simp add: registered_def)
      from message_steps_frame [OF w'(1) assms(1) this]
      have "\<forall>j. j \<noteq> i \<longrightarrow> ifaces w' j = ifaces w j" by simp
      moreover have "parser_wf cfg (ei_parser (ifaces w' i))" "\<not> ndlcomParserHasPacket (ei_parser (ifaces w' i))"
        using w'(3,4) parser_abs_ready [OF w'(3)] by (auto simp: parser_wf_def)
      ultimately show "bridge_ok cfg w' is hs"
        using assms(2) w'(2) unfolding bridge_ok_def by (metis (no_types))
    qed
    show ?thesis
      using process_bytes_refines [OF assms(1) reg assms(3), of cfg d 0 bytes] assms(6) nr False rd ok
      by (auto simp: ndlcomBridgeProcessExternalInterface_def stream_result_def case_prod_beta Let_def)
  qed
qed

lemma process_interface_effect:
  assumes "handlers_return cb is" and "bridge_ok cfg w is hs" and "i \<in> set is"
    and "cb_read cb (ei_io (ifaces w i)) (NDLCOM_BRIDGE_TEMPORARY_RXBUFFER_SIZE cfg) (env w) = (bytes, e)"
    and "length bytes \<le> NDLCOM_BRIDGE_TEMPORARY_RXBUFFER_SIZE cfg"
    and "parser_abs cfg (ei_parser (ifaces w i)) d"
  shows "\<exists>w'. ndlcomBridgeProcessExternalInterface cfg cb i w = Some (length bytes, w') \<and>
    message_steps cfg cb i is hs (fst (packets cfg d bytes)) (w\<lparr>env := e\<rparr>) w' \<and>
    bridge_ok cfg w' is hs \<and> parser_abs cfg (ei_parser (ifaces w' i)) (snd (packets cfg d bytes))"
  using process_interface_run [OF handlers_return_leave [OF assms(1)] assms(2-6)] assms(1) by blast

section \<open>Processing all interfaces\<close>

text \<open>
  An environment in which data runs out: \<open>pending\<close> measures what can still be read. A read stays within
  its buffer, an empty read changes nothing, any other read makes progress, and neither writes nor
  handlers bring new data to read.
\<close>

definition drains :: "'e callbacks \<Rightarrow> ('e \<Rightarrow> nat) \<Rightarrow> bool" where
  "drains cb pending \<longleftrightarrow>
     (\<forall>io n e. length (fst (cb_read cb io n e)) \<le> n \<and>
        (fst (cb_read cb io n e) = [] \<longrightarrow> snd (cb_read cb io n e) = e) \<and>
        (fst (cb_read cb io n e) \<noteq> [] \<longrightarrow> pending (snd (cb_read cb io n e)) < pending e)) \<and>
     (\<forall>io bytes e. pending (cb_write cb io bytes e) \<le> pending e) \<and>
     (\<forall>k header payload origin w w'. cb_handler cb k header payload origin w = Some w' \<longrightarrow>
        pending (env w') \<le> pending (env w))"

definition nothing_to_read :: "config \<Rightarrow> 'e callbacks \<Rightarrow> nat \<Rightarrow> 'e world \<Rightarrow> bool" where
  "nothing_to_read cfg cb i w \<longleftrightarrow>
     fst (cb_read cb (ei_io (ifaces w i)) (NDLCOM_BRIDGE_TEMPORARY_RXBUFFER_SIZE cfg) (env w)) = []"

lemma drains_preserve:
  assumes "drains cb pending"
  shows "handlers_preserve cb (\<lambda>v. pending (env v) \<le> N)"
proof -
  have "pending (env w') \<le> pending (env w)" if "cb_handler cb k header payload origin w = Some w'"
    for k header payload origin w w'
    using assms that unfolding drains_def by blast
  then show ?thesis unfolding handlers_preserve_def by (meson le_trans)
qed

lemma message_steps_pending:
  assumes "message_steps cfg cb i is hs ms w w'" and "handlers_leave_lists cb" and "node_lists w"
    and "drains cb pending"
  shows "pending (env w') \<le> pending (env w)"
proof (rule message_steps_preserve [where Q = "\<lambda>v. pending (env v) \<le> pending (env w)",
      OF assms(1) _ drains_preserve [OF assms(4)] assms(2,3)])
  fix j bytes and v :: "'a world"
  have "pending (cb_write cb io bytes e) \<le> pending e" for io e using assms(4) by (simp add: drains_def)
  then show "pending (env v) \<le> pending (env w) \<Longrightarrow> pending (env (iface_write cb j bytes v)) \<le> pending (env w)"
    unfolding iface_write_def by (simp, meson le_trans)
qed (simp_all add: upd_iface_def learn_sender_def)

lemma process_interface_pending:
  assumes "handlers_return cb is" and "bridge_ok cfg w is hs" and "i \<in> set is" and "drains cb pending"
  shows "\<exists>n w'. ndlcomBridgeProcessExternalInterface cfg cb i w = Some (n, w') \<and> bridge_ok cfg w' is hs \<and>
    links w' = links w \<and> (0 < n \<longrightarrow> pending (env w') < pending (env w)) \<and>
    (n = 0 \<longrightarrow> w' = w \<and> nothing_to_read cfg cb i w)"
proof -
  let ?sz = "NDLCOM_BRIDGE_TEMPORARY_RXBUFFER_SIZE cfg" and ?io = "ei_io (ifaces w i)"
  obtain bytes e where rd: "cb_read cb ?io ?sz (env w) = (bytes, e)" by fastforce
  have bound: "length bytes \<le> ?sz" and idle: "bytes = [] \<longrightarrow> e = env w"
    and progress: "bytes \<noteq> [] \<longrightarrow> pending e < pending (env w)"
    using assms(4) rd unfolding drains_def by (metis fst_conv, metis fst_conv snd_conv, metis fst_conv snd_conv)
  obtain d where d: "parser_abs cfg (ei_parser (ifaces w i)) d"
    using assms(2,3) by (auto simp: bridge_ok_def parser_wf_def)
  have nl: "node_lists (w\<lparr>env := e\<rparr>)" using assms(2) by (simp add: bridge_ok_def registered_def node_lists_def)
  obtain w' where w': "ndlcomBridgeProcessExternalInterface cfg cb i w = Some (length bytes, w')"
    "message_steps cfg cb i is hs (fst (packets cfg d bytes)) (w\<lparr>env := e\<rparr>) w'" "bridge_ok cfg w' is hs"
    using process_interface_effect [OF assms(1-3) rd bound d] by blast
  have "links w' = links w" using message_steps_frame [OF w'(2) handlers_return_leave [OF assms(1)] nl] by simp
  moreover have "pending (env w') < pending (env w)" if "bytes \<noteq> []"
    using message_steps_pending [OF w'(2) handlers_return_leave [OF assms(1)] nl assms(4)] progress that by simp
  moreover have "w' = w \<and> nothing_to_read cfg cb i w" if "bytes = []"
  proof -
    have "ndlcomBridgeProcessExternalInterface cfg cb i w = Some (0, w\<lparr>env := e\<rparr>)"
      using rd that by (simp add: ndlcomBridgeProcessExternalInterface_def iface_read_def)
    then show ?thesis using w'(1) idle that rd by (simp add: nothing_to_read_def)
  qed
  ultimately show ?thesis using w' by (intro exI [of _ "length bytes"] exI [of _ w']) auto
qed

lemma process_once_run:
  assumes "handlers_return cb is" and "drains cb pending" and "bridge_ok cfg w is hs" and "set js \<subseteq> set is"
  shows "\<exists>n w'. run_entries (\<lambda>y s. map_option fst (process_once_body cfg cb y s)) (map Iface_list js) (k, w) =
      Some (k + n, w') \<and> bridge_ok cfg w' is hs \<and> links w' = links w \<and>
    (0 < n \<longrightarrow> pending (env w') < pending (env w)) \<and>
    (n = 0 \<longrightarrow> w' = w \<and> (\<forall>j \<in> set js. nothing_to_read cfg cb j w))"
  using assms(3,4)
proof (induction js arbitrary: k w)
  case (Cons j js)
  then have j: "j \<in> set is" by simp
  obtain n w1 where w1: "ndlcomBridgeProcessExternalInterface cfg cb j w = Some (n, w1)" "bridge_ok cfg w1 is hs"
    "links w1 = links w" "0 < n \<longrightarrow> pending (env w1) < pending (env w)"
    "n = 0 \<longrightarrow> w1 = w \<and> nothing_to_read cfg cb j w"
    using process_interface_pending [OF assms(1) Cons.prems(1) j assms(2)] by blast
  have "set js \<subseteq> set is" using Cons.prems(2) by simp
  from Cons.IH [OF w1(2) this, of "k + n"]
  obtain m w2 where w2: "run_entries (\<lambda>y s. map_option fst (process_once_body cfg cb y s)) (map Iface_list js) (k + n, w1) =
      Some (k + n + m, w2)" "bridge_ok cfg w2 is hs" "links w2 = links w1"
    "0 < m \<longrightarrow> pending (env w2) < pending (env w1)"
    "m = 0 \<longrightarrow> w2 = w1 \<and> (\<forall>j \<in> set js. nothing_to_read cfg cb j w1)" by blast
  have "run_entries (\<lambda>y s. map_option fst (process_once_body cfg cb y s)) (map Iface_list (j # js)) (k, w) =
      Some (k + (n + m), w2)"
    using w1(1) w2(1) by (simp add: process_once_body_def ac_simps)
  moreover have "0 < n + m \<longrightarrow> pending (env w2) < pending (env w)" using w1(4,5) w2(4,5) by auto
  ultimately show ?case using w1 w2 by (intro exI [of _ "n + m"] exI [of _ w2]) auto
qed simp

lemma process_interface_steps:
  assumes "handlers_leave_lists cb" and "bridge_ok cfg w is hs" and "i \<in> set is"
    and "ndlcomBridgeProcessExternalInterface cfg cb i w = Some (n, w')"
  shows "\<exists>ms e. message_steps cfg cb i is hs ms (w\<lparr>env := e\<rparr>) w' \<and> bridge_ok cfg w' is hs \<and> links w' = links w"
proof -
  let ?sz = "NDLCOM_BRIDGE_TEMPORARY_RXBUFFER_SIZE cfg" and ?io = "ei_io (ifaces w i)"
  obtain bytes e where rd: "cb_read cb ?io ?sz (env w) = (bytes, e)" by fastforce
  have bound: "length bytes \<le> ?sz"
    using assms(4) rd by (auto simp: ndlcomBridgeProcessExternalInterface_def iface_read_def split: if_splits)
  obtain d where d: "parser_abs cfg (ei_parser (ifaces w i)) d"
    using assms(2,3) by (auto simp: bridge_ok_def parser_wf_def)
  have nl: "node_lists (w\<lparr>env := e\<rparr>)" using assms(2) by (simp add: bridge_ok_def registered_def node_lists_def)
  have steps: "message_steps cfg cb i is hs (fst (packets cfg d bytes)) (w\<lparr>env := e\<rparr>) w'" and ok: "bridge_ok cfg w' is hs"
    using process_interface_run [OF assms(1-3) rd bound d] assms(4) by auto
  have "links w' = links w" using message_steps_frame [OF steps assms(1) nl] by simp
  with steps ok show ?thesis by blast
qed

text \<open>As no interface leaves the list, the loop over the interfaces visits each of them once.\<close>

lemma process_once_unroll:
  assumes "handlers_leave_lists cb" and "bridge_ok cfg w is hs"
  shows "ndlcomBridgeProcessOnce cfg cb w =
    run_entries (\<lambda>y s. map_option fst (process_once_body cfg cb y s)) (map Iface_list is) (0, w)"
proof -
  have dl: "dlist ((links \<circ> snd) (0 :: nat, w)) ExternalInterfaceList (map Iface_list is)"
    using assms(2) by (simp add: bridge_ok_def registered_def)
  have ok: "(\<lambda>s. bridge_ok cfg (snd s) is hs) (0 :: nat, w)" using assms(2) by simp
  have step: "bridge_ok cfg (snd s') is hs \<and>
      (\<exists>us'. dlist ((links \<circ> snd) s') ExternalInterfaceList (us' @ y # vs) \<or>
        c \<and> dlist ((links \<circ> snd) s') ExternalInterfaceList (us' @ vs) \<and> list_empty ((links \<circ> snd) s') y)"
    if s: "bridge_ok cfg (snd s) is hs" "dlist ((links \<circ> snd) s) ExternalInterfaceList (us @ y # vs)"
      "y \<in> set (map Iface_list is)" "process_once_body cfg cb y s = Some (s', c)" for us y vs s s' c
  proof -
    obtain i where i: "y = Iface_list i" "i \<in> set is" using s(3) by auto
    obtain m where "ndlcomBridgeProcessExternalInterface cfg cb i (snd s) = Some (m, snd s')"
      using s(4) i(1) by (auto simp: process_once_body_def split: Option.bind_splits)
    from process_interface_steps [OF assms(1) s(1) i(2) this] show ?thesis using s(2) by auto
  qed
  show ?thesis
    unfolding ndlcomBridgeProcessOnce_def
    using list_for_each_entry_safe_all [where links = "links \<circ> snd" and s = "(0, w)" and
        I = "\<lambda>s. bridge_ok cfg (snd s) is hs" and body = "process_once_body cfg cb", OF dl ok step]
    by simp
qed

lemma process_once_effect:
  assumes "handlers_return cb is" and "drains cb pending" and "bridge_ok cfg w is hs"
  shows "\<exists>n w'. ndlcomBridgeProcessOnce cfg cb w = Some (n, w') \<and> bridge_ok cfg w' is hs \<and>
    (0 < n \<longrightarrow> pending (env w') < pending (env w)) \<and>
    (n = 0 \<longrightarrow> w' = w \<and> (\<forall>i \<in> set is. nothing_to_read cfg cb i w))"
  using process_once_run [OF assms, of "is" 0] process_once_unroll [OF handlers_return_leave [OF assms(1)] assms(3)] by auto

lemma process_until_idle_effect:
  assumes "handlers_return cb is" and "drains cb pending" and "bridge_ok cfg w is hs"
  shows "\<exists>n w'. process_until_idle cfg cb k w = Some (n, w') \<and> bridge_ok cfg w' is hs \<and>
    (\<forall>i \<in> set is. nothing_to_read cfg cb i w')"
  using assms(3)
proof (induction "pending (env w)" arbitrary: k w rule: less_induct)
  case less
  obtain n w1 where w1: "ndlcomBridgeProcessOnce cfg cb w = Some (n, w1)" "bridge_ok cfg w1 is hs"
    "0 < n \<longrightarrow> pending (env w1) < pending (env w)"
    "n = 0 \<longrightarrow> w1 = w \<and> (\<forall>i \<in> set is. nothing_to_read cfg cb i w)"
    using process_once_effect [OF assms(1,2) less.prems] by blast
  show ?case
  proof (cases "n = 0")
    case True
    then show ?thesis using w1 by (subst process_until_idle.simps) simp
  next
    case False
    then show ?thesis
      using less.hyps [of w1 "k + n"] w1 by (subst process_until_idle.simps) simp
  qed
qed

section \<open>Registering\<close>

lemma check_bridge_handler:
  assumes "world_lists w H f"
  shows "ndlcomBridgeCheckBridgeHandler h w = Some (Handler_list h \<in> set (f BridgeHandlerList))"
  using list_search_entry_all [OF world_lists_dlist(1) [OF assms], of "\<lambda>it. it = Handler_list h"]
  by (simp add: ndlcomBridgeCheckBridgeHandler_def)

lemma check_external_interface:
  assumes "world_lists w H f"
  shows "ndlcomBridgeCheckExternalInterface i w = Some (Iface_list i \<in> set (f ExternalInterfaceList))"
  using list_search_entry_all [OF world_lists_dlist(2) [OF assms], of "\<lambda>it. it = Iface_list i"]
  by (simp add: ndlcomBridgeCheckExternalInterface_def)

lemma world_lists_upd [simp]:
  "world_lists (upd_iface i gi w) H f = world_lists w H f" "world_lists (upd_handler h gh w) H f = world_lists w H f"
  "world_lists (upd_nodeHandler k gk w) H f = world_lists w H f" "world_lists (upd_node n gn w) H f = world_lists w H f"
  "world_lists (w\<lparr>routingTable := t\<rparr>) H f = world_lists w H f"
  by (simp_all add: world_lists_def)

text \<open>Adding an entry that is in no list to one of the lists, and taking it out again.\<close>

lemma world_lists_add:
  assumes "world_lists w H f" and "x \<in> H \<inter> list_entries"
    and "h = BridgeHandlerList \<and> x \<in> range Handler_list \<or> h = ExternalInterfaceList \<and> x \<in> range Iface_list \<or>
      h \<in> range NodeHandlerList \<and> x \<in> range Node_handler_list"
  shows "world_lists (upd_links (list_add x h) w) (H - {x}) (f(h := x # f h))"
proof -
  have "shape (list_add x h (links w)) (H - {x}) (f(h := x # f h))"
    using assms by (intro ls.add_shape) (auto simp: world_lists_def list_entries_def)
  then show ?thesis using assms by (auto simp: world_lists_def list_entries_def)
qed

lemma world_lists_del:
  assumes "world_lists w H f" and "h \<in> H" and "x \<in> set (f h)" and "h \<notin> list_entries" and "x \<in> list_entries"
  shows "world_lists (upd_links (list_del_init x) w) (insert x H) (f(h := remove1 x (f h), x := []))"
proof -
  have shape: "shape (list_del_init x (links w)) (insert x H) (f(h := remove1 x (f h), x := []))"
    using assms by (intro ls.del_member) (auto simp: world_lists_def)
  have sub: "set ((f(h := remove1 x (f h), x := [])) y) \<subseteq> set (f y)" for y
    using set_remove1_subset [of x "f h"] by auto
  note wl = assms(1) [unfolded world_lists_def]
  show ?thesis
    unfolding world_lists_def links_upd
  proof (intro conjI allI ballI)
    fix y assume "y \<in> insert x H \<inter> list_entries"
    then show "(f(h := remove1 x (f h), x := [])) y = []" using wl assms(4) by auto
  qed (rule shape subset_trans [OF sub] | use wl in simp)+
qed

lemma register_bridge_handler_effect:
  assumes "world_lists w H f" and "Handler_list h \<in> H \<union> set (f BridgeHandlerList)"
  shows "\<exists>w' H'. ndlcomBridgeRegisterBridgeHandler h w = Some w' \<and>
    world_lists w' H' (f(BridgeHandlerList := (if Handler_list h \<in> set (f BridgeHandlerList) then []
      else [Handler_list h]) @ f BridgeHandlerList)) \<and>
    (Handler_list h \<notin> set (f BridgeHandlerList) \<longrightarrow> bh_bridge (handlers w' h) = Bridge_ptr) \<and>
    ndlcomBridgeCheckBridgeHandler h w' = Some True"
proof (cases "Handler_list h \<in> set (f BridgeHandlerList)")
  case True
  then show ?thesis
    using assms(1) check_bridge_handler [OF assms(1), of h]
    by (intro exI [of _ w] exI [of _ H]) (simp add: ndlcomBridgeRegisterBridgeHandler_def)
next
  case False
  let ?w = "upd_handler h (bh_bridge_update (\<lambda>_. Bridge_ptr)) (upd_links (list_add (Handler_list h) BridgeHandlerList) w)"
  have wl: "world_lists ?w (H - {Handler_list h}) (f(BridgeHandlerList := Handler_list h # f BridgeHandlerList))"
    using world_lists_add [OF assms(1), of "Handler_list h" BridgeHandlerList] assms(2) False
    by (simp add: list_entries_def)
  have "bh_bridge (handlers ?w h) = Bridge_ptr" by (simp add: upd_handler_def)
  then show ?thesis
    using False wl check_bridge_handler [OF assms(1), of h] check_bridge_handler [OF wl, of h]
    by (intro exI [of _ ?w] exI [of _ "H - {Handler_list h}"]) (simp add: ndlcomBridgeRegisterBridgeHandler_def)
qed

lemma register_external_interface_effect:
  assumes "world_lists w H f" and "Iface_list i \<in> H \<union> set (f ExternalInterfaceList)"
  shows "\<exists>w' H'. ndlcomBridgeRegisterExternalInterface i w = Some w' \<and>
    world_lists w' H' (f(ExternalInterfaceList := (if Iface_list i \<in> set (f ExternalInterfaceList) then []
      else [Iface_list i]) @ f ExternalInterfaceList)) \<and>
    (Iface_list i \<notin> set (f ExternalInterfaceList) \<longrightarrow> ei_bridge (ifaces w' i) = Bridge_ptr) \<and>
    ndlcomBridgeCheckExternalInterface i w' = Some True"
proof (cases "Iface_list i \<in> set (f ExternalInterfaceList)")
  case True
  then show ?thesis
    using assms(1) check_external_interface [OF assms(1), of i]
    by (intro exI [of _ w] exI [of _ H]) (simp add: ndlcomBridgeRegisterExternalInterface_def)
next
  case False
  let ?w = "upd_iface i (ei_bridge_update (\<lambda>_. Bridge_ptr)) (upd_links (list_add (Iface_list i) ExternalInterfaceList) w)"
  have wl: "world_lists ?w (H - {Iface_list i}) (f(ExternalInterfaceList := Iface_list i # f ExternalInterfaceList))"
    using world_lists_add [OF assms(1), of "Iface_list i" ExternalInterfaceList] assms(2) False
    by (simp add: list_entries_def)
  have "ei_bridge (ifaces ?w i) = Bridge_ptr" by (simp add: upd_iface_def)
  then show ?thesis
    using False wl check_external_interface [OF assms(1), of i] check_external_interface [OF wl, of i]
    by (intro exI [of _ ?w] exI [of _ "H - {Iface_list i}"]) (simp add: ndlcomBridgeRegisterExternalInterface_def)
qed

lemma deregister_bridge_handler_effect:
  assumes "world_lists w H f"
  shows "\<exists>w' H' f'. ndlcomBridgeDeregisterBridgeHandler h w = Some w' \<and> world_lists w' H' f' \<and>
    f' BridgeHandlerList = remove1 (Handler_list h) (f BridgeHandlerList) \<and>
    (\<forall>x. x \<notin> {BridgeHandlerList, Handler_list h} \<longrightarrow> f' x = f x) \<and>
    ndlcomBridgeCheckBridgeHandler h w' = Some False \<and>
    (Handler_list h \<in> set (f BridgeHandlerList) \<longrightarrow> bh_bridge (handlers w' h) = Null \<and> Handler_list h \<in> H')"
proof (cases "Handler_list h \<in> set (f BridgeHandlerList)")
  case False
  then show ?thesis
    using assms check_bridge_handler [OF assms, of h]
    by (intro exI [of _ w] exI [of _ H] exI [of _ f])
      (simp add: ndlcomBridgeDeregisterBridgeHandler_def remove1_idem)
next
  case True
  let ?w = "upd_handler h (bh_bridge_update (\<lambda>_. Null)) (upd_links (list_del_init (Handler_list h)) w)"
  let ?f = "f(BridgeHandlerList := remove1 (Handler_list h) (f BridgeHandlerList), Handler_list h := [])"
  have wl: "world_lists ?w (insert (Handler_list h) H) ?f"
    using world_lists_del [OF assms, of BridgeHandlerList "Handler_list h"] True assms
    by (simp add: list_entries_def world_lists_def image_iff)
  have "distinct (f BridgeHandlerList)" using dlist_distinct [OF world_lists_dlist(1) [OF assms]] by simp
  then have "ndlcomBridgeCheckBridgeHandler h ?w = Some False"
    using check_bridge_handler [OF wl, of h] by simp
  moreover have "bh_bridge (handlers ?w h) = Null" by (simp add: upd_handler_def)
  ultimately show ?thesis
    using True wl check_bridge_handler [OF assms, of h]
    by (intro exI [of _ ?w] exI [of _ "insert (Handler_list h) H"] exI [of _ ?f])
      (simp add: ndlcomBridgeDeregisterBridgeHandler_def)
qed

lemma deregister_external_interface_effect:
  assumes "world_lists w H f" and "routing_wf cfg (routingTable w)" and "Iface_list i \<in> set (f ExternalInterfaceList)"
  shows "\<exists>w' H' f'. ndlcomBridgeDeregisterExternalInterface cfg i w = Some w' \<and> world_lists w' H' f' \<and>
    f' ExternalInterfaceList = remove1 (Iface_list i) (f ExternalInterfaceList) \<and>
    (\<forall>x. x \<notin> {ExternalInterfaceList, Iface_list i} \<longrightarrow> f' x = f x) \<and>
    ndlcomBridgeCheckExternalInterface i w' = Some False \<and> ei_bridge (ifaces w' i) = Null \<and>
    routing_wf cfg (routingTable w') \<and>
    (\<forall>deviceId. ndlcomRoutingGetDestination cfg (routingTable w') deviceId =
      (if ndlcomRoutingGetDestination cfg (routingTable w) deviceId = Iface_ptr i then NDLCOM_ROUTING_ALL_INTERFACES
       else ndlcomRoutingGetDestination cfg (routingTable w) deviceId))"
proof -
  let ?v = "w\<lparr>routingTable := ndlcomRoutingTableInvalidateInterface cfg (routingTable w) (Iface_ptr i)\<rparr>"
  let ?w = "upd_iface i (ei_bridge_update (\<lambda>_. Null)) (upd_links (list_del_init (Iface_list i)) ?v)"
  let ?f = "f(ExternalInterfaceList := remove1 (Iface_list i) (f ExternalInterfaceList), Iface_list i := [])"
  have v: "world_lists ?v H f" using assms(1) by simp
  have wl: "world_lists ?w (insert (Iface_list i) H) ?f"
    using world_lists_del [OF v, of ExternalInterfaceList "Iface_list i"] assms(1,3)
    by (simp add: list_entries_def world_lists_def image_iff)
  have "distinct (f ExternalInterfaceList)" using dlist_distinct [OF world_lists_dlist(2) [OF assms(1)]] by simp
  then have "ndlcomBridgeCheckExternalInterface i ?w = Some False"
    using check_external_interface [OF wl, of i] by simp
  moreover have "ei_bridge (ifaces ?w i) = Null" "routingTable ?w = routingTable ?v"
    by (simp_all add: upd_defs)
  ultimately show ?thesis
    using assms(3) wl check_external_interface [OF assms(1), of i] rt.wf_forget [OF assms(2)] rt.lookup_forget [OF assms(2)]
    by (intro exI [of _ ?w] exI [of _ "insert (Iface_list i) H"] exI [of _ ?f])
      (simp add: ndlcomBridgeDeregisterExternalInterface_def NDLCOM_ROUTING_ALL_INTERFACES_def)
qed

section \<open>Invariants of a whole run\<close>

text \<open>A property of worlds that no part of the processing breaks.\<close>

definition bridge_invariant :: "config \<Rightarrow> 'e callbacks \<Rightarrow> nat list \<Rightarrow> ('e world \<Rightarrow> bool) \<Rightarrow> bool" where
  "bridge_invariant cfg cb is Q \<longleftrightarrow> handlers_preserve cb Q \<and>
     (\<forall>j bytes v. Q v \<longrightarrow> Q (iface_write cb j bytes v)) \<and>
     (\<forall>i g v. Q v \<longrightarrow> Q (upd_iface i (ei_parser_update g) v)) \<and>
     (\<forall>i \<in> set is. \<forall>h v. Q v \<longrightarrow> Q (learn_sender cfg i h v)) \<and>
     (\<forall>e v. Q v \<longrightarrow> Q (v\<lparr>env := e\<rparr>))"

lemma process_interface_invariant:
  assumes "bridge_invariant cfg cb is Q" and "handlers_leave_lists cb" and "bridge_ok cfg w is hs" and "i \<in> set is"
    and "ndlcomBridgeProcessExternalInterface cfg cb i w = Some (n, w')" and "Q w"
  shows "Q w' \<and> bridge_ok cfg w' is hs"
proof -
  obtain ms e where steps: "message_steps cfg cb i is hs ms (w\<lparr>env := e\<rparr>) w'" "bridge_ok cfg w' is hs"
    using process_interface_steps [OF assms(2-5)] by blast
  have nl: "node_lists (w\<lparr>env := e\<rparr>)" using assms(3) by (simp add: bridge_ok_def registered_def node_lists_def)
  have "Q w'"
    by (rule message_steps_preserve [OF steps(1) _ _ assms(2) nl])
      (use assms(1,4,6) in \<open>auto simp: bridge_invariant_def\<close>)
  then show ?thesis using steps(2) by simp
qed

lemma process_once_invariant:
  fixes w w' :: "'e world"
  assumes "bridge_invariant cfg cb is Q" and "handlers_leave_lists cb" and "bridge_ok cfg w is hs"
    and "ndlcomBridgeProcessOnce cfg cb w = Some (n, w')" and "Q w"
  shows "Q w' \<and> bridge_ok cfg w' is hs"
proof -
  let ?I = "\<lambda>s :: nat \<times> 'e world. Q (snd s) \<and> bridge_ok cfg (snd s) is hs"
  have "?I (n, w')"
  proof (rule run_entries_preserve [where Q = ?I, OF assms(4) [unfolded process_once_unroll [OF assms(2,3)]]])
    show "?I (0, w)" using assms(3,5) by simp
    fix x and s s' :: "nat \<times> 'e world"
    assume x: "x \<in> set (map Iface_list is)" and s: "?I s" and b: "map_option fst (process_once_body cfg cb x s) = Some s'"
    obtain i where i: "x = Iface_list i" "i \<in> set is" using x by auto
    obtain m where "ndlcomBridgeProcessExternalInterface cfg cb i (snd s) = Some (m, snd s')"
      using b i(1) by (auto simp: process_once_body_def split: Option.bind_splits)
    from process_interface_invariant [OF assms(1,2) _ i(2) this, of hs] show "?I s'" using s by simp
  qed
  then show ?thesis by simp
qed

lemma process_until_idle_invariant:
  assumes "process_until_idle cfg cb k w = Some r" and "bridge_invariant cfg cb is Q" and "handlers_leave_lists cb"
    and "bridge_ok cfg w is hs" and "Q w"
  shows "Q (snd r)"
  using assms
proof (induction cfg cb k w r rule: process_until_idle.raw_induct [rotated, consumes 1])
  case (1 f cfg cb k w r)
  from 1(2) obtain n w1 where once: "ndlcomBridgeProcessOnce cfg cb w = Some (n, w1)"
    and r: "(if n > 0 then f cfg cb (k + n) w1 else Some (k + n, w1)) = Some r"
    by (auto split: Option.bind_splits)
  have w1: "Q w1" "bridge_ok cfg w1 is hs" using process_once_invariant [OF 1(3-5) once 1(6)] by simp_all
  show ?case
  proof (cases "n > 0")
    case True
    then show ?thesis using 1(1) [OF _ 1(3,4) w1(2,1)] r by simp
  next
    case False
    then show ?thesis using r w1(1) by auto
  qed
qed

end
