(* ===== verification/Node.thy ===== *)
theory Node
  imports Bridge
begin

text \<open>
  \<open>src/Node.c\<close>: a device id on the internal side of the bridge, with its packet counters, its bridge
  handler and its list of node handlers. A call through the null pointer of a node that is not
  registered is \<open>None\<close>.
\<close>

section \<open>The code\<close>

definition node_own_id :: "nat \<Rightarrow> 'e world \<Rightarrow> u8" where
  "node_own_id n w = mOwnSenderId (headerConfig (nodes w n))"

definition ndlcomNodeInit :: "nat \<Rightarrow> u8 \<Rightarrow> 'e world \<Rightarrow> 'e world" where
  "ndlcomNodeInit n ownSenderId w =
     (let w = upd_links (INIT_LIST_HEAD (NodeHandlerList n)) w;
          w = upd_node n (headerConfig_update (\<lambda>c. ndlcomHeaderPrepareInit c ownSenderId)) w;
          w = ndlcomBridgeHandlerInit (Handler_of_node n) (Node_message_handler n)
                NDLCOM_BRIDGE_HANDLER_FLAGS_DEFAULT w
      in upd_node n (headerConfig_update (\<lambda>c. ndlcomHeaderPrepareInit c ownSenderId)) w)"

definition node_bridge :: "nat \<Rightarrow> 'e world \<Rightarrow> ptr" where
  "node_bridge n w = bh_bridge (handlers w (Handler_of_node n))"

definition ndlcomNodeRegister :: "config \<Rightarrow> nat \<Rightarrow> 'e world \<Rightarrow> 'e world option" where
  "ndlcomNodeRegister cfg n w = do {
     w \<leftarrow> ndlcomBridgeRegisterBridgeHandler (Handler_of_node n) w;
     if node_bridge n w = Null then None
     else Some (ndlcomBridgeMarkDeviceIdAsInternal cfg (node_own_id n w) w)
   }"

definition ndlcomNodeDeregister :: "config \<Rightarrow> nat \<Rightarrow> 'e world \<Rightarrow> 'e world option" where
  "ndlcomNodeDeregister cfg n w =
     (if node_bridge n w = Null then None
      else ndlcomBridgeDeregisterBridgeHandler (Handler_of_node n)
        (ndlcomBridgeClearInternalDeviceId cfg (node_own_id n w) w))"

definition ndlcomNodeSetOwnSenderId :: "config \<Rightarrow> nat \<Rightarrow> u8 \<Rightarrow> 'e world \<Rightarrow> 'e world option" where
  "ndlcomNodeSetOwnSenderId cfg n ownSenderId w =
     (if node_bridge n w = Null then None
      else
        let w = ndlcomBridgeClearInternalDeviceId cfg (node_own_id n w) w;
            w = upd_node n (headerConfig_update (\<lambda>c. ndlcomHeaderPrepareInit c ownSenderId)) w
        in Some (ndlcomBridgeMarkDeviceIdAsInternal cfg (node_own_id n w) w))"

definition ndlcomNodeGetOwnDeviceId :: "nat \<Rightarrow> 'e world \<Rightarrow> u8" where
  "ndlcomNodeGetOwnDeviceId n w = mOwnSenderId (headerConfig (nodes w n))"

text \<open>
  The header is a local variable; \<open>junk\<close> is what it holds before. The size of the payload is passed on
  as the 8-bit length of the header.
\<close>

definition ndlcomNodeSend ::
  "config \<Rightarrow> 'e callbacks \<Rightarrow> NDLComHeader \<Rightarrow> nat \<Rightarrow> u8 \<Rightarrow> u8 list \<Rightarrow> nat \<Rightarrow> 'e world \<Rightarrow> 'e world option" where
  "ndlcomNodeSend cfg cb junk n receiverId payload payloadSize w =
     (let (c, header) = ndlcomHeaderPrepare cfg (headerConfig (nodes w n)) junk receiverId (of_nat payloadSize);
          w = upd_node n (headerConfig_update (\<lambda>_. c)) w
      in if node_bridge n w = Null then None else ndlcomBridgeSendRaw cfg cb header payload w)"

definition ndlcomNodeRegisterNodeHandler :: "nat \<Rightarrow> nat \<Rightarrow> 'e world \<Rightarrow> 'e world" where
  "ndlcomNodeRegisterNodeHandler n k w =
     upd_nodeHandler k (nh_node_update (\<lambda>_. Some n))
       (upd_links (list_add (Node_handler_list k) (NodeHandlerList n)) w)"

definition ndlcomNodeDeregisterNodeHandler :: "nat \<Rightarrow> nat \<Rightarrow> 'e world \<Rightarrow> 'e world" where
  "ndlcomNodeDeregisterNodeHandler n k w =
     upd_nodeHandler k (nh_node_update (\<lambda>_. None)) (upd_links (list_del_init (Node_handler_list k)) w)"

section \<open>Lemmas\<close>

lemma register_handler_frame:
  assumes "ndlcomBridgeRegisterBridgeHandler h w = Some w'"
  shows "nodes w' = nodes w" "routingTable w' = routingTable w" "ifaces w' = ifaces w"
  using assms by (auto simp: ndlcomBridgeRegisterBridgeHandler_def upd_defs split: Option.bind_splits if_splits)

lemma deregister_handler_frame:
  assumes "ndlcomBridgeDeregisterBridgeHandler h w = Some w'"
  shows "nodes w' = nodes w" "routingTable w' = routingTable w" "ifaces w' = ifaces w"
  using assms by (auto simp: ndlcomBridgeDeregisterBridgeHandler_def upd_defs split: Option.bind_splits if_splits)

lemma node_handler_registered:
  assumes "world_lists w H f" and "Node_handler_list k \<in> H"
  shows "world_lists (ndlcomNodeRegisterNodeHandler n k w) (H - {Node_handler_list k})
    (f(NodeHandlerList n := Node_handler_list k # f (NodeHandlerList n)))"
  using world_lists_add [OF assms(1), of "Node_handler_list k" "NodeHandlerList n"] assms(2)
  by (simp add: ndlcomNodeRegisterNodeHandler_def list_entries_def)

lemma node_handler_deregistered:
  assumes "world_lists w H f" and "Node_handler_list k \<in> set (f (NodeHandlerList n))"
  shows "world_lists (ndlcomNodeDeregisterNodeHandler n k w) (insert (Node_handler_list k) H)
    (f(NodeHandlerList n := remove1 (Node_handler_list k) (f (NodeHandlerList n)), Node_handler_list k := []))"
  using world_lists_del [OF assms(1), of "NodeHandlerList n" "Node_handler_list k"] assms
  by (simp add: ndlcomNodeDeregisterNodeHandler_def list_entries_def world_lists_def image_iff)

text \<open>What the worlds the bridge runs in have: the lists it iterates over are as \<open>registered\<close> says.\<close>

lemma world_lists_registered:
  assumes "world_lists w H f" and "f ExternalInterfaceList = map Iface_list is" and "f BridgeHandlerList = map Handler_list hs"
  shows "registered w is hs"
proof -
  have "\<exists>ks. f (NodeHandlerList n) = map Node_handler_list ks" for n
  proof -
    have "set (f (NodeHandlerList n)) \<subseteq> range Node_handler_list" using assms(1) by (simp add: world_lists_def)
    then show ?thesis by (metis ex_map_conv subset_iff rangeE)
  qed
  then show ?thesis
    using world_lists_dlist [OF assms(1)] assms(2,3) unfolding registered_def node_lists_def by metis
qed

lemma node_register_effect:
  assumes "world_lists w H f" and "Handler_list (Handler_of_node n) \<in> H" and "routing_wf cfg (routingTable w)"
    and "unat (node_own_id n w) < NDLCOM_MAX_NUMBER_OF_DEVICES cfg"
  shows "\<exists>w' H'. ndlcomNodeRegister cfg n w = Some w' \<and>
    world_lists w' H' (f(BridgeHandlerList := Handler_list (Handler_of_node n) # f BridgeHandlerList)) \<and>
    node_bridge n w' = Bridge_ptr \<and> routing_wf cfg (routingTable w') \<and>
    (\<forall>deviceId. ndlcomRoutingGetDestination cfg (routingTable w') deviceId =
      (if deviceId = node_own_id n w then Bridge_ptr
       else ndlcomRoutingGetDestination cfg (routingTable w) deviceId))"
proof -
  let ?x = "Handler_list (Handler_of_node n)"
  have new: "?x \<notin> set (f BridgeHandlerList)"
    using assms(1,2) ls.not_head [of "links w" H f BridgeHandlerList ?x] by (auto simp: world_lists_def)
  have "?x \<in> H \<union> set (f BridgeHandlerList)" using assms(2) by simp
  from register_bridge_handler_effect [OF assms(1) this] new
  obtain w1 H' where w1: "ndlcomBridgeRegisterBridgeHandler (Handler_of_node n) w = Some w1"
    "world_lists w1 H' (f(BridgeHandlerList := ?x # f BridgeHandlerList))"
    "bh_bridge (handlers w1 (Handler_of_node n)) = Bridge_ptr" by auto
  let ?w' = "ndlcomBridgeMarkDeviceIdAsInternal cfg (node_own_id n w1) w1"
  have own: "node_own_id n w1 = node_own_id n w"
    using register_handler_frame(1) [OF w1(1)] by (simp add: node_own_id_def)
  have rt: "routingTable w1 = routingTable w" by (rule register_handler_frame(2) [OF w1(1)])
  have "ndlcomNodeRegister cfg n w = Some ?w'"
    using w1 by (simp add: ndlcomNodeRegister_def node_bridge_def)
  moreover have "world_lists ?w' H' (f(BridgeHandlerList := ?x # f BridgeHandlerList))" "node_bridge n ?w' = Bridge_ptr"
    using w1(2,3) by (simp_all add: ndlcomBridgeMarkDeviceIdAsInternal_def node_bridge_def)
  moreover have "routing_wf cfg (routingTable ?w')"
    using rt.wf_learn [OF assms(3)] by (simp add: ndlcomBridgeMarkDeviceIdAsInternal_def rt)
  moreover have "\<forall>deviceId. ndlcomRoutingGetDestination cfg (routingTable ?w') deviceId =
      (if deviceId = node_own_id n w then Bridge_ptr
       else ndlcomRoutingGetDestination cfg (routingTable w) deviceId)"
    using rt.lookup_learn [OF assms(3)] assms(4) by (simp add: ndlcomBridgeMarkDeviceIdAsInternal_def rt own)
  ultimately show ?thesis by blast
qed

lemma node_deregister_effect:
  assumes "world_lists w H f" and "node_bridge n w \<noteq> Null" and "routing_wf cfg (routingTable w)"
  shows "\<exists>w' H' f'. ndlcomNodeDeregister cfg n w = Some w' \<and> world_lists w' H' f' \<and>
    f' BridgeHandlerList = remove1 (Handler_list (Handler_of_node n)) (f BridgeHandlerList) \<and>
    ndlcomRoutingGetDestination cfg (routingTable w') (node_own_id n w) = NDLCOM_ROUTING_ALL_INTERFACES \<and>
    (\<forall>deviceId. deviceId \<noteq> node_own_id n w \<longrightarrow> ndlcomRoutingGetDestination cfg (routingTable w') deviceId =
      ndlcomRoutingGetDestination cfg (routingTable w) deviceId)"
proof -
  let ?w1 = "ndlcomBridgeClearInternalDeviceId cfg (node_own_id n w) w"
  have "world_lists ?w1 H f" using assms(1) by (simp add: ndlcomBridgeClearInternalDeviceId_def)
  from deregister_bridge_handler_effect [OF this, of "Handler_of_node n"]
  obtain w' H' f' where w': "ndlcomBridgeDeregisterBridgeHandler (Handler_of_node n) ?w1 = Some w'" "world_lists w' H' f'"
    "f' BridgeHandlerList = remove1 (Handler_list (Handler_of_node n)) (f BridgeHandlerList)" by blast
  have "routingTable w' = ndlcomRoutingTableUpdate cfg (routingTable w) (node_own_id n w) NDLCOM_ROUTING_ALL_INTERFACES"
    using deregister_handler_frame(2) [OF w'(1)] by (simp add: ndlcomBridgeClearInternalDeviceId_def)
  then have "ndlcomRoutingGetDestination cfg (routingTable w') deviceId =
      (if deviceId = node_own_id n w \<and> unat (node_own_id n w) < NDLCOM_MAX_NUMBER_OF_DEVICES cfg
       then NDLCOM_ROUTING_ALL_INTERFACES else ndlcomRoutingGetDestination cfg (routingTable w) deviceId)" for deviceId
    using rt.lookup_learn [OF assms(3)] by simp
  moreover have "ndlcomNodeDeregister cfg n w = Some w'" using w'(1) assms(2) by (simp add: ndlcomNodeDeregister_def)
  ultimately show ?thesis using w' by (auto simp: ndlcomRoutingGetDestination_def)
qed

lemma node_send_effect:
  assumes "handlers_leave_lists cb" and "registered w is hs" and "node_bridge n w \<noteq> Null"
    and "unat receiverId < NDLCOM_MAX_NUMBER_OF_DEVICES cfg"
    and "payloadSize mod 256 \<le> length payload"
    and "header = \<lparr>mReceiverId = receiverId, mSenderId = node_own_id n w,
      mCounter = mCounterForReceiver (headerConfig (nodes w n)) ! unat receiverId, mDataLen = of_nat payloadSize\<rparr>"
    and "w1 = upd_node n (headerConfig_update (\<lambda>c. c\<lparr>mCounterForReceiver :=
      (mCounterForReceiver c)[unat receiverId := mCounterForReceiver c ! unat receiverId + 1]\<rparr>)) w"
  shows "ndlcomNodeSend cfg cb junk n receiverId payload payloadSize w =
    deliver_bridge cb header payload Bridge_ptr hs
      (write_all cb (frame cfg header (take (payloadSize mod 256) payload))
        (message_targets cfg w1 header Bridge_ptr is) w1)"
proof -
  have len: "unat (mDataLen header) = payloadSize mod 256" by (simp add: assms(6) unat_of_nat)
  have prep: "ndlcomHeaderPrepare cfg (headerConfig (nodes w n)) junk receiverId (of_nat payloadSize) =
      (headerConfig (nodes w1 n), header)"
    using assms(4) by (cases junk) (simp add: ndlcomHeaderPrepare_def assms(6,7) node_own_id_def upd_node_def Let_def)
  have w1: "upd_node n (headerConfig_update (\<lambda>_. headerConfig (nodes w1 n))) w = w1"
    by (cases "nodes w n") (simp add: assms(7) upd_node_def)
  have reg: "registered w1 is hs" using assms(2,7) by (simp add: registered_def node_lists_def)
  have nb: "node_bridge n w1 \<noteq> Null" using assms(3) by (simp add: node_bridge_def assms(7) upd_node_def)
  have "ndlcomNodeSend cfg cb junk n receiverId payload payloadSize w = ndlcomBridgeSendRaw cfg cb header payload w1"
    unfolding ndlcomNodeSend_def prep using nb by (simp add: w1)
  then show ?thesis
    using process_decoded_effect [OF assms(1), of w1 "is" hs header payload cfg Bridge_ptr] reg assms(5) len
    by (simp add: ndlcomBridgeSendRaw_def registered_def)
qed

end
