(* ===== verification/Example_World.thy ===== *)
theory Example_World
  imports Node
begin

text \<open>
  A small concrete system on which the properties of the bridge are tried: two interfaces (0 is an
  ordinary one, 2 a second one), one bridge handler and one node. The environment
  is what can still be read from endpoint 0, and the list of the writes that happened.
\<close>

type_synonym line = "u8 list \<times> (nat \<times> u8 list) list"

definition line_callbacks :: "line callbacks" where
  "line_callbacks =
     \<lparr>cb_write = (\<lambda>io bytes e. (fst e, snd e @ [(io, bytes)])),
      cb_read = (\<lambda>io n e. if io = 0 then (take n (fst e), (drop n (fst e), snd e)) else ([], e)),
      cb_handler = (\<lambda>k header payload origin w. Some w)\<rparr>"

definition blank_world :: "config \<Rightarrow> 'e \<Rightarrow> 'e world" where
  "blank_world cfg e =
     \<lparr>links = \<lparr>lnext = (\<lambda>x. x), lprev = (\<lambda>x. x)\<rparr>,
      routingTable = replicate (NDLCOM_MAX_NUMBER_OF_DEVICES cfg) Null,
      bridge_flags = NDLCOM_BRIDGE_FLAGS_FORWARDING_ENABLED,
      ifaces = (\<lambda>i. \<lparr>ei_bridge = Null, ei_flags = 0, ei_parser = blank_parser cfg, ei_io = i\<rparr>),
      handlers = (\<lambda>h. \<lparr>bh_bridge = Null, bh_flags = 0, bh_handler =
        (case h of Free_handler k \<Rightarrow> User_handler k | Handler_of_node n \<Rightarrow> Node_message_handler n)\<rparr>),
      nodes = (\<lambda>n. \<lparr>headerConfig =
        \<lparr>mCounterForReceiver = replicate (NDLCOM_MAX_NUMBER_OF_DEVICES cfg) 0, mOwnSenderId = 9\<rparr>\<rparr>),
      nodeHandlers = (\<lambda>k. \<lparr>nh_node = None, nh_flags = 0, nh_handler = k\<rparr>),
      env = e\<rparr>"

text \<open>The two interfaces, the free handler 0 and the handler of node 0 are registered.\<close>

definition two_ifaces :: "config \<Rightarrow> 'e \<Rightarrow> 'e world" where
  "two_ifaces cfg e =
     upd_links (list_add (Iface_list 0) ExternalInterfaceList)
       (upd_links (list_add (Iface_list 2) ExternalInterfaceList) (blank_world cfg e))"

definition small_world :: "config \<Rightarrow> 'e \<Rightarrow> 'e world" where
  "small_world cfg e =
     upd_handler (Handler_of_node 0) (bh_bridge_update (\<lambda>_. Bridge_ptr))
       (upd_links (list_add (Handler_list (Handler_of_node 0)) BridgeHandlerList)
         (upd_links (list_add (Handler_list (Free_handler 0)) BridgeHandlerList) (two_ifaces cfg e)))"

definition small_lists :: "node \<Rightarrow> node list" where
  "small_lists = ((\<lambda>_. [])
     (ExternalInterfaceList := [Iface_list 0, Iface_list 2],
      BridgeHandlerList := [Handler_list (Handler_of_node 0), Handler_list (Free_handler 0)]))"

lemma blank_world_lists: "world_lists (blank_world cfg e) UNIV (\<lambda>_. [])"
  by (simp add: world_lists_def shape_def dlist_def blank_world_def)

lemma two_ifaces_lists:
  "world_lists (two_ifaces cfg e) (UNIV - {Iface_list 2} - {Iface_list 0})
    ((\<lambda>_. [])(ExternalInterfaceList := [Iface_list 0, Iface_list 2]))"
proof -
  have "world_lists (upd_links (list_add (Iface_list 2) ExternalInterfaceList) (blank_world cfg e))
      (UNIV - {Iface_list 2}) ((\<lambda>_. [])(ExternalInterfaceList := [Iface_list 2]))"
    using world_lists_add [OF blank_world_lists, of "Iface_list 2" ExternalInterfaceList] by (simp add: list_entries_def)
  from world_lists_add [OF this, of "Iface_list 0" ExternalInterfaceList] show ?thesis
    by (simp add: list_entries_def two_ifaces_def)
qed

lemma small_world_lists:
  "world_lists (small_world cfg e) (UNIV - {Iface_list 2} - {Iface_list 0} - {Handler_list (Free_handler 0)} -
    {Handler_list (Handler_of_node 0)}) small_lists"
proof -
  have "world_lists (upd_links (list_add (Handler_list (Free_handler 0)) BridgeHandlerList) (two_ifaces cfg e))
      (UNIV - {Iface_list 2} - {Iface_list 0} - {Handler_list (Free_handler 0)})
      ((\<lambda>_. [])(ExternalInterfaceList := [Iface_list 0, Iface_list 2],
        BridgeHandlerList := [Handler_list (Free_handler 0)]))"
    using world_lists_add [OF two_ifaces_lists, of "Handler_list (Free_handler 0)" BridgeHandlerList]
    by (simp add: list_entries_def)
  from world_lists_add [OF this, of "Handler_list (Handler_of_node 0)" BridgeHandlerList] show ?thesis
    by (simp add: list_entries_def small_world_def small_lists_def fun_upd_twist)
qed

lemma small_world_registered: "registered (small_world cfg e) [0, 2] [Handler_of_node 0, Free_handler 0]"
  by (rule world_lists_registered [OF small_world_lists]) (simp_all add: small_lists_def)

lemma small_world_dlist:
  "dlist (links (small_world cfg e)) ExternalInterfaceList (map Iface_list [0, 2])"
  "dlist (links (small_world cfg e)) BridgeHandlerList (map Handler_list [Handler_of_node 0, Free_handler 0])"
  using small_world_registered [of cfg e] by (simp_all add: registered_def)

lemma small_world_simps [simp]:
  "routingTable (small_world cfg e) = replicate (NDLCOM_MAX_NUMBER_OF_DEVICES cfg) Null"
  "bridge_flags (small_world cfg e) = NDLCOM_BRIDGE_FLAGS_FORWARDING_ENABLED"
  "ifaces (small_world cfg e) i = \<lparr>ei_bridge = Null, ei_flags = 0, ei_parser = blank_parser cfg, ei_io = i\<rparr>"
  "nodes (small_world cfg e) n = \<lparr>headerConfig =
    \<lparr>mCounterForReceiver = replicate (NDLCOM_MAX_NUMBER_OF_DEVICES cfg) 0, mOwnSenderId = 9\<rparr>\<rparr>"
  "env (small_world cfg e) = e"
  "node_bridge 0 (small_world cfg e) = Bridge_ptr"
  by (simp_all add: small_world_def two_ifaces_def blank_world_def upd_defs node_bridge_def)

lemma small_world_ok: "bridge_ok cfg (small_world cfg e) [0, 2] [Handler_of_node 0, Free_handler 0]"
  by (simp add: bridge_ok_def small_world_registered parser_wf_blank not_HasPacket_blank)

lemma small_world_routing [simp]: "routing_wf cfg (routingTable (small_world cfg e))"
  by (simp add: routing_wf_def)

lemma small_world_destination [simp]:
  "ndlcomRoutingGetDestination cfg (replicate (NDLCOM_MAX_NUMBER_OF_DEVICES cfg) Null) i = Null"
  by (simp add: ndlcomRoutingGetDestination_def NDLCOM_ROUTING_ALL_INTERFACES_def)

lemma line_keeps_lists: "handlers_keep_lists line_callbacks"
  by (simp add: handlers_keep_lists_def line_callbacks_def)

lemma line_drains: "drains line_callbacks (\<lambda>e. length (fst e))"
  by (auto simp: drains_def line_callbacks_def)

lemmas line_leaves_lists = line_keeps_lists [THEN handlers_keep_leave]

lemma line_preserves: "handlers_preserve line_callbacks Q"
  by (simp add: handlers_preserve_def line_callbacks_def)

end
