(* ===== verification/Bridge_Properties.thy ===== *)
theory Bridge_Properties
  imports Example_World
begin

text \<open>
  The properties of the bridge and of the nodes, each with a run in the small system of
  \<open>Example_World\<close> where it has hypotheses.
\<close>

section \<open>Forwarding\<close>

lemma origin_no_target: "Iface_ptr i = origin \<Longrightarrow> i \<notin> set (message_targets cfg w header origin ids)"
  by (auto simp: message_targets_def mirror_targets_def routed_targets_def Let_def split: ptr.splits)

text \<open>
  C6: what forwarding writes. For every message, origin and routing table, the frame of the message
  is written exactly to the interfaces of \<open>message_targets\<close>, in this order, and nothing else happens;
  the interface a message came from is never among them.
\<close>

theorem ndlcomBridgeProcessOutgoingMessage_writes:
  assumes "world_lists w H f" and "f ExternalInterfaceList = map Iface_list ids"
    and "unat (mDataLen header) \<le> length payload"
  shows "ndlcomBridgeProcessOutgoingMessage cfg cb header payload origin w =
      Some (fold (\<lambda>i. iface_write cb i (frame cfg header (take (unat (mDataLen header)) payload)))
        (message_targets cfg w header origin ids) w) \<and>
    (\<forall>i. Iface_ptr i = origin \<longrightarrow> i \<notin> set (message_targets cfg w header origin ids))"
  using process_outgoing_effect [OF _ assms(3), of w ids] world_lists_dlist(2) [OF assms(1)] assms(2)
    origin_no_target [of _ origin cfg w header ids]
  by (auto simp: write_all_def)

lemma ndlcomBridgeProcessOutgoingMessage_writes_witness:
  "\<exists>w'. ndlcomBridgeProcessOutgoingMessage default_config line_callbacks (header_of_bytes [5, 6, 0, 1]) [7]
      (Iface_ptr 0) (small_world default_config ([], [])) = Some w' \<and>
    env w' = ([], [(2, frame default_config (header_of_bytes [5, 6, 0, 1]) [7])])"
  using ndlcomBridgeProcessOutgoingMessage_writes [OF small_world_lists [of default_config "([], [])"], where payload = "[7]" and
      header = "header_of_bytes [5, 6, 0, 1]" and ids = "[0, 2]" and cfg = default_config and
      cb = line_callbacks and origin = "Iface_ptr 0"]
  by (simp add: small_lists_def header_of_bytes_def message_targets_def mirror_targets_def routed_targets_def
      is_mirror_def forwarding_enabled_def NDLCOM_BRIDGE_FLAGS_FORWARDING_ENABLED_def iface_write_def line_callbacks_def)

text \<open>
  A message with a broadcast or unknown destination reaches every interface but its origin
  exactly once, whether the interface is a mirror or not, if forwarding is enabled or the message
  comes from the inside.
\<close>

theorem unknown_destination_floods:
  assumes "world_lists w H f" and "f ExternalInterfaceList = map Iface_list ids"
    and "unat (mDataLen header) \<le> length payload"
    and "ndlcomRoutingGetDestination cfg (routingTable w) (mReceiverId header) = NDLCOM_ROUTING_ALL_INTERFACES"
    and "forwarding_enabled w \<or> origin = Bridge_ptr"
  shows "\<exists>js. distinct js \<and> set js = {i \<in> set ids. Iface_ptr i \<noteq> origin} \<and>
    ndlcomBridgeProcessOutgoingMessage cfg cb header payload origin w =
      Some (fold (\<lambda>i. iface_write cb i (frame cfg header (take (unat (mDataLen header)) payload))) js w)"
proof -
  let ?js = "message_targets cfg w header origin ids"
  have "distinct (map Iface_list ids)"
    using dlist_distinct [OF world_lists_dlist(2) [OF assms(1)]] assms(2) by simp
  then have dis: "distinct ids" by (simp add: distinct_map)
  have js: "?js = filter (\<lambda>i. origin \<noteq> Iface_ptr i \<and> is_mirror (ifaces w i)) ids @
      filter (\<lambda>i. origin \<noteq> Iface_ptr i \<and> \<not> is_mirror (ifaces w i)) ids"
    using assms(4,5) by (auto simp: message_targets_def mirror_targets_def routed_targets_def NDLCOM_ROUTING_ALL_INTERFACES_def)
  have "distinct ?js" "set ?js = {i \<in> set ids. Iface_ptr i \<noteq> origin}" unfolding js using dis by auto
  then show ?thesis
    using process_outgoing_effect [OF _ assms(3), of w ids cfg cb origin] world_lists_dlist(2) [OF assms(1)] assms(2)
    by (auto simp: write_all_def)
qed

lemma unknown_destination_floods_witness:
  "\<exists>js. set js = {0, 2} \<and>
    ndlcomBridgeProcessOutgoingMessage default_config line_callbacks (header_of_bytes [0xff, 6, 0, 1]) [7]
      Bridge_ptr (small_world default_config ([], [])) =
      Some (fold (\<lambda>i. iface_write line_callbacks i (frame default_config (header_of_bytes [0xff, 6, 0, 1]) [7])) js
        (small_world default_config ([], [])))"
  using unknown_destination_floods [OF small_world_lists [of default_config "([], [])"], where payload = "[7]" and
      header = "header_of_bytes [0xff, 6, 0, 1]" and ids = "[0, 2]" and cfg = default_config and
      cb = line_callbacks and origin = Bridge_ptr]
  by (auto simp: small_lists_def header_of_bytes_def NDLCOM_ROUTING_ALL_INTERFACES_def insert_commute)

text \<open>
  A debug mirror that is also the known destination of a message is written twice.
\<close>

theorem mirror_destination_written_twice:
  assumes "world_lists w H f" and "f ExternalInterfaceList = map Iface_list ids" and "i \<in> set ids"
    and "unat (mDataLen header) \<le> length payload" and "is_mirror (ifaces w i)"
    and "ndlcomRoutingGetDestination cfg (routingTable w) (mReceiverId header) = Iface_ptr i"
    and "forwarding_enabled w \<or> origin = Bridge_ptr" and "origin \<noteq> Iface_ptr i"
  shows "\<exists>js. count_list js i = 2 \<and> ndlcomBridgeProcessOutgoingMessage cfg cb header payload origin w =
    Some (fold (\<lambda>i. iface_write cb i (frame cfg header (take (unat (mDataLen header)) payload))) js w)"
proof -
  let ?js = "message_targets cfg w header origin ids"
  have "distinct (map Iface_list ids)"
    using dlist_distinct [OF world_lists_dlist(2) [OF assms(1)]] assms(2) by simp
  then have dis: "distinct ids" by (simp add: distinct_map)
  have js: "?js = mirror_targets w origin ids @ [i]"
    using assms(6-8) by (auto simp: message_targets_def routed_targets_def)
  have "distinct (mirror_targets w origin ids)" "i \<in> set (mirror_targets w origin ids)"
    using dis assms(3,5,8) by (simp_all add: mirror_targets_def)
  then have "count_list (mirror_targets w origin ids) i = 1"
    by (rule count_list_distinct)
  then have "count_list ?js i = 2" unfolding js by simp
  then show ?thesis
    using process_outgoing_effect [OF _ assms(4), of w ids cfg cb origin] world_lists_dlist(2) [OF assms(1)] assms(2)
    by (auto simp: write_all_def)
qed

lemma mirror_destination_written_twice_witness:
  "\<exists>js. count_list js 2 = 2 \<and>
    ndlcomBridgeProcessOutgoingMessage default_config line_callbacks (header_of_bytes [5, 6, 0, 1]) [7] Bridge_ptr
      (ndlcomExternalInterfaceSetFlags 2 1 (ndlcomBridgeAddRoutingInformationForDeviceId default_config 5 2
        (small_world default_config ([], [])))) =
    Some (fold (\<lambda>i. iface_write line_callbacks i (frame default_config (header_of_bytes [5, 6, 0, 1]) [7])) js
      (ndlcomExternalInterfaceSetFlags 2 1 (ndlcomBridgeAddRoutingInformationForDeviceId default_config 5 2
        (small_world default_config ([], [])))))"
proof -
  let ?v = "ndlcomBridgeAddRoutingInformationForDeviceId default_config 5 2 (small_world default_config ([], []))"
  let ?w = "ndlcomExternalInterfaceSetFlags 2 1 ?v"
  have wl: "world_lists ?w (UNIV - {Iface_list 2} - {Iface_list 0} - {Handler_list (Free_handler 0)} -
      {Handler_list (Handler_of_node 0)}) small_lists"
    using small_world_lists [of default_config "([], [])"]
    by (simp add: ndlcomExternalInterfaceSetFlags_def ndlcomBridgeAddRoutingInformationForDeviceId_def)
  have dest: "ndlcomRoutingGetDestination default_config (routingTable ?w)
      (mReceiverId (header_of_bytes [5, 6, 0, 1])) = Iface_ptr 2"
    using rt.lookup_learn [of default_config "replicate (NDLCOM_MAX_NUMBER_OF_DEVICES default_config) Null" 5 "Iface_ptr 2" 5]
    by (simp add: ndlcomExternalInterfaceSetFlags_def ndlcomBridgeAddRoutingInformationForDeviceId_def
        upd_iface_def header_of_bytes_def routing_wf_def) (simp add: default_config_def)
  have mirror: "is_mirror (ifaces ?w 2)"
    by (simp add: is_mirror_def ndlcomExternalInterfaceSetFlags_def upd_iface_def
        NDLCOM_EXTERNAL_INTERFACE_FLAGS_DEBUG_MIRROR_def)
  show ?thesis
    using mirror_destination_written_twice [OF wl, of "[0, 2]" 2 "header_of_bytes [5, 6, 0, 1]" "[7]" default_config
        Bridge_ptr line_callbacks] mirror dest
    by (simp add: small_lists_def) (simp add: header_of_bytes_def)
qed

section \<open>Handling\<close>

text \<open>
  C13: one message on the inside. If the handlers leave the lists alone, the message is
  first written to its targets and then given to every registered bridge handler once, in the order of
  the list; a handler that ignores internal messages is left out for messages from the bridge itself. A handler that does not
  return (\<open>None\<close>) ends this: the handlers behind it are not called.
\<close>

theorem ndlcomBridgeProcessDecodedMessage_calls:
  assumes "handlers_leave_lists cb" and "registered w ids hs" and "unat (mDataLen header) \<le> length payload"
  shows "ndlcomBridgeProcessDecodedMessage cfg cb header payload origin w = do {
      w \<leftarrow> ndlcomBridgeProcessOutgoingMessage cfg cb header payload origin w;
      run_entries (\<lambda>h w.
        if ignores_internal (handlers w h) \<and> origin = Bridge_ptr then Some w
        else call_handler cb (bh_handler (handlers w h)) header payload
          (if origin = Bridge_ptr then Null else origin) w) hs w
    }"
proof -
  have body: "map_option fst (bridge_handler_body cb header payload origin (Handler_list h) v) =
      (if ignores_internal (handlers v h) \<and> origin = Bridge_ptr then Some v
        else call_handler cb (bh_handler (handlers v h)) header payload
          (if origin = Bridge_ptr then Null else origin) v)" for h v
    by (simp add: bridge_handler_body_def map_option_case split: Option.bind_split option.splits)
  have run: "deliver_bridge cb header payload origin hs v = run_entries (\<lambda>h w.
        if ignores_internal (handlers w h) \<and> origin = Bridge_ptr then Some w
        else call_handler cb (bh_handler (handlers w h)) header payload
          (if origin = Bridge_ptr then Null else origin) w) hs v" for v
    by (simp only: deliver_bridge_def run_entries_map body)
  show ?thesis
    using process_decoded_effect [OF assms(1) _ _ _ assms(3), of w ids hs cfg origin]
      process_outgoing_effect [OF _ assms(3), of w ids cfg cb origin] assms(2)
    by (simp add: registered_def run)
qed

lemma ndlcomBridgeProcessDecodedMessage_calls_witness:
  "ndlcomBridgeProcessDecodedMessage default_config line_callbacks (header_of_bytes [5, 6, 0, 1]) [7] Bridge_ptr
      (small_world default_config ([], [])) =
    ndlcomBridgeProcessOutgoingMessage default_config line_callbacks (header_of_bytes [5, 6, 0, 1]) [7] Bridge_ptr
      (small_world default_config ([], [])) \<bind>
    run_entries (\<lambda>h w.
        if ignores_internal (handlers w h) \<and> Bridge_ptr = Bridge_ptr then Some w
        else call_handler line_callbacks (bh_handler (handlers w h)) (header_of_bytes [5, 6, 0, 1]) [7]
          (if Bridge_ptr = Bridge_ptr then Null else Bridge_ptr) w) [Handler_of_node 0, Free_handler 0]"
  by (rule ndlcomBridgeProcessDecodedMessage_calls [OF line_leaves_lists small_world_registered])
    (simp add: header_of_bytes_def)

text \<open>Two registered handlers that are taken off one after the other both point to themselves.\<close>

lemma deregister_two_handlers:
  assumes "world_lists w H f" and "f BridgeHandlerList = [Handler_list (Free_handler a), Handler_list (Free_handler b)]"
  shows "\<exists>v u. ndlcomBridgeDeregisterBridgeHandler (Free_handler a) w = Some v \<and>
    ndlcomBridgeDeregisterBridgeHandler (Free_handler b) v = Some u \<and>
    list_empty (links u) (Handler_list (Free_handler a)) \<and> list_empty (links u) (Handler_list (Free_handler b)) \<and>
    (\<forall>h. bh_handler (handlers u h) = bh_handler (handlers w h))"
proof -
  let ?a = "Handler_list (Free_handler a)" and ?b = "Handler_list (Free_handler b)"
  obtain v H2 f2 where v: "ndlcomBridgeDeregisterBridgeHandler (Free_handler a) w = Some v" "world_lists v H2 f2"
    "f2 BridgeHandlerList = remove1 ?a (f BridgeHandlerList)" "?a \<in> set (f BridgeHandlerList) \<longrightarrow> ?a \<in> H2"
    using deregister_bridge_handler_effect [OF assms(1), of "Free_handler a"] by blast
  obtain u H3 f3 where u: "ndlcomBridgeDeregisterBridgeHandler (Free_handler b) v = Some u" "world_lists u H3 f3"
    "?b \<in> set (f2 BridgeHandlerList) \<longrightarrow> ?b \<in> H3"
    using deregister_bridge_handler_effect [OF v(2), of "Free_handler b"] by blast
  have "dlist (links w) BridgeHandlerList [?a, ?b]" using world_lists_dlist(1) [OF assms(1)] assms(2) by simp
  from dlist_distinct [OF this] have ab: "?a \<noteq> ?b" by auto
  have "list_empty (links v) ?a"
    using v(2,4) assms(2) ls.empty_head [of "links v" H2 f2 ?a] by (auto simp: world_lists_def list_entries_def)
  moreover have "dlist (links v) BridgeHandlerList ([] @ ?b # [])"
    using world_lists_dlist(1) [OF v(2)] v(3) assms(2) by simp
  moreover have "links u = list_del_init ?b (links v)"
    using u(1) check_bridge_handler [OF v(2), of "Free_handler b"] v(3) assms(2)
    by (simp add: ndlcomBridgeDeregisterBridgeHandler_def) (auto simp: upd_handler_def upd_links_def)
  ultimately have "list_empty (links u) ?a"
    using ab list_del_init_untouched [of "links v" BridgeHandlerList "[]" ?b "[]" ?a] by (simp add: list_empty_def)
  moreover have "list_empty (links u) ?b"
    using v(3) u(2,3) assms(2) ls.empty_head [of "links u" H3 f3 ?b] by (auto simp: world_lists_def list_entries_def)
  moreover have "\<forall>h. bh_handler (handlers u h) = bh_handler (handlers w h)"
    using v(1) u(1) by (auto simp: ndlcomBridgeDeregisterBridgeHandler_def upd_defs split: Option.bind_splits if_splits)
  ultimately show ?thesis using v(1) u(1) by blast
qed


text \<open>A bridge without interfaces: handler 0 removes itself and handler 1.\<close>

definition removing_callbacks :: "line callbacks" where
  "removing_callbacks = line_callbacks\<lparr>cb_handler := (\<lambda>k h pl org v.
     if k = 0 then ndlcomBridgeDeregisterBridgeHandler (Free_handler 0) v \<bind>
       ndlcomBridgeDeregisterBridgeHandler (Free_handler 2)
     else Some v)\<rparr>"


section \<open>Processing\<close>

text \<open>
  C7: reading one interface. Whatever bytes the interface delivers, a call that returns has processed all of
  them; the messages it handled are, one after the other, exactly the packets that the deframer finds in
  the bytes, continued from the state the parser was in, and the parser is left in the deframer's state. A call
  that does not return was stopped by a handler, and the messages before the one this
  handler was called for have been handled.
\<close>

theorem ndlcomBridgeProcessExternalInterface_stream:
  assumes "handlers_leave_lists cb" and "bridge_ok cfg w ids hs" and "i \<in> set ids"
    and "cb_read cb (ei_io (ifaces w i)) (NDLCOM_BRIDGE_TEMPORARY_RXBUFFER_SIZE cfg) (env w) = (bytes, e)"
    and "length bytes \<le> NDLCOM_BRIDGE_TEMPORARY_RXBUFFER_SIZE cfg"
    and "parser_abs cfg (ei_parser (ifaces w i)) d"
  shows "case ndlcomBridgeProcessExternalInterface cfg cb i w of
      None \<Rightarrow> \<not> handlers_return cb ids \<and>
        stops_at_message cfg cb i ids hs (fst (packets cfg d bytes)) (w\<lparr>env := e\<rparr>)
    | Some (n, w') \<Rightarrow> n = length bytes \<and>
        message_steps cfg cb i ids hs (fst (packets cfg d bytes)) (w\<lparr>env := e\<rparr>) w' \<and>
        bridge_ok cfg w' ids hs \<and> parser_abs cfg (ei_parser (ifaces w' i)) (snd (packets cfg d bytes))"
  using process_interface_run [OF assms] by auto

lemma ndlcomBridgeProcessExternalInterface_stream_witness:
  "\<exists>w'. ndlcomBridgeProcessExternalInterface default_config line_callbacks 0
      (small_world default_config ([0x7e, 1, 2], [])) = Some (3, w') \<and>
    bridge_ok default_config w' [0, 2] [Handler_of_node 0, Free_handler 0]"
proof -
  have "cb_read line_callbacks (ei_io (ifaces (small_world default_config ([0x7e, 1, 2], [])) 0))
      (NDLCOM_BRIDGE_TEMPORARY_RXBUFFER_SIZE default_config) (env (small_world default_config ([0x7e, 1, 2], []))) =
      ([0x7e, 1, 2], ([], []))"
    by (simp add: line_callbacks_def NDLCOM_BRIDGE_TEMPORARY_RXBUFFER_SIZE_def size_defs default_config_def)
  from ndlcomBridgeProcessExternalInterface_stream [OF line_leaves_lists small_world_ok _ this, of
      "\<lparr>df_escape = False, df_phase = Collect [], df_fails = 0\<rparr>"]
  show ?thesis
    using handlers_keep_return [OF line_keeps_lists]
    by (auto simp: parser_abs_blank NDLCOM_BRIDGE_TEMPORARY_RXBUFFER_SIZE_def size_defs default_config_def numeral_3_eq_3
        split: option.splits)
qed

text \<open>
  C11: \<open>ndlcomBridgeProcess\<close> returns, and when it does, no interface has data left to read, every
  interface is still registered and its parser is well formed and holds no packet. This needs an
  environment where data runs out, and handlers that leave the lists alone and return when they are called
  with a whole payload and with one of the interfaces, or none, as its origin.
\<close>

theorem ndlcomBridgeProcess_drains:
  assumes "handlers_return cb ids" and "drains cb pending" and "bridge_ok cfg w ids hs"
  shows "\<exists>n w'. ndlcomBridgeProcess cfg cb w = Some (n, w') \<and> bridge_ok cfg w' ids hs \<and>
    (\<forall>i \<in> set ids. nothing_to_read cfg cb i w')"
  unfolding ndlcomBridgeProcess_def using assms by (rule process_until_idle_effect)

lemma ndlcomBridgeProcess_drains_witness:
  "\<exists>n w'. ndlcomBridgeProcess default_config line_callbacks (small_world default_config (replicate 2000 0x7e, [])) = Some (n, w') \<and>
    nothing_to_read default_config line_callbacks 0 w'"
  using ndlcomBridgeProcess_drains [OF handlers_keep_return [OF line_keeps_lists] line_drains small_world_ok,
      of default_config "(replicate 2000 0x7e, [])"] by auto

text \<open>
  Ids of the own nodes are guarded. A device id that the routing table marks as internal keeps
  this mark while the bridge processes any input on any interface, also messages that claim to be
  sent by this id, as long as the handlers do not take the mark away.
\<close>

lemma internal_id_invariant:
  assumes "handlers_preserve cb (\<lambda>w. ndlcomRoutingGetDestination cfg (routingTable w) deviceId = Bridge_ptr)"
  shows "bridge_invariant cfg cb ids (\<lambda>w. ndlcomRoutingGetDestination cfg (routingTable w) deviceId = Bridge_ptr)"
proof -
  have "ndlcomRoutingGetDestination cfg (routingTable (learn_sender cfg i h v)) deviceId = Bridge_ptr"
    if "ndlcomRoutingGetDestination cfg (routingTable v) deviceId = Bridge_ptr" for i h and v :: "'a world"
  proof (cases "mSenderId h = deviceId")
    case True
    then show ?thesis using that by (simp add: learn_sender_def deviceIdIsNotInternallyUsed_def)
  next
    case False
    then have "unat (mSenderId h) \<noteq> unat deviceId" by (simp add: word_unat_eq_iff)
    then show ?thesis
      using that by (auto simp: learn_sender_def ndlcomRoutingTableUpdate_def ndlcomRoutingGetDestination_def)
  qed
  then show ?thesis using assms by (simp add: bridge_invariant_def upd_iface_def)
qed

theorem internal_ids_are_guarded:
  assumes "handlers_leave_lists cb" and "bridge_ok cfg w ids hs"
    and "handlers_preserve cb (\<lambda>w. ndlcomRoutingGetDestination cfg (routingTable w) deviceId = Bridge_ptr)"
    and "ndlcomRoutingGetDestination cfg (routingTable w) deviceId = Bridge_ptr"
    and "ndlcomBridgeProcess cfg cb w = Some (n, w')"
  shows "ndlcomRoutingGetDestination cfg (routingTable w') deviceId = Bridge_ptr"
  using process_until_idle_invariant [OF assms(5) [unfolded ndlcomBridgeProcess_def]
      internal_id_invariant [OF assms(3)] assms(1,2,4)] by simp

lemma internal_ids_are_guarded_witness:
  "\<exists>n w'. ndlcomBridgeProcess default_config line_callbacks
      (ndlcomBridgeMarkDeviceIdAsInternal default_config 9
        (small_world default_config (frame default_config (header_of_bytes [5, 9, 0, 0]) [], []))) = Some (n, w') \<and>
    ndlcomRoutingGetDestination default_config (routingTable w') 9 = Bridge_ptr"
proof -
  let ?v = "small_world default_config (frame default_config (header_of_bytes [5, 9, 0, 0]) [], [])"
  let ?w = "ndlcomBridgeMarkDeviceIdAsInternal default_config 9 ?v"
  have ok: "bridge_ok default_config ?w [0, 2] [Handler_of_node 0, Free_handler 0]"
    using small_world_ok [of default_config "(frame default_config (header_of_bytes [5, 9, 0, 0]) [], [])"]
    by (simp add: bridge_ok_def registered_def node_lists_def ndlcomBridgeMarkDeviceIdAsInternal_def)
  have dest: "ndlcomRoutingGetDestination default_config (routingTable ?w) 9 = Bridge_ptr"
    using rt.lookup_learn [of default_config "replicate (NDLCOM_MAX_NUMBER_OF_DEVICES default_config) Null" 9 Bridge_ptr 9]
    by (simp add: ndlcomBridgeMarkDeviceIdAsInternal_def routing_wf_def) (simp add: default_config_def)
  obtain n w' where "ndlcomBridgeProcess default_config line_callbacks ?w = Some (n, w')"
    using process_until_idle_effect [OF handlers_keep_return [OF line_keeps_lists] line_drains ok] unfolding ndlcomBridgeProcess_def by blast
  with internal_ids_are_guarded [OF line_leaves_lists ok line_preserves dest this] show ?thesis by blast
qed

section \<open>Registering\<close>

text \<open>
  Registering an initialised bridge handler puts it in front of the handlers, unless it is there
  already; then nothing changes. Either way it is registered afterwards and no other list changes.
\<close>

theorem ndlcomBridgeRegisterBridgeHandler_once:
  assumes "world_lists w H f" and "Handler_list h \<in> H \<union> set (f BridgeHandlerList)"
  shows "\<exists>w' H'. ndlcomBridgeRegisterBridgeHandler h w = Some w' \<and>
    world_lists w' H' (f(BridgeHandlerList := (if Handler_list h \<in> set (f BridgeHandlerList) then []
      else [Handler_list h]) @ f BridgeHandlerList)) \<and>
    (Handler_list h \<notin> set (f BridgeHandlerList) \<longrightarrow> bh_bridge (handlers w' h) = Bridge_ptr) \<and>
    ndlcomBridgeCheckBridgeHandler h w' = Some True"
  using assms by (rule register_bridge_handler_effect)

lemma ndlcomBridgeRegisterBridgeHandler_once_witness:
  "\<exists>w'. ndlcomBridgeRegisterBridgeHandler (Free_handler 5) (small_world default_config ()) = Some w' \<and>
    ndlcomBridgeCheckBridgeHandler (Free_handler 5) w' = Some True"
  using ndlcomBridgeRegisterBridgeHandler_once [OF small_world_lists, of "Free_handler 5" default_config "()"]
  by auto

text \<open>
  Deregistering an external interface takes it out of the list and out of the routing table:
  afterwards no device is reached through it any more, and all other routes are as before.
\<close>

theorem ndlcomBridgeDeregisterExternalInterface_forgets:
  assumes "world_lists w H f" and "routing_wf cfg (routingTable w)" and "Iface_list i \<in> set (f ExternalInterfaceList)"
  shows "\<exists>w' H' f'. ndlcomBridgeDeregisterExternalInterface cfg i w = Some w' \<and> world_lists w' H' f' \<and>
    f' ExternalInterfaceList = remove1 (Iface_list i) (f ExternalInterfaceList) \<and>
    ndlcomBridgeCheckExternalInterface i w' = Some False \<and>
    (\<forall>deviceId. ndlcomRoutingGetDestination cfg (routingTable w') deviceId =
      (if ndlcomRoutingGetDestination cfg (routingTable w) deviceId = Iface_ptr i then NDLCOM_ROUTING_ALL_INTERFACES
       else ndlcomRoutingGetDestination cfg (routingTable w) deviceId))"
  using deregister_external_interface_effect [OF assms] by blast

lemma ndlcomBridgeDeregisterExternalInterface_forgets_witness:
  "\<exists>w'. ndlcomBridgeDeregisterExternalInterface default_config 0 (small_world default_config ()) = Some w' \<and>
    ndlcomBridgeCheckExternalInterface 0 w' = Some False"
  using ndlcomBridgeDeregisterExternalInterface_forgets [OF small_world_lists small_world_routing, of 0]
  by (fastforce simp: small_lists_def)

section \<open>Nodes\<close>

text \<open>
  A node hears what is meant for it. Its message handler gives a message to all its node handlers
  if the receiver is the id of the node or the broadcast address, and to none otherwise; internal
  messages are kept from handlers with the flag.
\<close>

theorem ndlcomNodeMessageHandler_filters:
  assumes "handlers_leave_lists cb" and "world_lists w H f" and "f (NodeHandlerList n) = map Node_handler_list ks"
  shows "ndlcomNodeMessageHandler cb n header payload origin w =
    (if mReceiverId header = ndlcomNodeGetOwnDeviceId n w \<or> mReceiverId header = NDLCOM_ADDR_BROADCAST
     then run_entries (\<lambda>k w.
       if origin = Null \<and> node_handler_ignores_internal (nodeHandlers w k) then Some w
       else cb_handler cb (nh_handler (nodeHandlers w k)) header payload origin w) ks w
     else Some w)"
proof -
  have dl: "dlist (links w) (NodeHandlerList n) (map Node_handler_list ks)"
    using world_lists_dlist(3) [OF assms(2), of n] assms(3) by simp
  have body: "node_handler_body cb header payload origin (Node_handler_list k) =
      (\<lambda>w. if origin = Null \<and> node_handler_ignores_internal (nodeHandlers w k) then Some w
       else cb_handler cb (nh_handler (nodeHandlers w k)) header payload origin w)" for k
    by (rule ext) (simp add: node_handler_body_def)
  show ?thesis
    by (simp add: node_message_handler_effect [OF assms(1) dl] deliver_node_def run_entries_map body
        ndlcomNodeGetOwnDeviceId_def)
qed

lemma ndlcomNodeMessageHandler_filters_witness:
  "ndlcomNodeMessageHandler line_callbacks 0 (header_of_bytes [5, 6, 0, 1]) [7] Null (small_world default_config ([], [])) =
    Some (small_world default_config ([], []))"
  using ndlcomNodeMessageHandler_filters [OF line_leaves_lists small_world_lists, of 0 "[]" "header_of_bytes [5, 6, 0, 1]"]
  by (simp add: small_lists_def)

text \<open>
  Registering a node makes it reachable on the inside: its handler is in front of the handlers
  of the bridge, its own id leads to the bridge itself, and a message from outside to this id is
  written to no interface but the debug mirrors.
\<close>

theorem ndlcomNodeRegister_claims_id:
  assumes "world_lists w H f" and "Handler_list (Handler_of_node n) \<in> H" and "routing_wf cfg (routingTable w)"
    and "unat (ndlcomNodeGetOwnDeviceId n w) < NDLCOM_MAX_NUMBER_OF_DEVICES cfg"
  shows "\<exists>w' H'. ndlcomNodeRegister cfg n w = Some w' \<and>
    world_lists w' H' (f(BridgeHandlerList := Handler_list (Handler_of_node n) # f BridgeHandlerList)) \<and>
    (\<forall>deviceId. ndlcomRoutingGetDestination cfg (routingTable w') deviceId =
      (if deviceId = ndlcomNodeGetOwnDeviceId n w then Bridge_ptr
       else ndlcomRoutingGetDestination cfg (routingTable w) deviceId)) \<and>
    (\<forall>header i ids. mReceiverId header = ndlcomNodeGetOwnDeviceId n w \<longrightarrow>
      message_targets cfg w' header (Iface_ptr i) ids = mirror_targets w' (Iface_ptr i) ids)"
proof -
  have own: "node_own_id n w = ndlcomNodeGetOwnDeviceId n w"
    by (simp add: node_own_id_def ndlcomNodeGetOwnDeviceId_def)
  obtain w' H' where w': "ndlcomNodeRegister cfg n w = Some w'"
    "world_lists w' H' (f(BridgeHandlerList := Handler_list (Handler_of_node n) # f BridgeHandlerList))"
    "\<forall>deviceId. ndlcomRoutingGetDestination cfg (routingTable w') deviceId =
      (if deviceId = ndlcomNodeGetOwnDeviceId n w then Bridge_ptr
       else ndlcomRoutingGetDestination cfg (routingTable w) deviceId)"
    using node_register_effect [OF assms(1-3)] assms(4) unfolding own by blast
  then have "message_targets cfg w' header (Iface_ptr i) ids = mirror_targets w' (Iface_ptr i) ids"
    if "mReceiverId header = ndlcomNodeGetOwnDeviceId n w" for header i ids
    using that by (simp add: message_targets_def routed_targets_def)
  with w' show ?thesis by blast
qed

lemma ndlcomNodeRegister_claims_id_witness:
  "\<exists>w'. ndlcomNodeRegister default_config 3 (small_world default_config ()) = Some w' \<and>
    ndlcomRoutingGetDestination default_config (routingTable w') 9 = Bridge_ptr"
proof -
  have "unat (ndlcomNodeGetOwnDeviceId 3 (small_world default_config ())) < NDLCOM_MAX_NUMBER_OF_DEVICES default_config"
    by (simp add: default_config_def)
  from ndlcomNodeRegister_claims_id [OF small_world_lists [of default_config "()"] _ small_world_routing this]
  show ?thesis by (auto simp: ndlcomNodeGetOwnDeviceId_def)
qed

text \<open>
  Sending from a node. The message that goes out has the id of the node as its sender, the next
  counter value for the receiver, and the length modulo 256; it is framed, written to its targets and
  shown to the handlers as an internal message, and the counter of the receiver is incremented.
\<close>

theorem ndlcomNodeSend_sends:
  assumes "handlers_leave_lists cb" and "registered w ids hs" and "node_bridge n w \<noteq> Null"
    and "unat receiverId < NDLCOM_MAX_NUMBER_OF_DEVICES cfg" and "payloadSize mod 256 \<le> length payload"
  shows "ndlcomNodeSend cfg cb junk n receiverId payload payloadSize w =
    (let counters = mCounterForReceiver (headerConfig (nodes w n));
         header = \<lparr>mReceiverId = receiverId, mSenderId = ndlcomNodeGetOwnDeviceId n w,
           mCounter = counters ! unat receiverId, mDataLen = of_nat payloadSize\<rparr>;
         w1 = upd_node n (headerConfig_update (\<lambda>c. c\<lparr>mCounterForReceiver :=
           (mCounterForReceiver c)[unat receiverId := mCounterForReceiver c ! unat receiverId + 1]\<rparr>)) w
     in deliver_bridge cb header payload Bridge_ptr hs
       (fold (\<lambda>i. iface_write cb i (frame cfg header (take (payloadSize mod 256) payload)))
         (message_targets cfg w1 header Bridge_ptr ids) w1))"
  using node_send_effect [OF assms refl refl, of junk]
  by (simp add: Let_def node_own_id_def ndlcomNodeGetOwnDeviceId_def write_all_def)

lemma ndlcomNodeSend_sends_witness:
  "ndlcomNodeSend default_config line_callbacks \<lparr>mReceiverId = 0, mSenderId = 0, mCounter = 77, mDataLen = 0\<rparr> 0 5 (replicate 256 1) 256 (small_world default_config ([], [])) =
    (let header = \<lparr>mReceiverId = 5, mSenderId = 9, mCounter = 0, mDataLen = 0\<rparr>;
         w1 = upd_node 0 (headerConfig_update (\<lambda>c. c\<lparr>mCounterForReceiver :=
            (mCounterForReceiver c)[unat (5 :: u8) := mCounterForReceiver c ! unat (5 :: u8) + 1]\<rparr>))
            (small_world default_config ([], []))
     in deliver_bridge line_callbacks header (replicate 256 1) Bridge_ptr [Handler_of_node 0, Free_handler 0]
      (fold (\<lambda>i. iface_write line_callbacks i (frame default_config header []))
        (message_targets default_config w1 header Bridge_ptr [0, 2]) w1))"
proof -
  let ?w = "small_world default_config ([], [])"
  have nb: "node_bridge 0 ?w \<noteq> Null" by simp
  have r: "unat (5 :: u8) < NDLCOM_MAX_NUMBER_OF_DEVICES default_config" by (simp add: default_config_def)
  have len: "256 mod 256 \<le> length (replicate 256 (1 :: u8))" by simp
  have hdr: "mCounterForReceiver (headerConfig (nodes ?w 0)) ! unat (5 :: u8) = 0" "ndlcomNodeGetOwnDeviceId 0 ?w = 9"
    using r by (simp_all add: ndlcomNodeGetOwnDeviceId_def)
  have size: "word_of_nat 256 = (0 :: u8)" "take (256 mod 256) (replicate 256 (1 :: u8)) = []" by simp_all
  show ?thesis
    using ndlcomNodeSend_sends [OF line_leaves_lists small_world_registered nb r len, of "\<lparr>mReceiverId = 0, mSenderId = 0, mCounter = 77, mDataLen = 0\<rparr>"]
    unfolding Let_def hdr size .
qed

end
