(* ===== verification/Link.thy ===== *)
theory Link
  imports Example_World
begin

text \<open>
  Two bridges on the two ends of a line: what one of them writes for a message is, when the other
  reads it, exactly this message again.
\<close>

section \<open>Frames in a stream\<close>

definition sendable :: "config \<Rightarrow> NDLComHeader \<times> u8 list \<Rightarrow> bool" where
  "sendable cfg m \<longleftrightarrow> length (snd m) = unat (mDataLen (fst m)) \<and> length (snd m) \<le> NDLCOM_MAX_PAYLOAD_SIZE cfg"

lemma deframe_frame:
  assumes "sendable cfg (h, pl)" and "\<not> big_endian cfg'"
  shows "deframe cfg d (frame cfg' h pl @ rest) =
    (d\<lparr>df_escape := False, df_phase := Packet_ready h pl\<rparr>, length (frame cfg' h pl) - 1)"
proof -
  note shape = packet_bytes_shaped [of pl h cfg cfg']
  have s: "length pl = unat (mDataLen h)" "length pl \<le> NDLCOM_MAX_PAYLOAD_SIZE cfg" using assms(1) by (simp_all add: sendable_def)
  have "deframe cfg (d\<lparr>df_escape := False, df_phase := Collect []\<rparr>) (stuff (packet_bytes cfg' h pl) @ NDLCOM_START_STOP_FLAG # rest) =
      (d\<lparr>df_escape := False, df_phase := Packet_ready h pl\<rparr>, length (stuff (packet_bytes cfg' h pl)))"
    using deframe_packet [OF shape(1) [OF s], of "d\<lparr>df_escape := False, df_phase := Collect []\<rparr>" "NDLCOM_START_STOP_FLAG # rest"]
      packet_bytes_crc [OF assms(2)] shape s by simp
  then show ?thesis by (simp add: frame_def deframe_byte_def)
qed

text \<open>The closing flag of a frame only resets the deframer.\<close>

lemma packets_flag:
  "packets cfg d (NDLCOM_START_STOP_FLAG # bs) =
    (if bs = [] then ([], d\<lparr>df_escape := False, df_phase := Collect []\<rparr>)
     else packets cfg (d\<lparr>df_escape := False, df_phase := Collect []\<rparr>) bs)"
proof -
  have "deframe cfg d (NDLCOM_START_STOP_FLAG # bs) =
      (fst (deframe cfg (d\<lparr>df_escape := False, df_phase := Collect []\<rparr>) bs),
       snd (deframe cfg (d\<lparr>df_escape := False, df_phase := Collect []\<rparr>) bs) + 1)"
    by (simp add: deframe_byte_def)
  then show ?thesis
    by (subst packets.simps, cases bs) (simp, subst packets.simps, simp split: phase.split)
qed

lemma packets_frames:
  assumes "\<forall>m \<in> set ms. sendable cfg m" and "\<not> big_endian cfg'"
  shows "packets cfg d (concat (map (\<lambda>(h, pl). frame cfg' h pl) ms)) =
    (ms, if ms = [] then d else d\<lparr>df_escape := False, df_phase := Collect []\<rparr>)"
  using assms(1)
proof (induction ms arbitrary: d)
  case Nil
  then show ?case by (subst packets.simps) simp
next
  case (Cons m ms)
  obtain h pl where m: "m = (h, pl)" by (cases m)
  let ?rest = "concat (map (\<lambda>(h, pl). frame cfg' h pl) ms)"
  let ?d = "d\<lparr>df_escape := False, df_phase := Collect []\<rparr>"
  have drop: "drop (length (frame cfg' h pl) - 1) (frame cfg' h pl @ ?rest) = NDLCOM_START_STOP_FLAG # ?rest"
    by (simp add: frame_def)
  have de: "deframe cfg d (frame cfg' h pl @ ?rest) =
      (d\<lparr>df_escape := False, df_phase := Packet_ready h pl\<rparr>, length (frame cfg' h pl) - 1)"
    by (rule deframe_frame) (use Cons.prems assms(2) m in auto)
  have ne: "frame cfg' h pl \<noteq> []" by (simp add: frame_def)
  have "packets cfg d (frame cfg' h pl @ ?rest) =
      ((h, pl) # fst (packets cfg ?d (NDLCOM_START_STOP_FLAG # ?rest)), snd (packets cfg ?d (NDLCOM_START_STOP_FLAG # ?rest)))"
    by (subst packets.simps) (simp add: de ne drop [unfolded One_nat_def] Let_def del: drop_append)
  also have "packets cfg ?d (NDLCOM_START_STOP_FLAG # ?rest) = (ms, ?d)"
  proof (cases "?rest = []")
    case True
    then have "ms = []" by (cases ms) (auto simp: frame_def)
    then show ?thesis by (simp add: packets_flag)
  next
    case False
    then show ?thesis using Cons.IH [of ?d] Cons.prems by (simp add: packets_flag) (metis)
  qed
  finally show ?case by (simp add: m)
qed

section \<open>From one bridge to the next\<close>

text \<open>
  Messages cross a line. Whatever messages are written as frames to one end of a line, of
  any sizes that the receiving parser can take, the bridge that reads these bytes at the other end
  handles exactly these messages, in their order: it learns their sender, forwards them, and shows them
  to its handlers, whatever its parser had seen before. Afterwards nothing is left in the parser.
\<close>

lemma messages_cross_a_line:
  assumes "handlers_return cb ids" and "bridge_ok cfg w ids hs" and "i \<in> set ids" and "\<not> big_endian cfg'"
    and "\<forall>m \<in> set ms. sendable cfg m"
    and "cb_read cb (ei_io (ifaces w i)) (NDLCOM_BRIDGE_TEMPORARY_RXBUFFER_SIZE cfg) (env w) =
      (concat (map (\<lambda>(h, pl). frame cfg' h pl) ms), e)"
    and "length (concat (map (\<lambda>(h, pl). frame cfg' h pl) ms)) \<le> NDLCOM_BRIDGE_TEMPORARY_RXBUFFER_SIZE cfg"
  shows "\<exists>w'. ndlcomBridgeProcessExternalInterface cfg cb i w =
      Some (length (concat (map (\<lambda>(h, pl). frame cfg' h pl) ms)), w') \<and>
    message_steps cfg cb i ids hs ms (w\<lparr>env := e\<rparr>) w' \<and> bridge_ok cfg w' ids hs"
proof -
  obtain d where "parser_abs cfg (ei_parser (ifaces w i)) d"
    using assms(2,3) by (auto simp: bridge_ok_def parser_wf_def)
  from process_interface_effect [OF assms(1-3,6,7) this] show ?thesis
    unfolding packets_frames [OF assms(5,4)] by auto
qed

text \<open>What a node sends fits the buffer of the other side as one frame.\<close>

lemma frame_fits:
  "sendable cfg (h, pl) \<Longrightarrow> length (frame cfg' h pl) \<le> NDLCOM_BRIDGE_TEMPORARY_RXBUFFER_SIZE cfg"
  using length_frame_le [of cfg' h pl]
  by (simp add: sendable_def NDLCOM_BRIDGE_TEMPORARY_RXBUFFER_SIZE_def size_defs)

text \<open>
  C8: a message of a node reaches the handlers behind another bridge. The node writes a frame to
  the interfaces that lead to the receiver; when another bridge reads what was written, it handles one
  message, with the header that the node prepared and the payload that it was given (its length modulo
  256), and its handlers see it as coming from the interface that read it.
\<close>

theorem node_message_reaches_other_bridge:
  assumes "handlers_return cb1 ids1" and "registered w1 ids1 hs1" and "node_bridge n w1 \<noteq> Null"
    and "unat receiverId < NDLCOM_MAX_NUMBER_OF_DEVICES cfg1" and "payloadSize mod 256 \<le> length payload"
    and "\<not> big_endian cfg1" and "payloadSize mod 256 \<le> NDLCOM_MAX_PAYLOAD_SIZE cfg2"
    and "handlers_return cb2 ids2" and "bridge_ok cfg2 w2 ids2 hs2" and "i \<in> set ids2"
    and "header = \<lparr>mReceiverId = receiverId, mSenderId = node_own_id n w1,
      mCounter = mCounterForReceiver (headerConfig (nodes w1 n)) ! unat receiverId, mDataLen = of_nat payloadSize\<rparr>"
    and "sent = frame cfg1 header (take (payloadSize mod 256) payload)"
    and "cb_read cb2 (ei_io (ifaces w2 i)) (NDLCOM_BRIDGE_TEMPORARY_RXBUFFER_SIZE cfg2) (env w2) = (sent, e)"
  shows "\<exists>v1 w1' w2'. ndlcomNodeSend cfg1 cb1 junk n receiverId payload payloadSize w1 = Some w1' \<and>
    deliver_bridge cb1 header payload Bridge_ptr hs1
      (fold (\<lambda>j. iface_write cb1 j sent) (message_targets cfg1 v1 header Bridge_ptr ids1) v1) = Some w1' \<and>
    routingTable v1 = routingTable w1 \<and> ifaces v1 = ifaces w1 \<and> bridge_flags v1 = bridge_flags w1 \<and>
    ndlcomBridgeProcessExternalInterface cfg2 cb2 i w2 = Some (length sent, w2') \<and>
    message_steps cfg2 cb2 i ids2 hs2 [(header, take (payloadSize mod 256) payload)] (w2\<lparr>env := e\<rparr>) w2'"
proof -
  let ?pl = "take (payloadSize mod 256) payload"
  let ?v = "upd_node n (headerConfig_update (\<lambda>c. c\<lparr>mCounterForReceiver :=
      (mCounterForReceiver c)[unat receiverId := mCounterForReceiver c ! unat receiverId + 1]\<rparr>)) w1"
  let ?w = "write_all cb1 sent (message_targets cfg1 ?v header Bridge_ptr ids1) ?v"
  have send: "ndlcomNodeSend cfg1 cb1 junk n receiverId payload payloadSize w1 =
      deliver_bridge cb1 header payload Bridge_ptr hs1 ?w"
    using node_send_effect [OF handlers_return_leave [OF assms(1)] assms(2-5,11) refl, of junk] by (simp add: assms(12))
  have "node_lists ?w" using assms(2) by (simp add: registered_def node_lists_def world_frame)
  have size: "unat (mDataLen header) = payloadSize mod 256" by (simp add: assms(11) unat_of_nat)
  obtain w1' where w1': "deliver_bridge cb1 header payload Bridge_ptr hs1 ?w = Some w1'"
    using deliver_bridge_returns [OF assms(1) _ _ \<open>node_lists ?w\<close>, of Bridge_ptr header payload hs1] assms(5) by (auto simp: size)
  have ok: "sendable cfg2 (header, ?pl)" using assms(5,7) by (simp add: sendable_def size)
  have bytes: "concat (map (\<lambda>(h, pl). frame cfg1 h pl) [(header, ?pl)]) = sent" by (simp add: assms(12))
  have "length sent \<le> NDLCOM_BRIDGE_TEMPORARY_RXBUFFER_SIZE cfg2" using frame_fits [OF ok] by (simp add: assms(12))
  then obtain w2' where w2': "ndlcomBridgeProcessExternalInterface cfg2 cb2 i w2 = Some (length sent, w2')"
    "message_steps cfg2 cb2 i ids2 hs2 [(header, ?pl)] (w2\<lparr>env := e\<rparr>) w2'"
    using messages_cross_a_line [OF assms(8-10,6), of "[(header, ?pl)]" e] ok assms(13) unfolding bytes by auto
  have same: "routingTable ?v = routingTable w1 \<and> ifaces ?v = ifaces w1 \<and> bridge_flags ?v = bridge_flags w1"
    by (simp add: upd_node_def)
  show ?thesis
    by (rule exI [of _ ?v], rule exI [of _ w1'], rule exI [of _ w2'], intro conjI)
      (rule send [unfolded w1'], rule w1' [unfolded write_all_def], use same in blast, use same in blast,
        use same in blast, rule w2'(1), rule w2'(2))
qed

lemma node_message_reaches_other_bridge_witness:
  "let header = \<lparr>mReceiverId = 5, mSenderId = 9, mCounter = 0, mDataLen = 2\<rparr>;
       sent = frame default_config header [0x7e, 1]
   in \<exists>w2'. ndlcomBridgeProcessExternalInterface default_config line_callbacks 0 (small_world default_config (sent, [])) =
       Some (length sent, w2') \<and>
     message_steps default_config line_callbacks 0 [0, 2] [Handler_of_node 0, Free_handler 0] [(header, [0x7e, 1])]
       ((small_world default_config (sent, []))\<lparr>env := ([], [])\<rparr>) w2'"
proof -
  let ?h = "\<lparr>mReceiverId = 5, mSenderId = 9, mCounter = 0, mDataLen = 2\<rparr>"
  let ?s = "frame default_config ?h [0x7e, 1]"
  let ?w1 = "small_world default_config ([], [])" and ?w2 = "small_world default_config (?s, [])"
  let ?junk = "\<lparr>mReceiverId = 0, mSenderId = 0, mCounter = 0, mDataLen = 0\<rparr>"
  have nb: "node_bridge 0 ?w1 \<noteq> Null" by simp
  have r: "unat (5 :: u8) < NDLCOM_MAX_NUMBER_OF_DEVICES default_config" by (simp add: default_config_def)
  have len: "2 mod 256 \<le> length [0x7e, 1 :: u8]" "2 mod 256 \<le> NDLCOM_MAX_PAYLOAD_SIZE default_config"
    "\<not> big_endian default_config" by (simp_all add: default_config_def)
  have hdr: "?h = \<lparr>mReceiverId = 5, mSenderId = node_own_id 0 ?w1,
      mCounter = mCounterForReceiver (headerConfig (nodes ?w1 0)) ! unat (5 :: u8), mDataLen = of_nat 2\<rparr>"
    using r by (simp add: node_own_id_def)
  have sent: "?s = frame default_config ?h (take (2 mod 256) [0x7e, 1])" by simp
  have "length ?s \<le> NDLCOM_BRIDGE_TEMPORARY_RXBUFFER_SIZE default_config"
    by (rule frame_fits) (simp add: sendable_def default_config_def)
  then have rd: "cb_read line_callbacks (ei_io (ifaces ?w2 0)) (NDLCOM_BRIDGE_TEMPORARY_RXBUFFER_SIZE default_config) (env ?w2) =
      (?s, ([], []))" by (simp add: line_callbacks_def)
  have pl: "take (2 mod 256) [0x7e, 1 :: u8] = [0x7e, 1]" by simp
  have i: "0 \<in> set [0, 2 :: nat]" by simp
  note keep = handlers_keep_return [OF line_keeps_lists]
  from node_message_reaches_other_bridge [OF keep small_world_registered nb r len(1,3,2) keep
      small_world_ok i hdr sent rd, of ?junk]
  show ?thesis unfolding Let_def pl by blast
qed

end
