(* ===== verification/Cpp_Text.thy ===== *)
theory Cpp_Text
  imports Ndl_Prelude
begin

text \<open>
  What the C++ sources use of the standard library to read and to write text: decimal and two-digit
  hexadecimal numbers, \<open>std::setw\<close>, \<open>std::stoi\<close>, \<open>std::getline\<close> with a delimiter, and the exceptions.
  A text is the list of its characters.
\<close>

section \<open>Exceptions\<close>

datatype cpp_exception = Invalid_argument | Out_of_range | Runtime_error | Bad_weak_ptr

section \<open>Digits\<close>

definition isdigit :: "char \<Rightarrow> bool" where
  "isdigit c \<longleftrightarrow> 48 \<le> (of_char c :: nat) \<and> (of_char c :: nat) \<le> 57"

definition isspace :: "char \<Rightarrow> bool" where
  "isspace c \<longleftrightarrow> (of_char c :: nat) = 32 \<or> 9 \<le> (of_char c :: nat) \<and> (of_char c :: nat) \<le> 13"

definition digit :: "nat \<Rightarrow> char" where
  "digit d = char_of (48 + d)"

definition digit_value :: "char \<Rightarrow> nat" where
  "digit_value c = of_char c - 48"

fun dec :: "nat \<Rightarrow> string" where
  "dec n = (if n < 10 then [digit n] else dec (n div 10) @ [digit (n mod 10)])"

definition read_dec :: "string \<Rightarrow> nat" where
  "read_dec s = fold (\<lambda>c n. 10 * n + digit_value c) s 0"

declare dec.simps [simp del]

lemma of_char_digit [simp]: "d < 10 \<Longrightarrow> (of_char (digit d) :: nat) = 48 + d"
  by (simp add: digit_def)

lemma isdigit_digit [simp]: "d < 10 \<Longrightarrow> isdigit (digit d)"
  by (simp add: isdigit_def)

lemma digit_value_digit [simp]: "d < 10 \<Longrightarrow> digit_value (digit d) = d"
  by (simp add: digit_value_def)

lemma dec_not_empty [simp]: "dec n \<noteq> []"
  by (subst dec.simps) simp

lemma dec_digits: "c \<in> set (dec n) \<Longrightarrow> isdigit c"
  by (induction n rule: dec.induct) (subst (asm) (2) dec.simps, auto split: if_splits)

lemma read_dec [simp]: "read_dec (dec n) = n"
proof (induction n rule: dec.induct)
  case (1 n)
  then show ?case
    by (subst dec.simps) (auto simp: read_dec_def fold_append)
qed

text \<open>The stretch of characters of a kind, in front of something else.\<close>

lemma takeWhile_stretch: "\<forall>c \<in> set xs. P c \<Longrightarrow> ys = [] \<or> \<not> P (hd ys) \<Longrightarrow> takeWhile P (xs @ ys) = xs"
  by (induction xs) (cases ys; auto)+

lemma dropWhile_stretch: "\<forall>c \<in> set xs. P c \<Longrightarrow> ys = [] \<or> \<not> P (hd ys) \<Longrightarrow> dropWhile P (xs @ ys) = ys"
  by (induction xs) (cases ys; auto)+

section \<open>Output\<close>

definition endl :: string where
  "endl = [CHR 0x0A]"

text \<open>\<open>std::setfill(' ') << std::setw(n)\<close> before a value, which is then right-aligned.\<close>

definition setw :: "nat \<Rightarrow> string \<Rightarrow> string" where
  "setw n s = replicate (n - length s) CHR 0x20 @ s"

definition show_int :: "int \<Rightarrow> string" where
  "show_int i = (if i < 0 then CHR 0x2D # dec (nat (- i)) else dec (nat i))"

lemma length_setw: "length s \<le> n \<Longrightarrow> length (setw n s) = n"
  by (simp add: setw_def)

section \<open>\<open>std::stoi\<close>\<close>

text \<open>
  White space, an optional sign and as many digits as follow; the rest is not looked at. No digits is
  an \<open>invalid_argument\<close>, a value that no \<open>int\<close> has is an \<open>out_of_range\<close>.
\<close>

definition stoi :: "string \<Rightarrow> cpp_exception + int" where
  "stoi str =
     (let str = dropWhile isspace str;
          negative = (str \<noteq> [] \<and> hd str = CHR 0x2D);
          str = (if str \<noteq> [] \<and> (hd str = CHR 0x2D \<or> hd str = CHR 0x2B) then tl str else str);
          digits = takeWhile isdigit str
      in if digits = [] then Inl Invalid_argument
         else let number = (if negative then - int (read_dec digits) else int (read_dec digits))
              in if number < - (2 ^ 31) \<or> 2 ^ 31 \<le> number then Inl Out_of_range else Inr number)"

lemma isdigit_not_sign:
  assumes "isdigit c"
  shows "\<not> isspace c" "c \<noteq> CHR 0x2D" "c \<noteq> CHR 0x2B" "c \<noteq> CHR 0x2C"
  using assms by (auto simp: isdigit_def isspace_def)

lemma hd_dec: "isdigit (hd (dec n))"
  using dec_digits [of "hd (dec n)" n] by simp

lemma stoi_dec:
  assumes "n < 2 ^ 31"
  shows "stoi (dec n) = Inr (int n)"
proof -
  note h = isdigit_not_sign [OF hd_dec [of n]]
  have "dropWhile isspace (dec n) = dec n" using h(1) by (cases "dec n") auto
  moreover have "takeWhile isdigit (dec n) = dec n"
    unfolding takeWhile_eq_all_conv using dec_digits by blast
  ultimately show ?thesis using h(2,3) assms
    by (simp add: stoi_def Let_def del: takeWhile_eq_all_conv)
qed

section \<open>\<open>std::getline\<close>\<close>

text \<open>
  The items a loop of \<open>std::getline\<close> reads from a text: the parts between the delimiters, except for an
  empty part at the end.
\<close>

fun getline_items :: "char \<Rightarrow> string \<Rightarrow> string \<Rightarrow> string list" where
  "getline_items delim item [] = (if item = [] then [] else [item])"
| "getline_items delim item (c # cs) =
     (if c = delim then item # getline_items delim [] cs else getline_items delim (item @ [c]) cs)"

lemma getline_items_run:
  "delim \<notin> set xs \<Longrightarrow> getline_items delim item (xs @ cs) = getline_items delim (item @ xs) cs"
  by (induction xs arbitrary: item) auto

text \<open>Items joined by the delimiter.\<close>

fun join :: "char \<Rightarrow> string list \<Rightarrow> string" where
  "join delim [] = []"
| "join delim [s] = s"
| "join delim (s # ss) = s @ delim # join delim ss"

lemma getline_items_join:
  assumes "\<And>s. s \<in> set ss \<Longrightarrow> delim \<notin> set s \<and> s \<noteq> []"
  shows "getline_items delim [] (join delim ss) = ss"
  using assms
proof (induction delim ss rule: join.induct)
  case (2 delim s)
  then show ?case using getline_items_run [of delim s "[]" "[]"] by simp
next
  case (3 delim s t ss)
  then show ?case using getline_items_run [of delim s "[]" "delim # join delim (t # ss)"] by simp
qed simp

end
