(* ===== verification/Handlers.thy ===== *)
theory Handlers
  imports Header_Prepare Routing Cpp_Text
begin

text \<open>
  \<open>src/BridgeHandler.cpp\<close> and \<open>src/NodeHandler.cpp\<close>: the handlers the library comes with. They watch
  the messages that pass a bridge or a node: printing them, counting packets that went missing on a
  connection, and counting bytes. The text they write is appended to the stream \<open>out\<close>.
\<close>

section \<open>Printing\<close>

definition show_message :: "string \<Rightarrow> string \<Rightarrow> u8 \<Rightarrow> u8 \<Rightarrow> u8 \<Rightarrow> string" where
  "show_message text label from_id to_id n =
     text @ setw 3 (dec (unat from_id)) @ '' to '' @ setw 3 (dec (unat to_id)) @ label @
     setw 3 (dec (unat n)) @ '' bytes of payload'' @ endl"

definition BridgePrintAll_handle :: "NDLComHeader \<Rightarrow> string \<Rightarrow> string" where
  "BridgePrintAll_handle header out =
     out @ show_message ''bridge saw message from '' '' with ''
       (mSenderId header) (mReceiverId header) (mDataLen header)"

definition NodeHandlerPrintOwnId_handle :: "u8 \<Rightarrow> NDLComHeader \<Rightarrow> string \<Rightarrow> string" where
  "NodeHandlerPrintOwnId_handle ownDeviceId header out =
     out @ ''listener '' @ setw 3 (dec (unat ownDeviceId)) @
     show_message '' got message from '' '' with '' (mSenderId header) (mReceiverId header) (mDataLen header)"

section \<open>Miss events\<close>

text \<open>
  The two matrices have \<open>NDLCOM_MAX_NUMBER_OF_DEVICES\<close> rows and columns, the set of flags as many
  entries as a matrix; \<open>std::bitset\<close> throws when it is asked for another one. An access outside of
  a matrix is undefined behaviour.
\<close>

record BridgeMissEvents =
  numberOfPacketMissEvents :: "nat \<Rightarrow> nat \<Rightarrow> u32"
  expectedNextPacketCounter :: "nat \<Rightarrow> nat \<Rightarrow> u8"
  alreadySeen :: "nat \<Rightarrow> bool"

datatype handler_failure = Throws cpp_exception | Undefined_behaviour

definition BridgeMissEvents_init :: BridgeMissEvents where
  "BridgeMissEvents_init =
     \<lparr>numberOfPacketMissEvents = (\<lambda>_ _. 0), expectedNextPacketCounter = (\<lambda>_ _. 0), alreadySeen = (\<lambda>_. False)\<rparr>"

definition connection_index :: "NDLComHeader \<Rightarrow> nat" where
  "connection_index header = push_bit 8 (unat (mSenderId header)) OR unat (mReceiverId header)"

definition count_miss :: "nat \<Rightarrow> nat \<Rightarrow> BridgeMissEvents \<Rightarrow> BridgeMissEvents" where
  "count_miss i j s = s\<lparr>numberOfPacketMissEvents :=
     (numberOfPacketMissEvents s)(i := (numberOfPacketMissEvents s i)(j := numberOfPacketMissEvents s i j + 1))\<rparr>"

definition expect_next :: "nat \<Rightarrow> nat \<Rightarrow> u8 \<Rightarrow> BridgeMissEvents \<Rightarrow> BridgeMissEvents" where
  "expect_next i j c s = s\<lparr>expectedNextPacketCounter :=
     (expectedNextPacketCounter s)(i := (expectedNextPacketCounter s i)(j := c))\<rparr>"

definition isMiss ::
  "config \<Rightarrow> NDLComHeader \<Rightarrow> BridgeMissEvents \<Rightarrow> handler_failure + int \<times> BridgeMissEvents" where
  "isMiss cfg header s =
     (let i = unat (mSenderId header); j = unat (mReceiverId header);
          devices = NDLCOM_MAX_NUMBER_OF_DEVICES cfg
      in
      if mSenderId header = NDLCOM_ADDR_BROADCAST then Inr (0, s)
      else if devices < 255 \<and> (devices \<le> i \<or> devices \<le> j) then Inr (0, s)
      else if devices * devices \<le> connection_index header then Inl (Throws Out_of_range)
      else if devices \<le> i \<or> devices \<le> j then Inl Undefined_behaviour
      else
        let (retval, s) =
          (if \<not> alreadySeen s (connection_index header)
           then (0, s\<lparr>alreadySeen := (alreadySeen s)(connection_index header := True)\<rparr>)
           else if expectedNextPacketCounter s i j \<noteq> mCounter header
           then (int (unat (mCounter header)) - int (unat (expectedNextPacketCounter s i j)), count_miss i j s)
           else (0, s))
        in Inr (retval, expect_next i j (mCounter header + 1) s))"

definition BridgeMissEvents_handle ::
  "config \<Rightarrow> NDLComHeader \<Rightarrow> BridgeMissEvents \<Rightarrow> handler_failure + BridgeMissEvents" where
  "BridgeMissEvents_handle cfg header s =
     (case isMiss cfg header s of Inl e \<Rightarrow> Inl e | Inr (retval, s) \<Rightarrow> Inr s)"

definition resetMissEvents :: "BridgeMissEvents \<Rightarrow> BridgeMissEvents" where
  "resetMissEvents s = s\<lparr>numberOfPacketMissEvents := (\<lambda>_ _. 0)\<rparr>"

definition BridgePrintMissEvents_handle ::
  "config \<Rightarrow> NDLComHeader \<Rightarrow> BridgeMissEvents \<times> string \<Rightarrow> handler_failure + BridgeMissEvents \<times> string" where
  "BridgePrintMissEvents_handle cfg header s =
     (case isMiss cfg header (fst s) of
        Inl e \<Rightarrow> Inl e
      | Inr (diff, t) \<Rightarrow>
          Inr (t, if diff \<noteq> 0
                  then snd s @ ''miss event message from '' @ setw 3 (dec (unat (mSenderId header))) @
                    '' to '' @ setw 3 (dec (unat (mReceiverId header))) @ '' -- diff: '' @
                    setw 3 (show_int diff) @ endl
                  else snd s))"

text \<open>The table of the counted events, in the order of the two loops.\<close>

definition print_miss_line :: "string \<Rightarrow> BridgeMissEvents \<Rightarrow> nat \<Rightarrow> nat \<Rightarrow> string" where
  "print_miss_line prefix s fromId toId =
     (if numberOfPacketMissEvents s fromId toId \<noteq> 0
      then prefix @ ''    from '' @ dec fromId @ '' to '' @ dec toId @ '':  '' @
        dec (unat (numberOfPacketMissEvents s fromId toId)) @ '' miss event'' @
        (if numberOfPacketMissEvents s fromId toId > 1 then ''s'' else []) @ endl
      else [])"

definition BridgeMissEvents_printStatus :: "config \<Rightarrow> string \<Rightarrow> string \<Rightarrow> BridgeMissEvents \<Rightarrow> string" where
  "BridgeMissEvents_printStatus cfg label prefix s =
     (let devices = [0..<NDLCOM_MAX_NUMBER_OF_DEVICES cfg];
          events = concat (map (\<lambda>i. concat (map (print_miss_line prefix s i) devices)) devices)
      in prefix @ ''- '' @ label @ endl @ events @
        (if events = [] then ''    no missevents observed yet'' @ endl else []))"

section \<open>Statistics\<close>

text \<open>\<open>unsigned long\<close> has 64 bits.\<close>

record BridgeHandlerStatistics =
  bytesTransmitted :: "64 word"
  bytesReceived :: "64 word"

definition BridgeHandlerStatistics_handle ::
  "NDLComHeader \<Rightarrow> ptr \<Rightarrow> BridgeHandlerStatistics \<Rightarrow> BridgeHandlerStatistics" where
  "BridgeHandlerStatistics_handle header origin s =
     (if origin \<noteq> Null
      then s\<lparr>bytesReceived := bytesReceived s + of_nat (sizeof_NDLComHeader + unat (mDataLen header))\<rparr>
      else s\<lparr>bytesTransmitted := bytesTransmitted s + of_nat (sizeof_NDLComHeader + unat (mDataLen header))\<rparr>)"

definition BridgeHandlerStatistics_resetBytes :: "BridgeHandlerStatistics \<Rightarrow> BridgeHandlerStatistics" where
  "BridgeHandlerStatistics_resetBytes s = s\<lparr>bytesTransmitted := 0, bytesReceived := 0\<rparr>"

definition BridgeHandlerStatistics_currentBytesTx :: "BridgeHandlerStatistics \<Rightarrow> 64 word" where
  "BridgeHandlerStatistics_currentBytesTx s = bytesTransmitted s"

definition BridgeHandlerStatistics_currentBytesRx :: "BridgeHandlerStatistics \<Rightarrow> 64 word" where
  "BridgeHandlerStatistics_currentBytesRx s = bytesReceived s"

definition BridgeHandlerStatistics_init :: BridgeHandlerStatistics where
  "BridgeHandlerStatistics_init = \<lparr>bytesTransmitted = 0, bytesReceived = 0\<rparr>"

text \<open>The only state of a \<open>NodeHandlerStatistics\<close> is \<open>bytesReceived\<close>.\<close>

definition NodeHandlerStatistics_handle :: "NDLComHeader \<Rightarrow> ptr \<Rightarrow> 64 word \<Rightarrow> 64 word" where
  "NodeHandlerStatistics_handle header origin received =
     (if origin \<noteq> Null then received + of_nat (sizeof_NDLComHeader + unat (mDataLen header)) else received)"

definition NodeHandlerStatistics_resetBytes :: "64 word \<Rightarrow> 64 word" where
  "NodeHandlerStatistics_resetBytes s = 0"

section \<open>Counting the misses of a connection\<close>

definition on_connection :: "u8 \<Rightarrow> u8 \<Rightarrow> NDLComHeader \<Rightarrow> bool" where
  "on_connection i j h \<longleftrightarrow> mSenderId h = i \<and> mReceiverId h = j"

text \<open>The packet counters seen on a connection, and how often one is not the successor of the one before.\<close>

definition counters :: "u8 \<Rightarrow> u8 \<Rightarrow> NDLComHeader list \<Rightarrow> u8 list" where
  "counters i j hs = map mCounter (filter (on_connection i j) hs)"

fun jumps :: "u8 list \<Rightarrow> nat" where
  "jumps (a # b # cs) = (if b = a + 1 then 0 else 1) + jumps (b # cs)"
| "jumps _ = 0"

fun handle_all :: "config \<Rightarrow> NDLComHeader list \<Rightarrow> BridgeMissEvents \<Rightarrow> handler_failure + BridgeMissEvents" where
  "handle_all cfg [] s = Inr s"
| "handle_all cfg (h # hs) s =
     (case BridgeMissEvents_handle cfg h s of Inl e \<Rightarrow> Inl e | Inr t \<Rightarrow> handle_all cfg hs t)"

lemma jumps_snoc: "jumps (cs @ [c]) = jumps cs + (if cs = [] \<or> c = last cs + 1 then 0 else 1)"
  by (induction cs rule: jumps.induct) auto

lemma connection_index_eq: "connection_index h = 256 * unat (mSenderId h) + unat (mReceiverId h)"
proof -
  have "push_bit 8 (unat (mSenderId h)) + unat (mReceiverId h) = connection_index h"
    unfolding connection_index_def
  proof (rule disjunctive_add_eq_or, rule bit_eqI)
    fix n
    have "take_bit 8 (unat (mReceiverId h)) = unat (mReceiverId h)" by (simp add: take_bit_nat_eq_self)
    then have "bit (unat (mReceiverId h)) n \<Longrightarrow> n < 8" by (metis bit_take_bit_iff)
    then show "bit (push_bit 8 (unat (mSenderId h)) AND unat (mReceiverId h)) n = bit 0 n"
      by (auto simp: bit_and_iff bit_push_bit_iff)
  qed
  then show ?thesis by (simp add: push_bit_eq_mult)
qed

lemma connection_index_inj:
  "connection_index g = connection_index h \<longleftrightarrow> mSenderId g = mSenderId h \<and> mReceiverId g = mReceiverId h"
proof
  assume "connection_index g = connection_index h"
  then have "connection_index g div 256 = connection_index h div 256"
    "connection_index g mod 256 = connection_index h mod 256" by simp_all
  then show "mSenderId g = mSenderId h \<and> mReceiverId g = mReceiverId h"
    by (simp add: connection_index_eq word_unat_eq_iff)
qed (simp add: connection_index_def)

lemma connection_index_less: "connection_index h < 65536"
  using word8_less_256 [of "mSenderId h"] word8_less_256 [of "mReceiverId h"]
  by (simp add: connection_index_eq del: word8_less_256)

text \<open>What the state of the handler says about a connection on which it has seen the given counters.\<close>

definition connection_state :: "BridgeMissEvents \<Rightarrow> u8 \<Rightarrow> u8 \<Rightarrow> bool \<times> u8 \<times> u32" where
  "connection_state s i j =
     (alreadySeen s (256 * unat i + unat j), expectedNextPacketCounter s (unat i) (unat j),
      numberOfPacketMissEvents s (unat i) (unat j))"

fun describes :: "bool \<times> u8 \<times> u32 \<Rightarrow> u8 list \<Rightarrow> bool" where
  "describes (seen, expected, misses) cs \<longleftrightarrow>
     (seen \<longleftrightarrow> cs \<noteq> []) \<and> (cs \<noteq> [] \<longrightarrow> expected = last cs + 1) \<and> misses = of_nat (jumps cs)"

text \<open>One step of a connection.\<close>

fun next_state :: "u8 \<Rightarrow> bool \<times> u8 \<times> u32 \<Rightarrow> bool \<times> u8 \<times> u32" where
  "next_state c (seen, expected, misses) =
     (True, c + 1, if seen \<and> expected \<noteq> c then misses + 1 else misses)"

lemma describes_next: "describes q cs \<Longrightarrow> describes (next_state c q) (cs @ [c])"
  by (cases q) (auto simp: jumps_snoc)

lemma index_less: "unat (i :: u8) < 256"
  by simp

lemma isMiss_default:
  assumes "NDLCOM_MAX_NUMBER_OF_DEVICES cfg = 256" and "mSenderId h \<noteq> NDLCOM_ADDR_BROADCAST"
  shows "isMiss cfg h s =
    (let i = unat (mSenderId h); j = unat (mReceiverId h);
         (retval, s) =
           (if \<not> alreadySeen s (connection_index h)
            then (0, s\<lparr>alreadySeen := (alreadySeen s)(connection_index h := True)\<rparr>)
            else if expectedNextPacketCounter s i j \<noteq> mCounter h
            then (int (unat (mCounter h)) - int (unat (expectedNextPacketCounter s i j)), count_miss i j s)
            else (0, s))
     in Inr (retval, expect_next i j (mCounter h + 1) s))"
  using assms connection_index_less [of h] index_less [of "mSenderId h"] index_less [of "mReceiverId h"]
  by (simp add: isMiss_def Let_def not_le del: word8_less_256)

lemma handle_default:
  assumes "NDLCOM_MAX_NUMBER_OF_DEVICES cfg = 256" and "mSenderId h \<noteq> NDLCOM_ADDR_BROADCAST"
  obtains t where "BridgeMissEvents_handle cfg h s = Inr t"
    and "connection_state t (mSenderId h) (mReceiverId h) =
      next_state (mCounter h) (connection_state s (mSenderId h) (mReceiverId h))"
    and "\<And>i j. \<not> (i = mSenderId h \<and> j = mReceiverId h) \<Longrightarrow> connection_state t i j = connection_state s i j"
proof -
  let ?k = "connection_index h" and ?i = "unat (mSenderId h)" and ?j = "unat (mReceiverId h)"
  define r where "r =
    (if \<not> alreadySeen s ?k then s\<lparr>alreadySeen := (alreadySeen s)(?k := True)\<rparr>
     else if expectedNextPacketCounter s ?i ?j \<noteq> mCounter h then count_miss ?i ?j s else s)"
  have handled: "BridgeMissEvents_handle cfg h s = Inr (expect_next ?i ?j (mCounter h + 1) r)"
    using isMiss_default [OF assms, of s] by (simp add: BridgeMissEvents_handle_def Let_def r_def)
  have own: "256 * ?i + ?j = ?k" by (simp add: connection_index_eq)
  have other: "(256 * unat i + unat j = ?k) = (i = mSenderId h \<and> j = mReceiverId h)" for i j :: u8
    using connection_index_inj [of "h\<lparr>mSenderId := i, mReceiverId := j\<rparr>" h] by (simp add: connection_index_eq)
  show ?thesis
  proof (rule that [OF handled])
    show "connection_state (expect_next ?i ?j (mCounter h + 1) r) (mSenderId h) (mReceiverId h) =
        next_state (mCounter h) (connection_state s (mSenderId h) (mReceiverId h))"
      by (simp add: connection_state_def own r_def expect_next_def count_miss_def)
    fix i j assume "\<not> (i = mSenderId h \<and> j = mReceiverId h)"
    moreover from this have "\<not> (unat i = ?i \<and> unat j = ?j)" by (simp add: word_unat_eq_iff)
    ultimately show "connection_state (expect_next ?i ?j (mCounter h + 1) r) i j = connection_state s i j"
      using other [of i j] by (auto simp: connection_state_def r_def expect_next_def count_miss_def)
  qed
qed

lemma counters_Cons:
  "counters i j (h # hs) = (if mSenderId h = i \<and> mReceiverId h = j then [mCounter h] else []) @ counters i j hs"
  by (simp add: counters_def on_connection_def)

lemma handle_all_describes:
  assumes "NDLCOM_MAX_NUMBER_OF_DEVICES cfg = 256"
  shows "\<exists>t. handle_all cfg hs s = Inr t \<and> (\<forall>i j cs. i \<noteq> NDLCOM_ADDR_BROADCAST \<longrightarrow>
    describes (connection_state s i j) cs \<longrightarrow> describes (connection_state t i j) (cs @ counters i j hs))"
proof (induction hs arbitrary: s)
  case Nil
  then show ?case by (simp add: counters_def)
next
  case (Cons h hs)
  show ?case
  proof (cases "mSenderId h = NDLCOM_ADDR_BROADCAST")
    case True
    then have "BridgeMissEvents_handle cfg h s = Inr s" by (simp add: BridgeMissEvents_handle_def isMiss_def)
    then show ?thesis using Cons.IH [of s] True by (auto simp: counters_Cons)
  next
    case False
    obtain u where u: "BridgeMissEvents_handle cfg h s = Inr u"
      "connection_state u (mSenderId h) (mReceiverId h) =
        next_state (mCounter h) (connection_state s (mSenderId h) (mReceiverId h))"
      "\<And>i j. \<not> (i = mSenderId h \<and> j = mReceiverId h) \<Longrightarrow> connection_state u i j = connection_state s i j"
      using handle_default [OF assms False, of s] by blast
    obtain t where t: "handle_all cfg hs u = Inr t" "\<And>i j cs. i \<noteq> NDLCOM_ADDR_BROADCAST \<Longrightarrow>
        describes (connection_state u i j) cs \<Longrightarrow> describes (connection_state t i j) (cs @ counters i j hs)"
      using Cons.IH [of u] by blast
    have "describes (connection_state t i j) (cs @ counters i j (h # hs))"
      if "i \<noteq> NDLCOM_ADDR_BROADCAST" "describes (connection_state s i j) cs" for i j cs
    proof (cases "i = mSenderId h \<and> j = mReceiverId h")
      case True
      then show ?thesis
        using t(2) [OF that(1), of j "cs @ [mCounter h]"] u(2) describes_next [OF that(2), of "mCounter h"]
        by (simp add: counters_Cons)
    next
      case False
      then show ?thesis using t(2) [OF that(1), of j cs] u(3) [OF False] that(2) by (auto simp: counters_Cons)
    qed
    then show ?thesis using u(1) t(1) by auto
  qed
qed

text \<open>The headers a device prepares carry successive counters on each connection.\<close>

lemma prepared_counters:
  assumes "header_config_wf cfg c" and "\<And>r n. (r, n) \<in> set reqs \<Longrightarrow> unat r < NDLCOM_MAX_NUMBER_OF_DEVICES cfg"
    and "unat j < NDLCOM_MAX_NUMBER_OF_DEVICES cfg"
  shows "let cs = counters i j (snd (prepare_all cfg c junk reqs)) in
    jumps cs = 0 \<and> (cs \<noteq> [] \<longrightarrow> hd cs = mCounterForReceiver c ! unat j)"
  using assms
proof (induction reqs arbitrary: c)
  case Nil
  then show ?case by (simp add: counters_def)
next
  case (Cons req reqs)
  obtain r n where req: "req = (r, n)" by fastforce
  let ?c = "fst (ndlcomHeaderPrepare cfg c junk r n)"
  have r: "unat r < NDLCOM_MAX_NUMBER_OF_DEVICES cfg" using Cons.prems(2) req by auto
  have rs: "\<And>r n. (r, n) \<in> set reqs \<Longrightarrow> unat r < NDLCOM_MAX_NUMBER_OF_DEVICES cfg"
    using Cons.prems(2) by auto
  define cs where "cs = counters i j (snd (prepare_all cfg ?c junk reqs))"
  have IH: "jumps cs = 0" "cs \<noteq> [] \<Longrightarrow> hd cs = mCounterForReceiver c ! unat j + (if r = j then 1 else 0)"
    using Cons.IH [of ?c, OF _ rs Cons.prems(3)] Cons.prems(1) prepare_counters [OF Cons.prems(1,3)]
    by (simp_all add: cs_def Let_def)
  have "counters i j (snd (prepare_all cfg c junk (req # reqs))) =
      (if mOwnSenderId c = i \<and> r = j then [mCounterForReceiver c ! unat j] else []) @ cs"
    using prepare_header [OF r] by (simp add: req case_prod_unfold Let_def counters_Cons cs_def)
  moreover have "jumps (d # cs) = (if cs = [] \<or> hd cs = d + 1 then 0 else 1) + jumps cs" for d
    by (cases cs) auto
  moreover have "cs = []" if "mOwnSenderId c \<noteq> i"
  proof -
    have "mSenderId h = mOwnSenderId ?c" if "h \<in> set (snd (prepare_all cfg ?c junk reqs))" for h
      using that prepare_all_headers [of cfg ?c reqs junk, OF _ rs] Cons.prems(1) by auto
    then show ?thesis using that by (auto simp: cs_def counters_def on_connection_def filter_empty_conv)
  qed
  ultimately show ?case using IH by (cases "mOwnSenderId c = i") (auto simp: Let_def)
qed

section \<open>Properties\<close>

text \<open>
  C29: miss events. With the default number of devices the handler never fails, and after any
  sequence of messages the matrix holds, for every connection of a sender that is not the broadcast
  address, how often a counter on this connection was not the successor of the one before it.
\<close>

theorem miss_events_are_counted:
  assumes "NDLCOM_MAX_NUMBER_OF_DEVICES cfg = 256"
  shows "\<exists>t. handle_all cfg hs BridgeMissEvents_init = Inr t \<and>
    (\<forall>i j. i \<noteq> NDLCOM_ADDR_BROADCAST \<longrightarrow>
      numberOfPacketMissEvents t (unat i) (unat j) = of_nat (jumps (counters i j hs)))"
proof -
  have init: "describes (connection_state BridgeMissEvents_init i j) []" for i j
    by (simp add: connection_state_def BridgeMissEvents_init_def)
  obtain t where "handle_all cfg hs BridgeMissEvents_init = Inr t"
    "\<And>i j. i \<noteq> NDLCOM_ADDR_BROADCAST \<Longrightarrow> describes (connection_state t i j) (counters i j hs)"
    using handle_all_describes [OF assms, of hs BridgeMissEvents_init] init by fastforce
  then show ?thesis by (auto simp: connection_state_def)
qed

lemma miss_events_are_counted_witness:
  "\<exists>t. handle_all default_config [header_of_bytes [4, 2, 6, 0], header_of_bytes [4, 2, 7, 0], header_of_bytes [4, 2, 9, 0]]
      BridgeMissEvents_init = Inr t \<and> numberOfPacketMissEvents t 2 4 = 1"
proof -
  let ?hs = "[header_of_bytes [4, 2, 6, 0], header_of_bytes [4, 2, 7, 0], header_of_bytes [4, 2, 9, 0]] :: NDLComHeader list"
  have "jumps (counters 2 4 ?hs) = 1"
    by (simp add: counters_def on_connection_def header_of_bytes_def)
  then show ?thesis
    using miss_events_are_counted [of default_config ?hs]
    by (fastforce simp: default_config_def NDLCOM_ADDR_BROADCAST_def dest: spec [of _ "2 :: u8"] spec [of _ "4 :: u8"])
qed

text \<open>
  Lost packets. When the next message on a connection comes after \<open>k\<close> lost ones, the handler
  counts one miss event and reports a difference that is \<open>k\<close> modulo 256, unless \<open>k\<close> is a multiple of
  256: then the loss goes unnoticed.
\<close>

theorem lost_packets_are_noticed:
  assumes "NDLCOM_MAX_NUMBER_OF_DEVICES cfg = 256" and "mSenderId h \<noteq> NDLCOM_ADDR_BROADCAST"
    and "isMiss cfg h s = Inr (d, t)"
    and "on_connection (mSenderId h) (mReceiverId h) h'" and "mCounter h' = mCounter h + 1 + of_nat k"
  shows "\<exists>d' t'. isMiss cfg h' t = Inr (d', t') \<and> d' mod 256 = int k mod 256 \<and> (d' = 0 \<longleftrightarrow> 256 dvd k) \<and>
    numberOfPacketMissEvents t' (unat (mSenderId h)) (unat (mReceiverId h)) =
      numberOfPacketMissEvents t (unat (mSenderId h)) (unat (mReceiverId h)) + (if 256 dvd k then 0 else 1)"
proof -
  let ?i = "unat (mSenderId h)" and ?j = "unat (mReceiverId h)" and ?e = "mCounter h + 1"
  have same: "mSenderId h' = mSenderId h" "mReceiverId h' = mReceiverId h" "connection_index h' = connection_index h"
    using assms(4) by (simp_all add: on_connection_def connection_index_def)
  have t: "alreadySeen t (connection_index h)" "expectedNextPacketCounter t ?i ?j = ?e"
    using assms(3) by (auto simp: isMiss_default [OF assms(1,2)] Let_def expect_next_def count_miss_def split: if_splits)
  have zero: "?e + of_nat k = ?e \<longleftrightarrow> 256 dvd k"
    by (simp add: word_of_nat_eq_0_iff)
  have diff: "(int (unat (?e + of_nat k)) - int (unat ?e)) mod 256 = int k mod 256"
    by (simp add: unat_word_ariths(1) unat_of_nat zmod_int mod_simps)
  have nz: "int (unat (?e + of_nat k)) - int (unat ?e) = 0 \<longleftrightarrow> 256 dvd k"
    by (metis zero word_unat_eq_iff right_minus_eq of_nat_eq_iff)
  show ?thesis
    using isMiss_default [of cfg h' t] assms(1,2,5) same t zero diff nz
    by (auto simp: Let_def expect_next_def count_miss_def)
qed

lemma lost_packets_are_noticed_witness:
  "\<exists>d' t'. isMiss default_config (header_of_bytes [4, 2, 8, 0])
      (expect_next 2 4 5 (BridgeMissEvents_init\<lparr>alreadySeen := (alreadySeen BridgeMissEvents_init)(516 := True)\<rparr>)) =
    Inr (d', t') \<and> d' mod 256 = 3 \<and> numberOfPacketMissEvents t' 2 4 = 1"
proof -
  let ?h = "header_of_bytes [4, 2, 4, 0] :: NDLComHeader" and ?h' = "header_of_bytes [4, 2, 8, 0] :: NDLComHeader"
  let ?t = "expect_next 2 4 5 (BridgeMissEvents_init\<lparr>alreadySeen := (alreadySeen BridgeMissEvents_init)(516 := True)\<rparr>)"
  have "isMiss default_config ?h BridgeMissEvents_init = Inr (0, ?t)"
    by (simp add: isMiss_default default_config_def header_of_bytes_def NDLCOM_ADDR_BROADCAST_def
        connection_index_eq BridgeMissEvents_init_def Let_def)
  from lost_packets_are_noticed [OF _ _ this, of ?h' 3]
  have "\<exists>d' t'. isMiss default_config ?h' ?t = Inr (d', t') \<and> d' mod 256 = 3 \<and> d' \<noteq> 0 \<and>
      numberOfPacketMissEvents t' 2 4 = 1"
    by (simp add: default_config_def header_of_bytes_def NDLCOM_ADDR_BROADCAST_def on_connection_def
        expect_next_def BridgeMissEvents_init_def)
  then show ?thesis by blast
qed

text \<open>
  No false alarms. The headers a device prepares, for whatever receivers, cause no miss event
  when all of them arrive in order.
\<close>

theorem prepared_headers_are_not_missed:
  assumes "NDLCOM_MAX_NUMBER_OF_DEVICES cfg = 256" and "header_config_wf cfg c"
    and "ownSenderId \<noteq> NDLCOM_ADDR_BROADCAST"
  shows "\<exists>t. handle_all cfg (snd (prepare_all cfg (ndlcomHeaderPrepareInit c ownSenderId) junk reqs))
      BridgeMissEvents_init = Inr t \<and>
    (\<forall>j :: u8. numberOfPacketMissEvents t (unat ownSenderId) (unat j) = 0)"
proof -
  let ?c = "ndlcomHeaderPrepareInit c ownSenderId" and ?hs = "snd (prepare_all cfg (ndlcomHeaderPrepareInit c ownSenderId) junk reqs)"
  have init: "describes (connection_state BridgeMissEvents_init i j) []" for i j
    by (simp add: connection_state_def BridgeMissEvents_init_def)
  obtain t where t: "handle_all cfg ?hs BridgeMissEvents_init = Inr t"
    "\<And>j. describes (connection_state t ownSenderId j) (counters ownSenderId j ?hs)"
    using handle_all_describes [OF assms(1), of ?hs BridgeMissEvents_init] init assms(3) by fastforce
  have in_range: "unat (r :: u8) < NDLCOM_MAX_NUMBER_OF_DEVICES cfg" for r using assms(1) by simp
  have "jumps (counters ownSenderId j ?hs) = 0" for j
    using prepared_counters [of cfg ?c reqs j ownSenderId junk] assms(2) in_range by (simp add: Let_def)
  then show ?thesis using t by (fastforce simp: connection_state_def)
qed

lemma prepared_headers_are_not_missed_witness:
  "\<exists>t. handle_all default_config
      (snd (prepare_all default_config (ndlcomHeaderPrepareInit \<lparr>mCounterForReceiver = replicate 256 7, mOwnSenderId = 0\<rparr> 9)
        (header_of_bytes [0, 0, 0, 0]) (replicate 300 (4, 1)))) BridgeMissEvents_init = Inr t \<and>
    numberOfPacketMissEvents t 9 4 = 0"
  using prepared_headers_are_not_missed [of default_config "\<lparr>mCounterForReceiver = replicate 256 7, mOwnSenderId = 0\<rparr>" 9
      "header_of_bytes [0, 0, 0, 0]" "replicate 300 (4, 1)"]
  by (auto simp: default_config_def header_config_wf_def NDLCOM_ADDR_BROADCAST_def dest: spec [of _ 4])

text \<open>
  A smaller number of devices. The set of flags has one entry for each pair of ids, but the index
  of a pair is computed as if there were 256 ids: with fewer than 255 devices a message between two
  valid ids makes the handler throw when its index is too large.
\<close>

theorem miss_events_throw_with_fewer_devices:
  assumes "NDLCOM_MAX_NUMBER_OF_DEVICES cfg < 255"
    and "unat (mSenderId h) < NDLCOM_MAX_NUMBER_OF_DEVICES cfg" and "unat (mReceiverId h) < NDLCOM_MAX_NUMBER_OF_DEVICES cfg"
    and "NDLCOM_MAX_NUMBER_OF_DEVICES cfg * NDLCOM_MAX_NUMBER_OF_DEVICES cfg \<le> 256 * unat (mSenderId h)"
  shows "BridgeMissEvents_handle cfg h s = Inl (Throws Out_of_range)"
proof -
  have "mSenderId h \<noteq> NDLCOM_ADDR_BROADCAST" using assms(1,2) by (auto simp: NDLCOM_ADDR_BROADCAST_def)
  then show ?thesis using assms by (simp add: BridgeMissEvents_handle_def isMiss_def Let_def connection_index_eq)
qed

lemma miss_events_throw_with_fewer_devices_witness:
  "BridgeMissEvents_handle (default_config\<lparr>NDLCOM_MAX_NUMBER_OF_DEVICES := 16\<rparr>) (header_of_bytes [2, 1, 0, 0])
    BridgeMissEvents_init = Inl (Throws Out_of_range)"
  by (rule miss_events_throw_with_fewer_devices) (simp_all add: header_of_bytes_def)

text \<open>
  Byte statistics. A \<open>BridgeHandlerStatistics\<close> that has seen some messages has counted, modulo
  \<open>2 ^ 64\<close>, header and payload bytes of those that came in through an interface as received and of
  those the bridge sent itself as transmitted; the sum does not depend on their order.
\<close>

theorem statistics_add_up:
  "let s = fold (\<lambda>(h, origin). BridgeHandlerStatistics_handle h origin) msgs
        (BridgeHandlerStatistics_resetBytes s0);
      bytes = (\<lambda>sel. \<Sum>(h, origin) \<leftarrow> filter (sel \<circ> snd) msgs. 4 + unat (mDataLen h))
   in bytesReceived s = of_nat (bytes (\<lambda>origin. origin \<noteq> Null)) \<and>
      bytesTransmitted s = of_nat (bytes (\<lambda>origin. origin = Null))"
proof -
  have "bytesReceived (fold (\<lambda>(h, origin). BridgeHandlerStatistics_handle h origin) msgs s) = bytesReceived s +
      of_nat (\<Sum>(h, origin) \<leftarrow> filter ((\<lambda>origin. origin \<noteq> Null) \<circ> snd) msgs. 4 + unat (mDataLen h)) \<and>
    bytesTransmitted (fold (\<lambda>(h, origin). BridgeHandlerStatistics_handle h origin) msgs s) = bytesTransmitted s +
      of_nat (\<Sum>(h, origin) \<leftarrow> filter ((\<lambda>origin. origin = Null) \<circ> snd) msgs. 4 + unat (mDataLen h))" for s
    by (induction msgs arbitrary: s)
      (auto simp: BridgeHandlerStatistics_handle_def sizeof_NDLComHeader_def)
  then show ?thesis by (simp add: Let_def BridgeHandlerStatistics_resetBytes_def)
qed

end
