(* ===== verification/Device_Io.thy ===== *)
theory Device_Io
  imports Cpp_Text
begin

text \<open>
  The read and write functions of \<open>src/ExternalInterface.cpp\<close>. What the operating system answers to
  the calls of such a function is a list, one answer per call: the loops of the code run as long as
  there are answers left. \<open>Waiting\<close> says that they are used up before the function returned.
\<close>

section \<open>Answers and outcomes\<close>

datatype errno = EINTR | EAGAIN | EPIPE | ENOTCONN | EIO | Other_errno nat

datatype 'a io = Returns 'a | Raises cpp_exception | Memory_error | Waiting

definition size_t_minus :: "nat \<Rightarrow> nat \<Rightarrow> nat" where
  "size_t_minus a b = unat (of_nat a - of_nat b :: 64 word)"

lemma size_t_minus_le: "b \<le> a \<Longrightarrow> a < 2 ^ 64 \<Longrightarrow> size_t_minus a b = a - b"
  by (simp add: size_t_minus_def unat_sub_if' unat_of_nat)

text \<open>\<open>memcpy\<close> of bytes into a buffer, at an offset.\<close>

definition memcpy_to :: "u8 list \<Rightarrow> nat \<Rightarrow> u8 list \<Rightarrow> u8 list option" where
  "memcpy_to buf offset bytes =
     (if offset + length bytes \<le> length buf
      then Some (take offset buf @ bytes @ drop (offset + length bytes) buf) else None)"

section \<open>CAN\<close>

text \<open>
  \<open>struct canfd_frame\<close> has 64 data bytes. An answer to \<open>recvfrom\<close> is an error or the number of bytes
  received, with the frame they make.
\<close>

record canfd_frame =
  frame_len :: u8
  frame_data :: "u8 list"

datatype can_answer = Can_frame nat canfd_frame | Can_error errno

definition sizeof_can_frame :: nat where
  "sizeof_can_frame = 16"

definition sizeof_canfd_frame :: nat where
  "sizeof_canfd_frame = 72"

definition sizeof_frame_data :: nat where
  "sizeof_frame_data = 64"

fun can_read_loop :: "nat \<Rightarrow> u8 list \<Rightarrow> nat \<Rightarrow> can_answer list \<Rightarrow> (nat \<times> u8 list \<times> can_answer list) io" where
  "can_read_loop count buf alreadyRead answers =
     (if alreadyRead < size_t_minus count sizeof_frame_data then
        (case answers of
           [] \<Rightarrow> Waiting
         | Can_error e # answers \<Rightarrow>
             if e = EINTR then can_read_loop count buf alreadyRead answers
             else if e = EAGAIN then Returns (alreadyRead, buf, answers)
             else Raises Runtime_error
         | Can_frame bytesRead frame # answers \<Rightarrow>
             if bytesRead \<noteq> sizeof_can_frame \<and> bytesRead \<noteq> sizeof_canfd_frame then Raises Runtime_error
             else if unat (frame_len frame) > length (frame_data frame) then Memory_error
             else (case memcpy_to buf alreadyRead (take (unat (frame_len frame)) (frame_data frame)) of
                     None \<Rightarrow> Memory_error
                   | Some buf \<Rightarrow> can_read_loop count buf (alreadyRead + unat (frame_len frame)) answers))
      else Returns (alreadyRead, buf, answers))"

declare can_read_loop.simps [simp del]

definition ExternalInterfaceCan_readEscapedBytes ::
  "u8 list \<Rightarrow> can_answer list \<Rightarrow> (nat \<times> u8 list \<times> can_answer list) io" where
  "ExternalInterfaceCan_readEscapedBytes buf answers = can_read_loop (length buf) buf 0 answers"

text \<open>Writing: the answers are \<open>None\<close> for a frame that was accepted, or the error. The frames go out in order.\<close>

fun can_write_loop ::
  "nat \<Rightarrow> u8 list \<Rightarrow> nat \<Rightarrow> canfd_frame \<Rightarrow> canfd_frame list \<Rightarrow> errno option list \<Rightarrow> canfd_frame list io" where
  "can_write_loop max_data_len buf alreadyWritten frame sent answers =
     (if alreadyWritten < length buf then
        (let frame = (if alreadyWritten + max_data_len > length buf
                      then frame\<lparr>frame_len := of_nat (length buf - alreadyWritten)\<rparr> else frame);
             bytes = take (unat (frame_len frame)) (drop alreadyWritten buf)
         in if alreadyWritten + unat (frame_len frame) > length buf then Memory_error
         else (case memcpy_to (frame_data frame) 0 bytes of
           None \<Rightarrow> Memory_error
         | Some data \<Rightarrow>
             (let frame = frame\<lparr>frame_data := data\<rparr> in
              case answers of
                [] \<Rightarrow> Waiting
              | Some e # answers \<Rightarrow>
                  if e = EINTR then can_write_loop max_data_len buf alreadyWritten frame sent answers
                  else Raises Runtime_error
              | None # answers \<Rightarrow>
                  can_write_loop max_data_len buf (alreadyWritten + unat (frame_len frame)) frame
                    (sent @ [frame]) answers)))
      else Returns sent)"

declare can_write_loop.simps [simp del]

definition ExternalInterfaceCan_writeEscapedBytes ::
  "nat \<Rightarrow> u8 list \<Rightarrow> u8 list \<Rightarrow> errno option list \<Rightarrow> canfd_frame list io" where
  "ExternalInterfaceCan_writeEscapedBytes max_data_len junk buf answers =
     can_write_loop max_data_len buf 0 \<lparr>frame_len = of_nat max_data_len, frame_data = junk\<rparr> [] answers"

section \<open>TCP and UDP\<close>

datatype recv_answer = Received "u8 list" | Recv_error errno

fun ExternalInterfaceTcpClient_readEscapedBytes :: "recv_answer list \<Rightarrow> (u8 list \<times> recv_answer list) io" where
  "ExternalInterfaceTcpClient_readEscapedBytes [] = Waiting"
| "ExternalInterfaceTcpClient_readEscapedBytes (Received bytes # answers) = Returns (bytes, answers)"
| "ExternalInterfaceTcpClient_readEscapedBytes (Recv_error e # answers) =
     (if e = EINTR then ExternalInterfaceTcpClient_readEscapedBytes answers
      else if e = EAGAIN then Returns ([], answers)
      else Raises Runtime_error)"

text \<open>The answers to \<open>send\<close> are the number of bytes it took, or an error.\<close>

datatype send_answer = Written nat | Send_error errno

fun send_loop ::
  "(errno \<Rightarrow> bool) \<Rightarrow> u8 list \<Rightarrow> nat \<Rightarrow> u8 list \<Rightarrow> send_answer list \<Rightarrow> (u8 list \<times> send_answer list) io" where
  "send_loop gives_up buf alreadyWritten line answers =
     (if alreadyWritten < length buf then
        (case answers of
           [] \<Rightarrow> Waiting
         | Send_error e # answers \<Rightarrow>
             if e = EINTR then send_loop gives_up buf alreadyWritten line answers
             else if gives_up e then Returns (line, answers)
             else Raises Runtime_error
         | Written n # answers \<Rightarrow>
             send_loop gives_up buf (alreadyWritten + n) (line @ take n (drop alreadyWritten buf)) answers)
      else Returns (line, answers))"

declare send_loop.simps [simp del]

definition ExternalInterfaceTcpClient_writeEscapedBytes ::
  "u8 list \<Rightarrow> send_answer list \<Rightarrow> (u8 list \<times> send_answer list) io" where
  "ExternalInterfaceTcpClient_writeEscapedBytes buf answers = send_loop (\<lambda>_. False) buf 0 [] answers"

definition ExternalInterfaceUdp_writeEscapedBytes ::
  "u8 list \<Rightarrow> send_answer list \<Rightarrow> (u8 list \<times> send_answer list) io" where
  "ExternalInterfaceUdp_writeEscapedBytes buf answers = send_loop (\<lambda>e. e = EPIPE) buf 0 [] answers"

text \<open>
  An UDP interface remembers the address it sends to, and answers to whoever sent last: a datagram
  comes with the address of its sender.
\<close>

datatype recvfrom_answer = Datagram u32 "u8 list" | Recvfrom_error errno

fun ExternalInterfaceUdp_readEscapedBytes ::
  "u32 \<Rightarrow> recvfrom_answer list \<Rightarrow> (u8 list \<times> u32 \<times> recvfrom_answer list) io" where
  "ExternalInterfaceUdp_readEscapedBytes addr_out [] = Waiting"
| "ExternalInterfaceUdp_readEscapedBytes addr_out (Datagram addr_recv bytes # answers) =
     Returns (bytes, if addr_out \<noteq> addr_recv then addr_recv else addr_out, answers)"
| "ExternalInterfaceUdp_readEscapedBytes addr_out (Recvfrom_error e # answers) =
     (if e = EINTR then ExternalInterfaceUdp_readEscapedBytes addr_out answers
      else if e = EAGAIN then Returns ([], addr_out, answers)
      else if e = ENOTCONN then Returns ([], addr_out, answers)
      else Raises Runtime_error)"

section \<open>What the loops do\<close>

lemma memcpy_to_Some: "offset + length bytes \<le> length buf \<Longrightarrow>
    memcpy_to buf offset bytes = Some (take offset buf @ bytes @ drop (offset + length bytes) buf)"
  by (simp add: memcpy_to_def)

lemma length_memcpy_to: "memcpy_to buf offset bytes = Some buf' \<Longrightarrow> length buf' = length buf"
  by (auto simp: memcpy_to_def split: if_splits)

definition can_payload :: "canfd_frame \<Rightarrow> u8 list" where
  "can_payload f = take (unat (frame_len f)) (frame_data f)"

text \<open>What the kernel promises of a frame, and the frames among the answers.\<close>

fun can_answer_ok :: "can_answer \<Rightarrow> bool" where
  "can_answer_ok (Can_frame n f) \<longleftrightarrow> length (frame_data f) = 64 \<and> unat (frame_len f) \<le> 64"
| "can_answer_ok (Can_error e) \<longleftrightarrow> True"

fun can_frames :: "can_answer list \<Rightarrow> canfd_frame list" where
  "can_frames [] = []"
| "can_frames (Can_frame n f # answers) = f # can_frames answers"
| "can_frames (Can_error e # answers) = can_frames answers"

definition can_read_ok :: "u8 list \<Rightarrow> nat \<Rightarrow> can_answer list \<Rightarrow> (nat \<times> u8 list \<times> can_answer list) io \<Rightarrow> bool" where
  "can_read_ok buf a answers r \<longleftrightarrow> r \<noteq> Memory_error \<and>
     (\<forall>n buf' rest. r = Returns (n, buf', rest) \<longrightarrow>
       (\<exists>used. answers = used @ rest \<and> n \<le> length buf \<and> length buf' = length buf \<and>
         take n buf' = take a buf @ concat (map can_payload (can_frames used))))"

lemma can_frames_append [simp]: "can_frames (xs @ ys) = can_frames xs @ can_frames ys"
  by (induction xs rule: can_frames.induct) auto

lemma can_read_step:
  assumes "can_read_ok buf' a' answers r" and "length buf' = length buf"
    and "take a' buf' = take a buf @ concat (map can_payload (can_frames [x]))"
  shows "can_read_ok buf a (x # answers) r"
proof -
  have "concat (map can_payload (can_frames (x # used))) =
      concat (map can_payload (can_frames [x])) @ concat (map can_payload (can_frames used))" for used
    using can_frames_append [of "[x]" used] by (simp del: can_frames_append)
  then show ?thesis using assms unfolding can_read_ok_def by (metis append_Cons append.assoc)
qed

lemma can_read_loop_ok:
  assumes "64 \<le> length buf" and "length buf < 2 ^ 64" and "a \<le> length buf" and "\<forall>x \<in> set answers. can_answer_ok x"
  shows "can_read_ok buf a answers (can_read_loop (length buf) buf a answers)"
  using assms
proof (induction answers arbitrary: buf a)
  case Nil
  then show ?case by (subst can_read_loop.simps) (simp add: can_read_ok_def)
next
  case (Cons x answers)
  have limit: "size_t_minus (length buf) sizeof_frame_data = length buf - 64"
    using Cons.prems by (simp add: size_t_minus_le sizeof_frame_data_def)
  show ?case
  proof (cases "a < length buf - 64")
    case False
    then show ?thesis using limit Cons.prems(3)
      by (subst can_read_loop.simps) (auto simp: can_read_ok_def intro!: exI [of _ "[]"])
  next
    case True
    show ?thesis
    proof (cases x)
      case (Can_error e)
      have "can_read_ok buf a (x # answers) (can_read_loop (length buf) buf a answers)"
        using Cons.IH [of buf a] Cons.prems by (intro can_read_step [of buf a]) (simp_all add: Can_error)
      moreover have "can_read_ok buf a (x # answers) (Returns (a, buf, answers))"
        using Cons.prems(3) by (auto simp: can_read_ok_def Can_error intro!: exI [of _ "[x]"])
      ultimately show ?thesis using True limit Can_error
        by (subst can_read_loop.simps) (auto simp: can_read_ok_def)
    next
      case (Can_frame n f)
      have f: "length (frame_data f) = 64" "unat (frame_len f) \<le> 64" using Cons.prems(4) by (simp_all add: Can_frame)
      let ?bytes = "take (unat (frame_len f)) (frame_data f)"
      let ?buf = "take a buf @ ?bytes @ drop (a + length ?bytes) buf"
      have copy: "memcpy_to buf a ?bytes = Some ?buf" using True f by (intro memcpy_to_Some) simp
      have len: "length ?buf = length buf" using copy by (rule length_memcpy_to)
      have "can_read_ok buf a (x # answers) (can_read_loop (length ?buf) ?buf (a + unat (frame_len f)) answers)"
      proof (rule can_read_step)
        show "can_read_ok ?buf (a + unat (frame_len f)) answers (can_read_loop (length ?buf) ?buf (a + unat (frame_len f)) answers)"
          using Cons.prems True f len by (intro Cons.IH) simp_all
        show "take (a + unat (frame_len f)) ?buf = take a buf @ concat (map can_payload (can_frames [x]))"
          using True f by (simp add: Can_frame can_payload_def)
      qed (rule len)
      then show ?thesis using True limit Can_frame copy f len
        by (subst can_read_loop.simps) (simp add: can_read_ok_def)
    qed
  qed
qed

text \<open>Reading one frame for which there is room.\<close>

lemma can_read_one_frame:
  assumes "length buf < 2 ^ 64" and "a + 64 < length buf" and "length (frame_data f) = 64" and "unat (frame_len f) \<le> 64"
    and "n = sizeof_can_frame \<or> n = sizeof_canfd_frame"
  obtains buf' where "length buf' = length buf" and "take (a + unat (frame_len f)) buf' = take a buf @ can_payload f"
    and "\<And>answers. can_read_loop (length buf) buf a (Can_frame n f # answers) =
      can_read_loop (length buf') buf' (a + unat (frame_len f)) answers"
proof -
  let ?bytes = "take (unat (frame_len f)) (frame_data f)"
  let ?buf = "take a buf @ ?bytes @ drop (a + length ?bytes) buf"
  have p: "length (can_payload f) = unat (frame_len f)" using assms(3,4) by (simp add: can_payload_def)
  have copy: "memcpy_to buf a ?bytes = Some ?buf" using assms(2-4) p by (intro memcpy_to_Some) simp
  have len: "length ?buf = length buf" using copy by (rule length_memcpy_to)
  show thesis
  proof (rule that [of ?buf])
    show "length ?buf = length buf" by (rule len)
    show "take (a + unat (frame_len f)) ?buf = take a buf @ can_payload f"
      using assms(2-4) p by (simp add: can_payload_def)
    show "can_read_loop (length buf) buf a (Can_frame n f # answers) =
        can_read_loop (length ?buf) ?buf (a + unat (frame_len f)) answers" for answers
      using assms(1,2,5) copy assms(3,4) len
      by (subst can_read_loop.simps) (auto simp: size_t_minus_le sizeof_frame_data_def)
  qed
qed

text \<open>Frames that fit are read one after the other, until there are no more.\<close>

lemma can_read_frames:
  assumes "length buf < 2 ^ 64" and "a + length (concat (map can_payload fs)) + 64 < length buf"
    and "\<forall>f \<in> set fs. length (frame_data f) = 64 \<and> unat (frame_len f) \<le> 64"
    and "n = sizeof_can_frame \<or> n = sizeof_canfd_frame"
  shows "\<exists>buf'. can_read_loop (length buf) buf a (map (Can_frame n) fs @ [Can_error EAGAIN]) =
      Returns (a + length (concat (map can_payload fs)), buf', []) \<and>
    take (a + length (concat (map can_payload fs))) buf' = take a buf @ concat (map can_payload fs)"
  using assms
proof (induction fs arbitrary: buf a)
  case Nil
  then show ?case by (subst can_read_loop.simps) (simp add: size_t_minus_le sizeof_frame_data_def)
next
  case (Cons f fs)
  have f: "length (frame_data f) = 64" "unat (frame_len f) \<le> 64" and room: "a + 64 < length buf" using Cons.prems(2,3) by simp_all
  have p: "length (can_payload f) = unat (frame_len f)" using f by (simp add: can_payload_def)
  obtain buf1 where buf1: "length buf1 = length buf" "take (a + unat (frame_len f)) buf1 = take a buf @ can_payload f"
    "\<And>answers. can_read_loop (length buf) buf a (Can_frame n f # answers) =
      can_read_loop (length buf1) buf1 (a + unat (frame_len f)) answers"
    using can_read_one_frame [OF Cons.prems(1) room f Cons.prems(4)] by metis
  have "length buf1 < 2 ^ 64" "a + unat (frame_len f) + length (concat (map can_payload fs)) + 64 < length buf1"
    "\<forall>f \<in> set fs. length (frame_data f) = 64 \<and> unat (frame_len f) \<le> 64"
    using Cons.prems(1-3) p buf1(1) by simp_all
  from Cons.IH [OF this Cons.prems(4)] show ?case by (auto simp: buf1(2,3) p add.assoc)
qed

text \<open>Writing cuts the buffer into frames.\<close>

definition can_chunk :: "nat \<Rightarrow> canfd_frame \<Rightarrow> bool" where
  "can_chunk m f \<longleftrightarrow> length (frame_data f) = 64 \<and> 0 < unat (frame_len f) \<and> unat (frame_len f) \<le> m"

text \<open>
  The frames sent make up the buffer; and if the only errors are interruptions and frames are accepted
  often enough, the function returns.
\<close>

definition accepts :: "nat \<Rightarrow> nat \<Rightarrow> errno option list \<Rightarrow> bool" where
  "accepts m n answers \<longleftrightarrow> set answers \<subseteq> {None, Some EINTR} \<and> n \<le> m * length (filter (\<lambda>x. x = None) answers)"

definition can_sent_ok :: "nat \<Rightarrow> u8 list \<Rightarrow> nat \<Rightarrow> errno option list \<Rightarrow> canfd_frame list io \<Rightarrow> bool" where
  "can_sent_ok m buf n answers r \<longleftrightarrow> r \<noteq> Memory_error \<and>
     (\<forall>sent. r = Returns sent \<longrightarrow> concat (map can_payload sent) = buf \<and> (\<forall>f \<in> set sent. can_chunk m f)) \<and>
     (accepts m n answers \<longrightarrow> (\<exists>sent. r = Returns sent))"

lemma can_sent_ok_step:
  "can_sent_ok m buf n answers r \<Longrightarrow> n = n' - min m n' \<Longrightarrow> can_sent_ok m buf n' (None # answers) r"
  "can_sent_ok m buf n answers r \<Longrightarrow> can_sent_ok m buf n (Some EINTR # answers) r"
  "e \<noteq> EINTR \<Longrightarrow> can_sent_ok m buf n (Some e # answers) (Raises Runtime_error)"
  by (auto simp: can_sent_ok_def accepts_def min_def split: if_splits)

lemma can_write_step:
  assumes "0 < m" and "m \<le> 64" and "length (frame_data frame) = 64" and "a < length buf"
    and "unat (frame_len frame) = m \<or> length buf < a + m"
  obtains h where "unat (frame_len h) = min m (length buf - a)" and "can_chunk m h"
    and "can_payload h = take (unat (frame_len h)) (drop a buf)"
    and "\<And>sent answers. can_write_loop m buf a frame sent answers =
      (case answers of
         [] \<Rightarrow> Waiting
       | Some e # answers \<Rightarrow> if e = EINTR then can_write_loop m buf a h sent answers else Raises Runtime_error
       | None # answers \<Rightarrow> can_write_loop m buf (a + unat (frame_len h)) h (sent @ [h]) answers)"
proof -
  define g where "g = (if a + m > length buf then frame\<lparr>frame_len := of_nat (length buf - a)\<rparr> else frame)"
  have "unat (of_nat (length buf - a) :: u8) = length buf - a" if "length buf < a + m"
    using that assms(2) by (simp add: unat_of_nat)
  then have g: "unat (frame_len g) = min m (length buf - a)" "length (frame_data g) = 64"
    using assms by (auto simp: g_def min_def)
  define h where "h = g\<lparr>frame_data := take (unat (frame_len g)) (drop a buf) @ drop (unat (frame_len g)) (frame_data g)\<rparr>"
  have len: "length (take (unat (frame_len g)) (drop a buf)) = unat (frame_len g)" using g(1) by simp
  have small: "unat (frame_len g) \<le> 64" "a + unat (frame_len g) \<le> length buf" using g(1) assms(2,4) by simp_all
  have copy: "memcpy_to (frame_data g) 0 (take (unat (frame_len g)) (drop a buf)) = Some (frame_data h)"
    using g(2) small(1) len by (subst memcpy_to_Some) (simp_all add: h_def)
  show ?thesis
  proof (rule that)
    show "unat (frame_len h) = min m (length buf - a)" using g(1) by (simp add: h_def)
    show "can_payload h = take (unat (frame_len h)) (drop a buf)" using len by (simp add: h_def can_payload_def)
    show "can_chunk m h" using g small len assms(1,4) by (simp add: h_def can_chunk_def)
    fix sent answers
    have "g\<lparr>frame_data := frame_data h\<rparr> = h" by (simp add: h_def)
    then show "can_write_loop m buf a frame sent answers =
      (case answers of
         [] \<Rightarrow> Waiting
       | Some e # answers \<Rightarrow> if e = EINTR then can_write_loop m buf a h sent answers else Raises Runtime_error
       | None # answers \<Rightarrow> can_write_loop m buf (a + unat (frame_len h)) h (sent @ [h]) answers)"
      using assms(4) copy small(2)
      by (subst can_write_loop.simps) (simp add: g_def [symmetric] Let_def)
  qed
qed

lemma can_write_done: "\<not> a < length buf \<Longrightarrow> can_write_loop m buf a frame sent answers = Returns sent"
  by (subst can_write_loop.simps) simp

text \<open>One more frame keeps what has been sent the beginning of the buffer.\<close>

lemma can_write_extends:
  assumes "0 < m" and "a < length buf" and "concat (map can_payload sent) = take a buf" and "\<forall>f \<in> set sent. can_chunk m f"
    and "unat (frame_len h) = min m (length buf - a)" and "can_chunk m h" and "can_payload h = take (unat (frame_len h)) (drop a buf)"
  shows "a + unat (frame_len h) \<le> length buf" "unat (frame_len h) = m \<or> length buf < a + unat (frame_len h) + m"
    "concat (map can_payload (sent @ [h])) = take (a + unat (frame_len h)) buf" "\<forall>f \<in> set (sent @ [h]). can_chunk m f"
    "length (frame_data h) = 64"
  using assms by (auto simp: take_add can_chunk_def)

lemma can_write_loop_sent:
  assumes "0 < m" and "m \<le> 64" and "length (frame_data frame) = 64" and "a \<le> length buf"
    and "unat (frame_len frame) = m \<or> length buf < a + m"
    and "concat (map can_payload sent) = take a buf" and "\<forall>f \<in> set sent. can_chunk m f"
  shows "can_sent_ok m buf (length buf - a) answers (can_write_loop m buf a frame sent answers)"
  using assms
proof (induction answers arbitrary: a frame sent)
  case Nil
  show ?case
  proof (cases "a < length buf")
    case True
    have "can_write_loop m buf a frame sent [] = Waiting"
      by (rule can_write_step [OF Nil.prems(1-3) True Nil.prems(5)]) simp
    then show ?thesis using True by (simp add: can_sent_ok_def accepts_def)
  qed (use Nil.prems in \<open>simp add: can_write_done can_sent_ok_def\<close>)
next
  case (Cons x answers)
  show ?case
  proof (cases "a < length buf")
    case True
    show ?thesis
    proof (rule can_write_step [OF Cons.prems(1-3) True Cons.prems(5)])
      fix h assume h: "unat (frame_len h) = min m (length buf - a)" "can_chunk m h"
        "can_payload h = take (unat (frame_len h)) (drop a buf)"
        and step: "\<And>sent answers. can_write_loop m buf a frame sent answers =
        (case answers of
           [] \<Rightarrow> Waiting
         | Some e # answers \<Rightarrow> if e = EINTR then can_write_loop m buf a h sent answers else Raises Runtime_error
         | None # answers \<Rightarrow> can_write_loop m buf (a + unat (frame_len h)) h (sent @ [h]) answers)"
      note more = can_write_extends [OF Cons.prems(1) True Cons.prems(6,7) h]
      show ?thesis
      proof (cases x)
        case None
        from can_sent_ok_step(1) [OF Cons.IH [OF Cons.prems(1,2) more(5,1-4)], of "length buf - a"]
        show ?thesis using h(1) by (simp add: None step)
      next
        case (Some e)
        have "can_sent_ok m buf (length buf - a) answers (can_write_loop m buf a h sent answers)"
          using Cons.prems more(5) h(1) by (intro Cons.IH) (auto simp: min_def)
        then show ?thesis using can_sent_ok_step(2,3) by (auto simp: Some step)
      qed
    qed
  qed (use Cons.prems in \<open>simp add: can_write_done can_sent_ok_def\<close>)
qed

section \<open>Streams of bytes\<close>

lemma send_loop_order:
  assumes "a \<le> length buf" and "line = take a buf"
    and "send_loop gives_up buf a line answers = Returns (line', rest)"
  shows "\<exists>k. line' = take k buf \<and> (k = length buf \<or> (\<exists>e. Send_error e \<in> set answers \<and> gives_up e))"
  using assms
proof (induction answers arbitrary: a line)
  case Nil
  then show ?case by (subst (asm) send_loop.simps) (auto split: if_splits intro: exI [of _ "length buf"])
next
  case (Cons x answers)
  show ?case
  proof (cases "a < length buf")
    case False
    then show ?thesis using Cons.prems by (subst (asm) send_loop.simps) (auto intro: exI [of _ "length buf"])
  next
    case True
    show ?thesis
    proof (cases x)
      case (Written n)
      have run: "send_loop gives_up buf (a + n) (line @ take n (drop a buf)) answers = Returns (line', rest)"
        using Cons.prems(3) True by (subst (asm) send_loop.simps) (simp add: Written)
      show ?thesis
      proof (cases "a + n \<le> length buf")
        case True
        then have "line @ take n (drop a buf) = take (a + n) buf" using Cons.prems(2) by (simp add: take_add)
        from Cons.IH [OF True this run] show ?thesis by auto
      next
        case False
        then have "line' = line @ take n (drop a buf)" using run by (subst (asm) send_loop.simps) simp
        then have "line' = take (length buf) buf" using False Cons.prems(2) by simp
        then show ?thesis by blast
      qed
    next
      case (Send_error e)
      have "(if e = EINTR then send_loop gives_up buf a line answers
          else if gives_up e then Returns (line, answers) else Raises Runtime_error) = Returns (line', rest)"
        using Cons.prems(3) True by (subst (asm) send_loop.simps) (simp add: Send_error)
      then show ?thesis
        using Cons.IH [OF Cons.prems(1,2)] Cons.prems(2) Send_error by (auto split: if_splits)
    qed
  qed
qed

text \<open>How many bytes the answers take in all, and that they have no other error than an interruption.\<close>

fun taken :: "send_answer list \<Rightarrow> nat" where
  "taken [] = 0"
| "taken (Written n # answers) = n + taken answers"
| "taken (Send_error e # answers) = taken answers"

lemma send_loop_returns:
  assumes "\<forall>e. Send_error e \<in> set answers \<longrightarrow> e = EINTR" and "length buf \<le> a + taken answers"
  shows "\<exists>line' rest. send_loop gives_up buf a line answers = Returns (line', rest)"
  using assms
proof (induction answers arbitrary: a line)
  case (Cons x answers)
  then show ?case by (subst send_loop.simps) (cases x; auto)
qed (subst send_loop.simps, simp)

section \<open>Properties\<close>

text \<open>
  The CAN transport is transparent. As long as the only errors are interruptions and the kernel
  accepts enough frames, writing a message returns, having cut it into frames of at most the
  interface's data length; and reading these frames from the other end into a buffer that has at least
  65 bytes more than the message gives back its bytes.
\<close>

theorem can_transport_is_transparent:
  assumes "m = 8 \<or> m = 64" and "length junk = 64" and "accepts m (length bytes) answers"
    and "length bytes + 64 < length buf" and "length buf < 2 ^ 64"
    and "n = sizeof_can_frame \<or> n = sizeof_canfd_frame"
  shows "\<exists>sent buf'. ExternalInterfaceCan_writeEscapedBytes m junk bytes answers = Returns sent \<and>
    (\<forall>f \<in> set sent. 0 < unat (frame_len f) \<and> unat (frame_len f) \<le> m) \<and>
    ExternalInterfaceCan_readEscapedBytes buf (map (Can_frame n) sent @ [Can_error EAGAIN]) =
      Returns (length bytes, buf', []) \<and> take (length bytes) buf' = bytes"
proof -
  let ?r = "ExternalInterfaceCan_writeEscapedBytes m junk bytes answers"
  have "can_sent_ok m bytes (length bytes - 0) answers ?r"
    unfolding ExternalInterfaceCan_writeEscapedBytes_def
    using assms(1,2) by (intro can_write_loop_sent) (auto simp: unat_of_nat)
  then obtain sent where sent: "?r = Returns sent" "concat (map can_payload sent) = bytes" "\<forall>f \<in> set sent. can_chunk m f"
    using assms(3) unfolding can_sent_ok_def by auto
  have "\<forall>f \<in> set sent. length (frame_data f) = 64 \<and> unat (frame_len f) \<le> 64"
    using sent(3) assms(1) by (auto simp: can_chunk_def)
  then obtain buf' where "can_read_loop (length buf) buf 0 (map (Can_frame n) sent @ [Can_error EAGAIN]) =
      Returns (length bytes, buf', [])" "take (length bytes) buf' = bytes"
    using can_read_frames [OF assms(5), of 0 sent n] sent(2) assms(4,6) by auto
  then show ?thesis using sent by (auto simp: ExternalInterfaceCan_readEscapedBytes_def can_chunk_def)
qed

lemma can_transport_is_transparent_witness:
  "\<exists>sent buf'. ExternalInterfaceCan_writeEscapedBytes 8 (replicate 64 0) (replicate 9 5) [None, Some EINTR, None] =
      Returns sent \<and>
    ExternalInterfaceCan_readEscapedBytes (replicate 524 0) (map (Can_frame 16) sent @ [Can_error EAGAIN]) =
      Returns (9, buf', []) \<and> take 9 buf' = (replicate 9 5)"
  using can_transport_is_transparent [of 8 "replicate 64 0" "(replicate 9 5)" "[None, Some EINTR, None]"
      "replicate 524 0" 16]
  by (auto simp: accepts_def sizeof_can_frame_def)

text \<open>
  Reading from a CAN bus never leaves the buffer if it has at least 64 bytes, whatever frames
  and errors arrive; what it reports is the data of the frames it took, one after the other.
\<close>

theorem can_read_stays_in_buffer:
  assumes "64 \<le> length buf" and "length buf < 2 ^ 64" and "\<forall>x \<in> set answers. can_answer_ok x"
  shows "case ExternalInterfaceCan_readEscapedBytes buf answers of
      Memory_error \<Rightarrow> False
    | Returns (n, buf', rest) \<Rightarrow> \<exists>used. answers = used @ rest \<and> n \<le> length buf \<and> length buf' = length buf \<and>
        take n buf' = concat (map can_payload (can_frames used))
    | _ \<Rightarrow> True"
  using can_read_loop_ok [OF assms(1,2) _ assms(3), of 0]
  by (auto simp: ExternalInterfaceCan_readEscapedBytes_def can_read_ok_def split: io.split)

lemma can_read_stays_in_buffer_witness:
  "ExternalInterfaceCan_readEscapedBytes (replicate 524 0)
    (replicate 100 (Can_frame 16 \<lparr>frame_len = 8, frame_data = replicate 64 3\<rparr>)) \<noteq> Memory_error"
  using can_read_stays_in_buffer [of "replicate 524 0" "replicate 100 (Can_frame 16 \<lparr>frame_len = 8, frame_data = replicate 64 3\<rparr>)"]
  by auto

text \<open>
  C34: with a smaller buffer the bound of the loop wraps around to a huge number, and the first frame
  that does not fit is written behind the end of the buffer. The bridge uses a buffer of
  \<open>14 + 2 * NDLCOM_MAX_PAYLOAD_SIZE\<close> bytes, which is below 64 for payloads of up to 24 bytes.
\<close>

theorem can_read_overflows_small_buffer:
  assumes "length buf < 64" and "length (frame_data f) = 64" and "unat (frame_len f) \<le> 64"
    and "length buf < k * unat (frame_len f)" and "n = sizeof_can_frame \<or> n = sizeof_canfd_frame"
  shows "ExternalInterfaceCan_readEscapedBytes buf (replicate k (Can_frame n f) @ answers) = Memory_error"
proof -
  have limit: "2 ^ 64 - 64 \<le> size_t_minus (length buf) 64"
  proof -
    have "unat (of_nat (length buf) :: 64 word) = length buf" using assms(1) by (simp add: unat_of_nat)
    then have "size_t_minus (length buf) 64 = length buf + 2 ^ 64 - 64"
      unfolding size_t_minus_def using assms(1) by (subst unat_sub_if') simp
    then show ?thesis by simp
  qed
  have "can_read_loop (length buf) buf' a (replicate k (Can_frame n f) @ answers) = Memory_error"
    if "length buf' = length buf" "a \<le> length buf" "length buf < a + k * unat (frame_len f)" for buf' a
    using that
  proof (induction k arbitrary: buf' a)
    case (Suc k)
    have "a < size_t_minus (length buf) sizeof_frame_data"
      using Suc.prems(2) assms(1) limit by (simp add: sizeof_frame_data_def)
    then show ?case
      using Suc assms(2,3,5)
      by (subst can_read_loop.simps) (auto simp: memcpy_to_def split: option.split)
  qed simp
  then show ?thesis using assms(4) by (simp add: ExternalInterfaceCan_readEscapedBytes_def)
qed

lemma can_read_overflows_small_buffer_witness:
  "ExternalInterfaceCan_readEscapedBytes (replicate 46 0)
    (replicate 6 (Can_frame 16 \<lparr>frame_len = 8, frame_data = replicate 64 3\<rparr>) @ []) = Memory_error"
  by (rule can_read_overflows_small_buffer) (simp_all add: sizeof_can_frame_def)

text \<open>
  C35: a stream loses nothing. When writing to a TCP connection returns, every byte of the buffer has
  been handed to the system exactly once and in order, however the system split it up; and it returns
  when the only errors are interruptions and enough bytes are taken.
\<close>

theorem tcp_write_is_complete:
  shows "(ExternalInterfaceTcpClient_writeEscapedBytes buf answers = Returns (line, rest) \<longrightarrow> line = buf) \<and>
    ((\<forall>e. Send_error e \<in> set answers \<longrightarrow> e = EINTR) \<longrightarrow> length buf \<le> taken answers \<longrightarrow>
      (\<exists>rest. ExternalInterfaceTcpClient_writeEscapedBytes buf answers = Returns (buf, rest)))"
proof -
  have all: "line = buf" if "ExternalInterfaceTcpClient_writeEscapedBytes buf answers = Returns (line, rest)" for line rest
    using send_loop_order [of 0 buf "[]" "\<lambda>_. False" answers line rest] that
    by (auto simp: ExternalInterfaceTcpClient_writeEscapedBytes_def)
  moreover have "\<exists>line rest. ExternalInterfaceTcpClient_writeEscapedBytes buf answers = Returns (line, rest)"
    if "\<forall>e. Send_error e \<in> set answers \<longrightarrow> e = EINTR" "length buf \<le> taken answers"
    using send_loop_returns [of answers buf 0] that by (simp add: ExternalInterfaceTcpClient_writeEscapedBytes_def)
  ultimately show ?thesis by metis
qed

lemma tcp_write_is_complete_witness:
  "\<exists>rest. ExternalInterfaceTcpClient_writeEscapedBytes [1, 2, 3] [Written 2, Send_error EINTR, Written 1] =
    Returns ([1, 2, 3], rest)"
  using tcp_write_is_complete [of "[1, 2, 3]" "[Written 2, Send_error EINTR, Written 1]"] by auto

end
