(* ===== verification/Pipe_Io.thy ===== *)
theory Pipe_Io
  imports Device_Io
begin

text \<open>
  The interfaces of \<open>src/ExternalInterface.cpp\<close> that use the streams of the C library: the raw streams
  of serial ports and pseudo terminals, and the named pipes, which carry the bytes as text.
\<close>

section \<open>Raw streams\<close>

text \<open>
  The answers to \<open>poll\<close>: an error, or the pending error events. When \<open>poll\<close> fails, \<open>ufd.revents\<close> keeps
  its value. \<open>fread\<close> delivers bytes; if there are none the error indicator and \<open>errno\<close> are looked at.
\<close>

datatype poll_answer = Poll_error errno | Poll_events bool

fun poll_loop :: "bool \<Rightarrow> poll_answer list \<Rightarrow> bool io" where
  "poll_loop revents [] = Waiting"
| "poll_loop revents (Poll_events ev # answers) = Returns ev"
| "poll_loop revents (Poll_error e # answers) =
     (if e = EINTR then poll_loop revents answers else Returns revents)"

definition ExternalInterfaceStream_readEscapedBytes ::
  "bool \<Rightarrow> bool \<Rightarrow> poll_answer list \<Rightarrow> u8 list \<Rightarrow> errno option \<Rightarrow> u8 list io" where
  "ExternalInterfaceStream_readEscapedBytes is_open revents polls bytes error =
     (if \<not> is_open then Returns []
      else case poll_loop revents polls of
        Returns revents \<Rightarrow>
          if revents then Raises Runtime_error
          else if bytes = [] then
            (case error of
               None \<Rightarrow> Returns []
             | Some e \<Rightarrow> if e = EAGAIN then Returns [] else Raises Runtime_error)
          else Returns bytes
      | Raises x \<Rightarrow> Raises x
      | Memory_error \<Rightarrow> Memory_error
      | Waiting \<Rightarrow> Waiting)"

definition ExternalInterfacePty_readEscapedBytes :: "bool \<Rightarrow> u8 list \<Rightarrow> errno option \<Rightarrow> u8 list io" where
  "ExternalInterfacePty_readEscapedBytes is_open bytes error =
     (if \<not> is_open then Returns []
      else if bytes = [] then
        (case error of
           None \<Rightarrow> Returns []
         | Some e \<Rightarrow> if e = EAGAIN \<or> e = EIO then Returns [] else Raises Runtime_error)
      else Returns bytes)"

text \<open>\<open>fwrite\<close> takes as many bytes as it can; the rest is lost, with a message.\<close>

definition ExternalInterfaceStream_writeEscapedBytes ::
  "bool \<Rightarrow> string \<Rightarrow> u8 list \<Rightarrow> nat \<Rightarrow> u8 list \<times> string \<Rightarrow> u8 list \<times> string" where
  "ExternalInterfaceStream_writeEscapedBytes is_open label buf written s =
     (if \<not> is_open then s
      else (fst s @ take written buf,
            if written \<noteq> length buf then snd s @ label @ '': bytes lost. slow interface?'' @ endl else snd s))"

section \<open>Bytes as text\<close>

definition hexdigit :: "nat \<Rightarrow> char" where
  "hexdigit d = (if d < 10 then char_of (48 + d) else char_of (87 + d))"

definition isxdigit :: "char \<Rightarrow> bool" where
  "isxdigit c \<longleftrightarrow> isdigit c \<or> 97 \<le> (of_char c :: nat) \<and> (of_char c :: nat) \<le> 102 \<or>
     65 \<le> (of_char c :: nat) \<and> (of_char c :: nat) \<le> 70"

definition hex_value :: "char \<Rightarrow> nat" where
  "hex_value c =
     (if isdigit c then of_char c - 48 else if 97 \<le> (of_char c :: nat) then of_char c - 87 else of_char c - 55)"

text \<open>\<open>fprintf(str_out, "0x%02x ", byte)\<close>\<close>

definition print_byte :: "u8 \<Rightarrow> string" where
  "print_byte b = ''0x'' @ [hexdigit (unat b div 16), hexdigit (unat b mod 16)] @ '' ''"

definition ExternalInterfacePipe_writeEscapedBytes :: "u8 list \<Rightarrow> string" where
  "ExternalInterfacePipe_writeEscapedBytes buf = concat (map print_byte buf) @ endl"

text \<open>
  \<open>fscanf(str_in, " 0x%02x%n", ...)\<close> on the text that is available: no more text, no match, or a value;
  and the text that is left. White space is skipped before \<open>0x\<close> and by \<open>%02x\<close>. The item of \<open>%02x\<close> is
  the longest text of at most two characters that could begin a hexadecimal number, also one with a
  sign or with a prefix of its own.
\<close>

datatype scan_result = Scan_eof | Scan_none | Scan_byte nat

definition scan_value :: "string \<Rightarrow> scan_result \<times> string" where
  "scan_value s =
     (case s of
        [] \<Rightarrow> (Scan_eof, [])
      | c # t \<Rightarrow>
          if c = CHR 0x2D \<or> c = CHR 0x2B then
            (case t of
               d # u \<Rightarrow> if isxdigit d then (Scan_byte (if c = CHR 0x2D then (2 ^ 32 - hex_value d) mod 2 ^ 32 else hex_value d), u)
                 else (Scan_none, t)
             | [] \<Rightarrow> (Scan_none, []))
          else if isxdigit c then
            (case t of
               d # u \<Rightarrow> if isxdigit d then (Scan_byte (16 * hex_value c + hex_value d), u)
                 else if c = CHR 0x30 \<and> (d = CHR 0x78 \<or> d = CHR 0x58) then (Scan_none, u)
                 else (Scan_byte (hex_value c), t)
             | [] \<Rightarrow> (Scan_byte (hex_value c), []))
          else (Scan_none, s))"

definition scan :: "string \<Rightarrow> scan_result \<times> string" where
  "scan s =
     (case dropWhile isspace s of
        [] \<Rightarrow> (Scan_eof, [])
      | c # t \<Rightarrow>
          if c \<noteq> CHR 0x30 then (Scan_none, c # t)
          else (case t of
                  [] \<Rightarrow> (Scan_eof, [])
                | d # u \<Rightarrow> if d \<noteq> CHR 0x78 then (Scan_none, d # u) else scan_value (dropWhile isspace u)))"

lemma length_scan_value:
  "length (snd (scan_value s)) \<le> length s"
  by (auto simp: scan_value_def split: list.splits)

lemma length_scan: "length (snd (scan s)) \<le> length s"
proof (cases "dropWhile isspace s")
  case (Cons c t)
  have t: "length t < length s" using length_dropWhile_le [of isspace s] Cons by simp
  show ?thesis
  proof (cases t)
    case (Cons d u)
    have "length (snd (scan_value (dropWhile isspace u))) \<le> length u"
      by (rule le_trans [OF length_scan_value length_dropWhile_le])
    then show ?thesis using t Cons \<open>dropWhile isspace s = c # t\<close> by (simp add: scan_def)
  qed (use Cons t in \<open>simp add: scan_def Suc_le_eq\<close>)
qed (simp add: scan_def del: dropWhile_eq_Nil_conv)

lemma scan_byte_shorter:
  assumes "scan s = (Scan_byte v, t)"
  shows "length t < length s"
proof -
  have len: "length (dropWhile isspace s) \<le> length s" by (rule length_dropWhile_le)
  obtain u where u: "dropWhile isspace s = CHR 0x30 # CHR 0x78 # u" "t = snd (scan_value (dropWhile isspace u))"
    using assms by (auto simp: scan_def split: list.splits if_splits)
  have "length t \<le> length u"
    unfolding u(2) using length_scan_value [of "dropWhile isspace u"] length_dropWhile_le [of isspace u] by simp
  then show ?thesis using len u(1) by simp
qed

text \<open>
  The loop of the read function. \<open>scanRet\<close> is never \<open>EINTR\<close>, which is 4. When nothing matched, \<open>fgets\<close>
  takes one character out of the way; if there is none the function throws.
\<close>

function pipe_read_loop :: "nat \<Rightarrow> u8 list \<Rightarrow> string \<Rightarrow> (u8 list \<times> string) io" where
  "pipe_read_loop count buf s =
     (if length buf < count then
        (case scan s of
           (Scan_eof, t) \<Rightarrow> Returns (buf, t)
         | (Scan_none, t) \<Rightarrow> (case t of [] \<Rightarrow> Raises Runtime_error | c # u \<Rightarrow> pipe_read_loop count buf u)
         | (Scan_byte v, t) \<Rightarrow> pipe_read_loop count (buf @ [of_nat v]) t)
      else Returns (buf, s))"
  by pat_completeness auto
termination
proof (relation "measure (\<lambda>(count, buf, s). length s)")
  fix count :: nat and buf :: "u8 list" and s t u :: string and c and r
  assume "(r, t) = scan s" "t = c # u"
  then have "length (c # u) \<le> length s" using length_scan [of s] by (metis snd_conv)
  then show "((count, buf, u), count, buf, s) \<in> measure (\<lambda>(count, buf, s). length s)" by simp
qed (auto dest: scan_byte_shorter [OF sym])

declare pipe_read_loop.simps [simp del]

definition ExternalInterfacePipe_readEscapedBytes :: "nat \<Rightarrow> string \<Rightarrow> (u8 list \<times> string) io" where
  "ExternalInterfacePipe_readEscapedBytes count s = pipe_read_loop count [] s"

section \<open>Reading what was written\<close>

lemma hexdigit:
  assumes "d < 16"
  shows "isxdigit (hexdigit d)" and "hex_value (hexdigit d) = d"
  using assms by (auto simp: hexdigit_def isxdigit_def hex_value_def isdigit_def)

lemma hexdigit_other:
  assumes "d < 16"
  shows "\<not> isspace (hexdigit d)" and "hexdigit d \<noteq> CHR 0x2D" and "hexdigit d \<noteq> CHR 0x2B"
proof -
  have "(of_char (hexdigit d) :: nat) = (if d < 10 then 48 + d else 87 + d)"
    using assms by (simp add: hexdigit_def)
  then show "\<not> isspace (hexdigit d)" "hexdigit d \<noteq> CHR 0x2D" "hexdigit d \<noteq> CHR 0x2B"
    by (auto simp: isspace_def split: if_splits)
qed

definition blank :: "string \<Rightarrow> bool" where
  "blank ws \<longleftrightarrow> (\<forall>c \<in> set ws. isspace c)"

lemma scan_print_byte:
  assumes "blank ws"
  shows "scan (ws @ print_byte b @ t) = (Scan_byte (unat b), '' '' @ t)"
proof -
  have digits: "unat b div 16 < 16" "unat b mod 16 < 16" by (simp_all add: less_mult_imp_div_less)
  have skip: "dropWhile isspace (ws @ u) = dropWhile isspace u" for u
    using assms by (induction ws) (auto simp: blank_def)
  have "\<not> isspace CHR 0x30" by (simp add: isspace_def)
  then show ?thesis
    using hexdigit [OF digits(1)] hexdigit [OF digits(2)] hexdigit_other [OF digits(1)]
    by (simp add: scan_def print_byte_def skip scan_value_def)
qed

lemma pipe_read_bytes:
  assumes "blank ws" and "length buf + length bs \<le> count"
  shows "\<exists>ws'. blank ws' \<and> pipe_read_loop count buf (ws @ concat (map print_byte bs) @ t) =
    pipe_read_loop count (buf @ bs) (ws' @ t)"
  using assms
proof (induction bs arbitrary: ws buf)
  case (Cons b bs)
  have "blank '' ''" by (simp add: blank_def isspace_def)
  moreover have "pipe_read_loop count buf (ws @ concat (map print_byte (b # bs)) @ t) =
      pipe_read_loop count (buf @ [b]) ('' '' @ concat (map print_byte bs) @ t)"
    using Cons.prems scan_print_byte [OF Cons.prems(1), of b "concat (map print_byte bs) @ t"]
    by (subst pipe_read_loop.simps) simp
  ultimately show ?case using Cons.IH [of "'' ''" "buf @ [b]"] Cons.prems(2) by auto
qed auto

lemma pipe_read_messages:
  assumes "blank ws" and "length buf + length (concat msgs) \<le> count"
  shows "\<exists>ws'. blank ws' \<and> pipe_read_loop count buf (ws @ concat (map ExternalInterfacePipe_writeEscapedBytes msgs)) =
    pipe_read_loop count (buf @ concat msgs) ws'"
  using assms
proof (induction msgs arbitrary: ws buf)
  case (Cons m msgs)
  obtain ws' where ws': "blank ws'"
    "pipe_read_loop count buf (ws @ concat (map print_byte m) @ endl @ concat (map ExternalInterfacePipe_writeEscapedBytes msgs)) =
      pipe_read_loop count (buf @ m) (ws' @ endl @ concat (map ExternalInterfacePipe_writeEscapedBytes msgs))"
    using pipe_read_bytes [OF Cons.prems(1), of buf m count] Cons.prems(2) by auto
  have "blank (ws' @ endl)" using ws'(1) by (auto simp: blank_def endl_def isspace_def)
  from Cons.IH [OF this, of "buf @ m"] Cons.prems(2) ws'(2) show ?case
    by (simp add: ExternalInterfacePipe_writeEscapedBytes_def [of m])
qed auto

section \<open>Properties\<close>

text \<open>
  Round trip through a pipe. Whatever messages were written as text into a pipe, reading from it
  with a buffer that has room for more returns exactly their bytes, in order, and uses up the text.
\<close>

theorem pipe_round_trip:
  assumes "length (concat msgs) < count"
  shows "ExternalInterfacePipe_readEscapedBytes count (concat (map ExternalInterfacePipe_writeEscapedBytes msgs)) =
    Returns (concat msgs, [])"
proof -
  obtain ws where ws: "blank ws"
    "pipe_read_loop count [] (concat (map ExternalInterfacePipe_writeEscapedBytes msgs)) = pipe_read_loop count (concat msgs) ws"
    using pipe_read_messages [of "[]" "[]" msgs count] assms by (auto simp: blank_def)
  have "dropWhile isspace ws = []" using ws(1) by (simp add: blank_def)
  then have "scan ws = (Scan_eof, [])" by (simp add: scan_def del: dropWhile_eq_Nil_conv)
  then show ?thesis using ws(2) assms
    by (simp add: ExternalInterfacePipe_readEscapedBytes_def pipe_read_loop.simps [of count "concat msgs" ws])
qed

lemma pipe_round_trip_witness:
  "ExternalInterfacePipe_readEscapedBytes 524
    (concat (map ExternalInterfacePipe_writeEscapedBytes [[0x7e, 0xff], [], [0x7d, 0]])) =
  Returns ([0x7e, 0xff, 0x7d, 0], [])"
  using pipe_round_trip [of "[[0x7e, 0xff], [], [0x7d, 0]]" 524] by simp

end
