(* ===== verification/Uri.thy ===== *)
theory Uri
  imports Packet Cpp_Text
begin

text \<open>
  The uris that name an interface: the regular expressions of \<open>src/ExternalInterface.cpp\<close>, the values
  the constructors take from a match, the choice of a class in \<open>include/ndlcom/Bridge.hpp\<close>, and the list
  of device ids at the end of an uri, as \<open>src/Bridge.cpp\<close> reads it.
\<close>

section \<open>Lists of device ids\<close>

definition splitStringIntoStrings :: "string \<Rightarrow> char \<Rightarrow> string list" where
  "splitStringIntoStrings s delim = getline_items delim [] s"

text \<open>A number that is too small or too large is reported, and then converted all the same.\<close>

fun convert_ids :: "string list \<Rightarrow> u8 list \<Rightarrow> string \<Rightarrow> (cpp_exception + u8 list) \<times> string" where
  "convert_ids [] retval out = (Inr retval, out)"
| "convert_ids (it # numbers) retval out =
     (case stoi it of
        Inl e \<Rightarrow> (Inl e, out)
      | Inr number \<Rightarrow>
          if number = int (unat NDLCOM_ADDR_BROADCAST)
          then convert_ids numbers retval (out @ ''ParseUri: will ignore broadcast'' @ endl)
          else
            let out = (if number < 0
                  then out @ ''ParseUri: too small a deviceId '' @ [CHR 0x27] @ it @ [CHR 0x27] @ endl else out);
                out = (if number > 255
                  then out @ ''ParseUri: too large a deviceId '' @ [CHR 0x27] @ it @ [CHR 0x27] @ endl else out)
            in convert_ids numbers (retval @ [of_int number]) out)"

definition convertStringToIds :: "string list \<Rightarrow> string \<Rightarrow> (cpp_exception + u8 list) \<times> string" where
  "convertStringToIds numbers out = convert_ids numbers [] out"

section \<open>The expressions\<close>

datatype interface_class =
    InterfaceSerial | InterfaceUdp | InterfaceFpga | InterfacePipe | InterfaceCan | InterfacePty | InterfaceTcpClient

text \<open>
  The expressions have the form \<open>^scheme://([^:&]*)(?::(number))?...(?:&(.*))?$\<close>, with a number of optional
  numbers. Two kinds of numbers occur: \<open>\d+\<close>, and \<open>[0-9]|1[0-5]\<close> for the priority of a socket.
\<close>

datatype number_group = Any_number | Up_to_15

record uri_syntax =
  scheme :: string
  number_groups :: "number_group list"
  routing_mark :: string

definition ExternalInterfaceSerial_uri :: uri_syntax where
  "ExternalInterfaceSerial_uri =
     \<lparr>scheme = ''serial://'', number_groups = [Any_number], routing_mark = ''&''\<rparr>"

definition ExternalInterfaceUdp_uri :: uri_syntax where
  "ExternalInterfaceUdp_uri =
     \<lparr>scheme = ''udp://'', number_groups = [Any_number, Any_number, Up_to_15], routing_mark = ''&''\<rparr>"

definition ExternalInterfaceFpga_uri :: uri_syntax where
  "ExternalInterfaceFpga_uri =
     \<lparr>scheme = ''fpga://'', number_groups = [], routing_mark = ''&:''\<rparr>"

definition ExternalInterfacePipe_uri :: uri_syntax where
  "ExternalInterfacePipe_uri =
     \<lparr>scheme = ''pipe://'', number_groups = [], routing_mark = ''&''\<rparr>"

definition ExternalInterfaceCan_uri :: uri_syntax where
  "ExternalInterfaceCan_uri =
     \<lparr>scheme = ''can://'', number_groups = [Any_number, Any_number], routing_mark = ''&''\<rparr>"

definition ExternalInterfacePty_uri :: uri_syntax where
  "ExternalInterfacePty_uri =
     \<lparr>scheme = ''pty://'', number_groups = [], routing_mark = ''&''\<rparr>"

definition ExternalInterfaceTcpClient_uri :: uri_syntax where
  "ExternalInterfaceTcpClient_uri =
     \<lparr>scheme = ''tcpclient://'', number_groups = [Any_number], routing_mark = ''&''\<rparr>"

fun uri :: "interface_class \<Rightarrow> uri_syntax" where
  "uri InterfaceSerial = ExternalInterfaceSerial_uri"
| "uri InterfaceUdp = ExternalInterfaceUdp_uri"
| "uri InterfaceFpga = ExternalInterfaceFpga_uri"
| "uri InterfacePipe = ExternalInterfacePipe_uri"
| "uri InterfaceCan = ExternalInterfaceCan_uri"
| "uri InterfacePty = ExternalInterfacePty_uri"
| "uri InterfaceTcpClient = ExternalInterfaceTcpClient_uri"

lemmas uri_defs = ExternalInterfaceSerial_uri_def ExternalInterfaceUdp_uri_def ExternalInterfaceFpga_uri_def ExternalInterfacePipe_uri_def
  ExternalInterfaceCan_uri_def ExternalInterfacePty_uri_def ExternalInterfaceTcpClient_uri_def

text \<open>
  The groups of a match; a group that took no part in it is the empty text. An optional number takes
  all digits that follow its colon; taking fewer, or none, could not make the rest match.
\<close>

record uri_match =
  m_name :: string
  m_numbers :: "string list"
  m_last :: string

definition in_group :: "number_group \<Rightarrow> string \<Rightarrow> bool" where
  "in_group g ds \<longleftrightarrow>
     (case g of
        Any_number \<Rightarrow> ds \<noteq> []
      | Up_to_15 \<Rightarrow> length ds = 1 \<or> length ds = 2 \<and> hd ds = CHR ''1'' \<and> digit_value (ds ! 1) \<le> 5)"

fun match_numbers :: "number_group list \<Rightarrow> string \<Rightarrow> string list \<times> string" where
  "match_numbers [] s = ([], s)"
| "match_numbers (g # gs) s =
     (let ds = takeWhile isdigit (tl s) in
      if s \<noteq> [] \<and> hd s = CHR '':'' \<and> in_group g ds
      then (let (numbers, rest) = match_numbers gs (dropWhile isdigit (tl s)) in (ds # numbers, rest))
      else (let (numbers, rest) = match_numbers gs s in ([] # numbers, rest)))"

definition line_terminator :: "char \<Rightarrow> bool" where
  "line_terminator c \<longleftrightarrow> c = CHR 0x0A \<or> c = CHR 0x0D"

definition strip_prefix :: "string \<Rightarrow> string \<Rightarrow> string option" where
  "strip_prefix p s = (if take (length p) s = p then Some (drop (length p) s) else None)"

definition name_char :: "char \<Rightarrow> bool" where
  "name_char c \<longleftrightarrow> c \<noteq> CHR '':'' \<and> c \<noteq> CHR ''&''"

definition regex_match :: "string \<Rightarrow> interface_class \<Rightarrow> uri_match option" where
  "regex_match str T =
     (case strip_prefix (scheme (uri T)) str of
        None \<Rightarrow> None
      | Some s \<Rightarrow>
          let (numbers, rest) = match_numbers (number_groups (uri T)) (dropWhile name_char s) in
          if rest = [] then Some \<lparr>m_name = takeWhile name_char s, m_numbers = numbers, m_last = []\<rparr>
          else (case strip_prefix (routing_mark (uri T)) rest of
                  None \<Rightarrow> None
                | Some routing \<Rightarrow>
                    if \<exists>c \<in> set routing. line_terminator c then None
                    else Some \<lparr>m_name = takeWhile name_char s, m_numbers = numbers, m_last = routing\<rparr>))"

text \<open>
  The recursion over the classes: a single class is taken without a match, the last of several is
  tried here and not in another recursive call.
\<close>

fun createInterfaceByMatch :: "interface_class list \<Rightarrow> string \<Rightarrow> (interface_class \<times> uri_match) option" where
  "createInterfaceByMatch [] str = None"
| "createInterfaceByMatch [T] str = Some (T, \<lparr>m_name = [], m_numbers = [], m_last = []\<rparr>)"
| "createInterfaceByMatch (T # U # Ts) str =
     (case regex_match str T of
        Some m \<Rightarrow> Some (T, m)
      | None \<Rightarrow>
          if Ts = [] then (case regex_match str U of Some m \<Rightarrow> Some (U, m) | None \<Rightarrow> None)
          else createInterfaceByMatch (U # Ts) str)"

definition all_interface_classes :: "interface_class list" where
  "all_interface_classes =
     [InterfaceSerial, InterfaceUdp, InterfaceFpga, InterfacePipe, InterfaceCan, InterfacePty, InterfaceTcpClient]"

section \<open>The values for a constructor\<close>

text \<open>Numbers are converted from \<open>int\<close> to 32-bit unsigned integers; a missing one is the default.\<close>

datatype interface_config =
    Serial_port string u32
  | Udp_socket string u32 u32 u32
  | Fpga_device string
  | Named_pipe string
  | Can_socket string u32 u32
  | Pseudo_terminal string
  | Tcp_client string u32

definition number_or :: "u32 \<Rightarrow> uri_match \<Rightarrow> nat \<Rightarrow> cpp_exception + u32" where
  "number_or missing m i =
     (if m_numbers m ! i = [] then Inr missing
      else case stoi (m_numbers m ! i) of Inl e \<Rightarrow> Inl e | Inr v \<Rightarrow> Inr (of_int v))"

fun and_then :: "'e + 'a \<Rightarrow> ('a \<Rightarrow> 'e + 'b) \<Rightarrow> 'e + 'b" where
  "and_then (Inl e) f = Inl e"
| "and_then (Inr x) f = f x"

definition ExternalInterfaceSerial_of_match :: "uri_match \<Rightarrow> cpp_exception + interface_config" where
  "ExternalInterfaceSerial_of_match m =
     and_then (number_or 921600 m 0) (\<lambda>baudrate. Inr (Serial_port (m_name m) baudrate))"

definition ExternalInterfaceUdp_of_match :: "uri_match \<Rightarrow> cpp_exception + interface_config" where
  "ExternalInterfaceUdp_of_match m =
     and_then (number_or 34000 m 0) (\<lambda>in_port. and_then (number_or 34001 m 1) (\<lambda>out_port.
       and_then (number_or 0 m 2) (\<lambda>socket_priority. Inr (Udp_socket (m_name m) in_port out_port socket_priority))))"

definition ExternalInterfaceFpga_of_match :: "uri_match \<Rightarrow> cpp_exception + interface_config" where
  "ExternalInterfaceFpga_of_match m = Inr (Fpga_device (m_name m))"

definition ExternalInterfacePipe_of_match :: "uri_match \<Rightarrow> cpp_exception + interface_config" where
  "ExternalInterfacePipe_of_match m = Inr (Named_pipe (m_name m))"

definition ExternalInterfaceCan_of_match :: "uri_match \<Rightarrow> cpp_exception + interface_config" where
  "ExternalInterfaceCan_of_match m =
     and_then (number_or 42 m 0) (\<lambda>canIdRx. and_then (number_or 43 m 1) (\<lambda>canIdTx.
       Inr (Can_socket (m_name m) canIdRx canIdTx)))"

definition ExternalInterfacePty_of_match :: "uri_match \<Rightarrow> cpp_exception + interface_config" where
  "ExternalInterfacePty_of_match m = Inr (Pseudo_terminal (m_name m))"

definition ExternalInterfaceTcpClient_of_match :: "uri_match \<Rightarrow> cpp_exception + interface_config" where
  "ExternalInterfaceTcpClient_of_match m =
     and_then (number_or 2000 m 0) (\<lambda>port. Inr (Tcp_client (m_name m) port))"

fun constructor_arguments :: "interface_class \<Rightarrow> uri_match \<Rightarrow> cpp_exception + interface_config" where
  "constructor_arguments InterfaceSerial m = ExternalInterfaceSerial_of_match m"
| "constructor_arguments InterfaceUdp m = ExternalInterfaceUdp_of_match m"
| "constructor_arguments InterfaceFpga m = ExternalInterfaceFpga_of_match m"
| "constructor_arguments InterfacePipe m = ExternalInterfacePipe_of_match m"
| "constructor_arguments InterfaceCan m = ExternalInterfaceCan_of_match m"
| "constructor_arguments InterfacePty m = ExternalInterfacePty_of_match m"
| "constructor_arguments InterfaceTcpClient m = ExternalInterfaceTcpClient_of_match m"

text \<open>
  What the constructors compute themselves: the label, and the arguments they refuse before they ask
  the system for anything.
\<close>

definition ExternalInterfaceSerial_label :: "string \<Rightarrow> u32 \<Rightarrow> string" where
  "ExternalInterfaceSerial_label device_name baudrate = ''serial://'' @ device_name @ '':'' @ dec (unat baudrate)"

definition ExternalInterfaceFpga_label :: "string \<Rightarrow> string" where
  "ExternalInterfaceFpga_label device_name = ''fpga://'' @ device_name"

definition ExternalInterfaceFpga_refuses :: "u8 \<Rightarrow> bool" where
  "ExternalInterfaceFpga_refuses flags \<longleftrightarrow> flags \<noteq> 0x00"

definition ExternalInterfaceUdp_label :: "string \<Rightarrow> u32 \<Rightarrow> u32 \<Rightarrow> u32 \<Rightarrow> string" where
  "ExternalInterfaceUdp_label hostname in_port out_port socket_priority =
     ''udp://'' @ hostname @ '':'' @ dec (unat in_port) @ '':'' @ dec (unat out_port) @
     '' Socket priority: '' @ dec (unat socket_priority)"

definition ExternalInterfaceUdp_refuses :: "u32 \<Rightarrow> u32 \<Rightarrow> bool" where
  "ExternalInterfaceUdp_refuses in_port out_port \<longleftrightarrow> in_port = out_port"

definition ExternalInterfaceCan_label :: "string \<Rightarrow> u32 \<Rightarrow> u32 \<Rightarrow> string" where
  "ExternalInterfaceCan_label device_name canIdRx canIdTx =
     ''can://'' @ device_name @ '':'' @ dec (unat canIdRx) @ '':'' @ dec (unat canIdTx)"

definition ExternalInterfaceTcpClient_label :: "string \<Rightarrow> u32 \<Rightarrow> string" where
  "ExternalInterfaceTcpClient_label hostname port = ''tcpclient://'' @ hostname @ '':'' @ dec (unat port)"

definition ExternalInterfacePipe_label :: "string \<Rightarrow> string" where
  "ExternalInterfacePipe_label pipename = ''pipe://'' @ pipename"

definition ExternalInterfacePipe_refuses :: "string \<Rightarrow> bool" where
  "ExternalInterfacePipe_refuses pipename \<longleftrightarrow> pipename = []"

definition ExternalInterfacePty_label :: "string \<Rightarrow> string" where
  "ExternalInterfacePty_label symlinkname = ''pty://'' @ symlinkname"

definition ExternalInterfacePty_refuses :: "string \<Rightarrow> bool" where
  "ExternalInterfacePty_refuses symlinkname \<longleftrightarrow> symlinkname = []"

fun refused :: "u8 \<Rightarrow> interface_config \<Rightarrow> bool" where
  "refused flags (Udp_socket host in_port out_port prio) \<longleftrightarrow> ExternalInterfaceUdp_refuses in_port out_port"
| "refused flags (Fpga_device name) \<longleftrightarrow> ExternalInterfaceFpga_refuses flags"
| "refused flags (Named_pipe name) \<longleftrightarrow> ExternalInterfacePipe_refuses name"
| "refused flags (Pseudo_terminal name) \<longleftrightarrow> ExternalInterfacePty_refuses name"
| "refused flags _ \<longleftrightarrow> False"

fun interface_label :: "interface_config \<Rightarrow> string" where
  "interface_label (Serial_port name baudrate) = ExternalInterfaceSerial_label name baudrate"
| "interface_label (Udp_socket host in_port out_port prio) = ExternalInterfaceUdp_label host in_port out_port prio"
| "interface_label (Fpga_device name) = ExternalInterfaceFpga_label name"
| "interface_label (Named_pipe name) = ExternalInterfacePipe_label name"
| "interface_label (Can_socket name rx tx) = ExternalInterfaceCan_label name rx tx"
| "interface_label (Pseudo_terminal name) = ExternalInterfacePty_label name"
| "interface_label (Tcp_client host port) = ExternalInterfaceTcpClient_label host port"

section \<open>Reading what was meant\<close>

lemma convert_ids_dec:
  "\<exists>out'. convert_ids (map (dec \<circ> unat) ids) retval out = (Inr (retval @ filter (\<lambda>i. i \<noteq> NDLCOM_ADDR_BROADCAST) ids), out')"
proof (induction ids arbitrary: retval out)
  case (Cons i ids)
  have "unat i < 2 ^ 31" by (rule less_le_trans [OF word8_less_256]) simp
  then have stoi: "stoi (dec (unat i)) = Inr (int (unat i))" by (rule stoi_dec)
  have "uint i = uint NDLCOM_ADDR_BROADCAST \<longleftrightarrow> i = NDLCOM_ADDR_BROADCAST" by (metis word_uint_eq_iff)
  then show ?case
    using Cons.IH [of retval] Cons.IH [of "retval @ [i]"] by (auto simp: stoi)
qed simp

lemma dec_no_comma: "CHR 0x2C \<notin> set (dec n)"
  using dec_digits isdigit_not_sign(4) by blast

lemma split_joined_ids:
  "splitStringIntoStrings (join CHR 0x2C (map (dec \<circ> unat) ids)) CHR 0x2C = map (dec \<circ> unat) ids"
  unfolding splitStringIntoStrings_def by (rule getline_items_join) (auto simp: dec_no_comma)

lemma stoi_no_exception_dec: "convertStringToIds (map (dec \<circ> unat) ids) out =
    (Inr (filter (\<lambda>i. i \<noteq> NDLCOM_ADDR_BROADCAST) ids), snd (convertStringToIds (map (dec \<circ> unat) ids) out))"
  using convert_ids_dec [of ids "[]" out] by (auto simp: convertStringToIds_def)

section \<open>The classes do not compete\<close>

lemma schemes_differ:
  assumes "take (length (scheme (uri T))) s = scheme (uri T)" and "take (length (scheme (uri U))) s = scheme (uri U)"
  shows "T = U"
proof -
  have "take 3 (scheme (uri T)) = take 3 (scheme (uri U))"
  proof -
    have "3 \<le> length (scheme (uri V))" for V by (cases V) (simp_all add: uri_defs)
    then have "take 3 (scheme (uri V)) = take 3 s" if "take (length (scheme (uri V))) s = scheme (uri V)" for V
      using that by (metis min.absorb1 take_take)
    then show ?thesis using assms by metis
  qed
  then show ?thesis by (cases T; cases U; simp add: uri_defs)
qed

lemma regex_match_unique:
  assumes "regex_match str T = Some m" and "regex_match str U = Some m'"
  shows "T = U"
proof -
  have "take (length (scheme (uri V))) str = scheme (uri V)" if "regex_match str V = Some n" for V n
    using that by (auto simp: regex_match_def strip_prefix_def split: if_splits)
  then show ?thesis using schemes_differ assms by blast
qed

lemma createInterfaceByMatch_iff:
  assumes "2 \<le> length Ts"
  shows "createInterfaceByMatch Ts str = Some (T, m) \<longleftrightarrow> T \<in> set Ts \<and> regex_match str T = Some m"
  using assms
proof (induction Ts str rule: createInterfaceByMatch.induct)
  case (3 V U Ts str)
  show ?case
  proof (cases "regex_match str V")
    case None
    then have step: "createInterfaceByMatch (V # U # Ts) str =
        (if Ts = [] then (case regex_match str U of Some m \<Rightarrow> Some (U, m) | None \<Rightarrow> None)
         else createInterfaceByMatch (U # Ts) str)" by simp
    show ?thesis
    proof (cases "Ts = []")
      case True
      then show ?thesis using None step by (auto split: option.splits)
    next
      case False
      then have "2 \<le> length (U # Ts)" by (cases Ts) simp_all
      then show ?thesis using 3(1) [OF None False] None step False by auto
    qed
  next
    case (Some n)
    then have "createInterfaceByMatch (V # U # Ts) str = Some (V, n)" by simp
    moreover have "T = V \<and> m = n" if "regex_match str T = Some m"
      using that regex_match_unique [OF Some that] Some by simp
    ultimately show ?thesis using Some by (metis list.set_intros(1) option.inject prod.inject)
  qed
qed simp_all

lemma match_numbers_dec:
  assumes "length ns \<le> length gs" and "list_all2 in_group (take (length ns) gs) (map dec ns)"
    and "s = [] \<or> hd s \<noteq> CHR '':'' \<and> \<not> isdigit (hd s)"
  shows "match_numbers gs (concat (map (\<lambda>n. CHR '':'' # dec n) ns) @ s) =
    (map dec ns @ replicate (length gs - length ns) [], s)"
  using assms
proof (induction gs arbitrary: ns)
  case (Cons g gs)
  show ?case
  proof (cases ns)
    case Nil
    then show ?thesis using Cons.IH [of "[]"] Cons.prems(3) by (auto simp: Let_def)
  next
    case (Cons n ms)
    let ?rest = "concat (map (\<lambda>n. CHR '':'' # dec n) ms) @ s"
    have "\<not> isdigit CHR '':''" by (simp add: isdigit_def)
    then have stop: "?rest = [] \<or> \<not> isdigit (hd ?rest)" using Cons.prems(3) by (cases ms) auto
    have all: "\<forall>c \<in> set (dec n). isdigit c" using dec_digits by blast
    have digits: "takeWhile isdigit (dec n @ ?rest) = dec n" "dropWhile isdigit (dec n @ ?rest) = ?rest"
      using takeWhile_stretch [OF all stop] dropWhile_stretch [OF all stop] by simp_all
    have "match_numbers gs ?rest = (map dec ms @ replicate (length gs - length ms) [], s)"
      using Cons.IH [of ms] Cons.prems Cons by simp
    then show ?thesis using Cons.prems(2) Cons digits by (simp add: Let_def)
  qed
qed auto

text \<open>
  A well-formed uri of a class: its scheme, a name, numbers that the class knows, and perhaps a list
  of device ids.
\<close>

definition make_uri :: "interface_class \<Rightarrow> string \<Rightarrow> nat list \<Rightarrow> u8 list \<Rightarrow> string" where
  "make_uri T name ns ids =
     scheme (uri T) @ name @ concat (map (\<lambda>n. CHR '':'' # dec n) ns) @
     (if ids = [] then [] else routing_mark (uri T) @ join CHR 0x2C (map (dec \<circ> unat) ids))"

lemma join_chars: "c \<in> set (join d ss) \<Longrightarrow> c = d \<or> (\<exists>s \<in> set ss. c \<in> set s)"
  by (induction d ss rule: join.induct) auto

lemma join_ids_chars: "c \<in> set (join CHR 0x2C (map (dec \<circ> unat) ids)) \<Longrightarrow> \<not> line_terminator c"
  using join_chars [of c "CHR 0x2C" "map (dec \<circ> unat) ids"] dec_digits
  by (fastforce simp: line_terminator_def isdigit_def)

lemma routing_mark_start: "\<exists>t. routing_mark (uri T) = CHR ''&'' # t"
  by (cases T) (simp_all add: uri_defs)

lemma strip_prefix_append [simp]: "strip_prefix p (p @ s) = Some s"
  by (simp add: strip_prefix_def)

lemma regex_match_make_uri:
  assumes "\<forall>c \<in> set name. name_char c" and "length ns \<le> length (number_groups (uri T))"
    and "list_all2 in_group (take (length ns) (number_groups (uri T))) (map dec ns)"
  shows "regex_match (make_uri T name ns ids) T = Some
    \<lparr>m_name = name, m_numbers = map dec ns @ replicate (length (number_groups (uri T)) - length ns) [],
      m_last = join CHR 0x2C (map (dec \<circ> unat) ids)\<rparr>"
proof -
  let ?numbers = "concat (map (\<lambda>n. CHR '':'' # dec n) ns)"
  let ?routing = "if ids = [] then [] else routing_mark (uri T) @ join CHR 0x2C (map (dec \<circ> unat) ids)"
  obtain t where mark: "routing_mark (uri T) = CHR ''&'' # t" using routing_mark_start by blast
  have stop: "?numbers @ ?routing = [] \<or> \<not> name_char (hd (?numbers @ ?routing))"
    by (cases ns) (simp_all add: name_char_def mark)
  have name: "takeWhile name_char (name @ ?numbers @ ?routing) = name"
    "dropWhile name_char (name @ ?numbers @ ?routing) = ?numbers @ ?routing"
    by (rule takeWhile_stretch [OF assms(1) stop], rule dropWhile_stretch [OF assms(1) stop])
  have "?routing = [] \<or> hd ?routing \<noteq> CHR '':'' \<and> \<not> isdigit (hd ?routing)"
    by (simp add: mark isdigit_def)
  note numbers = match_numbers_dec [OF assms(2,3) this]
  have "routing_mark (uri T) \<noteq> []" using mark by simp
  then show ?thesis
    unfolding regex_match_def make_uri_def strip_prefix_append
    using numbers name join_ids_chars by (auto simp: Let_def)
qed

section \<open>Properties\<close>

text \<open>
  C36: uris are understood. A well-formed uri of one of the classes - its scheme, a name without
  colon and ampersand, as many numbers as it likes up to those of the class, and a list of device ids
  - is taken by this class and no other, with this name and these numbers; and the list at its end is
  read back as these ids, without the broadcast address.
\<close>

theorem uris_are_understood:
  assumes "\<forall>c \<in> set name. name_char c" and "length ns \<le> length (number_groups (uri T))"
    and "list_all2 in_group (take (length ns) (number_groups (uri T))) (map dec ns)"
  shows "\<exists>m. createInterfaceByMatch all_interface_classes (make_uri T name ns ids) = Some (T, m) \<and>
    m_name m = name \<and> (\<forall>i < length ns. m_numbers m ! i = dec (ns ! i)) \<and>
    fst (convertStringToIds (splitStringIntoStrings (m_last m) CHR '','') out) =
      Inr (filter (\<lambda>i. i \<noteq> NDLCOM_ADDR_BROADCAST) ids)"
proof -
  let ?m = "\<lparr>m_name = name, m_numbers = map dec ns @ replicate (length (number_groups (uri T)) - length ns) [],
      m_last = join CHR 0x2C (map (dec \<circ> unat) ids)\<rparr>"
  have "T \<in> set all_interface_classes" "2 \<le> length all_interface_classes"
    by (cases T; simp add: all_interface_classes_def)+
  then have "createInterfaceByMatch all_interface_classes (make_uri T name ns ids) = Some (T, ?m)"
    using regex_match_make_uri [OF assms] by (simp add: createInterfaceByMatch_iff)
  moreover have "fst (convertStringToIds (splitStringIntoStrings (m_last ?m) CHR '','') out) =
      Inr (filter (\<lambda>i. i \<noteq> NDLCOM_ADDR_BROADCAST) ids)"
    using split_joined_ids [of ids] stoi_no_exception_dec [of ids out] by (metis fst_conv uri_match.select_convs(3))
  ultimately show ?thesis by (intro exI [of _ ?m]) (simp add: nth_append)
qed

lemma uris_are_understood_witness:
  "\<exists>m. createInterfaceByMatch all_interface_classes (make_uri InterfaceUdp ''localhost'' [34000, 34001, 7] [3, 255, 14]) =
      Some (InterfaceUdp, m) \<and>
    fst (convertStringToIds (splitStringIntoStrings (m_last m) CHR '','') []) = Inr [3, 14]"
proof -
  have "list_all2 in_group [Any_number, Any_number, Up_to_15] (map dec [34000, 34001, 7])"
    by (simp add: in_group_def dec.simps [of 7])
  then show ?thesis
    using uris_are_understood [of "''localhost''" "[34000, 34001, 7]" InterfaceUdp "[3, 255, 14]" "[]"]
    by (auto simp: uri_defs name_char_def NDLCOM_ADDR_BROADCAST_def)
qed

text \<open>
  A device id that is too large is reported but not rejected: the routing is set for its value
  modulo 256, even if this is the broadcast address.
\<close>

theorem large_ids_are_truncated:
  assumes "255 < n" and "n < 2 ^ 31"
  shows "convertStringToIds [dec n] out = (Inr [of_nat n],
    out @ ''ParseUri: too large a deviceId '' @ [CHR 0x27] @ dec n @ [CHR 0x27] @ endl)"
  using assms stoi_dec [OF assms(2)] by (simp add: convertStringToIds_def NDLCOM_ADDR_BROADCAST_def)

lemma large_ids_are_truncated_witness:
  "fst (convertStringToIds [dec 511] []) = Inr [NDLCOM_ADDR_BROADCAST]"
  using large_ids_are_truncated [of 511 "[]"] by (simp add: NDLCOM_ADDR_BROADCAST_def)

end
