(* ===== verification/Descriptors.thy ===== *)
theory Descriptors
  imports Device_Io
begin

text \<open>
  The file descriptors of the process. The system gives the lowest number that is not in use, and closing a
  number that is not in use fails, which nobody looks at. A \<open>FILE\<close> that \<open>fdopen\<close> made is the number of its
  descriptor, which \<open>fclose\<close> closes.
\<close>

section \<open>Opening and closing\<close>

record descriptors =
  fds :: "nat list"
  failed_closes :: nat

definition lowest_unused :: "nat list \<Rightarrow> nat" where
  "lowest_unused ns = hd (filter (\<lambda>n. n \<notin> set ns) [0..<Suc (length ns)])"

definition new_fd :: "descriptors \<Rightarrow> nat \<times> descriptors" where
  "new_fd D = (let fd = lowest_unused (fds D) in (fd, D\<lparr>fds := fd # fds D\<rparr>))"

definition close :: "nat \<Rightarrow> descriptors \<Rightarrow> descriptors" where
  "close fd D =
     (if fd \<in> set (fds D) then D\<lparr>fds := removeAll fd (fds D)\<rparr> else D\<lparr>failed_closes := failed_closes D + 1\<rparr>)"

definition fclose :: "nat \<Rightarrow> descriptors \<Rightarrow> descriptors" where
  "fclose stream D = close stream D"

lemma lowest_unused_new: "lowest_unused ns \<notin> set ns"
proof -
  have "\<not> set [0..<Suc (length ns)] \<subseteq> set ns"
  proof
    assume "set [0..<Suc (length ns)] \<subseteq> set ns"
    then have "card (set [0..<Suc (length ns)]) \<le> card (set ns)" by (intro card_mono) simp_all
    then show False using card_length [of ns] by simp
  qed
  then have "filter (\<lambda>n. n \<notin> set ns) [0..<Suc (length ns)] \<noteq> []" by (auto simp: filter_empty_conv)
  from hd_in_set [OF this] show ?thesis
    unfolding lowest_unused_def set_filter by blast
qed

lemma new_fd_cases:
  assumes "new_fd D = (fd, D')"
  shows "fd \<notin> set (fds D)" and "D' = D\<lparr>fds := fd # fds D\<rparr>"
  using assms lowest_unused_new by (auto simp: new_fd_def Let_def)

lemma close_open: "fd \<in> set (fds D) \<Longrightarrow> close fd D = D\<lparr>fds := removeAll fd (fds D)\<rparr>"
  and close_closed: "fd \<notin> set (fds D) \<Longrightarrow> close fd D = D\<lparr>failed_closes := failed_closes D + 1\<rparr>"
  by (simp_all add: close_def)

lemma removeAll_filter: "removeAll n ns = filter (\<lambda>k. k \<noteq> n) ns"
  by (induction ns) auto

section \<open>The streams of \<open>ExternalInterfaceStream\<close>\<close>

text \<open>Null pointers are \<open>None\<close>. The class owns its streams, and its destructor also runs when the constructor of a derived class throws.\<close>

record ExternalInterfaceStream =
  fd_read :: "nat option"
  fd_write :: "nat option"

definition ExternalInterfaceStream_new :: ExternalInterfaceStream where
  "ExternalInterfaceStream_new = \<lparr>fd_read = None, fd_write = None\<rparr>"

definition ExternalInterfaceStream_destructor :: "ExternalInterfaceStream \<Rightarrow> descriptors \<Rightarrow> descriptors" where
  "ExternalInterfaceStream_destructor self D =
     (let D = (case fd_write self of None \<Rightarrow> D | Some f \<Rightarrow> fclose f D)
      in case fd_read self of None \<Rightarrow> D | Some f \<Rightarrow> fclose f D)"

text \<open>\<open>fdopen\<close> for reading and for writing; the result is the streams, and whether both calls succeeded.\<close>

definition fdopen_streams :: "nat \<Rightarrow> bool \<Rightarrow> bool \<Rightarrow> ExternalInterfaceStream \<times> bool" where
  "fdopen_streams fd read_ok write_ok =
     (let self = ExternalInterfaceStream_new in
      if \<not> read_ok then (self, False)
      else let self = self\<lparr>fd_read := Some fd\<rparr> in
        if \<not> write_ok then (self, False) else (self\<lparr>fd_write := Some fd\<rparr>, True))"

lemma destroy_no_streams [simp]: "ExternalInterfaceStream_destructor ExternalInterfaceStream_new D = D"
  by (simp add: ExternalInterfaceStream_destructor_def ExternalInterfaceStream_new_def)

lemma fdopen_streams_cases:
  "fdopen_streams fd read_ok write_ok = (self, True) \<Longrightarrow> self = \<lparr>fd_read = Some fd, fd_write = Some fd\<rparr>"
  "fdopen_streams fd read_ok write_ok = (self, False) \<Longrightarrow>
    self = ExternalInterfaceStream_new \<and> \<not> read_ok \<or> self = \<lparr>fd_read = Some fd, fd_write = None\<rparr> \<and> read_ok"
  by (auto simp: fdopen_streams_def ExternalInterfaceStream_new_def Let_def split: if_splits)

text \<open>A destructor of a derived class has closed the descriptor; closing both streams then fails.\<close>

lemma streams_closed_again:
  assumes "fd \<notin> set (fds D)"
  shows "ExternalInterfaceStream_destructor \<lparr>fd_read = Some fd, fd_write = Some fd\<rparr> D = D\<lparr>failed_closes := failed_closes D + 2\<rparr>"
  using assms by (simp add: ExternalInterfaceStream_destructor_def fclose_def close_def)

end
