(* ===== verification/Device_Open.thy ===== *)
theory Device_Open
  imports Descriptors Uri
begin

text \<open>
  How the interfaces of \<open>src/ExternalInterface.cpp\<close> open and close their devices. Whether a call of the
  system succeeds, and what it answers, is given from outside; the model has what the constructors make
  of it, and the state of the system that they change: the settings of a port, the descriptors and, in
  \<open>Device_Files\<close>, the file system.
\<close>

section \<open>Serial ports\<close>

text \<open>The flags have the values that Linux gives them.\<close>

record termios2 =
  c_iflag :: u32
  c_oflag :: u32
  c_cflag :: u32
  c_lflag :: u32
  c_ispeed :: u32
  c_ospeed :: u32

record serial_port =
  port_settings :: termios2
  port_exclusive :: bool

definition CSIZE :: u32 where "CSIZE = 0x30"

definition CS8 :: u32 where "CS8 = 0x30"

definition CBAUD :: u32 where "CBAUD = 0x100F"

definition BOTHER :: u32 where "BOTHER = 0x1000"

text \<open>
  \<open>IGNBRK | BRKINT | PARMRK | ISTRIP | INLCR | IGNCR | ICRNL | IXON\<close>, \<open>OPOST\<close>,
  \<open>ECHO | ECHONL | ICANON | ISIG | IEXTEN\<close> and \<open>PARENB\<close>.
\<close>

definition raw_settings :: "u32 \<Rightarrow> termios2 \<Rightarrow> termios2" where
  "raw_settings baudrate tio =
     (let tio = tio\<lparr>c_iflag := c_iflag tio AND NOT (0x1 OR 0x2 OR 0x8 OR 0x20 OR 0x40 OR 0x80 OR 0x100 OR 0x400)\<rparr>;
          tio = tio\<lparr>c_oflag := c_oflag tio AND NOT 0x1\<rparr>;
          tio = tio\<lparr>c_lflag := c_lflag tio AND NOT (0x8 OR 0x40 OR 0x2 OR 0x1 OR 0x8000)\<rparr>;
          tio = tio\<lparr>c_cflag := c_cflag tio AND NOT (CSIZE OR 0x100)\<rparr>;
          tio = tio\<lparr>c_cflag := c_cflag tio OR CS8\<rparr>;
          tio = tio\<lparr>c_cflag := c_cflag tio AND NOT CBAUD\<rparr>;
          tio = tio\<lparr>c_cflag := c_cflag tio OR BOTHER\<rparr>
      in tio\<lparr>c_ispeed := baudrate, c_ospeed := baudrate\<rparr>)"

record serial_answers =
  open_ok :: bool
  tcgets_ok :: bool
  exclusive_ok :: bool
  tcsets_ok :: bool
  fdopen_read_ok :: bool
  fdopen_write_ok :: bool

record ExternalInterfaceSerial =
  serial_streams :: ExternalInterfaceStream
  oldtio :: termios2
  serial_fd :: nat

text \<open>
  What had been set stays when the constructor throws later. The streams are destroyed then, but the
  descriptor is only closed with a stream that was made of it.
\<close>

definition ExternalInterfaceSerial_open ::
  "u32 \<Rightarrow> serial_answers \<Rightarrow> serial_port \<times> descriptors \<Rightarrow> ExternalInterfaceSerial io \<times> serial_port \<times> descriptors" where
  "ExternalInterfaceSerial_open baudrate sys s =
     (let (port, D) = s in
      if \<not> open_ok sys then (Raises Runtime_error, port, D)
      else let (fd, D) = new_fd D in
        if \<not> tcgets_ok sys then (Raises Runtime_error, port, D)
        else let oldtio = port_settings port in
          if \<not> exclusive_ok sys then (Raises Runtime_error, port, D)
          else let port = port\<lparr>port_exclusive := True\<rparr> in
            if \<not> tcsets_ok sys then (Raises Runtime_error, port, D)
            else let port = port\<lparr>port_settings := raw_settings baudrate oldtio\<rparr>;
                     (streams, made) = fdopen_streams fd (fdopen_read_ok sys) (fdopen_write_ok sys)
              in if \<not> made then (Raises Runtime_error, port, ExternalInterfaceStream_destructor streams D)
              else (Returns \<lparr>serial_streams = streams, oldtio = oldtio, serial_fd = fd\<rparr>, port, D))"

definition ExternalInterfaceSerial_destructor ::
  "ExternalInterfaceSerial \<Rightarrow> serial_port \<times> descriptors \<Rightarrow> serial_port \<times> descriptors" where
  "ExternalInterfaceSerial_destructor self s =
     (let (port, D) = s;
          port = port\<lparr>port_exclusive := False\<rparr>;
          port = port\<lparr>port_settings := oldtio self\<rparr>;
          D = close (serial_fd self) D
      in (port, ExternalInterfaceStream_destructor (serial_streams self) D))"

text \<open>A port that was opened is in raw mode with eight bits and the wanted speed, and gets its settings back.\<close>

lemma serial_open_cases:
  assumes "ExternalInterfaceSerial_open baudrate sys (port, D) = (Returns self, port', D')"
  shows "oldtio self = port_settings port" and "serial_fd self \<notin> set (fds D)"
    and "port' = port\<lparr>port_exclusive := True, port_settings := raw_settings baudrate (port_settings port)\<rparr>"
    and "serial_streams self = \<lparr>fd_read = Some (serial_fd self), fd_write = Some (serial_fd self)\<rparr>"
    and "D' = D\<lparr>fds := serial_fd self # fds D\<rparr>"
  using assms new_fd_cases [of D] fdopen_streams_cases(1)
  by (auto simp: ExternalInterfaceSerial_open_def Let_def split: if_splits prod.splits)

lemma serial_settings_are_restored:
  assumes "ExternalInterfaceSerial_open baudrate sys (port, D) = (Returns self, port', D')"
  shows "c_cflag (port_settings port') AND CSIZE = CS8" and "c_ispeed (port_settings port') = baudrate"
    and "fst (ExternalInterfaceSerial_destructor self (port', D'')) = port\<lparr>port_exclusive := False\<rparr>"
proof -
  note p = serial_open_cases [OF assms]
  have bits: "(((c AND NOT (0x30 OR 0x100)) OR 0x30) AND NOT 0x100F OR 0x1000) AND 0x30 = 0x30" for c :: u32
    by (simp add: bit.conj_disj_distrib2 and.assoc)
  show "c_cflag (port_settings port') AND CSIZE = CS8"
    using bits by (simp add: p(3) raw_settings_def Let_def CSIZE_def CS8_def CBAUD_def BOTHER_def)
  show "c_ispeed (port_settings port') = baudrate" by (simp add: p(3) raw_settings_def Let_def)
  show "fst (ExternalInterfaceSerial_destructor self (port', D'')) = port\<lparr>port_exclusive := False\<rparr>"
    by (cases port) (simp add: p(1,3) ExternalInterfaceSerial_destructor_def)
qed

section \<open>Fpga devices\<close>

text \<open>Whether \<open>open\<close> and the two calls of \<open>fdopen\<close> succeed.\<close>

record fpga_answers =
  fpga_open_ok :: bool
  fpga_read_ok :: bool
  fpga_write_ok :: bool

record ExternalInterfaceFpga =
  fpga_streams :: ExternalInterfaceStream
  fpga_fd :: nat

definition ExternalInterfaceFpga_open :: "u8 \<Rightarrow> fpga_answers \<Rightarrow> descriptors \<Rightarrow> ExternalInterfaceFpga io \<times> descriptors" where
  "ExternalInterfaceFpga_open flags sys D =
     (if ExternalInterfaceFpga_refuses flags then (Raises Runtime_error, D)
      else if \<not> fpga_open_ok sys then (Raises Runtime_error, D)
      else let (fd, D) = new_fd D;
               (streams, made) = fdopen_streams fd (fpga_read_ok sys) (fpga_write_ok sys)
        in if \<not> made then (Raises Runtime_error, ExternalInterfaceStream_destructor streams D)
        else (Returns \<lparr>fpga_streams = streams, fpga_fd = fd\<rparr>, D))"

definition ExternalInterfaceFpga_destructor :: "ExternalInterfaceFpga \<Rightarrow> descriptors \<Rightarrow> descriptors" where
  "ExternalInterfaceFpga_destructor self D = ExternalInterfaceStream_destructor (fpga_streams self) (close (fpga_fd self) D)"

section \<open>Sockets\<close>

record sockaddr_in =
  sin_addr :: u32
  sin_port :: u16

record udp_answers =
  udp_socket_ok :: bool
  udp_nonblocking_ok :: bool
  udp_setpriority_ok :: bool
  udp_priority_now :: u32
  udp_resolved :: "sockaddr_in option"
  udp_bind_ok :: bool

record ExternalInterfaceUdp =
  addr_in :: sockaddr_in
  addr_out :: sockaddr_in
  udp_fd :: nat

definition ExternalInterfaceUdp_open ::
  "u32 \<Rightarrow> u32 \<Rightarrow> u32 \<Rightarrow> udp_answers \<Rightarrow> string \<times> descriptors \<Rightarrow> ExternalInterfaceUdp io \<times> string \<times> descriptors" where
  "ExternalInterfaceUdp_open in_port out_port socket_priority sys s =
     (let (out, D) = s in
      if ExternalInterfaceUdp_refuses in_port out_port then (Raises Runtime_error, out, D)
      else if \<not> udp_socket_ok sys then (Raises Runtime_error, out, D)
      else let (fd, D) = new_fd D in
        if \<not> udp_nonblocking_ok sys then (Raises Runtime_error, out, D)
        else if \<not> udp_setpriority_ok sys then (Raises Runtime_error, out, D)
        else let out = out @ ''Set UDP socket priority to:'' @ dec (unat (udp_priority_now sys)) @ endl;
                 out = (if udp_priority_now sys \<noteq> socket_priority then out @ ''Setting socket priority failed'' @ endl else out)
          in case udp_resolved sys of
               None \<Rightarrow> (Raises Runtime_error, out, D)
             | Some found \<Rightarrow>
                 let self = \<lparr>addr_in = found\<lparr>sin_port := ucast in_port, sin_addr := 0\<rparr>,
                       addr_out = found\<lparr>sin_port := ucast out_port\<rparr>, udp_fd = fd\<rparr>
                 in if \<not> udp_bind_ok sys then (Raises Runtime_error, out, D) else (Returns self, out, D))"

definition ExternalInterfaceUdp_destructor :: "ExternalInterfaceUdp \<Rightarrow> descriptors \<Rightarrow> descriptors" where
  "ExternalInterfaceUdp_destructor self D = close (udp_fd self) D"

text \<open>
  The constructor refuses equal ports, but compares them before they are cut to 16 bits.
\<close>

lemma equal_udp_ports_slip_through:
  assumes "udp_socket_ok sys" and "udp_nonblocking_ok sys" and "udp_setpriority_ok sys" and "udp_bind_ok sys"
    and "udp_resolved sys = Some found" and "in_port \<noteq> out_port" and "ucast in_port = (ucast out_port :: u16)"
  shows "\<exists>self. fst (ExternalInterfaceUdp_open in_port out_port prio sys (out, D)) = Returns self \<and>
    sin_port (addr_in self) = sin_port (addr_out self)"
  using assms by (simp add: ExternalInterfaceUdp_open_def ExternalInterfaceUdp_refuses_def Let_def split: prod.split)

record tcp_answers =
  tcp_socket_ok :: bool
  tcp_resolved :: "sockaddr_in option"
  tcp_connect_ok :: bool

record ExternalInterfaceTcpClient =
  tcp_addr :: sockaddr_in
  tcp_fd :: nat

definition ExternalInterfaceTcpClient_open ::
  "u32 \<Rightarrow> tcp_answers \<Rightarrow> descriptors \<Rightarrow> ExternalInterfaceTcpClient io \<times> descriptors" where
  "ExternalInterfaceTcpClient_open port sys D =
     (if \<not> tcp_socket_ok sys then (Raises Runtime_error, D)
      else let (fd, D) = new_fd D in
        case tcp_resolved sys of
          None \<Rightarrow> (Raises Runtime_error, D)
        | Some found \<Rightarrow>
            let addr = found\<lparr>sin_port := ucast port\<rparr> in
            if \<not> tcp_connect_ok sys then (Raises Runtime_error, D)
            else (Returns \<lparr>tcp_addr = addr, tcp_fd = fd\<rparr>, D))"

definition ExternalInterfaceTcpClient_destructor :: "ExternalInterfaceTcpClient \<Rightarrow> descriptors \<Rightarrow> descriptors" where
  "ExternalInterfaceTcpClient_destructor self D = close (tcp_fd self) D"

text \<open>
  The name of a CAN device is copied with \<open>strcpy\<close> into the 16 bytes of \<open>ifr_name\<close>. The size of an MTU
  tells the kind of the network; the result of \<open>bind\<close> is not looked at.
\<close>

record can_answers =
  can_socket_ok :: bool
  can_nonblocking_ok :: bool
  can_index :: "nat option"
  can_mtu :: "nat option"
  can_fd_ok :: bool
  can_err_filter_ok :: bool
  can_filter_ok :: bool

record ExternalInterfaceCan =
  can_ifindex :: nat
  can_filter :: "u32 \<times> u32"
  can_id_tx :: u32
  can_id_rx :: u32
  err_mask :: u32
  max_data_len :: nat
  can_fd :: nat

text \<open>\<open>CAN_ERR_TX_TIMEOUT\<close>, \<open>CAN_ERR_CRTL_RX_PASSIVE\<close>, \<open>CAN_ERR_CRTL_TX_PASSIVE\<close> and \<open>CAN_ERR_BUSOFF\<close>.\<close>

definition wanted_can_errors :: u32 where
  "wanted_can_errors = 0x1 OR 0x10 OR 0x20 OR 0x40"

definition IFNAMSIZ :: nat where
  "IFNAMSIZ = 16"

text \<open>The second result is what was written to \<open>std::cout\<close>.\<close>

definition ExternalInterfaceCan_open ::
  "string \<Rightarrow> u32 \<Rightarrow> u32 \<Rightarrow> can_answers \<Rightarrow> string \<times> descriptors \<Rightarrow> ExternalInterfaceCan io \<times> string \<times> descriptors" where
  "ExternalInterfaceCan_open device_name canIdRx canIdTx sys s =
     (let (cout, D) = s in
      if \<not> can_socket_ok sys then (Raises Runtime_error, cout, D)
      else let (fd, D) = new_fd D in
      if \<not> can_nonblocking_ok sys then (Raises Runtime_error, cout, D)
      else if IFNAMSIZ < length device_name + 1 then (Memory_error, cout, D)
      else case can_index sys of
        None \<Rightarrow> (Raises Runtime_error, cout, D)
      | Some ifindex \<Rightarrow>
      (case can_mtu sys of
        None \<Rightarrow> (Raises Runtime_error, cout, D)
      | Some mtu \<Rightarrow>
          if mtu \<noteq> sizeof_can_frame \<and> mtu \<noteq> sizeof_canfd_frame then (Raises Runtime_error, cout, D)
          else
            let cout = cout @ (if mtu = sizeof_can_frame then ''Detected Classical CAN interface ''
                               else ''Detected FDCAN interface '') @ device_name @ endl
            in if mtu \<noteq> sizeof_can_frame \<and> \<not> can_fd_ok sys then (Raises Runtime_error, cout, D)
            else if \<not> can_err_filter_ok sys then (Raises Runtime_error, cout, D)
            else if \<not> can_filter_ok sys then (Raises Runtime_error, cout, D)
            else (Returns \<lparr>can_ifindex = ifindex, can_filter = (canIdRx, 0x7FF), can_id_tx = canIdTx, can_id_rx = canIdRx,
                    err_mask = wanted_can_errors,
                    max_data_len = (if mtu = sizeof_can_frame then 8 else 64), can_fd = fd\<rparr>, cout, D)))"

definition ExternalInterfaceCan_destructor :: "ExternalInterfaceCan \<Rightarrow> descriptors \<Rightarrow> descriptors" where
  "ExternalInterfaceCan_destructor self D = close (can_fd self) D"

lemma opened_can_data_len:
  "ExternalInterfaceCan_open device_name canIdRx canIdTx sys s = (Returns self, s') \<Longrightarrow> max_data_len self \<in> {8, 64}"
  by (auto simp: ExternalInterfaceCan_open_def Let_def split: if_splits option.splits prod.splits)

lemma long_can_name_overflows:
  assumes "can_socket_ok sys" and "can_nonblocking_ok sys" and "16 \<le> length device_name"
  shows "fst (ExternalInterfaceCan_open device_name canIdRx canIdTx sys s) = Memory_error"
  using assms by (auto simp: ExternalInterfaceCan_open_def IFNAMSIZ_def split: prod.split)

section \<open>What a socket owns\<close>

text \<open>A constructor that returns has opened one descriptor, which its object keeps.\<close>

lemma fpga_open_cases:
  assumes "ExternalInterfaceFpga_open flags sys D = (Returns self, D')"
  shows "fpga_fd self \<notin> set (fds D)" and "D' = D\<lparr>fds := fpga_fd self # fds D\<rparr>"
    and "fpga_streams self = \<lparr>fd_read = Some (fpga_fd self), fd_write = Some (fpga_fd self)\<rparr>"
  using assms new_fd_cases [of D] fdopen_streams_cases(1)
  by (auto simp: ExternalInterfaceFpga_open_def Let_def split: if_splits prod.splits)

lemma udp_open_cases:
  assumes "ExternalInterfaceUdp_open in_port out_port prio sys (out, D) = (Returns self, out', D')"
  shows "udp_fd self \<notin> set (fds D)" and "D' = D\<lparr>fds := udp_fd self # fds D\<rparr>"
  using assms new_fd_cases [of D]
  by (auto simp: ExternalInterfaceUdp_open_def Let_def split: if_splits prod.splits option.splits)

lemma tcp_open_cases:
  assumes "ExternalInterfaceTcpClient_open port sys D = (Returns self, D')"
  shows "tcp_fd self \<notin> set (fds D)" and "D' = D\<lparr>fds := tcp_fd self # fds D\<rparr>"
  using assms new_fd_cases [of D]
  by (auto simp: ExternalInterfaceTcpClient_open_def Let_def split: if_splits prod.splits option.splits)

lemma can_open_cases:
  assumes "ExternalInterfaceCan_open device_name canIdRx canIdTx sys (cout, D) = (Returns self, cout', D')"
  shows "can_fd self \<notin> set (fds D)" and "D' = D\<lparr>fds := can_fd self # fds D\<rparr>"
  using assms new_fd_cases [of D]
  by (auto simp: ExternalInterfaceCan_open_def Let_def split: if_splits prod.splits option.splits)

end
