(* ===== verification/Device_Files.thy ===== *)
theory Device_Files
  imports Descriptors Uri
begin

text \<open>
  The interfaces of \<open>src/ExternalInterface.cpp\<close> that make files: named pipes are created when they do not
  exist and removed in the end, and a pseudo terminal is reachable through a symbolic link. The file
  system maps the name of a file to what it is. What the user may do, and which other calls
  succeed, is given from outside.
\<close>

section \<open>Files\<close>

datatype unix_file = Fifo | Terminal | Regular | Symlink string

type_synonym files = "string \<Rightarrow> unix_file option"

text \<open>Following symbolic links, at most as many as the system allows.\<close>

fun resolve :: "nat \<Rightarrow> files \<Rightarrow> string \<Rightarrow> unix_file option" where
  "resolve 0 fs path = None"
| "resolve (Suc n) fs path =
     (case fs path of
        Some (Symlink target) \<Rightarrow> resolve n fs target
      | found \<Rightarrow> found)"

definition stat :: "files \<Rightarrow> string \<Rightarrow> unix_file option" where
  "stat fs path = resolve 41 fs path"

record permissions =
  may_open :: "string \<Rightarrow> bool"
  may_create :: "string \<Rightarrow> bool"
  may_unlink :: "string \<Rightarrow> bool"
  may_look :: "string \<Rightarrow> bool"
  read_stream_ok :: bool
  write_stream_ok :: bool

definition can_open :: "permissions \<Rightarrow> files \<Rightarrow> string \<Rightarrow> bool" where
  "can_open sys fs path \<longleftrightarrow> stat fs path \<noteq> None \<and> may_open sys path"

text \<open>A call that makes a file fails when there is one, be it a link to nowhere.\<close>

definition can_make :: "permissions \<Rightarrow> files \<Rightarrow> string \<Rightarrow> bool" where
  "can_make sys fs path \<longleftrightarrow> fs path = None \<and> may_create sys path"

lemma stat_direct [simp]:
  "fs path = None \<Longrightarrow> stat fs path = None"
  "fs path = Some Fifo \<Longrightarrow> stat fs path = Some Fifo"
  "fs path = Some Terminal \<Longrightarrow> stat fs path = Some Terminal"
  "fs path = Some Regular \<Longrightarrow> stat fs path = Some Regular"
  by (simp_all add: stat_def numeral_eq_Suc)

section \<open>Named pipes\<close>

text \<open>
  Opening one of the two pipes; the result is the descriptor, and whether the pipe was created here. A
  descriptor that turns out to be of no pipe stays open.
\<close>

definition open_fifo ::
  "permissions \<Rightarrow> string \<Rightarrow> files \<times> descriptors \<Rightarrow> (cpp_exception + nat \<times> bool) \<times> files \<times> descriptors" where
  "open_fifo sys path s =
     (let (fs, D) = s in
      if can_open sys fs path
      then let (fd, D) = new_fd D in (if stat fs path = Some Fifo then Inr (fd, False) else Inl Runtime_error, fs, D)
      else if \<not> can_make sys fs path then (Inl Runtime_error, fs, D)
      else let fs = fs(path \<mapsto> Fifo) in
        if \<not> can_open sys fs path then (Inl Runtime_error, fs, D)
        else let (fd, D) = new_fd D in (if stat fs path = Some Fifo then Inr (fd, True) else Inl Runtime_error, fs, D))"

record ExternalInterfacePipe =
  str_in :: nat
  str_out :: nat
  unlinkRxPipeInDtor :: bool
  unlinkTxPipeInDtor :: bool
  pipename_rx :: string
  pipename_tx :: string

text \<open>When the constructor throws, no destructor runs, and the two streams are plain pointers.\<close>

definition ExternalInterfacePipe_open ::
  "permissions \<Rightarrow> string \<Rightarrow> files \<times> descriptors \<Rightarrow> (cpp_exception + ExternalInterfacePipe) \<times> files \<times> descriptors" where
  "ExternalInterfacePipe_open sys pipename s =
     (let rx = pipename @ ''_rx''; tx = pipename @ ''_tx'' in
      if ExternalInterfacePipe_refuses pipename then (Inl Runtime_error, s)
      else case open_fifo sys rx s of
        (Inl e, s) \<Rightarrow> (Inl e, s)
      | (Inr (fd_in, unlinkRx), s) \<Rightarrow>
          (case open_fifo sys tx s of
             (Inl e, s) \<Rightarrow> (Inl e, s)
           | (Inr (fd_out, unlinkTx), s) \<Rightarrow>
               if \<not> read_stream_ok sys then (Inl Runtime_error, s)
               else if \<not> write_stream_ok sys then (Inl Runtime_error, s)
               else (Inr \<lparr>str_in = fd_in, str_out = fd_out, unlinkRxPipeInDtor = unlinkRx, unlinkTxPipeInDtor = unlinkTx,
                       pipename_rx = rx, pipename_tx = tx\<rparr>, s)))"

text \<open>The destructor does not look at the result of \<open>unlink\<close>.\<close>

definition unlink :: "permissions \<Rightarrow> string \<Rightarrow> files \<Rightarrow> files" where
  "unlink sys path fs = (if may_unlink sys path then fs(path := None) else fs)"

definition ExternalInterfacePipe_destructor ::
  "permissions \<Rightarrow> ExternalInterfacePipe \<Rightarrow> files \<times> descriptors \<Rightarrow> files \<times> descriptors" where
  "ExternalInterfacePipe_destructor sys self s =
     (let (fs, D) = s;
          D = fclose (str_in self) D;
          D = fclose (str_out self) D;
          fs = (if unlinkRxPipeInDtor self then unlink sys (pipename_rx self) fs else fs);
          fs = (if unlinkTxPipeInDtor self then unlink sys (pipename_tx self) fs else fs)
      in (fs, D))"

section \<open>Links to pseudo terminals\<close>

text \<open>
  \<open>lstat\<close> fails with \<open>ENOENT\<close> when there is no file, and otherwise when the user may not look; \<open>readlink\<close>
  fails with \<open>EINVAL\<close> on a file that is no link. \<open>own\<close> is the name of the terminal.
\<close>

definition ExternalInterfacePty_prepareSymlink ::
  "permissions \<Rightarrow> string \<Rightarrow> string \<Rightarrow> string \<Rightarrow> files \<Rightarrow> (cpp_exception + unit) \<times> string \<times> files" where
  "ExternalInterfacePty_prepareSymlink sys symlinkname own out fs =
     (let make = (\<lambda>out fs. if can_make sys fs symlinkname then (Inr (), out, fs(symlinkname \<mapsto> Symlink own))
                           else (Inl Runtime_error, out, fs))
      in if \<not> may_look sys symlinkname then (Inl Runtime_error, out, fs)
      else case fs symlinkname of
        None \<Rightarrow> make out fs
      | Some (Symlink symlinktargetname) \<Rightarrow>
          if stat fs symlinktargetname = None then (Inl Runtime_error, out, fs)
          else let out = out @ ''ExternalInterfacePty: symlink '' @ [CHR 0x27] @ symlinkname @ [CHR 0x27] @
                 '' was pointing to '' @ [CHR 0x27] @ symlinktargetname @ [CHR 0x27] @ '' but is dead now, recreating'' @ endl
            in if \<not> may_unlink sys symlinkname then (Inl Runtime_error, out, fs)
            else make out (fs(symlinkname := None))
      | Some _ \<Rightarrow> (Inl Runtime_error, out, fs))"

definition ExternalInterfacePty_cleanSymlink ::
  "permissions \<Rightarrow> string \<Rightarrow> string \<Rightarrow> files \<Rightarrow> (cpp_exception + unit) \<times> files" where
  "ExternalInterfacePty_cleanSymlink sys symlinkname own fs =
     (if \<not> may_look sys symlinkname then (Inl Runtime_error, fs)
      else case fs symlinkname of
        Some (Symlink symlinktargetname) \<Rightarrow>
          if symlinktargetname \<noteq> own then (Inl Runtime_error, fs)
          else if \<not> may_unlink sys symlinkname then (Inl Runtime_error, fs)
          else (Inr (), fs(symlinkname := None))
      | _ \<Rightarrow> (Inl Runtime_error, fs))"

text \<open>
  The name of the terminal is what \<open>ptsname\<close> answers for its descriptor, here a field of the object. What
  \<open>posix_openpt\<close> and the two calls that give access answer comes from outside. When the constructor throws, the
  streams are destroyed, but neither the link nor a descriptor without a stream.
\<close>

record pty_answers =
  openpt_ok :: bool
  grantpt_ok :: bool
  unlockpt_ok :: bool
  ptsname :: string

record ExternalInterfacePty =
  pty_streams :: ExternalInterfaceStream
  pty_fd :: nat
  pty_symlinkname :: string
  pty_own :: string

definition ExternalInterfacePty_open ::
  "permissions \<Rightarrow> pty_answers \<Rightarrow> string \<Rightarrow> string \<Rightarrow> files \<times> descriptors \<Rightarrow>
    (cpp_exception + ExternalInterfacePty) \<times> string \<times> files \<times> descriptors" where
  "ExternalInterfacePty_open sys pty symlinkname out s =
     (let (fs, D) = s in
      if ExternalInterfacePty_refuses symlinkname then (Inl Runtime_error, out, fs, D)
      else if \<not> openpt_ok pty then (Inl Runtime_error, out, fs, D)
      else let (fd, D) = new_fd D in
        if \<not> grantpt_ok pty then (Inl Runtime_error, out, fs, D)
        else if \<not> unlockpt_ok pty then (Inl Runtime_error, out, fs, D)
        else let own = ptsname pty in
          case ExternalInterfacePty_prepareSymlink sys symlinkname own out fs of
            (Inl e, out, fs) \<Rightarrow> (Inl e, out, fs, D)
          | (Inr _, out, fs) \<Rightarrow>
              (let (streams, made) = fdopen_streams fd (read_stream_ok sys) (write_stream_ok sys) in
               if \<not> made then (Inl Runtime_error, out, fs, ExternalInterfaceStream_destructor streams D)
               else (Inr \<lparr>pty_streams = streams, pty_fd = fd, pty_symlinkname = symlinkname, pty_own = own\<rparr>,
                 out @ ''ExternalInterfacePty: the slave side is named '' @ [CHR 0x27] @ own @ [CHR 0x27] @
                   '', the symlink is '' @ [CHR 0x27] @ symlinkname @ [CHR 0x27] @ endl, fs, D)))"

text \<open>An exception that leaves a destructor ends the program: \<open>None\<close>.\<close>

definition ExternalInterfacePty_destructor ::
  "permissions \<Rightarrow> ExternalInterfacePty \<Rightarrow> files \<times> descriptors \<Rightarrow> (files \<times> descriptors) option" where
  "ExternalInterfacePty_destructor sys self s =
     (let (fs, D) = s in
      case ExternalInterfacePty_cleanSymlink sys (pty_symlinkname self) (pty_own self) fs of
        (Inl e, fs) \<Rightarrow> None
      | (Inr _, fs) \<Rightarrow>
          (let D = close (pty_fd self) D in Some (fs, ExternalInterfaceStream_destructor (pty_streams self) D)))"

section \<open>Lemmas\<close>

lemma open_fifo_cases:
  assumes "open_fifo sys path (fs, D) = (Inr (fd, created), fs', D')"
  shows "stat fs' path = Some Fifo" and "created \<Longrightarrow> fs path = None \<and> fs' = fs(path \<mapsto> Fifo)"
    and "\<not> created \<Longrightarrow> fs' = fs" and "fd \<notin> set (fds D)" and "D' = D\<lparr>fds := fd # fds D\<rparr>"
  using assms new_fd_cases [of D]
  by (auto simp: open_fifo_def can_make_def Let_def split: if_splits prod.splits)

lemma open_fifo_fails:
  assumes "open_fifo sys path (fs, D) = (Inl e, fs', D')"
  shows "D' = D \<or> (\<exists>fd. D' = D\<lparr>fds := fd # fds D\<rparr>)"
  using assms new_fd_cases(2) [of D]
  by (auto simp: open_fifo_def Let_def split: if_splits prod.splits)

text \<open>A constructor that returns has made two descriptors, and the pipes that are marked to be removed.\<close>

lemma pipe_open_cases:
  assumes "ExternalInterfacePipe_open sys pipename (fs, D) = (Inr self, fs', D')"
  obtains fs1 where "open_fifo sys (pipename_rx self) (fs, D) = (Inr (str_in self, unlinkRxPipeInDtor self), fs1, D\<lparr>fds := str_in self # fds D\<rparr>)"
    and "open_fifo sys (pipename_tx self) (fs1, D\<lparr>fds := str_in self # fds D\<rparr>) = (Inr (str_out self, unlinkTxPipeInDtor self), fs', D')"
    and "pipename_rx self = pipename @ ''_rx''" and "pipename_tx self = pipename @ ''_tx''"
proof -
  obtain fd_in rx fs1 D1 fd_out tx where o: "open_fifo sys (pipename @ ''_rx'') (fs, D) = (Inr (fd_in, rx), fs1, D1)"
    "open_fifo sys (pipename @ ''_tx'') (fs1, D1) = (Inr (fd_out, tx), fs', D')"
    and "self = \<lparr>str_in = fd_in, str_out = fd_out, unlinkRxPipeInDtor = rx, unlinkTxPipeInDtor = tx,
      pipename_rx = pipename @ ''_rx'', pipename_tx = pipename @ ''_tx''\<rparr>"
    using assms by (auto simp: ExternalInterfacePipe_open_def Let_def split: if_splits prod.splits sum.splits)
  with that open_fifo_cases(5) [OF o(1)] show thesis by simp
qed

lemma pipe_descriptors:
  assumes "ExternalInterfacePipe_open sys pipename (fs, D) = (Inr self, fs', D')"
  shows "D' = D\<lparr>fds := str_out self # str_in self # fds D\<rparr>" and "str_in self \<notin> set (fds D)"
    and "str_out self \<notin> set (fds D)" and "str_in self \<noteq> str_out self"
proof -
  obtain fs1 where o:
    "open_fifo sys (pipename_rx self) (fs, D) = (Inr (str_in self, unlinkRxPipeInDtor self), fs1, D\<lparr>fds := str_in self # fds D\<rparr>)"
    "open_fifo sys (pipename_tx self) (fs1, D\<lparr>fds := str_in self # fds D\<rparr>) = (Inr (str_out self, unlinkTxPipeInDtor self), fs', D')"
    by (rule pipe_open_cases [OF assms])
  show "D' = D\<lparr>fds := str_out self # str_in self # fds D\<rparr>" using open_fifo_cases(5) [OF o(2)] by simp
  show "str_in self \<notin> set (fds D)" by (rule open_fifo_cases(4) [OF o(1)])
  show "str_out self \<notin> set (fds D)" "str_in self \<noteq> str_out self" using open_fifo_cases(4) [OF o(2)] by auto
qed

lemma pipe_is_restored:
  assumes "ExternalInterfacePipe_open sys pipename (fs, D) = (Inr self, fs', D')" and "\<And>path. may_unlink perm path"
  shows "stat fs' (pipename_tx self) = Some Fifo" and "fst (ExternalInterfacePipe_destructor perm self (fs', D'')) = fs"
proof -
  obtain fs1 where o:
    "open_fifo sys (pipename_rx self) (fs, D) = (Inr (str_in self, unlinkRxPipeInDtor self), fs1, D\<lparr>fds := str_in self # fds D\<rparr>)"
    "open_fifo sys (pipename_tx self) (fs1, D\<lparr>fds := str_in self # fds D\<rparr>) = (Inr (str_out self, unlinkTxPipeInDtor self), fs', D')"
    "pipename_rx self = pipename @ ''_rx''" "pipename_tx self = pipename @ ''_tx''"
    by (rule pipe_open_cases [OF assms(1)])
  note rx = open_fifo_cases [OF o(1)] and tx = open_fifo_cases [OF o(2)]
  show "stat fs' (pipename_tx self) = Some Fifo" by (rule tx(1))
  show "fst (ExternalInterfacePipe_destructor perm self (fs', D'')) = fs"
    using rx(2,3) tx(2,3) assms(2) o(3,4)
    by (cases "unlinkRxPipeInDtor self"; cases "unlinkTxPipeInDtor self")
      (auto simp: ExternalInterfacePipe_destructor_def unlink_def fun_eq_iff)
qed

text \<open>
  A constructor that throws after it has made the first pipe leaves this pipe and two descriptors behind.
\<close>

lemma failed_pipe_leaves_file:
  assumes "pipename \<noteq> []" and "fs (pipename @ ''_rx'') = None" and "fs (pipename @ ''_tx'') = Some Regular"
    and "\<And>path. may_open sys path" and "\<And>path. may_create sys path"
  shows "\<exists>D'. ExternalInterfacePipe_open sys pipename (fs, D) = (Inl Runtime_error, fs(pipename @ ''_rx'' \<mapsto> Fifo), D') \<and>
    length (fds D') = length (fds D) + 2"
  using assms
  by (simp add: ExternalInterfacePipe_open_def ExternalInterfacePipe_refuses_def open_fifo_def can_open_def can_make_def
      new_fd_def Let_def)

lemma pty_open_cases:
  assumes "ExternalInterfacePty_open sys pty symlinkname out (fs, D) = (Inr self, out', fs', D')"
  shows "pty_symlinkname self = symlinkname" and "pty_fd self \<notin> set (fds D)" and "D' = D\<lparr>fds := pty_fd self # fds D\<rparr>"
    and "pty_streams self = \<lparr>fd_read = Some (pty_fd self), fd_write = Some (pty_fd self)\<rparr>"
    and "fs symlinkname = None \<Longrightarrow> fs' = fs(symlinkname \<mapsto> Symlink (pty_own self))"
  using assms new_fd_cases [of D] fdopen_streams_cases(1)
  by (auto simp: ExternalInterfacePty_open_def ExternalInterfacePty_prepareSymlink_def Let_def
      split: if_splits prod.splits sum.splits)

text \<open>
  An interface whose name was free leaves no link when it is destroyed, but the link stays when the
  constructor throws after it has made it.
\<close>

lemma pty_link_is_removed:
  assumes "ExternalInterfacePty_open sys pty symlinkname out (fs, D) = (Inr self, out', fs', D')"
    and "fs symlinkname = None" and "may_unlink perm symlinkname" and "may_look perm symlinkname"
  shows "\<exists>D2. ExternalInterfacePty_destructor perm self (fs', D'') = Some (fs, D2)"
proof -
  have "fs(symlinkname := None) = fs" using assms(2) by auto
  then show ?thesis
    using pty_open_cases(1,5) [OF assms(1)] assms(2-4)
    by (simp add: ExternalInterfacePty_destructor_def ExternalInterfacePty_cleanSymlink_def)
qed

lemma failed_pty_leaves_link:
  assumes "symlinkname \<noteq> []" and "fs symlinkname = None" and "may_look sys symlinkname" and "may_create sys symlinkname"
    and "openpt_ok pty" and "grantpt_ok pty" and "unlockpt_ok pty" and "\<not> read_stream_ok sys"
  shows "\<exists>D'. ExternalInterfacePty_open sys pty symlinkname out (fs, D) =
      (Inl Runtime_error, out, fs(symlinkname \<mapsto> Symlink (ptsname pty)), D') \<and>
    length (fds D') = length (fds D) + 1"
  using assms
  by (simp add: ExternalInterfacePty_open_def ExternalInterfacePty_refuses_def ExternalInterfacePty_prepareSymlink_def
      can_make_def new_fd_def fdopen_streams_def Let_def)

section \<open>Properties\<close>

text \<open>
  C39: the test for dead links is the wrong way round. A link whose target is gone is refused, as if
  it were in use, and nothing changes; a link whose target is alive is reported as dead and replaced by
  one to the own terminal, so that its owner can no longer be reached, and ends with an exception in its
  destructor.
\<close>

theorem live_links_are_stolen:
  assumes "fs symlinkname = Some (Symlink target)" and "may_look sys symlinkname" and "may_unlink sys symlinkname"
    and "may_create sys symlinkname" and "target \<noteq> own"
    and "pty_symlinkname owner = symlinkname" and "pty_own owner = target"
  shows "if stat fs target = None
    then ExternalInterfacePty_prepareSymlink sys symlinkname own text fs = (Inl Runtime_error, text, fs)
    else snd (snd (ExternalInterfacePty_prepareSymlink sys symlinkname own text fs)) = fs(symlinkname \<mapsto> Symlink own) \<and>
      ExternalInterfacePty_destructor sys owner (fs(symlinkname \<mapsto> Symlink own), D) = None"
  using assms
  by (simp add: ExternalInterfacePty_prepareSymlink_def ExternalInterfacePty_destructor_def
      ExternalInterfacePty_cleanSymlink_def can_make_def Let_def)

lemma live_links_are_stolen_witness:
  "let sys = \<lparr>may_open = (\<lambda>_. True), may_create = (\<lambda>_. True), may_unlink = (\<lambda>_. True), may_look = (\<lambda>_. True),
         read_stream_ok = True, write_stream_ok = True\<rparr>;
       fs = [''tty'' \<mapsto> Symlink ''pts1'', ''pts1'' \<mapsto> Terminal]
   in snd (snd (ExternalInterfacePty_prepareSymlink sys ''tty'' ''pts2'' [] fs)) = fs(''tty'' \<mapsto> Symlink ''pts2'')"
  using live_links_are_stolen [of "[''tty'' \<mapsto> Symlink ''pts1'', ''pts1'' \<mapsto> Terminal]" "''tty''" "''pts1''"
      "\<lparr>may_open = (\<lambda>_. True), may_create = (\<lambda>_. True), may_unlink = (\<lambda>_. True), may_look = (\<lambda>_. True),
         read_stream_ok = True, write_stream_ok = True\<rparr>"
      "''pts2''" "\<lparr>pty_streams = ExternalInterfaceStream_new, pty_fd = 3, pty_symlinkname = ''tty'', pty_own = ''pts1''\<rparr>" "[]"
      "\<lparr>fds = [3], failed_closes = 0\<rparr>"]
  by (simp add: Let_def)

end
