(* ===== verification/Devices.thy ===== *)
theory Devices
  imports Device_Open Device_Files
begin

text \<open>
  All devices of a process together: what the system holds, the objects by the class of their uri, how one
  is made and destroyed, and what remains after any order of making and destroying them.
\<close>

section \<open>The state of the system\<close>

record system =
  ports :: "string \<Rightarrow> serial_port"
  files_of :: files
  descriptors_of :: descriptors
  cout_text :: string
  cerr_text :: string

text \<open>What the calls of a constructor are answered.\<close>

record answers =
  serial_sys :: serial_answers
  fpga_sys :: fpga_answers
  udp_sys :: udp_answers
  tcp_sys :: tcp_answers
  can_sys :: can_answers
  pty_sys :: pty_answers
  user :: permissions

datatype device =
    Serial_object string ExternalInterfaceSerial
  | Fpga_object ExternalInterfaceFpga
  | Udp_object ExternalInterfaceUdp
  | Tcp_object ExternalInterfaceTcpClient
  | Can_object ExternalInterfaceCan
  | Pipe_object ExternalInterfacePipe
  | Pty_object ExternalInterfacePty

text \<open>Whether the program goes on with the object, or with an exception.\<close>

fun made :: "('a \<Rightarrow> device) \<Rightarrow> 'a io \<Rightarrow> device io" where
  "made obj (Returns self) = Returns (obj self)"
| "made obj (Raises e) = Raises e"
| "made obj Memory_error = Memory_error"
| "made obj Waiting = Waiting"

fun made_or_thrown :: "('a \<Rightarrow> device) \<Rightarrow> cpp_exception + 'a \<Rightarrow> device io" where
  "made_or_thrown obj (Inr self) = Returns (obj self)"
| "made_or_thrown obj (Inl e) = Raises e"

fun device_new :: "u8 \<Rightarrow> interface_config \<Rightarrow> answers \<Rightarrow> system \<Rightarrow> device io \<times> system" where
  "device_new flags (Serial_port name baudrate) sys s =
     (let (r, port, D) = ExternalInterfaceSerial_open baudrate (serial_sys sys) (ports s name, descriptors_of s)
      in (made (Serial_object name) r, s\<lparr>ports := (ports s)(name := port), descriptors_of := D\<rparr>))"
| "device_new flags (Fpga_device name) sys s =
     (let (r, D) = ExternalInterfaceFpga_open flags (fpga_sys sys) (descriptors_of s)
      in (made Fpga_object r, s\<lparr>descriptors_of := D\<rparr>))"
| "device_new flags (Udp_socket host in_port out_port priority) sys s =
     (let (r, err, D) = ExternalInterfaceUdp_open in_port out_port priority (udp_sys sys) (cerr_text s, descriptors_of s)
      in (made Udp_object r, s\<lparr>cerr_text := err, descriptors_of := D\<rparr>))"
| "device_new flags (Tcp_client host tcp_port) sys s =
     (let (r, D) = ExternalInterfaceTcpClient_open tcp_port (tcp_sys sys) (descriptors_of s)
      in (made Tcp_object r, s\<lparr>descriptors_of := D\<rparr>))"
| "device_new flags (Can_socket name rx tx) sys s =
     (let (r, cout, D) = ExternalInterfaceCan_open name rx tx (can_sys sys) (cout_text s, descriptors_of s)
      in (made Can_object r, s\<lparr>cout_text := cout, descriptors_of := D\<rparr>))"
| "device_new flags (Named_pipe name) sys s =
     (let (r, fs, D) = ExternalInterfacePipe_open (user sys) name (files_of s, descriptors_of s)
      in (made_or_thrown Pipe_object r, s\<lparr>files_of := fs, descriptors_of := D\<rparr>))"
| "device_new flags (Pseudo_terminal name) sys s =
     (let (r, err, fs, D) = ExternalInterfacePty_open (user sys) (pty_sys sys) name (cerr_text s) (files_of s, descriptors_of s)
      in (made_or_thrown Pty_object r, s\<lparr>cerr_text := err, files_of := fs, descriptors_of := D\<rparr>))"

text \<open>The virtual destructor; \<open>None\<close> when an exception leaves it.\<close>

fun device_delete :: "permissions \<Rightarrow> device \<Rightarrow> system \<Rightarrow> system option" where
  "device_delete sys (Serial_object name self) s =
     (let (port, D) = ExternalInterfaceSerial_destructor self (ports s name, descriptors_of s)
      in Some (s\<lparr>ports := (ports s)(name := port), descriptors_of := D\<rparr>))"
| "device_delete sys (Fpga_object self) s = Some (s\<lparr>descriptors_of := ExternalInterfaceFpga_destructor self (descriptors_of s)\<rparr>)"
| "device_delete sys (Udp_object self) s = Some (s\<lparr>descriptors_of := ExternalInterfaceUdp_destructor self (descriptors_of s)\<rparr>)"
| "device_delete sys (Tcp_object self) s = Some (s\<lparr>descriptors_of := ExternalInterfaceTcpClient_destructor self (descriptors_of s)\<rparr>)"
| "device_delete sys (Can_object self) s = Some (s\<lparr>descriptors_of := ExternalInterfaceCan_destructor self (descriptors_of s)\<rparr>)"
| "device_delete sys (Pipe_object self) s =
     (let (fs, D) = ExternalInterfacePipe_destructor sys self (files_of s, descriptors_of s)
      in Some (s\<lparr>files_of := fs, descriptors_of := D\<rparr>))"
| "device_delete sys (Pty_object self) s =
     (case ExternalInterfacePty_destructor sys self (files_of s, descriptors_of s) of
        None \<Rightarrow> None
      | Some (fs, D) \<Rightarrow> Some (s\<lparr>files_of := fs, descriptors_of := D\<rparr>))"

section \<open>What a device owns\<close>

fun device_fds :: "device \<Rightarrow> nat list" where
  "device_fds (Serial_object name self) = [serial_fd self]"
| "device_fds (Fpga_object self) = [fpga_fd self]"
| "device_fds (Udp_object self) = [udp_fd self]"
| "device_fds (Tcp_object self) = [tcp_fd self]"
| "device_fds (Can_object self) = [can_fd self]"
| "device_fds (Pipe_object self) = [str_out self, str_in self]"
| "device_fds (Pty_object self) = [pty_fd self]"

text \<open>The streams of a device that is derived from \<open>ExternalInterfaceStream\<close>, and its descriptor.\<close>

fun device_streams :: "device \<Rightarrow> (ExternalInterfaceStream \<times> nat) option" where
  "device_streams (Serial_object name self) = Some (serial_streams self, serial_fd self)"
| "device_streams (Fpga_object self) = Some (fpga_streams self, fpga_fd self)"
| "device_streams (Pty_object self) = Some (pty_streams self, pty_fd self)"
| "device_streams _ = None"

definition streams_agree :: "device \<Rightarrow> bool" where
  "streams_agree d \<longleftrightarrow> (case device_streams d of None \<Rightarrow> True | Some (st, fd) \<Rightarrow> st = \<lparr>fd_read = Some fd, fd_write = Some fd\<rparr>)"

abbreviation open_fds :: "system \<Rightarrow> nat list" where
  "open_fds s \<equiv> fds (descriptors_of s)"

lemma made_returns [simp]: "made obj r = Returns d \<longleftrightarrow> (\<exists>self. r = Returns self \<and> d = obj self)"
  by (cases r) auto

lemma made_or_thrown_returns [simp]: "made_or_thrown obj r = Returns d \<longleftrightarrow> (\<exists>self. r = Inr self \<and> d = obj self)"
  by (cases r) auto

lemmas open_cases = serial_open_cases fpga_open_cases udp_open_cases tcp_open_cases can_open_cases pipe_descriptors pty_open_cases(1-4)

lemma device_new_owns:
  assumes "device_new flags config sys s = (Returns d, s')"
  shows "descriptors_of s' = (descriptors_of s)\<lparr>fds := device_fds d @ open_fds s\<rparr>"
    and "distinct (device_fds d)" and "set (device_fds d) \<inter> set (open_fds s) = {}" and "streams_agree d"
  using assms
  by (cases config; auto simp: streams_agree_def split: prod.splits dest: open_cases)+

text \<open>A constructor that does not return leaves descriptors behind at most; it closes none that was open before.\<close>

lemma stream_fails_harmlessly:
  assumes "fdopen_streams fd r w = (streams, False)" and "fd \<notin> set (fds D)"
  shows "ExternalInterfaceStream_destructor streams (D\<lparr>fds := fd # fds D\<rparr>) \<in> {D, D\<lparr>fds := fd # fds D\<rparr>}"
  using fdopen_streams_cases(2) [OF assms(1)] assms(2)
  by (auto simp: ExternalInterfaceStream_destructor_def ExternalInterfaceStream_new_def fclose_def close_def)

definition only_adds :: "descriptors \<Rightarrow> descriptors \<Rightarrow> bool" where
  "only_adds D D' \<longleftrightarrow> set (fds D) \<subseteq> set (fds D') \<and> failed_closes D' = failed_closes D"

lemma only_adds_simps [simp]: "only_adds D D" "only_adds D (D\<lparr>fds := ns @ fds D\<rparr>)" "only_adds D (D\<lparr>fds := n # fds D\<rparr>)"
  by (auto simp: only_adds_def)

lemma only_adds_trans: "only_adds D D' \<Longrightarrow> only_adds D' D'' \<Longrightarrow> only_adds D D''"
  by (auto simp: only_adds_def)

lemma new_fd_only_adds: "new_fd D = (fd, D') \<Longrightarrow> only_adds D D'"
  using new_fd_cases(2) by fastforce

lemma stream_constructor_only_adds:
  assumes "new_fd D = (fd, D')" and "fdopen_streams fd r w = (streams, False)"
  shows "only_adds D (ExternalInterfaceStream_destructor streams D')"
  using stream_fails_harmlessly [OF assms(2) new_fd_cases(1) [OF assms(1)]] new_fd_cases(2) [OF assms(1)] by auto

lemma open_fifo_only_adds:
  assumes "open_fifo sys path (fs, D) = (r, fs', D')"
  shows "only_adds D D'"
proof (cases r)
  case (Inl e)
  then show ?thesis using open_fifo_fails assms by fastforce
next
  case (Inr x)
  then show ?thesis using open_fifo_cases(5) assms by (cases x) fastforce
qed

lemma pipe_open_only_adds:
  assumes "ExternalInterfacePipe_open sys pipename (fs, D) = (r, fs', D')"
  shows "only_adds D D'"
  using assms
  by (auto simp: ExternalInterfacePipe_open_def Let_def split: if_splits prod.splits sum.splits
      dest: open_fifo_only_adds only_adds_trans [OF open_fifo_only_adds open_fifo_only_adds])

lemma stream_devices_only_add:
  "ExternalInterfaceSerial_open baudrate serial (port, D) = (r, port', D') \<Longrightarrow> only_adds D D'"
  "ExternalInterfaceFpga_open flags fpga D = (r', D') \<Longrightarrow> only_adds D D'"
  "ExternalInterfacePty_open perm pty name out (fs, D) = (r'', out', fs', D') \<Longrightarrow> only_adds D D'"
  by (auto simp: ExternalInterfaceSerial_open_def ExternalInterfaceFpga_open_def ExternalInterfacePty_open_def Let_def
      split: if_splits prod.splits sum.splits dest: new_fd_only_adds stream_constructor_only_adds)

lemma sockets_only_add:
  "ExternalInterfaceUdp_open in_port out_port priority udp (out, D) = (r, out', D') \<Longrightarrow> only_adds D D'"
  "ExternalInterfaceTcpClient_open tcp_port tcp D = (r', D') \<Longrightarrow> only_adds D D'"
  "ExternalInterfaceCan_open name rx tx can (out, D) = (r'', out', D') \<Longrightarrow> only_adds D D'"
  by (auto simp: ExternalInterfaceUdp_open_def ExternalInterfaceTcpClient_open_def ExternalInterfaceCan_open_def Let_def
      split: if_splits prod.splits option.splits dest: new_fd_only_adds)

lemma device_new_only_adds:
  assumes "device_new flags config sys s = (r, s')"
  shows "only_adds (descriptors_of s) (descriptors_of s')"
  using assms
  by (cases config; auto split: prod.splits dest: stream_devices_only_add sockets_only_add pipe_open_only_adds)

text \<open>
  A destructor closes what its device owns. Devices with streams close their descriptor before the base class
  closes the two streams on it, so that two closes fail.
\<close>

lemma device_delete_closes:
  assumes "device_delete sys d s = Some s'" and "streams_agree d" and "distinct (device_fds d)"
    and "set (device_fds d) \<subseteq> set (open_fds s)"
  shows "descriptors_of s' = (descriptors_of s)\<lparr>fds := filter (\<lambda>n. n \<notin> set (device_fds d)) (open_fds s),
    failed_closes := failed_closes (descriptors_of s) + (if device_streams d = None then 0 else 2)\<rparr>"
  using assms
  by (cases d; auto simp: streams_agree_def streams_closed_again close_open fclose_def removeAll_filter
      ExternalInterfaceSerial_destructor_def ExternalInterfaceFpga_destructor_def ExternalInterfaceUdp_destructor_def
      ExternalInterfaceTcpClient_destructor_def ExternalInterfaceCan_destructor_def ExternalInterfacePipe_destructor_def
      ExternalInterfacePty_destructor_def conj_commute Let_def split: prod.splits sum.splits option.splits)

text \<open>The settings of the ports and the files are as they were before.\<close>

lemma device_delete_restores:
  assumes "device_new flags config sys s = (Returns d, s')" and "\<And>path. may_unlink perm path \<and> may_look perm path"
    and "\<And>name. config = Pseudo_terminal name \<Longrightarrow> files_of s name = None"
  shows "\<exists>s''. device_delete perm d s' = Some s'' \<and> files_of s'' = files_of s \<and>
    (\<forall>name. port_settings (ports s'' name) = port_settings (ports s name))"
proof (cases config)
  case (Serial_port name baudrate)
  obtain self port D where o: "ExternalInterfaceSerial_open baudrate (serial_sys sys) (ports s name, descriptors_of s) = (Returns self, port, D)"
    "d = Serial_object name self" "s' = s\<lparr>ports := (ports s)(name := port), descriptors_of := D\<rparr>"
    using assms(1) by (auto simp: Serial_port split: prod.splits)
  have "port_settings (fst (ExternalInterfaceSerial_destructor self (port, D))) = port_settings (ports s name)"
    using serial_settings_are_restored(3) [OF o(1)] by simp
  then show ?thesis by (auto simp: o(2,3) split: prod.splits)
next
  case (Named_pipe name)
  obtain self fs D where o: "ExternalInterfacePipe_open (user sys) name (files_of s, descriptors_of s) = (Inr self, fs, D)"
    "d = Pipe_object self" "s' = s\<lparr>files_of := fs, descriptors_of := D\<rparr>"
    using assms(1) by (auto simp: Named_pipe split: prod.splits)
  then show ?thesis using pipe_is_restored(2) [OF o(1), of perm D] assms(2) by (auto split: prod.splits)
next
  case (Pseudo_terminal name)
  obtain self err fs D where
    o: "ExternalInterfacePty_open (user sys) (pty_sys sys) name (cerr_text s) (files_of s, descriptors_of s) = (Inr self, err, fs, D)"
    "d = Pty_object self" "s' = s\<lparr>cerr_text := err, files_of := fs, descriptors_of := D\<rparr>"
    using assms(1) by (auto simp: Pseudo_terminal split: prod.splits)
  then show ?thesis using pty_link_is_removed [OF o(1) assms(3) [OF Pseudo_terminal], of perm D] assms(2) by auto
qed (use assms(1) in \<open>auto split: prod.splits\<close>)

section \<open>Histories\<close>

text \<open>
  Devices are made and destroyed in any order. The numbers count the constructors that did not return and
  the destroyed devices with streams.
\<close>

inductive device_history :: "system \<Rightarrow> device list \<Rightarrow> nat \<Rightarrow> nat \<Rightarrow> system \<Rightarrow> bool" for s0 where
  started: "device_history s0 [] 0 0 s0"
| opened: "device_history s0 ds n k s \<Longrightarrow> device_new flags config sys s = (Returns d, s') \<Longrightarrow> device_history s0 (d # ds) n k s'"
| failed: "device_history s0 ds n k s \<Longrightarrow> device_new flags config sys s = (r, s') \<Longrightarrow> \<nexists>d. r = Returns d \<Longrightarrow>
    device_history s0 ds (n + 1) k s'"
| deleted: "device_history s0 (ds @ d # ds') n k s \<Longrightarrow> device_delete sys d s = Some s' \<Longrightarrow>
    device_history s0 (ds @ ds') n (if device_streams d = None then k else k + 1) s'"

definition owned :: "device list \<Rightarrow> nat list" where
  "owned ds = concat (map device_fds ds)"

lemma owned_simps [simp]: "owned [] = []" "owned (d # ds) = device_fds d @ owned ds" "owned (ds @ ds') = owned ds @ owned ds'"
  by (simp_all add: owned_def)

text \<open>What the history keeps: ownership without sharing, and no descriptor without an owner when no constructor failed.\<close>

definition owned_apart :: "system \<Rightarrow> device list \<Rightarrow> nat \<Rightarrow> system \<Rightarrow> bool" where
  "owned_apart s0 ds n s \<longleftrightarrow> distinct (owned ds) \<and> set (owned ds) \<inter> set (open_fds s0) = {} \<and>
     set (open_fds s0) \<union> set (owned ds) \<subseteq> set (open_fds s) \<and>
     (n = 0 \<longrightarrow> set (open_fds s) = set (open_fds s0) \<union> set (owned ds)) \<and> (\<forall>d\<in>set ds. streams_agree d)"

lemma owned_apart_new:
  assumes "owned_apart s0 ds n s" and "device_new flags config sys s = (Returns d, s')"
  shows "owned_apart s0 (d # ds) n s'"
  using assms(1) device_new_owns [OF assms(2)] unfolding owned_apart_def by auto

lemma owned_apart_failed:
  assumes "owned_apart s0 ds n s" and "device_new flags config sys s = (r, s')"
  shows "owned_apart s0 ds (n + 1) s'"
  using assms(1) device_new_only_adds [OF assms(2)] unfolding owned_apart_def only_adds_def by auto

lemma owned_apart_delete:
  assumes "owned_apart s0 (ds @ d # ds') n s" and "device_delete sys d s = Some s'"
  shows "owned_apart s0 (ds @ ds') n s' \<and>
    failed_closes (descriptors_of s') = failed_closes (descriptors_of s) + (if device_streams d = None then 0 else 2)"
proof -
  have "streams_agree d" "distinct (device_fds d)" "set (device_fds d) \<subseteq> set (open_fds s)"
    using assms(1) by (auto simp: owned_apart_def)
  note D = device_delete_closes [OF assms(2) this]
  have "set (open_fds s') = set (open_fds s) - set (device_fds d)" by (auto simp: D)
  with assms(1) D show ?thesis unfolding owned_apart_def by auto
qed

lemma device_history_keeps:
  assumes "device_history s0 ds n k s"
  shows "owned_apart s0 ds n s \<and> failed_closes (descriptors_of s) = failed_closes (descriptors_of s0) + 2 * k"
  using assms
proof induction
  case started
  show ?case by (simp add: owned_apart_def)
next
  case (opened ds n k s flags config sys d s')
  from opened.IH owned_apart_new [OF _ opened.hyps(2)] device_new_owns(1) [OF opened.hyps(2)] show ?case by simp
next
  case (failed ds n k s flags config sys r s')
  then show ?case using owned_apart_failed device_new_only_adds by (fastforce simp: only_adds_def)
next
  case (deleted ds d ds' n k s sys s')
  then show ?case using owned_apart_delete by fastforce
qed

section \<open>A concrete system\<close>

text \<open>The standard streams are open, one of two pipes exists, and every call succeeds.\<close>

definition example_system :: system where
  "example_system = \<lparr>ports = (\<lambda>_. \<lparr>port_settings = \<lparr>c_iflag = 0, c_oflag = 0, c_cflag = 0, c_lflag = 0, c_ispeed = 9600, c_ospeed = 9600\<rparr>,
     port_exclusive = False\<rparr>), files_of = [''p_rx'' \<mapsto> Fifo], descriptors_of = \<lparr>fds = [2, 1, 0], failed_closes = 0\<rparr>,
     cout_text = [], cerr_text = []\<rparr>"

definition generous :: permissions where
  "generous = \<lparr>may_open = (\<lambda>_. True), may_create = (\<lambda>_. True), may_unlink = (\<lambda>_. True), may_look = (\<lambda>_. True),
     read_stream_ok = True, write_stream_ok = True\<rparr>"

definition example_answers :: answers where
  "example_answers = \<lparr>serial_sys = \<lparr>open_ok = True, tcgets_ok = True, exclusive_ok = True, tcsets_ok = True,
       fdopen_read_ok = True, fdopen_write_ok = True\<rparr>,
     fpga_sys = \<lparr>fpga_open_ok = True, fpga_read_ok = True, fpga_write_ok = True\<rparr>,
     udp_sys = \<lparr>udp_socket_ok = True, udp_nonblocking_ok = True, udp_setpriority_ok = True, udp_priority_now = 0,
       udp_resolved = None, udp_bind_ok = True\<rparr>,
     tcp_sys = \<lparr>tcp_socket_ok = True, tcp_resolved = None, tcp_connect_ok = True\<rparr>,
     can_sys = \<lparr>can_socket_ok = True, can_nonblocking_ok = True, can_index = None, can_mtu = None, can_fd_ok = True,
       can_err_filter_ok = True, can_filter_ok = True\<rparr>,
     pty_sys = \<lparr>openpt_ok = True, grantpt_ok = True, unlockpt_ok = True, ptsname = ''/dev/pts/1''\<rparr>,
     user = generous\<rparr>"

lemmas example_defs = example_system_def generous_def example_answers_def

definition example_pipe :: ExternalInterfacePipe where
  "example_pipe = \<lparr>str_in = 3, str_out = 4, unlinkRxPipeInDtor = False, unlinkTxPipeInDtor = True,
     pipename_rx = ''p_rx'', pipename_tx = ''p_tx''\<rparr>"

definition example_system_with_pipe :: system where
  "example_system_with_pipe = example_system\<lparr>files_of := [''p_rx'' \<mapsto> Fifo, ''p_tx'' \<mapsto> Fifo],
     descriptors_of := \<lparr>fds = [4, 3, 2, 1, 0], failed_closes = 0\<rparr>\<rparr>"

lemma example_pipe_new:
  "device_new flags (Named_pipe ''p'') example_answers example_system = (Returns (Pipe_object example_pipe), example_system_with_pipe)"
  by (simp add: example_defs example_pipe_def example_system_with_pipe_def ExternalInterfacePipe_open_def
      ExternalInterfacePipe_refuses_def open_fifo_def can_open_def can_make_def new_fd_def lowest_unused_def
      Let_def eval_nat_numeral)

definition example_fpga :: ExternalInterfaceFpga where
  "example_fpga = \<lparr>fpga_streams = \<lparr>fd_read = Some 5, fd_write = Some 5\<rparr>, fpga_fd = 5\<rparr>"

lemma example_fpga_new:
  "device_new 0 (Fpga_device ''/dev/NDLCom'') example_answers example_system_with_pipe =
    (Returns (Fpga_object example_fpga), example_system_with_pipe\<lparr>descriptors_of := \<lparr>fds = [5, 4, 3, 2, 1, 0], failed_closes = 0\<rparr>\<rparr>)"
  by (simp add: example_defs example_fpga_def example_system_with_pipe_def ExternalInterfaceFpga_open_def
      ExternalInterfaceFpga_refuses_def fdopen_streams_def ExternalInterfaceStream_new_def new_fd_def lowest_unused_def)

lemma example_history:
  "device_history example_system [Pipe_object example_pipe] 0 1
    (example_system_with_pipe\<lparr>descriptors_of := \<lparr>fds = [4, 3, 2, 1, 0], failed_closes = 2\<rparr>\<rparr>)"
proof -
  let ?s = "example_system_with_pipe\<lparr>descriptors_of := \<lparr>fds = [5, 4, 3, 2, 1, 0], failed_closes = 0\<rparr>\<rparr>"
  have "device_history example_system ([] @ Fpga_object example_fpga # [Pipe_object example_pipe]) 0 0 ?s"
    using device_history.opened [OF device_history.opened [OF device_history.started example_pipe_new] example_fpga_new] by simp
  from device_history.deleted [OF this, of generous] show ?thesis
    by (simp add: example_fpga_def ExternalInterfaceFpga_destructor_def ExternalInterfaceStream_destructor_def close_def fclose_def
        example_system_with_pipe_def eval_nat_numeral)
qed

section \<open>Properties\<close>



text \<open>
  C38: descriptors have one owner. After any history of making and destroying devices, in any order and
  with constructors that fail, the living devices own open descriptors that no two of them share and that were
  not open before; no descriptor of someone else was closed, and if no constructor failed, no descriptor
  is open without an owner. The only calls of \<open>close\<close> that fail are two for each destroyed device with streams.
\<close>

theorem living_devices_own_descriptors:
  assumes "device_history s0 ds n k s"
  shows "distinct (owned ds) \<and> set (owned ds) \<inter> set (open_fds s0) = {} \<and>
    set (open_fds s0) \<union> set (owned ds) \<subseteq> set (open_fds s) \<and>
    (n = 0 \<longrightarrow> set (open_fds s) = set (open_fds s0) \<union> set (owned ds)) \<and>
    failed_closes (descriptors_of s) = failed_closes (descriptors_of s0) + 2 * k"
  using device_history_keeps [OF assms] by (simp add: owned_apart_def)

lemma living_devices_own_descriptors_witness: "distinct (owned [Pipe_object example_pipe])"
  using living_devices_own_descriptors [OF example_history] by blast

end
