(* ===== verification/Registry.thy ===== *)
theory Registry
  imports Node
begin

text \<open>
  The lists of a bridge and of its nodes as what they mean: which interfaces, which bridge handlers
  and, per node, which node handlers are registered, in the order in which they are called. For each
  function of the C code that changes one of these lists, the lemma that it does on the pointers what
  it should do on the registry.
\<close>

section \<open>Registries\<close>

record registry =
  reg_interfaces :: "nat list"
  reg_handlers :: "handler_id list"
  reg_node_handlers :: "nat \<Rightarrow> nat list"

fun registered_at :: "registry \<Rightarrow> node \<Rightarrow> node list" where
  "registered_at r ExternalInterfaceList = map Iface_list (reg_interfaces r)"
| "registered_at r BridgeHandlerList = map Handler_list (reg_handlers r)"
| "registered_at r (NodeHandlerList n) = map Node_handler_list (reg_node_handlers r n)"
| "registered_at r _ = []"

fun unlinked :: "registry \<Rightarrow> node \<Rightarrow> bool" where
  "unlinked r (Iface_list i) \<longleftrightarrow> i \<notin> set (reg_interfaces r)"
| "unlinked r (Handler_list h) \<longleftrightarrow> h \<notin> set (reg_handlers r)"
| "unlinked r (Node_handler_list k) \<longleftrightarrow> (\<forall>n. k \<notin> set (reg_node_handlers r n))"
| "unlinked r _ \<longleftrightarrow> True"

definition holds :: "'e world \<Rightarrow> registry \<Rightarrow> bool" where
  "holds w r \<longleftrightarrow> world_lists w {x. unlinked r x} (registered_at r)"

lemma holds_cong: "links w' = links w \<Longrightarrow> holds w' r = holds w r"
  by (simp add: holds_def world_lists_def)

lemma holds_upd [simp]:
  "holds (upd_iface i gi w) r = holds w r" "holds (upd_handler h gh w) r = holds w r"
  "holds (upd_nodeHandler k gk w) r = holds w r" "holds (upd_node n gn w) r = holds w r"
  "holds (w\<lparr>routingTable := t\<rparr>) r = holds w r" "holds (w\<lparr>bridge_flags := fl\<rparr>) r = holds w r"
  "holds (w\<lparr>env := e\<rparr>) r = holds w r"
  by (simp_all add: holds_def world_lists_def)

lemma holds_registered: "holds w r \<Longrightarrow> registered w (reg_interfaces r) (reg_handlers r)"
  unfolding holds_def by (erule world_lists_registered) simp_all

lemma holds_dlist:
  assumes "holds w r"
  shows "dlist (links w) ExternalInterfaceList (map Iface_list (reg_interfaces r))"
    and "dlist (links w) BridgeHandlerList (map Handler_list (reg_handlers r))"
    and "dlist (links w) (NodeHandlerList n) (map Node_handler_list (reg_node_handlers r n))"
  using world_lists_dlist [OF assms [unfolded holds_def]] by simp_all

lemma holds_empty_lists:
  assumes "holds w r"
  shows "list_empty (links w) ExternalInterfaceList \<longleftrightarrow> reg_interfaces r = []"
    and "list_empty (links w) BridgeHandlerList \<longleftrightarrow> reg_handlers r = []"
    and "list_empty (links w) (NodeHandlerList n) \<longleftrightarrow> reg_node_handlers r n = []"
  by (simp_all add: holds_dlist [OF assms, THEN dlist_empty_iff])

lemma holds_distinct:
  assumes "holds w r"
  shows "distinct (reg_interfaces r)" "distinct (reg_handlers r)" "distinct (reg_node_handlers r n)"
  using holds_dlist [OF assms, THEN dlist_distinct] by (simp_all add: distinct_map)

lemma holds_one_node:
  assumes "holds w r" and "k \<in> set (reg_node_handlers r n)" and "k \<in> set (reg_node_handlers r m)"
  shows "n = m"
proof -
  have "shape (links w) {x. unlinked r x} (registered_at r)" using assms(1) by (simp add: holds_def world_lists_def)
  from ls.one_list [OF this, of "NodeHandlerList n" "NodeHandlerList m" "Node_handler_list k"] show ?thesis
    using assms(2,3) by simp
qed

section \<open>Linking and unlinking\<close>

lemma map_remove1: "inj f \<Longrightarrow> map f (remove1 x xs) = remove1 (f x) (map f xs)"
  by (induction xs) (auto simp: inj_eq)

lemma holds_link:
  assumes "holds w r" and "unlinked r x" and "x \<in> list_entries"
    and "h = BridgeHandlerList \<and> x \<in> range Handler_list \<or> h = ExternalInterfaceList \<and> x \<in> range Iface_list \<or>
      h \<in> range NodeHandlerList \<and> x \<in> range Node_handler_list"
    and "\<And>y. unlinked r' y \<longleftrightarrow> unlinked r y \<and> y \<noteq> x"
    and "\<And>y. registered_at r' y = (if y = h then x # registered_at r h else registered_at r y)"
  shows "holds (upd_links (list_add x h) w) r'"
proof -
  have "world_lists (upd_links (list_add x h) w) ({y. unlinked r y} - {x}) ((registered_at r)(h := x # registered_at r h))"
    using assms(1-4) by (intro world_lists_add) (auto simp: holds_def)
  moreover have "{y. unlinked r y} - {x} = {y. unlinked r' y}" using assms(5) by auto
  moreover have "(registered_at r)(h := x # registered_at r h) = registered_at r'" using assms(6) by auto
  ultimately show ?thesis by (simp add: holds_def)
qed

lemma holds_unlink:
  assumes "holds w r" and "x \<in> set (registered_at r h)" and "h \<notin> list_entries" and "x \<in> list_entries"
    and "\<And>y. unlinked r' y \<longleftrightarrow> unlinked r y \<or> y = x"
    and "\<And>y. registered_at r' y = (if y = h then remove1 x (registered_at r h) else registered_at r y)"
  shows "holds (upd_links (list_del_init x) w) r'"
proof -
  have "unlinked r h" using assms(2,3) by (cases h) (auto simp: list_entries_def)
  then have "world_lists (upd_links (list_del_init x) w) (insert x {y. unlinked r y})
      ((registered_at r)(h := remove1 x (registered_at r h), x := []))"
    using assms(1-4) by (intro world_lists_del) (auto simp: holds_def)
  moreover have "insert x {y. unlinked r y} = {y. unlinked r' y}" using assms(5) by auto
  moreover have "registered_at r x = []" using assms(4) by (auto simp: list_entries_def)
  moreover have "x \<noteq> h" using assms(3,4) by auto
  moreover have "(registered_at r)(h := remove1 x (registered_at r h), x := []) = registered_at r'" if "registered_at r x = []" "x \<noteq> h"
    using that assms(6) by (auto simp: fun_eq_iff)
  ultimately show ?thesis by (simp add: holds_def)
qed

text \<open>An object that is in no list may be initialised (again).\<close>

lemma holds_INIT:
  assumes "holds w r" and "unlinked r x" and "registered_at r x = []"
  shows "holds (upd_links (INIT_LIST_HEAD x) w) r"
proof -
  let ?H = "{y. unlinked r y}"
  have s: "shape (links w) ?H (registered_at r)" using assms(1) by (simp add: holds_def world_lists_def)
  have "shape (links w) (?H - {x}) (registered_at r)" using s by (auto simp: shape_def)
  moreover have "x \<notin> set (registered_at r h)" if "h \<in> ?H" for h
    using ls.not_head [OF s that] assms(2) by blast
  ultimately have "shape (INIT_LIST_HEAD x (links w)) (insert x (?H - {x})) ((registered_at r)(x := []))"
    by (intro shape_INIT) auto
  moreover have "insert x (?H - {x}) = ?H" "(registered_at r)(x := []) = registered_at r" using assms(2,3) by auto
  ultimately show ?thesis using assms(1) by (simp add: holds_def world_lists_def)
qed

section \<open>The functions of the bridge\<close>

lemma register_interface_holds:
  assumes "holds w r" and "i \<notin> set (reg_interfaces r)"
  shows "\<exists>w'. ndlcomBridgeRegisterExternalInterface i w = Some w' \<and>
    holds w' (r\<lparr>reg_interfaces := i # reg_interfaces r\<rparr>) \<and>
    w' = (upd_iface i (ei_bridge_update (\<lambda>_. Bridge_ptr)) w)\<lparr>links := links w'\<rparr>"
proof -
  let ?w = "upd_iface i (ei_bridge_update (\<lambda>_. Bridge_ptr)) (upd_links (list_add (Iface_list i) ExternalInterfaceList) w)"
  have "holds (upd_links (list_add (Iface_list i) ExternalInterfaceList) w) (r\<lparr>reg_interfaces := i # reg_interfaces r\<rparr>)"
  proof (rule holds_link [OF assms(1)])
    show "unlinked (r\<lparr>reg_interfaces := i # reg_interfaces r\<rparr>) y \<longleftrightarrow> unlinked r y \<and> y \<noteq> Iface_list i" for y
      by (cases y) auto
    show "registered_at (r\<lparr>reg_interfaces := i # reg_interfaces r\<rparr>) y =
        (if y = ExternalInterfaceList then Iface_list i # registered_at r ExternalInterfaceList else registered_at r y)" for y
      by (cases y) auto
  qed (use assms(2) in \<open>simp_all add: list_entries_def\<close>)
  moreover have "ndlcomBridgeCheckExternalInterface i w = Some False"
    using check_external_interface [OF assms(1) [unfolded holds_def], of i] assms(2) by auto
  ultimately show ?thesis
    by (intro exI [of _ ?w]) (simp add: ndlcomBridgeRegisterExternalInterface_def, simp add: upd_defs)
qed

lemma deregister_interface_holds:
  assumes "holds w r" and "i \<in> set (reg_interfaces r)"
  shows "\<exists>w'. ndlcomBridgeDeregisterExternalInterface cfg i w = Some w' \<and>
    holds w' (r\<lparr>reg_interfaces := remove1 i (reg_interfaces r)\<rparr>) \<and>
    w' = (upd_iface i (ei_bridge_update (\<lambda>_. Null))
      (w\<lparr>routingTable := ndlcomRoutingTableInvalidateInterface cfg (routingTable w) (Iface_ptr i)\<rparr>))\<lparr>links := links w'\<rparr>"
proof -
  let ?v = "w\<lparr>routingTable := ndlcomRoutingTableInvalidateInterface cfg (routingTable w) (Iface_ptr i)\<rparr>"
  let ?w = "upd_iface i (ei_bridge_update (\<lambda>_. Null)) (upd_links (list_del_init (Iface_list i)) ?v)"
  have d: "distinct (reg_interfaces r)" by (rule holds_distinct [OF assms(1)])
  have v: "holds ?v r" using assms(1) by simp
  have "holds (upd_links (list_del_init (Iface_list i)) ?v) (r\<lparr>reg_interfaces := remove1 i (reg_interfaces r)\<rparr>)"
  proof (rule holds_unlink [OF v])
    show "unlinked (r\<lparr>reg_interfaces := remove1 i (reg_interfaces r)\<rparr>) y \<longleftrightarrow> unlinked r y \<or> y = Iface_list i" for y
      using d by (cases y) auto
    show "registered_at (r\<lparr>reg_interfaces := remove1 i (reg_interfaces r)\<rparr>) y =
        (if y = ExternalInterfaceList then remove1 (Iface_list i) (registered_at r ExternalInterfaceList)
         else registered_at r y)" for y
      using assms(2) by (cases y) (auto simp: map_remove1 inj_def)
  qed (use assms(2) in \<open>simp_all add: list_entries_def image_iff\<close>)
  moreover have "ndlcomBridgeCheckExternalInterface i w = Some True"
    using check_external_interface [OF assms(1) [unfolded holds_def], of i] assms(2) by auto
  ultimately show ?thesis
    by (intro exI [of _ ?w]) (simp add: ndlcomBridgeDeregisterExternalInterface_def, simp add: upd_defs)
qed

lemma register_handler_holds:
  assumes "holds w r" and "h \<notin> set (reg_handlers r)"
  shows "\<exists>w'. ndlcomBridgeRegisterBridgeHandler h w = Some w' \<and>
    holds w' (r\<lparr>reg_handlers := h # reg_handlers r\<rparr>) \<and>
    w' = (upd_handler h (bh_bridge_update (\<lambda>_. Bridge_ptr)) w)\<lparr>links := links w'\<rparr>"
proof -
  let ?w = "upd_handler h (bh_bridge_update (\<lambda>_. Bridge_ptr)) (upd_links (list_add (Handler_list h) BridgeHandlerList) w)"
  have "holds (upd_links (list_add (Handler_list h) BridgeHandlerList) w) (r\<lparr>reg_handlers := h # reg_handlers r\<rparr>)"
  proof (rule holds_link [OF assms(1)])
    show "unlinked (r\<lparr>reg_handlers := h # reg_handlers r\<rparr>) y \<longleftrightarrow> unlinked r y \<and> y \<noteq> Handler_list h" for y
      by (cases y) auto
    show "registered_at (r\<lparr>reg_handlers := h # reg_handlers r\<rparr>) y =
        (if y = BridgeHandlerList then Handler_list h # registered_at r BridgeHandlerList else registered_at r y)" for y
      by (cases y) auto
  qed (use assms(2) in \<open>simp_all add: list_entries_def\<close>)
  moreover have "ndlcomBridgeCheckBridgeHandler h w = Some False"
    using check_bridge_handler [OF assms(1) [unfolded holds_def], of h] assms(2) by auto
  ultimately show ?thesis
    by (intro exI [of _ ?w]) (simp add: ndlcomBridgeRegisterBridgeHandler_def, simp add: upd_defs)
qed

lemma deregister_handler_holds:
  assumes "holds w r" and "h \<in> set (reg_handlers r)"
  shows "\<exists>w'. ndlcomBridgeDeregisterBridgeHandler h w = Some w' \<and>
    holds w' (r\<lparr>reg_handlers := remove1 h (reg_handlers r)\<rparr>) \<and>
    w' = (upd_handler h (bh_bridge_update (\<lambda>_. Null)) w)\<lparr>links := links w'\<rparr>"
proof -
  let ?w = "upd_handler h (bh_bridge_update (\<lambda>_. Null)) (upd_links (list_del_init (Handler_list h)) w)"
  have d: "distinct (reg_handlers r)" by (rule holds_distinct [OF assms(1)])
  have "holds (upd_links (list_del_init (Handler_list h)) w) (r\<lparr>reg_handlers := remove1 h (reg_handlers r)\<rparr>)"
  proof (rule holds_unlink [OF assms(1)])
    show "unlinked (r\<lparr>reg_handlers := remove1 h (reg_handlers r)\<rparr>) y \<longleftrightarrow> unlinked r y \<or> y = Handler_list h" for y
      using d by (cases y) auto
    show "registered_at (r\<lparr>reg_handlers := remove1 h (reg_handlers r)\<rparr>) y =
        (if y = BridgeHandlerList then remove1 (Handler_list h) (registered_at r BridgeHandlerList)
         else registered_at r y)" for y
      using assms(2) by (cases y) (auto simp: map_remove1 inj_def)
  qed (use assms(2) in \<open>simp_all add: list_entries_def image_iff\<close>)
  moreover have "ndlcomBridgeCheckBridgeHandler h w = Some True"
    using check_bridge_handler [OF assms(1) [unfolded holds_def], of h] assms(2) by auto
  ultimately show ?thesis
    by (intro exI [of _ ?w]) (simp add: ndlcomBridgeDeregisterBridgeHandler_def, simp add: upd_defs)
qed

section \<open>The functions of a node\<close>

abbreviation with_node_handlers :: "registry \<Rightarrow> nat \<Rightarrow> nat list \<Rightarrow> registry" where
  "with_node_handlers r n ks \<equiv> r\<lparr>reg_node_handlers := (reg_node_handlers r)(n := ks)\<rparr>"

lemma register_node_handler_holds:
  assumes "holds w r" and "\<And>m. k \<notin> set (reg_node_handlers r m)"
  shows "holds (ndlcomNodeRegisterNodeHandler n k w) (with_node_handlers r n (k # reg_node_handlers r n))"
proof -
  have "holds (upd_links (list_add (Node_handler_list k) (NodeHandlerList n)) w)
      (with_node_handlers r n (k # reg_node_handlers r n))"
  proof (rule holds_link [OF assms(1)])
    show "unlinked (with_node_handlers r n (k # reg_node_handlers r n)) y \<longleftrightarrow> unlinked r y \<and> y \<noteq> Node_handler_list k" for y
      by (cases y) auto
    show "registered_at (with_node_handlers r n (k # reg_node_handlers r n)) y =
        (if y = NodeHandlerList n then Node_handler_list k # registered_at r (NodeHandlerList n) else registered_at r y)" for y
      by (cases y) auto
  qed (use assms(2) in \<open>simp_all add: list_entries_def\<close>)
  then show ?thesis by (simp add: ndlcomNodeRegisterNodeHandler_def)
qed

lemma deregister_node_handler_holds:
  assumes "holds w r" and "k \<in> set (reg_node_handlers r n)"
  shows "holds (ndlcomNodeDeregisterNodeHandler n k w) (with_node_handlers r n (remove1 k (reg_node_handlers r n)))"
proof -
  have d: "distinct (reg_node_handlers r n)" by (rule holds_distinct [OF assms(1)])
  have only: "m = n" if "k \<in> set (reg_node_handlers r m)" for m by (rule holds_one_node [OF assms(1) that assms(2)])
  have "holds (upd_links (list_del_init (Node_handler_list k)) w) (with_node_handlers r n (remove1 k (reg_node_handlers r n)))"
  proof (rule holds_unlink [OF assms(1)])
    show "unlinked (with_node_handlers r n (remove1 k (reg_node_handlers r n))) y \<longleftrightarrow> unlinked r y \<or> y = Node_handler_list k" for y
      using d only by (cases y) (auto split: if_splits)
    show "registered_at (with_node_handlers r n (remove1 k (reg_node_handlers r n))) y =
        (if y = NodeHandlerList n then remove1 (Node_handler_list k) (registered_at r (NodeHandlerList n))
         else registered_at r y)" for y
      using assms(2) by (cases y) (auto simp: map_remove1 inj_def)
  qed (use assms(2) in \<open>simp_all add: list_entries_def image_iff\<close>)
  then show ?thesis by (simp add: ndlcomNodeDeregisterNodeHandler_def)
qed

lemma node_register_holds:
  assumes "holds w r" and "Handler_of_node n \<notin> set (reg_handlers r)"
  shows "\<exists>w'. ndlcomNodeRegister cfg n w = Some w' \<and> holds w' (r\<lparr>reg_handlers := Handler_of_node n # reg_handlers r\<rparr>) \<and>
    w' = (upd_handler (Handler_of_node n) (bh_bridge_update (\<lambda>_. Bridge_ptr)) w)\<lparr>links := links w',
      routingTable := ndlcomRoutingTableUpdate cfg (routingTable w) (node_own_id n w) Bridge_ptr\<rparr>"
proof -
  obtain w1 where w1: "ndlcomBridgeRegisterBridgeHandler (Handler_of_node n) w = Some w1"
    "holds w1 (r\<lparr>reg_handlers := Handler_of_node n # reg_handlers r\<rparr>)"
    "w1 = (upd_handler (Handler_of_node n) (bh_bridge_update (\<lambda>_. Bridge_ptr)) w)\<lparr>links := links w1\<rparr>"
    using register_handler_holds [OF assms] by blast
  have same: "node_bridge n w1 = Bridge_ptr" "node_own_id n w1 = node_own_id n w" "routingTable w1 = routingTable w"
    by (subst w1(3), simp add: node_bridge_def node_own_id_def upd_handler_def)+
  let ?w = "w1\<lparr>routingTable := ndlcomRoutingTableUpdate cfg (routingTable w) (node_own_id n w) Bridge_ptr\<rparr>"
  have "ndlcomNodeRegister cfg n w = Some ?w"
    using w1(1) same by (simp add: ndlcomNodeRegister_def ndlcomBridgeMarkDeviceIdAsInternal_def)
  moreover have "?w = (upd_handler (Handler_of_node n) (bh_bridge_update (\<lambda>_. Bridge_ptr)) w)\<lparr>links := links ?w,
      routingTable := ndlcomRoutingTableUpdate cfg (routingTable w) (node_own_id n w) Bridge_ptr\<rparr>"
    by (subst w1(3)) simp
  moreover have "holds ?w (r\<lparr>reg_handlers := Handler_of_node n # reg_handlers r\<rparr>)" using w1(2) by simp
  ultimately show ?thesis by blast
qed

lemma node_deregister_holds:
  assumes "holds w r" and "Handler_of_node n \<in> set (reg_handlers r)" and "node_bridge n w \<noteq> Null"
  shows "\<exists>w'. ndlcomNodeDeregister cfg n w = Some w' \<and>
    holds w' (r\<lparr>reg_handlers := remove1 (Handler_of_node n) (reg_handlers r)\<rparr>) \<and>
    w' = (upd_handler (Handler_of_node n) (bh_bridge_update (\<lambda>_. Null)) w)\<lparr>links := links w',
      routingTable := ndlcomRoutingTableUpdate cfg (routingTable w) (node_own_id n w) NDLCOM_ROUTING_ALL_INTERFACES\<rparr>"
proof -
  let ?v = "w\<lparr>routingTable := ndlcomRoutingTableUpdate cfg (routingTable w) (node_own_id n w) NDLCOM_ROUTING_ALL_INTERFACES\<rparr>"
  obtain w1 where w1: "ndlcomBridgeDeregisterBridgeHandler (Handler_of_node n) ?v = Some w1"
    "holds w1 (r\<lparr>reg_handlers := remove1 (Handler_of_node n) (reg_handlers r)\<rparr>)"
    "w1 = (upd_handler (Handler_of_node n) (bh_bridge_update (\<lambda>_. Null)) ?v)\<lparr>links := links w1\<rparr>"
    using deregister_handler_holds [of ?v r "Handler_of_node n"] assms(1,2) by auto
  have "ndlcomNodeDeregister cfg n w = Some w1"
    using w1(1) assms(3) by (simp add: ndlcomNodeDeregister_def ndlcomBridgeClearInternalDeviceId_def)
  moreover have "w1 = (upd_handler (Handler_of_node n) (bh_bridge_update (\<lambda>_. Null)) w)\<lparr>links := links w1,
      routingTable := ndlcomRoutingTableUpdate cfg (routingTable w) (node_own_id n w) NDLCOM_ROUTING_ALL_INTERFACES\<rparr>"
    by (subst w1(3)) (simp add: upd_handler_def)
  ultimately show ?thesis using w1(2) by blast
qed

section \<open>New objects\<close>

lemma interface_init_holds:
  assumes "holds w r" and "i \<notin> set (reg_interfaces r)"
  shows "holds (ndlcomExternalInterfaceInit cfg i io flags w) r"
proof -
  have *: "holds v r \<Longrightarrow> holds (upd_links (INIT_LIST_HEAD (Iface_list i)) v) r" for v :: "'a world"
    by (rule holds_INIT) (use assms(2) in simp_all)
  show ?thesis
    unfolding ndlcomExternalInterfaceInit_def Let_def
    by (rule *) (simp add: assms(1) ndlcomExternalInterfaceSetFlags_def split: option.split)
qed

lemma handler_init_holds:
  assumes "holds w r" and "h \<notin> set (reg_handlers r)"
  shows "holds (ndlcomBridgeHandlerInit h g flags w) r"
proof -
  have *: "holds v r \<Longrightarrow> holds (upd_links (INIT_LIST_HEAD (Handler_list h)) v) r" for v :: "'a world"
    by (rule holds_INIT) (use assms(2) in simp_all)
  show ?thesis
    unfolding ndlcomBridgeHandlerInit_def Let_def
    by (rule *) (simp add: assms(1) ndlcomBridgeHandlerSetFlags_def)
qed

lemma node_handler_init_holds:
  assumes "holds w r" and "\<And>n. k \<notin> set (reg_node_handlers r n)"
  shows "holds (ndlcomNodeHandlerInit k g flags w) r"
proof -
  have *: "holds v r \<Longrightarrow> holds (upd_links (INIT_LIST_HEAD (Node_handler_list k)) v) r" for v :: "'a world"
    by (rule holds_INIT) (use assms(2) in simp_all)
  show ?thesis
    unfolding ndlcomNodeHandlerInit_def Let_def
    by (rule *) (simp add: assms(1) ndlcomNodeHandlerSetFlags_def)
qed

lemma node_init_holds:
  assumes "holds w r" and "Handler_of_node n \<notin> set (reg_handlers r)" and "reg_node_handlers r n = []"
  shows "holds (ndlcomNodeInit n ownSenderId w) r"
proof -
  have "holds (upd_links (INIT_LIST_HEAD (NodeHandlerList n)) w) r"
    by (rule holds_INIT [OF assms(1)]) (use assms(3) in simp_all)
  then show ?thesis
    unfolding ndlcomNodeInit_def Let_def by (simp add: handler_init_holds [OF _ assms(2)])
qed

end
