(* ===== verification/Cpp_Objects.thy ===== *)
theory Cpp_Objects
  imports Registry Handlers
begin

text \<open>
  The C++ classes around the C structures: \<open>src/ExternalInterfaceBase.cpp\<close>, \<open>src/InternalHandler.cpp\<close>,
  \<open>src/Node.cpp\<close> and \<open>src/Payload.cpp\<close>. An object has the number of the C structure inside of it. What
  the objects keep on the C++ side is part of the environment of the C world, and their static wrapper
  functions are the callbacks of the C code. The virtual functions of classes outside of the library
  are a parameter.
\<close>

section \<open>Objects\<close>

text \<open>\<open>unsigned long\<close> has 64 bits.\<close>

record ExternalInterfaceBase =
  if_label :: string
  paused :: bool
  rawBytesTx :: "64 word" \<comment> \<open>\<open>bytesTransmitted\<close>\<close>
  rawBytesRx :: "64 word" \<comment> \<open>\<open>bytesReceived\<close>\<close>

datatype handler_object =
    PrintAll_object
  | MissEvents_object BridgeMissEvents
  | PrintMissEvents_object BridgeMissEvents
  | Statistics_object BridgeHandlerStatistics
  | PrintOwnId_object
  | NodeStatistics_object "64 word"
  | Other_object

record 'd objects =
  interface_objects :: "nat \<Rightarrow> ExternalInterfaceBase"
  handler_objects :: "nat \<Rightarrow> handler_object"
  handler_labels :: "nat \<Rightarrow> string"
  node_labels :: "nat \<Rightarrow> string"
  std_cerr :: string
  outside :: 'd

type_synonym 'd cpp_world = "'d objects world"

text \<open>
  \<open>writeEscapedBytes\<close> and \<open>readEscapedBytes\<close> act on what is outside of the process; \<open>handle\<close> of a class
  outside of the library may do anything.
\<close>

record 'd virtual_functions =
  writeEscapedBytes :: "nat \<Rightarrow> u8 list \<Rightarrow> 'd \<Rightarrow> 'd"
  readEscapedBytes :: "nat \<Rightarrow> nat \<Rightarrow> 'd \<Rightarrow> u8 list \<times> 'd"
  other_handle :: "nat \<Rightarrow> NDLComHeader \<Rightarrow> u8 list \<Rightarrow> ptr \<Rightarrow> 'd cpp_world \<Rightarrow> 'd cpp_world option"

definition upd_interface_object ::
  "nat \<Rightarrow> (ExternalInterfaceBase \<Rightarrow> ExternalInterfaceBase) \<Rightarrow> 'd objects \<Rightarrow> 'd objects" where
  "upd_interface_object i g e = e\<lparr>interface_objects := (interface_objects e)(i := g (interface_objects e i))\<rparr>"

definition upd_env :: "('e \<Rightarrow> 'e) \<Rightarrow> 'e world \<Rightarrow> 'e world" where
  "upd_env g w = w\<lparr>env := g (env w)\<rparr>"

lemma upd_env_frame [simp]:
  "links (upd_env g w) = links w" "routingTable (upd_env g w) = routingTable w" "ifaces (upd_env g w) = ifaces w"
  "handlers (upd_env g w) = handlers w" "nodes (upd_env g w) = nodes w" "nodeHandlers (upd_env g w) = nodeHandlers w"
  "bridge_flags (upd_env g w) = bridge_flags w" "env (upd_env g w) = g (env w)"
  by (simp_all add: upd_env_def)

lemma upd_env_holds [simp]: "holds (upd_env g w) r = holds w r" and upd_env_node_bridge [simp]: "node_bridge n (upd_env g w) = node_bridge n w"
  by (simp_all add: upd_env_def node_bridge_def)

section \<open>\<open>src/ExternalInterfaceBase.cpp\<close>\<close>

definition noteIncomingBytes :: "nat \<Rightarrow> nat \<Rightarrow> 'd objects \<Rightarrow> 'd objects" where
  "noteIncomingBytes i count e = upd_interface_object i (\<lambda>s. s\<lparr>rawBytesRx := rawBytesRx s + of_nat count\<rparr>) e"

definition noteOutgoingBytes :: "nat \<Rightarrow> nat \<Rightarrow> 'd objects \<Rightarrow> 'd objects" where
  "noteOutgoingBytes i count e = upd_interface_object i (\<lambda>s. s\<lparr>rawBytesTx := rawBytesTx s + of_nat count\<rparr>) e"

definition writeWrapper :: "'d virtual_functions \<Rightarrow> nat \<Rightarrow> u8 list \<Rightarrow> 'd objects \<Rightarrow> 'd objects" where
  "writeWrapper vf i buf e =
     (if paused (interface_objects e i) then e
      else noteOutgoingBytes i (length buf) (e\<lparr>outside := writeEscapedBytes vf i buf (outside e)\<rparr>))"

text \<open>A paused interface is still read, to empty the buffers of the system.\<close>

definition readWrapper :: "'d virtual_functions \<Rightarrow> nat \<Rightarrow> nat \<Rightarrow> 'd objects \<Rightarrow> u8 list \<times> 'd objects" where
  "readWrapper vf i count e =
     (let (buf, d) = readEscapedBytes vf i count (outside e);
          e = e\<lparr>outside := d\<rparr>;
          buf = (if paused (interface_objects e i) then [] else buf)
      in (buf, noteIncomingBytes i (length buf) e))"

definition ExternalInterfaceBase_new ::
  "config \<Rightarrow> nat \<Rightarrow> string \<Rightarrow> u8 \<Rightarrow> 'd cpp_world \<Rightarrow> 'd cpp_world" where
  "ExternalInterfaceBase_new cfg i label flags w =
     ndlcomExternalInterfaceInit cfg i i flags
       (upd_env (upd_interface_object i
         (\<lambda>_. \<lparr>if_label = label, paused = False, rawBytesTx = 0, rawBytesRx = 0\<rparr>)) w)"

definition ExternalInterfaceBase_registerHandler :: "nat \<Rightarrow> 'd cpp_world \<Rightarrow> 'd cpp_world option" where
  "ExternalInterfaceBase_registerHandler i w = ndlcomBridgeRegisterExternalInterface i w"

definition ExternalInterfaceBase_deregisterHandler :: "config \<Rightarrow> nat \<Rightarrow> 'd cpp_world \<Rightarrow> 'd cpp_world option" where
  "ExternalInterfaceBase_deregisterHandler cfg i w = ndlcomBridgeDeregisterExternalInterface cfg i w"

text \<open>The text of the exception, as a file and a line have it.\<close>

definition reportRuntimeError :: "string \<Rightarrow> string \<Rightarrow> int \<Rightarrow> string" where
  "reportRuntimeError error file_name line_number = file_name @ '':'' @ show_int line_number @ '' -- '' @ error"

definition resetCrcFails :: "nat \<Rightarrow> 'd cpp_world \<Rightarrow> 'd cpp_world" where
  "resetCrcFails i w = upd_iface i (ei_parser_update ndlcomParserResetNumberOfCRCFails) w"

definition getCrcFails :: "nat \<Rightarrow> 'd cpp_world \<Rightarrow> u32" where
  "getCrcFails i w = ndlcomParserGetNumberOfCRCFails (ei_parser (ifaces w i))"

definition setFlag :: "nat \<Rightarrow> u8 \<Rightarrow> bool \<Rightarrow> 'd cpp_world \<Rightarrow> 'd cpp_world" where
  "setFlag i flag value w =
     (let oldFlags = ei_flags (ifaces w i) in
      if value then ndlcomExternalInterfaceSetFlags i (oldFlags OR flag) w
      else ndlcomExternalInterfaceSetFlags i (oldFlags AND NOT flag) w)"

definition setRoutingForDeviceId :: "config \<Rightarrow> nat \<Rightarrow> u8 \<Rightarrow> 'd cpp_world \<Rightarrow> 'd cpp_world" where
  "setRoutingForDeviceId cfg i deviceId w = ndlcomExternalInterfaceSetRoutingForDeviceId cfg i deviceId w"

definition HandlerCommon_printStatus :: "string \<Rightarrow> string \<Rightarrow> string" where
  "HandlerCommon_printStatus prefix label = prefix @ ''- '' @ label @ endl"

definition ExternalInterfaceBase_printStatus :: "string \<Rightarrow> nat \<Rightarrow> 'd cpp_world \<Rightarrow> string" where
  "ExternalInterfaceBase_printStatus prefix i w =
     (let self = interface_objects (env w) i in
      HandlerCommon_printStatus prefix (if_label self) @
      prefix @ ''   crcFail: '' @ dec (unat (getCrcFails i w)) @ '' rawBytesRx: '' @ dec (unat (rawBytesRx self)) @
      '' rawBytesTx: '' @ dec (unat (rawBytesTx self)) @ (if paused self then '' [PAUSED]'' else []) @ endl)"

section \<open>\<open>src/InternalHandler.cpp\<close>\<close>

text \<open>
  The wrapper calls \<open>handle\<close> of the object. \<open>None\<close> is an exception, which leaves through the C code, or
  a null pointer.
\<close>

definition put_cerr :: "(string \<Rightarrow> string) \<Rightarrow> 'd cpp_world \<Rightarrow> 'd cpp_world" where
  "put_cerr g w = upd_env (std_cerr_update g) w"

definition put_object :: "nat \<Rightarrow> handler_object \<Rightarrow> 'd cpp_world \<Rightarrow> 'd cpp_world" where
  "put_object k s w = upd_env (\<lambda>e. e\<lparr>handler_objects := (handler_objects e)(k := s)\<rparr>) w"

definition getOwnDeviceId :: "nat \<Rightarrow> 'd cpp_world \<Rightarrow> u8 option" where
  "getOwnDeviceId k w = map_option (\<lambda>n. ndlcomNodeGetOwnDeviceId n w) (nh_node (nodeHandlers w k))"

definition handleWrapper ::
  "config \<Rightarrow> 'd virtual_functions \<Rightarrow> nat \<Rightarrow> NDLComHeader \<Rightarrow> u8 list \<Rightarrow> ptr \<Rightarrow> 'd cpp_world \<Rightarrow> 'd cpp_world option" where
  "handleWrapper cfg vf k header payload origin w =
     (case handler_objects (env w) k of
        PrintAll_object \<Rightarrow> Some (put_cerr (BridgePrintAll_handle header) w)
      | MissEvents_object s \<Rightarrow>
          (case BridgeMissEvents_handle cfg header s of
             Inl e \<Rightarrow> None
           | Inr s \<Rightarrow> Some (put_object k (MissEvents_object s) w))
      | PrintMissEvents_object s \<Rightarrow>
          (case BridgePrintMissEvents_handle cfg header (s, std_cerr (env w)) of
             Inl e \<Rightarrow> None
           | Inr (s, text) \<Rightarrow> Some (put_cerr (\<lambda>_. text) (put_object k (PrintMissEvents_object s) w)))
      | Statistics_object s \<Rightarrow> Some (put_object k (Statistics_object (BridgeHandlerStatistics_handle header origin s)) w)
      | PrintOwnId_object \<Rightarrow>
          (case getOwnDeviceId k w of
             None \<Rightarrow> None
           | Some ownDeviceId \<Rightarrow> Some (put_cerr (NodeHandlerPrintOwnId_handle ownDeviceId header) w))
      | NodeStatistics_object s \<Rightarrow> Some (put_object k (NodeStatistics_object (NodeHandlerStatistics_handle header origin s)) w)
      | Other_object \<Rightarrow> other_handle vf k header payload origin w)"

definition cpp_callbacks :: "config \<Rightarrow> 'd virtual_functions \<Rightarrow> 'd objects callbacks" where
  "cpp_callbacks cfg vf =
     \<lparr>cb_write = writeWrapper vf, cb_read = readWrapper vf, cb_handler = handleWrapper cfg vf\<rparr>"

definition BridgeHandler_new :: "nat \<Rightarrow> string \<Rightarrow> handler_object \<Rightarrow> 'd cpp_world \<Rightarrow> 'd cpp_world" where
  "BridgeHandler_new k label s w =
     put_object k s
       (ndlcomBridgeHandlerInit (Free_handler k) (User_handler k) NDLCOM_BRIDGE_HANDLER_FLAGS_DEFAULT
         (upd_env (\<lambda>e. e\<lparr>handler_labels := (handler_labels e)(k := label)\<rparr>) w))"

definition NodeHandler_new :: "nat \<Rightarrow> string \<Rightarrow> handler_object \<Rightarrow> 'd cpp_world \<Rightarrow> 'd cpp_world" where
  "NodeHandler_new k label s w =
     put_object k s
       (ndlcomNodeHandlerInit k k NDLCOM_NODE_HANDLER_FLAGS_DEFAULT
         (upd_env (\<lambda>e. e\<lparr>handler_labels := (handler_labels e)(k := label)\<rparr>) w))"

text \<open>What the methods of the handlers and of a node call; the caller of a handler is its bridge or node.\<close>

definition BridgeHandler_sendRaw ::
  "config \<Rightarrow> 'e callbacks \<Rightarrow> NDLComHeader \<Rightarrow> u8 list \<Rightarrow> 'e world \<Rightarrow> 'e world option" where
  "BridgeHandler_sendRaw cfg cb header payload w = ndlcomBridgeSendRaw cfg cb header payload w"

definition BridgeHandler_registerHandler :: "nat \<Rightarrow> 'e world \<Rightarrow> 'e world option" where
  "BridgeHandler_registerHandler k w = ndlcomBridgeRegisterBridgeHandler (Free_handler k) w"

definition BridgeHandler_deregisterHandler :: "nat \<Rightarrow> 'e world \<Rightarrow> 'e world option" where
  "BridgeHandler_deregisterHandler k w = ndlcomBridgeDeregisterBridgeHandler (Free_handler k) w"

definition NodeHandler_send ::
  "config \<Rightarrow> 'e callbacks \<Rightarrow> NDLComHeader \<Rightarrow> nat \<Rightarrow> u8 \<Rightarrow> u8 list \<Rightarrow> nat \<Rightarrow> 'e world \<Rightarrow> 'e world option" where
  "NodeHandler_send cfg cb junk caller receiverId payload len w = ndlcomNodeSend cfg cb junk caller receiverId payload len w"

definition NodeHandler_registerHandler :: "nat \<Rightarrow> nat \<Rightarrow> 'e world \<Rightarrow> 'e world" where
  "NodeHandler_registerHandler caller k w = ndlcomNodeRegisterNodeHandler caller k w"

definition NodeHandler_deregisterHandler :: "nat \<Rightarrow> nat \<Rightarrow> 'e world \<Rightarrow> 'e world" where
  "NodeHandler_deregisterHandler caller k w = ndlcomNodeDeregisterNodeHandler caller k w"

definition Node_registerHandler :: "config \<Rightarrow> nat \<Rightarrow> 'e world \<Rightarrow> 'e world option" where
  "Node_registerHandler cfg n w = ndlcomNodeRegister cfg n w"

definition Node_deregisterHandler :: "config \<Rightarrow> nat \<Rightarrow> 'e world \<Rightarrow> 'e world option" where
  "Node_deregisterHandler cfg n w = ndlcomNodeDeregister cfg n w"

definition Node_getOwnDeviceId :: "nat \<Rightarrow> 'e world \<Rightarrow> u8" where
  "Node_getOwnDeviceId n w = ndlcomNodeGetOwnDeviceId n w"

lemmas register_handler_defs [simp] =
  ExternalInterfaceBase_registerHandler_def ExternalInterfaceBase_deregisterHandler_def
  BridgeHandler_registerHandler_def BridgeHandler_deregisterHandler_def
  NodeHandler_registerHandler_def NodeHandler_deregisterHandler_def
  Node_registerHandler_def Node_deregisterHandler_def

text \<open>Only the handler that counts misses prints more than its label.\<close>

definition handler_printStatus :: "config \<Rightarrow> string \<Rightarrow> nat \<Rightarrow> 'd cpp_world \<Rightarrow> string" where
  "handler_printStatus cfg prefix k w =
     (let label = handler_labels (env w) k in
      case handler_objects (env w) k of
        MissEvents_object s \<Rightarrow> BridgeMissEvents_printStatus cfg label prefix s
      | PrintMissEvents_object s \<Rightarrow> BridgeMissEvents_printStatus cfg label prefix s
      | _ \<Rightarrow> HandlerCommon_printStatus prefix label)"

section \<open>\<open>src/Payload.cpp\<close>\<close>

text \<open>
  A payload is a copy of \<open>size\<close> bytes, where \<open>size\<close> has 8 bits; reading more bytes than there are is
  undefined.
\<close>

definition Payload_new :: "u8 list \<Rightarrow> u8 \<Rightarrow> u8 list option" where
  "Payload_new payload size_of = (if unat size_of \<le> length payload then Some (take (unat size_of) payload) else None)"

definition Payload_dataLen :: "u8 list \<Rightarrow> u8" where
  "Payload_dataLen self = of_nat (length self)"

record RawPayload =
  raw_header :: NDLComHeader
  raw_data :: "u8 list"

definition RawPayload_new :: "NDLComHeader \<Rightarrow> u8 list \<Rightarrow> RawPayload option" where
  "RawPayload_new header payload =
     map_option (\<lambda>d. \<lparr>raw_header = header, raw_data = d\<rparr>) (Payload_new payload (mDataLen header))"

text \<open>A received packet; the type of the points in time belongs to the clock of the system.\<close>

record 't IncomingPayload =
  in_packet :: RawPayload
  in_origin :: ptr
  receivedAt :: 't

definition IncomingPayload_new :: "NDLComHeader \<Rightarrow> u8 list \<Rightarrow> ptr \<Rightarrow> 't \<Rightarrow> 't IncomingPayload option" where
  "IncomingPayload_new header payload origin received =
     map_option (\<lambda>r. \<lparr>in_packet = r, in_origin = origin, receivedAt = received\<rparr>) (RawPayload_new header payload)"

record OutgoingPayload =
  destinationId :: u8
  out_data :: "u8 list"

text \<open>The size is a \<open>size_t\<close> here and converted for the constructor of the base class.\<close>

definition OutgoingPayload_new :: "u8 \<Rightarrow> u8 list \<Rightarrow> nat \<Rightarrow> OutgoingPayload option" where
  "OutgoingPayload_new dest payload size_of =
     map_option (\<lambda>d. \<lparr>destinationId = dest, out_data = d\<rparr>) (Payload_new payload (of_nat size_of))"

end
