(* ===== verification/Cpp_Bridge.thy ===== *)
theory Cpp_Bridge
  imports Cpp_Objects Uri
begin

text \<open>
  The classes \<open>Bridge\<close> (\<open>src/Bridge.cpp\<close>, \<open>include/ndlcom/Bridge.hpp\<close>) and \<open>Node\<close> (\<open>src/Node.cpp\<close>,
  \<open>include/ndlcom/Node.hpp\<close>): they create and own the interfaces, handlers and nodes and take them
  off the lists of the C code before they are destroyed. The number of a new object is its address,
  which the allocator chooses.
\<close>

section \<open>State\<close>

text \<open>The vectors of the bridge and of its nodes; \<open>out\<close> is the stream the bridge was made with.\<close>

record 'd cpp_bridge =
  c_bridge :: "'d cpp_world"
  externalInterfaces :: "nat list"
  bridgeHandler :: "nat list"
  cpp_nodes :: "nat list" \<comment> \<open>\<open>nodes\<close>\<close>
  allHandler :: "nat \<Rightarrow> nat list"
  out :: string

text \<open>\<open>while (!v.empty()) destroy(v.front());\<close>\<close>

partial_function (option) while_front :: "('b \<Rightarrow> nat list) \<Rightarrow> (nat \<Rightarrow> 'b \<Rightarrow> 'b option) \<Rightarrow> 'b \<Rightarrow> 'b option" where
  "while_front v destroy b =
     (case v b of
        [] \<Rightarrow> Some b
      | x # _ \<Rightarrow> do {
          b \<leftarrow> destroy x b;
          while_front v destroy b
        })"

lemma while_front_Nil: "v b = [] \<Longrightarrow> while_front v destroy b = Some b"
  by (subst while_front.simps) simp

lemma while_front_Cons:
  "v b = x # xs \<Longrightarrow> destroy x b = Some b' \<Longrightarrow> while_front v destroy b = while_front v destroy b'"
  by (subst while_front.simps) simp

lemma while_front_drains:
  assumes "\<And>x xs b. I b \<Longrightarrow> v b = x # xs \<Longrightarrow> \<exists>b'. destroy x b = Some b' \<and> I b' \<and> length (v b') \<le> length xs"
    and "I b"
  shows "\<exists>b'. while_front v destroy b = Some b' \<and> I b' \<and> v b' = []"
  using assms(2)
proof (induction "length (v b)" arbitrary: b rule: less_induct)
  case less
  show ?case
  proof (cases "v b")
    case Nil
    show ?thesis by (rule exI [of _ b]) (simp only: while_front_Nil [where v = v, OF Nil] Nil less.prems simp_thms)
  next
    case (Cons x xs)
    obtain b1 where b1: "destroy x b = Some b1" "I b1" "length (v b1) \<le> length xs"
      using assms(1) [OF less.prems Cons] by metis
    have "length (v b1) < length (v b)" using b1(3) Cons by simp
    from less.hyps [OF this b1(2)] show ?thesis unfolding while_front_Cons [where v = v and b = b and destroy = destroy, OF Cons b1(1)] .
  qed
qed

section \<open>Interfaces\<close>

definition createExternalInterface ::
  "config \<Rightarrow> nat \<Rightarrow> string \<Rightarrow> u8 \<Rightarrow> 'd cpp_bridge \<Rightarrow> 'd cpp_bridge option" where
  "createExternalInterface cfg i label flags b = do {
     w \<leftarrow> ExternalInterfaceBase_registerHandler i (ExternalInterfaceBase_new cfg i label flags (c_bridge b));
     Some (b\<lparr>c_bridge := w, externalInterfaces := externalInterfaces b @ [i]\<rparr>)
   }"

definition destroyExternalInterface :: "config \<Rightarrow> nat \<Rightarrow> 'd cpp_bridge \<Rightarrow> 'd cpp_bridge option" where
  "destroyExternalInterface cfg i b = do {
     w \<leftarrow> ExternalInterfaceBase_deregisterHandler cfg i (c_bridge b);
     Some (b\<lparr>c_bridge := w, externalInterfaces := removeAll i (externalInterfaces b)\<rparr>)
   }"

text \<open>An empty weak pointer is \<open>None\<close>.\<close>

definition getInterfaceByName :: "string \<Rightarrow> 'd cpp_bridge \<Rightarrow> nat option" where
  "getInterfaceByName name b =
     find (\<lambda>i. if_label (interface_objects (env (c_bridge b)) i) = name) (externalInterfaces b)"

definition getInterfaceByOrigin :: "ptr \<Rightarrow> 'd cpp_bridge \<Rightarrow> nat option" where
  "getInterfaceByOrigin origin b = find (\<lambda>i. Iface_ptr i = origin) (externalInterfaces b)"

definition getInterfaceNames :: "'d cpp_bridge \<Rightarrow> string list" where
  "getInterfaceNames b = map (\<lambda>i. if_label (interface_objects (env (c_bridge b)) i)) (externalInterfaces b)"

definition getInterfaceCount :: "'d cpp_bridge \<Rightarrow> nat" where
  "getInterfaceCount b = length (externalInterfaces b)"

section \<open>Bridge handlers\<close>

definition createBridgeHandler ::
  "nat \<Rightarrow> string \<Rightarrow> handler_object \<Rightarrow> 'd cpp_bridge \<Rightarrow> 'd cpp_bridge option" where
  "createBridgeHandler k label s b = do {
     w \<leftarrow> BridgeHandler_registerHandler k (BridgeHandler_new k label s (c_bridge b));
     Some (b\<lparr>c_bridge := w, bridgeHandler := bridgeHandler b @ [k]\<rparr>)
   }"

definition destroyBridgeHandler :: "nat \<Rightarrow> 'd cpp_bridge \<Rightarrow> 'd cpp_bridge option" where
  "destroyBridgeHandler k b = do {
     w \<leftarrow> BridgeHandler_deregisterHandler k (c_bridge b);
     Some (b\<lparr>c_bridge := w, bridgeHandler := removeAll k (bridgeHandler b)\<rparr>)
   }"

definition enablePrintAll :: "nat \<Rightarrow> 'd cpp_bridge \<Rightarrow> 'd cpp_bridge option" where
  "enablePrintAll k b = createBridgeHandler k ''BridgePrintAll'' PrintAll_object b"

definition enablePrintMiss :: "nat \<Rightarrow> 'd cpp_bridge \<Rightarrow> 'd cpp_bridge option" where
  "enablePrintMiss k b = createBridgeHandler k ''BridgeMissEvents'' (PrintMissEvents_object BridgeMissEvents_init) b"

section \<open>Nodes\<close>

definition Node_new :: "nat \<Rightarrow> u8 \<Rightarrow> 'd cpp_bridge \<Rightarrow> 'd cpp_bridge" where
  "Node_new n ownDeviceId b =
     b\<lparr>c_bridge := ndlcomNodeInit n ownDeviceId
         (upd_env (\<lambda>e. e\<lparr>node_labels := (node_labels e)(n := ''Node-'' @ dec (unat ownDeviceId))\<rparr>) (c_bridge b)),
       allHandler := (allHandler b)(n := [])\<rparr>"

definition createNode :: "config \<Rightarrow> nat \<Rightarrow> u8 \<Rightarrow> 'd cpp_bridge \<Rightarrow> 'd cpp_bridge option" where
  "createNode cfg n ownDeviceId b =
     (let b = Node_new n ownDeviceId b in do {
       w \<leftarrow> Node_registerHandler cfg n (c_bridge b);
       Some (b\<lparr>c_bridge := w, cpp_nodes := cpp_nodes b @ [n]\<rparr>)
     })"

definition createNodeHandler :: "nat \<Rightarrow> nat \<Rightarrow> string \<Rightarrow> handler_object \<Rightarrow> 'd cpp_bridge \<Rightarrow> 'd cpp_bridge" where
  "createNodeHandler n k label s b =
     b\<lparr>c_bridge := NodeHandler_registerHandler n k (NodeHandler_new k label s (c_bridge b)),
       allHandler := (allHandler b)(n := allHandler b n @ [k])\<rparr>"

definition destroyNodeHandler :: "nat \<Rightarrow> nat \<Rightarrow> 'd cpp_bridge \<Rightarrow> 'd cpp_bridge" where
  "destroyNodeHandler n k b =
     b\<lparr>c_bridge := NodeHandler_deregisterHandler n k (c_bridge b),
       allHandler := (allHandler b)(n := removeAll k (allHandler b n))\<rparr>"

text \<open>The destructor of a node: its handlers go first, and then its list has to be empty.\<close>

definition attention :: "string \<Rightarrow> string" where
  "attention name = ''Attention, something went wrong during teardown, '' @ name @ '' is not empty'' @ endl"

definition Node_destructor :: "nat \<Rightarrow> 'd cpp_bridge \<Rightarrow> 'd cpp_bridge option" where
  "Node_destructor n b = do {
     b \<leftarrow> while_front (\<lambda>b. allHandler b n) (\<lambda>k b. Some (destroyNodeHandler n k b)) b;
     Some (if \<not> list_empty (links (c_bridge b)) (NodeHandlerList n)
       then b\<lparr>c_bridge := put_cerr (\<lambda>text. text @ attention ''c-NodeHandlerList'') (c_bridge b)\<rparr> else b)
   }"

text \<open>The last pointer to the node goes out of scope at the end of \<open>destroyNode\<close>.\<close>

definition destroyNode :: "config \<Rightarrow> nat \<Rightarrow> 'd cpp_bridge \<Rightarrow> 'd cpp_bridge option" where
  "destroyNode cfg n b = do {
     w \<leftarrow> Node_deregisterHandler cfg n (c_bridge b);
     Node_destructor n (b\<lparr>c_bridge := w, cpp_nodes := removeAll n (cpp_nodes b)\<rparr>)
   }"

definition enableOwnId :: "config \<Rightarrow> nat \<Rightarrow> nat \<Rightarrow> u8 \<Rightarrow> bool \<Rightarrow> 'd cpp_bridge \<Rightarrow> 'd cpp_bridge option" where
  "enableOwnId cfg n k nodeDeviceId print b = do {
     b \<leftarrow> createNode cfg n nodeDeviceId b;
     Some (if print then createNodeHandler n k ''NodeHandlerPrintOwnId'' PrintOwnId_object b else b)
   }"

definition Node_printStatus :: "config \<Rightarrow> string \<Rightarrow> nat \<Rightarrow> 'd cpp_bridge \<Rightarrow> string" where
  "Node_printStatus cfg prefix n b =
     (let newPrefix = ''  '' @ prefix in
      HandlerCommon_printStatus prefix (node_labels (env (c_bridge b)) n) @
      newPrefix @ ''ndlcomNodeHandler:'' @ endl @
      concat (map (\<lambda>k. handler_printStatus cfg newPrefix k (c_bridge b)) (allHandler b n)))"

section \<open>The bridge\<close>

definition Bridge_new :: "config \<Rightarrow> string \<Rightarrow> 'd cpp_world \<Rightarrow> 'd cpp_bridge" where
  "Bridge_new cfg out_text w =
     \<lparr>c_bridge = ndlcomBridgeInit cfg w, externalInterfaces = [], bridgeHandler = [], cpp_nodes = [],
      allHandler = (\<lambda>_. []), out = out_text\<rparr>"

definition Bridge_destructor :: "config \<Rightarrow> 'd cpp_bridge \<Rightarrow> 'd cpp_bridge option" where
  "Bridge_destructor cfg b = do {
     b \<leftarrow> while_front externalInterfaces (destroyExternalInterface cfg) b;
     b \<leftarrow> while_front bridgeHandler destroyBridgeHandler b;
     b \<leftarrow> while_front cpp_nodes (destroyNode cfg) b;
     let b = (if \<not> list_empty (links (c_bridge b)) ExternalInterfaceList
       then b\<lparr>out := out b @ attention ''c-ExternalInterfaceList''\<rparr> else b);
     Some (if \<not> list_empty (links (c_bridge b)) BridgeHandlerList
       then b\<lparr>out := out b @ attention ''c-BridgeHandlerList''\<rparr> else b)
   }"

text \<open>The messages of the status of all objects, in the order of the vectors.\<close>

definition Bridge_printStatus :: "config \<Rightarrow> 'd cpp_bridge \<Rightarrow> string" where
  "Bridge_printStatus cfg b =
     ''--- Bridge status ---'' @ endl @ ''ndlcomNode:'' @ endl @
     concat (map (\<lambda>n. Node_printStatus cfg ''  '' n b) (cpp_nodes b)) @
     (if bridgeHandler b \<noteq> []
      then ''ndlcomBridgeHandler:'' @ endl @
        concat (map (\<lambda>k. handler_printStatus cfg ''  '' k (c_bridge b)) (bridgeHandler b)) else []) @
     (if externalInterfaces b \<noteq> []
      then ''ndlcomExternalInterface:'' @ endl @
        concat (map (\<lambda>i. ExternalInterfaceBase_printStatus ''  '' i (c_bridge b)) (externalInterfaces b)) else [])"

section \<open>Interfaces from uris\<close>

text \<open>
  \<open>setRoutingByString\<close> writes to \<open>std::cerr\<close>, as its only caller wants. An exception of the conversion
  leaves before a route is set.
\<close>

definition set_route :: "config \<Rightarrow> nat \<Rightarrow> u8 \<Rightarrow> 'd cpp_world \<Rightarrow> 'd cpp_world" where
  "set_route cfg i deviceId w =
     setRoutingForDeviceId cfg i deviceId
       (put_cerr (\<lambda>text. text @ ''ParseUri: set routingTable to use '' @ [CHR 0x27] @
         if_label (interface_objects (env w) i) @ [CHR 0x27] @ '' for deviceId '' @
         setw 3 (dec (unat deviceId)) @ endl) w)"

definition setRoutingByString ::
  "config \<Rightarrow> nat \<Rightarrow> string \<Rightarrow> 'd cpp_world \<Rightarrow> cpp_exception option \<times> 'd cpp_world" where
  "setRoutingByString cfg i conn w =
     (let (converted, text) = convertStringToIds (splitStringIntoStrings conn CHR '','') (std_cerr (env w));
          w = put_cerr (\<lambda>_. text) w
      in case converted of
           Inl e \<Rightarrow> (Some e, w)
         | Inr ids \<Rightarrow> (None, fold (set_route cfg i) ids w))"

text \<open>
  Whether the system lets the constructor open its device is the parameter \<open>opens\<close>; a constructor that
  throws leaves nothing behind. \<open>createInterface\<close> makes a shared pointer of what it gets, which throws
  when this is an empty weak pointer.
\<close>

definition createInterface ::
  "config \<Rightarrow> (interface_config \<Rightarrow> bool) \<Rightarrow> nat \<Rightarrow> string \<Rightarrow> u8 \<Rightarrow> 'd cpp_bridge \<Rightarrow>
    ((cpp_exception + nat) \<times> 'd cpp_bridge) option" where
  "createInterface cfg opens i uri_text flags b =
     (case createInterfaceByMatch all_interface_classes uri_text of
        None \<Rightarrow> Some (Inl Bad_weak_ptr, b)
      | Some (T, match) \<Rightarrow>
          (case constructor_arguments T match of
             Inl e \<Rightarrow> Some (Inl e, b)
           | Inr c \<Rightarrow>
               if refused flags c \<or> \<not> opens c then Some (Inl Runtime_error, b)
               else do {
                 b \<leftarrow> createExternalInterface cfg i (interface_label c) flags b;
                 let (failure, w) = setRoutingByString cfg i (m_last match) (c_bridge b);
                 Some (case failure of Some e \<Rightarrow> Inl e | None \<Rightarrow> Inr i, b\<lparr>c_bridge := w\<rparr>)
               }))"

section \<open>The routing table as text\<close>

definition print_routes :: "config \<Rightarrow> node \<Rightarrow> 'd cpp_bridge \<Rightarrow> 'd cpp_bridge option" where
  "print_routes cfg pos b = do {
     i \<leftarrow> iface_of pos;
     let ids = filter (\<lambda>deviceId. routingTable (c_bridge b) ! deviceId = Iface_ptr i) [0..<NDLCOM_MAX_NUMBER_OF_DEVICES cfg];
     Some (b\<lparr>out := out b @ ''interface '' @ [CHR 0x27] @ if_label (interface_objects (env (c_bridge b)) i) @ [CHR 0x27] @
       '': '' @ concat (map (\<lambda>deviceId. dec deviceId @ '' '') ids) @
       (if ids = [] then ''<none>'' else []) @ endl\<rparr>)
   }"

definition printRoutingTable :: "config \<Rightarrow> 'd cpp_bridge \<Rightarrow> 'd cpp_bridge option" where
  "printRoutingTable cfg b =
     (if list_empty (links (c_bridge b)) ExternalInterfaceList
      then Some (b\<lparr>out := out b @
        ''printRoutingTable: No external interfaces registered. RoutingTable probably empty'' @ endl\<rparr>)
      else let b = b\<lparr>out := out b @ ''printRoutingTable: '' @ endl\<rparr> in
        list_for_each_entry (\<lambda>b. links (c_bridge b)) ExternalInterfaceList (print_routes cfg)
          (lnext (links (c_bridge b)) ExternalInterfaceList) b)"

section \<open>Messages\<close>

definition Bridge_process :: "config \<Rightarrow> 'd virtual_functions \<Rightarrow> 'd cpp_bridge \<Rightarrow> 'd cpp_bridge option" where
  "Bridge_process cfg vf b = do {
     (_, w) \<leftarrow> ndlcomBridgeProcess cfg (cpp_callbacks cfg vf) (c_bridge b);
     Some (b\<lparr>c_bridge := w\<rparr>)
   }"

definition Bridge_processOnce :: "config \<Rightarrow> 'd virtual_functions \<Rightarrow> 'd cpp_bridge \<Rightarrow> 'd cpp_bridge option" where
  "Bridge_processOnce cfg vf b = do {
     (_, w) \<leftarrow> ndlcomBridgeProcessOnce cfg (cpp_callbacks cfg vf) (c_bridge b);
     Some (b\<lparr>c_bridge := w\<rparr>)
   }"

definition Bridge_sendMessageRaw ::
  "config \<Rightarrow> 'd virtual_functions \<Rightarrow> RawPayload \<Rightarrow> 'd cpp_bridge \<Rightarrow> 'd cpp_bridge option" where
  "Bridge_sendMessageRaw cfg vf msg b = do {
     w \<leftarrow> ndlcomBridgeSendRaw cfg (cpp_callbacks cfg vf) (raw_header msg) (raw_data msg) (c_bridge b);
     Some (b\<lparr>c_bridge := w\<rparr>)
   }"

definition Bridge_sendMessageRaw_header ::
  "config \<Rightarrow> 'd virtual_functions \<Rightarrow> NDLComHeader \<Rightarrow> u8 list \<Rightarrow> 'd cpp_bridge \<Rightarrow> 'd cpp_bridge option" where
  "Bridge_sendMessageRaw_header cfg vf header payload b = do {
     w \<leftarrow> ndlcomBridgeSendRaw cfg (cpp_callbacks cfg vf) header payload (c_bridge b);
     Some (b\<lparr>c_bridge := w\<rparr>)
   }"

definition Node_send_bytes ::
  "config \<Rightarrow> 'd virtual_functions \<Rightarrow> NDLComHeader \<Rightarrow> nat \<Rightarrow> u8 \<Rightarrow> u8 list \<Rightarrow> nat \<Rightarrow> 'd cpp_bridge \<Rightarrow> 'd cpp_bridge option" where
  "Node_send_bytes cfg vf junk n receiverId payload payloadSize b = do {
     w \<leftarrow> ndlcomNodeSend cfg (cpp_callbacks cfg vf) junk n receiverId payload payloadSize (c_bridge b);
     Some (b\<lparr>c_bridge := w\<rparr>)
   }"

definition Node_send ::
  "config \<Rightarrow> 'd virtual_functions \<Rightarrow> NDLComHeader \<Rightarrow> nat \<Rightarrow> OutgoingPayload \<Rightarrow> 'd cpp_bridge \<Rightarrow> 'd cpp_bridge option" where
  "Node_send cfg vf junk n msg b = do {
     w \<leftarrow> ndlcomNodeSend cfg (cpp_callbacks cfg vf) junk n (destinationId msg) (out_data msg)
           (unat (Payload_dataLen (out_data msg))) (c_bridge b);
     Some (b\<lparr>c_bridge := w\<rparr>)
   }"

definition Node_setOwnDeviceId :: "config \<Rightarrow> nat \<Rightarrow> u8 \<Rightarrow> 'd cpp_bridge \<Rightarrow> 'd cpp_bridge option" where
  "Node_setOwnDeviceId cfg n ownDeviceId b = do {
     w \<leftarrow> ndlcomNodeSetOwnSenderId cfg n ownDeviceId (c_bridge b);
     Some (b\<lparr>c_bridge := w\<rparr>)
   }"

end
