(* ===== verification/Ownership.thy ===== *)
theory Ownership
  imports Cpp_Bridge
begin

text \<open>
  The objects that a bridge owns are exactly the ones on the lists of the C code. Every way to create
  and destroy objects keeps this, in any order and with any processing of messages in between, and so
  the destructor takes everything down.
\<close>

section \<open>The invariant\<close>

text \<open>The C code links new entries at the front, the vectors grow at the back.\<close>

definition owns :: "'d cpp_bridge \<Rightarrow> registry \<Rightarrow> bool" where
  "owns b r \<longleftrightarrow> holds (c_bridge b) r \<and>
     reg_interfaces r = rev (externalInterfaces b) \<and>
     set (reg_handlers r) = Free_handler ` set (bridgeHandler b) \<union> Handler_of_node ` set (cpp_nodes b) \<and>
     (\<forall>n. reg_node_handlers r n = rev (allHandler b n)) \<and>
     (\<forall>n. n \<notin> set (cpp_nodes b) \<longrightarrow> allHandler b n = []) \<and>
     distinct (bridgeHandler b) \<and> distinct (cpp_nodes b) \<and>
     (\<forall>n \<in> set (cpp_nodes b). node_bridge n (c_bridge b) \<noteq> Null)"

lemma ownsD:
  assumes "owns b r"
  shows "holds (c_bridge b) r" "reg_interfaces r = rev (externalInterfaces b)"
    "set (reg_handlers r) = Free_handler ` set (bridgeHandler b) \<union> Handler_of_node ` set (cpp_nodes b)"
    "reg_node_handlers r n = rev (allHandler b n)" "n \<notin> set (cpp_nodes b) \<Longrightarrow> allHandler b n = []"
    "distinct (bridgeHandler b)" "distinct (cpp_nodes b)" "n \<in> set (cpp_nodes b) \<Longrightarrow> node_bridge n (c_bridge b) \<noteq> Null"
  using assms by (simp_all add: owns_def)

lemma owns_distinct: "owns b r \<Longrightarrow> distinct (externalInterfaces b) \<and> distinct (allHandler b n)"
  using holds_distinct(1) [of "c_bridge b" r] holds_distinct(3) [of "c_bridge b" r n] ownsD(1,2,4) [of b r]
  by simp

section \<open>Creating and destroying\<close>

lemma node_bridge_upd [simp]:
  "node_bridge n (upd_iface i gi w) = node_bridge n w" "node_bridge n (upd_links gl w) = node_bridge n w"
  "node_bridge n (upd_nodeHandler k gk w) = node_bridge n w" "node_bridge n (upd_node m gn w) = node_bridge n w"
  "node_bridge n (w\<lparr>links := l\<rparr>) = node_bridge n w" "node_bridge n (w\<lparr>routingTable := t\<rparr>) = node_bridge n w"
  "node_bridge n (w\<lparr>links := l, routingTable := t\<rparr>) = node_bridge n w"
  "node_bridge n (upd_handler (Free_handler k) gh w) = node_bridge n w"
  "node_bridge n (upd_handler (Handler_of_node m) gh w) = (if n = m then bh_bridge (gh (handlers w (Handler_of_node n))) else node_bridge n w)"
  by (simp_all add: node_bridge_def upd_defs)

lemma node_bridge_Init [simp]:
  "node_bridge n (ndlcomExternalInterfaceInit cfg i io fl w) = node_bridge n w"
  "node_bridge n (ndlcomBridgeHandlerInit (Free_handler k) g fl w) = node_bridge n w"
  "node_bridge n (ndlcomNodeHandlerInit k nh fl w) = node_bridge n w"
  "m \<noteq> n \<Longrightarrow> node_bridge n (ndlcomNodeInit m ownId w) = node_bridge n w"
  by (simp_all add: ndlcomExternalInterfaceInit_def ndlcomBridgeHandlerInit_def ndlcomNodeHandlerInit_def
      ndlcomNodeInit_def ndlcomExternalInterfaceSetFlags_def ndlcomBridgeHandlerSetFlags_def
      ndlcomNodeHandlerSetFlags_def Let_def split: option.split)

lemma interface_init_frame:
  "routingTable (ndlcomExternalInterfaceInit cfg i io fl w) = routingTable w"
  "env (ndlcomExternalInterfaceInit cfg i io fl w) = env w"
  by (simp_all add: ndlcomExternalInterfaceInit_def ndlcomExternalInterfaceSetFlags_def upd_defs Let_def split: option.split)

lemma create_interface_owns:
  assumes "owns b r" and "i \<notin> set (externalInterfaces b)"
  shows "\<exists>b' r'. createExternalInterface cfg i label flags b = Some b' \<and> owns b' r' \<and>
    externalInterfaces b' = externalInterfaces b @ [i] \<and> bridgeHandler b' = bridgeHandler b \<and>
    cpp_nodes b' = cpp_nodes b \<and> allHandler b' = allHandler b \<and> out b' = out b \<and>
    routingTable (c_bridge b') = routingTable (c_bridge b) \<and> ei_bridge (ifaces (c_bridge b') i) = Bridge_ptr \<and>
    if_label (interface_objects (env (c_bridge b')) i) = label"
proof -
  note o = ownsD [OF assms(1)]
  let ?w = "ExternalInterfaceBase_new cfg i label flags (c_bridge b)"
  have new: "i \<notin> set (reg_interfaces r)" using assms(2) o(2) by simp
  have "holds ?w r"
    unfolding ExternalInterfaceBase_new_def by (rule interface_init_holds [OF _ new]) (simp add: o(1))
  from register_interface_holds [OF this new]
  obtain w' where w': "ndlcomBridgeRegisterExternalInterface i ?w = Some w'"
    "holds w' (r\<lparr>reg_interfaces := i # reg_interfaces r\<rparr>)"
    "w' = (upd_iface i (ei_bridge_update (\<lambda>_. Bridge_ptr)) ?w)\<lparr>links := links w'\<rparr>" by blast
  have "node_bridge n w' = node_bridge n (c_bridge b)" for n
    by (subst w'(3)) (simp add: ExternalInterfaceBase_new_def)
  moreover have "routingTable w' = routingTable (c_bridge b)" "ei_bridge (ifaces w' i) = Bridge_ptr"
    "if_label (interface_objects (env w') i) = label"
    by (subst w'(3), simp add: ExternalInterfaceBase_new_def interface_init_frame upd_interface_object_def upd_iface_def)+
  ultimately have *: "routingTable w' = routingTable (c_bridge b)" "ei_bridge (ifaces w' i) = Bridge_ptr"
    "if_label (interface_objects (env w') i) = label" "\<And>n. node_bridge n w' = node_bridge n (c_bridge b)" by blast+
  then have "owns (b\<lparr>c_bridge := w', externalInterfaces := externalInterfaces b @ [i]\<rparr>)
      (r\<lparr>reg_interfaces := i # reg_interfaces r\<rparr>)"
    using w'(2) assms(1) by (simp add: owns_def)
  then show ?thesis using w'(1) * by (simp add: createExternalInterface_def) blast
qed

lemma destroy_interface_owns:
  assumes "owns b r" and "i \<in> set (externalInterfaces b)"
  shows "\<exists>b' r'. destroyExternalInterface cfg i b = Some b' \<and> owns b' r' \<and>
    externalInterfaces b' = removeAll i (externalInterfaces b) \<and> bridgeHandler b' = bridgeHandler b \<and>
    cpp_nodes b' = cpp_nodes b \<and> allHandler b' = allHandler b \<and> out b' = out b \<and> env (c_bridge b') = env (c_bridge b)"
proof -
  note o = ownsD [OF assms(1)]
  have "i \<in> set (reg_interfaces r)" using assms(2) o(2) by simp
  from deregister_interface_holds [OF o(1) this, of cfg]
  obtain w' where w': "ndlcomBridgeDeregisterExternalInterface cfg i (c_bridge b) = Some w'"
    "holds w' (r\<lparr>reg_interfaces := remove1 i (reg_interfaces r)\<rparr>)"
    "w' = (upd_iface i (ei_bridge_update (\<lambda>_. Null)) ((c_bridge b)\<lparr>routingTable :=
      ndlcomRoutingTableInvalidateInterface cfg (routingTable (c_bridge b)) (Iface_ptr i)\<rparr>))\<lparr>links := links w'\<rparr>" by blast
  have nb: "node_bridge n w' = node_bridge n (c_bridge b)" for n by (subst w'(3)) simp
  have env: "env w' = env (c_bridge b)" by (subst w'(3)) (simp add: upd_iface_def)
  have d: "distinct (externalInterfaces b)" using owns_distinct [OF assms(1)] by simp
  then have "remove1 i (reg_interfaces r) = rev (removeAll i (externalInterfaces b))"
    using o(2) by (simp add: distinct_remove1_removeAll removeAll_filter_not_eq rev_filter)
  then have "owns (b\<lparr>c_bridge := w', externalInterfaces := removeAll i (externalInterfaces b)\<rparr>)
      (r\<lparr>reg_interfaces := remove1 i (reg_interfaces r)\<rparr>)"
    using w'(2) nb assms(1) by (simp add: owns_def)
  then show ?thesis using w'(1) env by (simp add: destroyExternalInterface_def) blast
qed

lemma create_handler_owns:
  assumes "owns b r" and "k \<notin> set (bridgeHandler b)"
  shows "\<exists>b' r'. createBridgeHandler k label s b = Some b' \<and> owns b' r' \<and>
    externalInterfaces b' = externalInterfaces b \<and> bridgeHandler b' = bridgeHandler b @ [k] \<and>
    cpp_nodes b' = cpp_nodes b \<and> allHandler b' = allHandler b \<and> out b' = out b"
proof -
  note o = ownsD [OF assms(1)]
  let ?w = "BridgeHandler_new k label s (c_bridge b)"
  have new: "Free_handler k \<notin> set (reg_handlers r)" using assms(2) o(3) by auto
  have "holds ?w r"
    unfolding BridgeHandler_new_def put_object_def upd_env_holds by (rule handler_init_holds [OF _ new]) (simp add: o(1))
  from register_handler_holds [OF this new]
  obtain w' where w': "ndlcomBridgeRegisterBridgeHandler (Free_handler k) ?w = Some w'"
    "holds w' (r\<lparr>reg_handlers := Free_handler k # reg_handlers r\<rparr>)"
    "w' = (upd_handler (Free_handler k) (bh_bridge_update (\<lambda>_. Bridge_ptr)) ?w)\<lparr>links := links w'\<rparr>" by blast
  have "node_bridge n w' = node_bridge n (c_bridge b)" for n
    by (subst w'(3)) (simp add: BridgeHandler_new_def put_object_def)
  then have "owns (b\<lparr>c_bridge := w', bridgeHandler := bridgeHandler b @ [k]\<rparr>)
      (r\<lparr>reg_handlers := Free_handler k # reg_handlers r\<rparr>)"
    using w'(2) assms by (simp add: owns_def)
  then show ?thesis using w'(1) by (simp add: createBridgeHandler_def) blast
qed

lemma destroy_handler_owns:
  assumes "owns b r" and "k \<in> set (bridgeHandler b)"
  shows "\<exists>b' r'. destroyBridgeHandler k b = Some b' \<and> owns b' r' \<and>
    externalInterfaces b' = externalInterfaces b \<and> bridgeHandler b' = removeAll k (bridgeHandler b) \<and>
    cpp_nodes b' = cpp_nodes b \<and> allHandler b' = allHandler b \<and> out b' = out b \<and> env (c_bridge b') = env (c_bridge b)"
proof -
  note o = ownsD [OF assms(1)]
  have "Free_handler k \<in> set (reg_handlers r)" using assms(2) o(3) by simp
  from deregister_handler_holds [OF o(1) this]
  obtain w' where w': "ndlcomBridgeDeregisterBridgeHandler (Free_handler k) (c_bridge b) = Some w'"
    "holds w' (r\<lparr>reg_handlers := remove1 (Free_handler k) (reg_handlers r)\<rparr>)"
    "w' = (upd_handler (Free_handler k) (bh_bridge_update (\<lambda>_. Null)) (c_bridge b))\<lparr>links := links w'\<rparr>" by blast
  have nb: "node_bridge n w' = node_bridge n (c_bridge b)" for n by (subst w'(3)) simp
  have env: "env w' = env (c_bridge b)" by (subst w'(3)) (simp add: upd_handler_def)
  have "distinct (reg_handlers r)" by (rule holds_distinct [OF o(1)])
  then have "set (remove1 (Free_handler k) (reg_handlers r)) =
      Free_handler ` set (removeAll k (bridgeHandler b)) \<union> Handler_of_node ` set (cpp_nodes b)"
    using o(3) by auto
  then have "owns (b\<lparr>c_bridge := w', bridgeHandler := removeAll k (bridgeHandler b)\<rparr>)
      (r\<lparr>reg_handlers := remove1 (Free_handler k) (reg_handlers r)\<rparr>)"
    using w'(2) nb assms(1) by (simp add: owns_def distinct_removeAll)
  then show ?thesis using w'(1) env by (simp add: destroyBridgeHandler_def) blast
qed

lemma node_init_ids:
  "node_own_id m (ndlcomNodeInit n i w) = (if m = n then i else node_own_id m w)"
  "routingTable (ndlcomNodeInit n i w) = routingTable w"
  "node_own_id m (upd_env ge w) = node_own_id m w"
  "node_own_id m (upd_handler h gh w) = node_own_id m w"
  "node_own_id m (w\<lparr>links := l, routingTable := t\<rparr>) = node_own_id m w"
  by (simp_all add: ndlcomNodeInit_def ndlcomBridgeHandlerInit_def ndlcomBridgeHandlerSetFlags_def upd_defs upd_env_def
      ndlcomHeaderPrepareInit_def node_own_id_def Let_def)

lemma create_node_owns:
  assumes "owns b r" and "n \<notin> set (cpp_nodes b)"
  shows "\<exists>b' r'. createNode cfg n ownDeviceId b = Some b' \<and> owns b' r' \<and>
    externalInterfaces b' = externalInterfaces b \<and> bridgeHandler b' = bridgeHandler b \<and>
    cpp_nodes b' = cpp_nodes b @ [n] \<and> allHandler b' = allHandler b \<and> out b' = out b \<and>
    (\<forall>m. node_own_id m (c_bridge b') = (if m = n then ownDeviceId else node_own_id m (c_bridge b))) \<and>
    routingTable (c_bridge b') = ndlcomRoutingTableUpdate cfg (routingTable (c_bridge b)) ownDeviceId Bridge_ptr"
proof -
  note o = ownsD [OF assms(1)]
  let ?w = "c_bridge (Node_new n ownDeviceId b)"
  have new: "Handler_of_node n \<notin> set (reg_handlers r)" using assms(2) o(3) by auto
  have none: "allHandler b n = []" by (rule o(5) [OF assms(2)])
  have "reg_node_handlers r n = []" using o(4) [of n] none by simp
  then have "holds ?w r" using o(1) by (simp add: Node_new_def node_init_holds [OF _ new])
  from node_register_holds [OF this new, of cfg]
  obtain w' where w': "ndlcomNodeRegister cfg n ?w = Some w'"
    "holds w' (r\<lparr>reg_handlers := Handler_of_node n # reg_handlers r\<rparr>)"
    "w' = (upd_handler (Handler_of_node n) (bh_bridge_update (\<lambda>_. Bridge_ptr)) ?w)\<lparr>links := links w',
      routingTable := ndlcomRoutingTableUpdate cfg (routingTable ?w) (node_own_id n ?w) Bridge_ptr\<rparr>" by blast
  have nb: "node_bridge m w' = (if m = n then Bridge_ptr else node_bridge m (c_bridge b))" for m
    by (subst w'(3)) (simp add: Node_new_def)
  have id: "node_own_id m w' = (if m = n then ownDeviceId else node_own_id m (c_bridge b))" for m
    by (subst w'(3)) (simp add: Node_new_def node_init_ids)
  have rt: "routingTable w' = ndlcomRoutingTableUpdate cfg (routingTable (c_bridge b)) ownDeviceId Bridge_ptr"
    by (subst w'(3)) (simp add: Node_new_def node_init_ids)
  let ?b = "(Node_new n ownDeviceId b)\<lparr>c_bridge := w', cpp_nodes := cpp_nodes b @ [n]\<rparr>"
  have same: "(allHandler b)(n := []) = allHandler b" using none by auto
  have "owns ?b (r\<lparr>reg_handlers := Handler_of_node n # reg_handlers r\<rparr>)"
    using w'(2) nb assms none by (auto simp: owns_def Node_new_def)
  moreover have "createNode cfg n ownDeviceId b = Some ?b"
    using w'(1) by (simp add: createNode_def Node_new_def)
  ultimately show ?thesis
    by (intro exI [of _ ?b] exI [of _ "r\<lparr>reg_handlers := Handler_of_node n # reg_handlers r\<rparr>"])
      (simp add: Node_new_def same id rt)
qed

lemma create_node_handler_owns:
  assumes "owns b r" and "n \<in> set (cpp_nodes b)" and "\<And>m. k \<notin> set (allHandler b m)"
  shows "\<exists>r'. owns (createNodeHandler n k label s b) r'"
proof -
  note o = ownsD [OF assms(1)]
  have new: "k \<notin> set (reg_node_handlers r m)" for m using assms(3) o(4) by simp
  have "holds (NodeHandler_new k label s (c_bridge b)) r"
    unfolding NodeHandler_new_def put_object_def upd_env_holds
    by (rule node_handler_init_holds [OF _ new]) (simp add: o(1))
  note h = register_node_handler_holds [OF this new, of n]
  have "owns (createNodeHandler n k label s b) (with_node_handlers r n (k # reg_node_handlers r n))"
    using h assms(1,2) by (auto simp: owns_def createNodeHandler_def NodeHandler_new_def put_object_def ndlcomNodeRegisterNodeHandler_def)
  then show ?thesis by blast
qed

lemma destroy_node_handler_owns:
  assumes "holds (c_bridge b) r" and "reg_node_handlers r n = rev (allHandler b n)" and "k \<in> set (allHandler b n)"
  shows "holds (c_bridge (destroyNodeHandler n k b)) (with_node_handlers r n (rev (removeAll k (allHandler b n))))"
proof -
  have d: "distinct (allHandler b n)" using holds_distinct(3) [OF assms(1), of n] assms(2) by simp
  have "k \<in> set (reg_node_handlers r n)" using assms(2,3) by simp
  from deregister_node_handler_holds [OF assms(1) this]
  have "holds (c_bridge (destroyNodeHandler n k b)) (with_node_handlers r n (remove1 k (reg_node_handlers r n)))"
    by (simp add: destroyNodeHandler_def)
  moreover have "remove1 k (reg_node_handlers r n) = rev (removeAll k (allHandler b n))"
    using d assms(2) by (simp add: distinct_remove1_removeAll removeAll_filter_not_eq rev_filter)
  ultimately show ?thesis by simp
qed

text \<open>What does not change while the handlers of the node \<open>n\<close> are destroyed.\<close>

definition same_but_handlers_of :: "nat \<Rightarrow> 'd cpp_bridge \<Rightarrow> 'd cpp_bridge \<Rightarrow> bool" where
  "same_but_handlers_of n b b' \<longleftrightarrow>
     externalInterfaces b' = externalInterfaces b \<and> bridgeHandler b' = bridgeHandler b \<and>
     cpp_nodes b' = cpp_nodes b \<and> out b' = out b \<and> env (c_bridge b') = env (c_bridge b) \<and>
     routingTable (c_bridge b') = routingTable (c_bridge b) \<and>
     (\<forall>m. node_bridge m (c_bridge b') = node_bridge m (c_bridge b)) \<and>
     (\<forall>m. m \<noteq> n \<longrightarrow> allHandler b' m = allHandler b m)"

lemma node_destructor_effect:
  fixes b :: "'d cpp_bridge"
  assumes "holds (c_bridge b) r" and "\<And>m. reg_node_handlers r m = rev (allHandler b m)"
  shows "\<exists>b'. Node_destructor n b = Some b' \<and> holds (c_bridge b') (with_node_handlers r n []) \<and>
    allHandler b' n = [] \<and> same_but_handlers_of n b b'"
proof -
  let ?I = "\<lambda>b'. holds (c_bridge b') (with_node_handlers r n (rev (allHandler b' n))) \<and> same_but_handlers_of n b b'"
  have "\<exists>b'. while_front (\<lambda>b. allHandler b n) (\<lambda>k b. Some (destroyNodeHandler n k b)) b = Some b' \<and> ?I b' \<and> allHandler b' n = []"
  proof (rule while_front_drains)
    have "with_node_handlers r n (rev (allHandler b n)) = r" using assms(2) [of n] by (cases r) auto
    then show "?I b" using assms(1) by (simp add: same_but_handlers_of_def)
  next
    fix k ks and v :: "'d cpp_bridge"
    assume I: "?I v" and v: "allHandler v n = k # ks"
    have d: "distinct (allHandler v n)" using holds_distinct(3) [of "c_bridge v" _ n] I by fastforce
    have "holds (c_bridge (destroyNodeHandler n k v)) (with_node_handlers r n (rev (removeAll k (allHandler v n))))"
      using destroy_node_handler_owns [of v _ n k] I v by fastforce
    moreover have "allHandler (destroyNodeHandler n k v) n = removeAll k (allHandler v n)"
      by (simp add: destroyNodeHandler_def)
    moreover have "same_but_handlers_of n v (destroyNodeHandler n k v)"
      by (simp add: same_but_handlers_of_def destroyNodeHandler_def ndlcomNodeDeregisterNodeHandler_def upd_defs node_bridge_def)
    moreover have "length (removeAll k (allHandler v n)) \<le> length ks" using v d by (simp add: removeAll_id)
    ultimately show "\<exists>v'. Some (destroyNodeHandler n k v) = Some v' \<and> ?I v' \<and> length (allHandler v' n) \<le> length ks"
      using I by (simp add: same_but_handlers_of_def)
  qed
  then obtain b' where b': "while_front (\<lambda>b. allHandler b n) (\<lambda>k b. Some (destroyNodeHandler n k b)) b = Some b'"
    "holds (c_bridge b') (with_node_handlers r n (rev (allHandler b' n)))" "same_but_handlers_of n b b'" "allHandler b' n = []"
    by blast
  then have "list_empty (links (c_bridge b')) (NodeHandlerList n)"
    using holds_empty_lists(3) [of "c_bridge b'" _ n] by fastforce
  then show ?thesis using b' by (simp add: Node_destructor_def)
qed

lemma destroy_node_owns:
  assumes "owns b r" and "n \<in> set (cpp_nodes b)"
  shows "\<exists>b' r'. destroyNode cfg n b = Some b' \<and> owns b' r' \<and>
    externalInterfaces b' = externalInterfaces b \<and> bridgeHandler b' = bridgeHandler b \<and>
    cpp_nodes b' = removeAll n (cpp_nodes b) \<and> out b' = out b \<and> env (c_bridge b') = env (c_bridge b) \<and>
    routingTable (c_bridge b') = ndlcomRoutingTableUpdate cfg (routingTable (c_bridge b))
      (node_own_id n (c_bridge b)) NDLCOM_ROUTING_ALL_INTERFACES"
proof -
  note o = ownsD [OF assms(1)]
  have "Handler_of_node n \<in> set (reg_handlers r)" using assms(2) o(3) by simp
  from node_deregister_holds [OF o(1) this o(8) [OF assms(2)], of cfg]
  obtain w' where w': "ndlcomNodeDeregister cfg n (c_bridge b) = Some w'"
    "holds w' (r\<lparr>reg_handlers := remove1 (Handler_of_node n) (reg_handlers r)\<rparr>)"
    "w' = (upd_handler (Handler_of_node n) (bh_bridge_update (\<lambda>_. Null)) (c_bridge b))\<lparr>links := links w',
      routingTable := ndlcomRoutingTableUpdate cfg (routingTable (c_bridge b)) (node_own_id n (c_bridge b))
        NDLCOM_ROUTING_ALL_INTERFACES\<rparr>" by blast
  have nb: "node_bridge m w' = node_bridge m (c_bridge b)" if "m \<noteq> n" for m
    by (subst w'(3)) (simp add: that)
  have env: "env w' = env (c_bridge b)" by (subst w'(3)) (simp add: upd_handler_def)
  have rt: "routingTable w' = ndlcomRoutingTableUpdate cfg (routingTable (c_bridge b))
      (node_own_id n (c_bridge b)) NDLCOM_ROUTING_ALL_INTERFACES" by (subst w'(3)) simp
  let ?v = "b\<lparr>c_bridge := w', cpp_nodes := removeAll n (cpp_nodes b)\<rparr>"
  let ?r = "r\<lparr>reg_handlers := remove1 (Handler_of_node n) (reg_handlers r)\<rparr>"
  have "holds (c_bridge ?v) ?r" using w'(2) by simp
  from node_destructor_effect [OF this, of n] o(4)
  obtain b' where b': "Node_destructor n ?v = Some b'" "holds (c_bridge b') (with_node_handlers ?r n [])"
    "allHandler b' n = []" "same_but_handlers_of n ?v b'" by auto
  have d: "distinct (reg_handlers r)" by (rule holds_distinct [OF o(1)])
  have handlers: "set (remove1 (Handler_of_node n) (reg_handlers r)) =
      Free_handler ` set (bridgeHandler b) \<union> Handler_of_node ` set (removeAll n (cpp_nodes b))"
    using o(3) d by auto
  have "owns b' (with_node_handlers ?r n [])"
    unfolding owns_def
  proof (intro conjI)
    show "\<forall>m. reg_node_handlers (with_node_handlers ?r n []) m = rev (allHandler b' m)"
      using b'(3,4) o(4) by (simp add: same_but_handlers_of_def)
    show "\<forall>m. m \<notin> set (cpp_nodes b') \<longrightarrow> allHandler b' m = []"
    proof (intro allI impI)
      fix m assume "m \<notin> set (cpp_nodes b')"
      then show "allHandler b' m = []"
        using b'(3,4) o(5) [of m] by (cases "m = n") (auto simp: same_but_handlers_of_def)
    qed
    show "\<forall>m \<in> set (cpp_nodes b'). node_bridge m (c_bridge b') \<noteq> Null"
      using b'(4) nb o(8) by (simp add: same_but_handlers_of_def)
  qed (use b'(2,4) handlers o(2,6,7) in \<open>simp_all add: same_but_handlers_of_def distinct_removeAll\<close>)
  then show ?thesis using w'(1) b' env rt by (simp add: destroyNode_def same_but_handlers_of_def) blast
qed

section \<open>The destructor\<close>

definition unchanged_streams :: "'d cpp_bridge \<Rightarrow> 'd cpp_bridge \<Rightarrow> bool" where
  "unchanged_streams b b' \<longleftrightarrow> out b' = out b \<and> env (c_bridge b') = env (c_bridge b)"

lemma while_front_owned:
  fixes b :: "'d cpp_bridge"
  assumes "\<And>v r x. owns v r \<Longrightarrow> P v \<Longrightarrow> x \<in> set (vec v) \<Longrightarrow> \<exists>v' r'. destroy x v = Some v' \<and> owns v' r' \<and> P v' \<and>
      vec v' = removeAll x (vec v) \<and> unchanged_streams v v'"
    and "owns b r" and "P b"
  obtains b' r' where "while_front vec destroy b = Some b'" "owns b' r'" "P b'" "unchanged_streams b b'" "vec b' = []"
proof -
  let ?I = "\<lambda>b'. (\<exists>r'. owns b' r') \<and> P b' \<and> unchanged_streams b b'"
  have "\<exists>b'. while_front vec destroy b = Some b' \<and> ?I b' \<and> vec b' = []"
  proof (rule while_front_drains)
    show "?I b" using assms(2,3) by (auto simp: unchanged_streams_def)
    fix x xs and v :: "'d cpp_bridge" assume I: "?I v" and v: "vec v = x # xs"
    obtain r' where "owns v r'" using I by blast
    from assms(1) [OF this, of x] I v obtain v' r'' where v': "destroy x v = Some v'" "owns v' r''" "P v'"
      "vec v' = removeAll x (vec v)" "unchanged_streams v v'" by auto
    moreover have "unchanged_streams b v'" using I v'(5) by (simp add: unchanged_streams_def)
    ultimately show "\<exists>v'. destroy x v = Some v' \<and> ?I v' \<and> length (vec v') \<le> length xs" using v by auto
  qed
  then show ?thesis using that by blast
qed

lemma destructor_effect:
  assumes "owns b r"
  shows "\<exists>b'. Bridge_destructor cfg b = Some b' \<and> unchanged_streams b b' \<and>
    externalInterfaces b' = [] \<and> bridgeHandler b' = [] \<and> cpp_nodes b' = [] \<and> (\<forall>n. allHandler b' n = []) \<and>
    list_empty (links (c_bridge b')) ExternalInterfaceList \<and> list_empty (links (c_bridge b')) BridgeHandlerList"
proof -
  note us = unchanged_streams_def
  have interface: "\<exists>v' r'. destroyExternalInterface cfg x v = Some v' \<and> owns v' r' \<and> True \<and>
      externalInterfaces v' = removeAll x (externalInterfaces v) \<and> unchanged_streams v v'"
    if "owns v r" "x \<in> set (externalInterfaces v)" for x r and v :: "'a cpp_bridge"
    using destroy_interface_owns [OF that, of cfg] unfolding us by blast
  have handler: "\<exists>v' r'. destroyBridgeHandler x v = Some v' \<and> owns v' r' \<and> externalInterfaces v' = [] \<and>
      bridgeHandler v' = removeAll x (bridgeHandler v) \<and> unchanged_streams v v'"
    if "owns v r" "externalInterfaces v = []" "x \<in> set (bridgeHandler v)" for x r and v :: "'a cpp_bridge"
    using destroy_handler_owns [OF that(1,3)] that(2) unfolding us by metis
  have node: "\<exists>v' r'. destroyNode cfg x v = Some v' \<and> owns v' r' \<and> (externalInterfaces v' = [] \<and> bridgeHandler v' = []) \<and>
      cpp_nodes v' = removeAll x (cpp_nodes v) \<and> unchanged_streams v v'"
    if "owns v r" "externalInterfaces v = [] \<and> bridgeHandler v = []" "x \<in> set (cpp_nodes v)" for x r and v :: "'a cpp_bridge"
    using destroy_node_owns [OF that(1,3), of cfg] that(2) unfolding us by metis
  obtain b1 r1 where b1: "while_front externalInterfaces (destroyExternalInterface cfg) b = Some b1" "owns b1 r1"
    "unchanged_streams b b1" "externalInterfaces b1 = []"
    by (rule while_front_owned [where P = "\<lambda>_. True", OF interface assms TrueI])
  obtain b2 r2 where b2: "while_front bridgeHandler destroyBridgeHandler b1 = Some b2" "owns b2 r2"
    "externalInterfaces b2 = []" "unchanged_streams b1 b2" "bridgeHandler b2 = []"
    by (rule while_front_owned [where P = "\<lambda>v. externalInterfaces v = []", OF handler b1(2,4)])
  have none: "externalInterfaces b2 = [] \<and> bridgeHandler b2 = []" using b2(3,5) by simp
  obtain b3 r3 where b3: "while_front cpp_nodes (destroyNode cfg) b2 = Some b3" "owns b3 r3"
    "externalInterfaces b3 = [] \<and> bridgeHandler b3 = []" "unchanged_streams b2 b3" "cpp_nodes b3 = []"
    by (rule while_front_owned [where P = "\<lambda>v. externalInterfaces v = [] \<and> bridgeHandler v = []", OF node b2(2) none])
  note o = ownsD [OF b3(2)]
  have "list_empty (links (c_bridge b3)) ExternalInterfaceList" "list_empty (links (c_bridge b3)) BridgeHandlerList"
    using holds_empty_lists(1,2) [OF o(1)] o(2,3) b3(3,5) by simp_all
  moreover have "\<forall>n. allHandler b3 n = []" using o(5) b3(5) by simp
  moreover have "unchanged_streams b b3" using b1(3) b2(4) b3(4) by (simp add: us)
  ultimately show ?thesis
    using b1(1) b2(1) b3(1,3,5) by (simp add: Bridge_destructor_def)
qed

section \<open>Every run\<close>

text \<open>
  What a program does with a bridge: it creates objects, at addresses that are not in use, destroys
  objects it has, and does other things that leave the lists and the structures of the bridge handlers
  alone, as the processing of messages does.
\<close>

inductive bridge_step :: "config \<Rightarrow> 'd cpp_bridge \<Rightarrow> 'd cpp_bridge \<Rightarrow> bool" for cfg where
  create_interface: "i \<notin> set (externalInterfaces b) \<Longrightarrow> createExternalInterface cfg i label flags b = Some b' \<Longrightarrow>
    bridge_step cfg b b'"
| destroy_interface: "i \<in> set (externalInterfaces b) \<Longrightarrow> destroyExternalInterface cfg i b = Some b' \<Longrightarrow>
    bridge_step cfg b b'"
| create_handler: "k \<notin> set (bridgeHandler b) \<Longrightarrow> createBridgeHandler k label s b = Some b' \<Longrightarrow> bridge_step cfg b b'"
| destroy_handler: "k \<in> set (bridgeHandler b) \<Longrightarrow> destroyBridgeHandler k b = Some b' \<Longrightarrow> bridge_step cfg b b'"
| create_node: "n \<notin> set (cpp_nodes b) \<Longrightarrow> createNode cfg n ownDeviceId b = Some b' \<Longrightarrow> bridge_step cfg b b'"
| destroy_node: "n \<in> set (cpp_nodes b) \<Longrightarrow> destroyNode cfg n b = Some b' \<Longrightarrow> bridge_step cfg b b'"
| create_node_handler: "n \<in> set (cpp_nodes b) \<Longrightarrow> (\<And>m. k \<notin> set (allHandler b m)) \<Longrightarrow>
    bridge_step cfg b (createNodeHandler n k label s b)"
| destroy_node_handler: "n \<in> set (cpp_nodes b) \<Longrightarrow> k \<in> set (allHandler b n) \<Longrightarrow>
    bridge_step cfg b (destroyNodeHandler n k b)"
| elsewhere: "links w' = links (c_bridge b) \<Longrightarrow> handlers w' = handlers (c_bridge b) \<Longrightarrow>
    bridge_step cfg b (b\<lparr>c_bridge := w'\<rparr>)"

lemma bridge_step_owns:
  assumes "bridge_step cfg b b'" and "owns b r"
  shows "\<exists>r'. owns b' r'"
  using assms
proof (induction rule: bridge_step.induct)
  case (destroy_node_handler n b k)
  note o = ownsD [OF destroy_node_handler.prems]
  have "owns (destroyNodeHandler n k b) (with_node_handlers r n (rev (removeAll k (allHandler b n))))"
    using destroy_node_handler_owns [OF o(1,4) destroy_node_handler.hyps(2)] destroy_node_handler.prems destroy_node_handler.hyps(1)
    by (auto simp: owns_def destroyNodeHandler_def ndlcomNodeDeregisterNodeHandler_def)
  then show ?case by blast
next
  case (elsewhere w' b)
  then have "owns (b\<lparr>c_bridge := w'\<rparr>) r" by (simp add: owns_def node_bridge_def holds_cong [of w' "c_bridge b"])
  then show ?case by blast
qed (metis create_interface_owns destroy_interface_owns create_handler_owns destroy_handler_owns create_node_owns
    destroy_node_owns create_node_handler_owns option.inject)+

definition no_registry :: registry where
  "no_registry = \<lparr>reg_interfaces = [], reg_handlers = [], reg_node_handlers = (\<lambda>_. [])\<rparr>"

lemma no_registry_simps [simp]:
  "reg_interfaces no_registry = []" "reg_handlers no_registry = []" "reg_node_handlers no_registry n = []"
  by (simp_all add: no_registry_def)

lemma new_bridge_owns:
  assumes "holds w no_registry"
  shows "owns (Bridge_new cfg text w) no_registry"
proof -
  have "holds (ndlcomBridgeInit cfg w) no_registry"
    unfolding ndlcomBridgeInit_def Let_def by (simp add: assms holds_INIT)
  then show ?thesis by (simp add: owns_def Bridge_new_def)
qed

lemma bridge_steps_own:
  assumes "(bridge_step cfg)\<^sup>*\<^sup>* (Bridge_new cfg text w) b" and "holds w no_registry"
  shows "\<exists>r. owns b r"
  using assms(1)
proof (induction rule: rtranclp_induct)
  case base
  then show ?case using new_bridge_owns [OF assms(2)] by blast
next
  case (step b b')
  then show ?case using bridge_step_owns by blast
qed

end
