(* ===== verification/Process_Keeps.thy ===== *)
theory Process_Keeps
  imports Cpp_Bridge
begin

text \<open>
  What a run of the bridge keeps, whatever the handlers do to the lists: a property of the world that every step
  and every handler keeps holds after every run that returns. A property that does not depend
  on the environment, the interfaces and the routing table is kept by every step.
\<close>

section \<open>Loops\<close>

lemma list_for_each_entry_keeps:
  assumes "list_for_each_entry lk head body pos s = Some s'" and "Q s"
    and "\<And>pos s s'. Q s \<Longrightarrow> body pos s = Some s' \<Longrightarrow> Q s'"
  shows "Q s'"
  using assms
proof (induction lk head body pos s s' rule: list_for_each_entry.raw_induct [rotated, consumes 1])
  case (1 f lk head body pos s s')
  show ?case
  proof (cases "pos = head")
    case False
    then obtain v where v: "body pos s = Some v" "f lk head body (lnext (lk v) pos) v = Some s'"
      using 1(2) by (auto split: Option.bind_splits)
    have "Q v" by (rule 1(4) [OF 1(3) v(1)])
    from 1(1) [OF v(2) this 1(4)] show ?thesis .
  qed (use 1(2,3) in simp)
qed

lemma list_for_each_entry_safe_keeps:
  assumes "list_for_each_entry_safe lk head body pos n s = Some s'" and "Q s"
    and "\<And>pos s r. Q s \<Longrightarrow> body pos s = Some r \<Longrightarrow> Q (fst r)"
  shows "Q s'"
  using assms
proof (induction lk head body pos n s s' rule: list_for_each_entry_safe.raw_induct [rotated, consumes 1])
  case (1 f lk head body pos n s s')
  show ?case
  proof (cases "pos = head")
    case False
    then obtain v c n' where v: "body pos s = Some (v, c)" "f lk head body n' (lnext (lk v) n') v = Some s'"
      using 1(2) by (auto simp: Let_def split: Option.bind_splits prod.splits)
    have "Q v" using 1(4) [OF 1(3) v(1)] by simp
    from 1(1) [OF v(2) this 1(4)] show ?thesis .
  qed (use 1(2,3) in simp)
qed

section \<open>The bridge\<close>

text \<open>A property of worlds that the handling of a message keeps.\<close>

definition message_invariant :: "'e callbacks \<Rightarrow> ('e world \<Rightarrow> bool) \<Rightarrow> bool" where
  "message_invariant cb Q \<longleftrightarrow> handlers_preserve cb Q \<and> (\<forall>w j bytes. Q w \<longrightarrow> Q (iface_write cb j bytes w))"

lemma message_invariantD:
  assumes "message_invariant cb Q"
  shows "handlers_preserve cb Q" and "Q w \<Longrightarrow> Q (iface_write cb j bytes w)"
  using assms unfolding message_invariant_def by blast+

text \<open>A property of worlds that every step of a run of the bridge keeps.\<close>

definition run_invariant :: "config \<Rightarrow> 'e callbacks \<Rightarrow> ('e world \<Rightarrow> bool) \<Rightarrow> bool" where
  "run_invariant cfg cb Q \<longleftrightarrow> message_invariant cb Q \<and>
     (\<forall>w i header. Q w \<longrightarrow> Q (learn_sender cfg i header w)) \<and>
     (\<forall>w i bytes p n. Q w \<longrightarrow> ndlcomParserReceive cfg (ei_parser (ifaces w i)) bytes = Some (p, n) \<longrightarrow>
        Q (upd_iface i (ei_parser_update (\<lambda>_. p)) w)) \<and>
     (\<forall>w i. Q w \<longrightarrow> Q (upd_iface i (ei_parser_update ndlcomParserDestroyPacket) w)) \<and>
     (\<forall>w io n. Q w \<longrightarrow> Q (w\<lparr>env := snd (cb_read cb io n (env w))\<rparr>))"

lemma run_invariantD:
  assumes "run_invariant cfg cb Q"
  shows "message_invariant cb Q"
    and "Q w \<Longrightarrow> Q (learn_sender cfg i header w)"
    and "Q w \<Longrightarrow> ndlcomParserReceive cfg (ei_parser (ifaces w i)) bytes = Some (p, n) \<Longrightarrow>
      Q (upd_iface i (ei_parser_update (\<lambda>_. p)) w)"
    and "Q w \<Longrightarrow> Q (upd_iface i (ei_parser_update ndlcomParserDestroyPacket) w)"
    and "Q w \<Longrightarrow> Q (w\<lparr>env := snd (cb_read cb io n (env w))\<rparr>)"
  using assms unfolding run_invariant_def by blast+

text \<open>Properties of the lists and of the structures of handlers and nodes.\<close>

definition of_structure :: "('e world \<Rightarrow> bool) \<Rightarrow> bool" where
  "of_structure Q \<longleftrightarrow> (\<forall>w e f t. Q (w\<lparr>env := e, ifaces := f, routingTable := t\<rparr>) = Q w)"

lemma of_structureD: "of_structure Q \<Longrightarrow> Q (w\<lparr>env := e, ifaces := f, routingTable := t\<rparr>) = Q w"
  by (simp add: of_structure_def)

lemma of_structure_frame:
  assumes "of_structure Q"
  shows "Q (w\<lparr>env := e\<rparr>) = Q w" "Q (w\<lparr>routingTable := t\<rparr>) = Q w" "Q (upd_iface i g w) = Q w" "Q (iface_write cb i bytes w) = Q w"
    "Q (upd_env ge w) = Q w"
  using of_structureD [OF assms, where w = w and e = e and f = "ifaces w" and t = "routingTable w"]
    of_structureD [OF assms, where w = w and e = "env w" and f = "ifaces w" and t = t]
    of_structureD [OF assms, where w = w and e = "env w" and f = "ifaces (upd_iface i g w)" and t = "routingTable w"]
    of_structureD [OF assms, where w = w and e = "ge (env w)" and f = "ifaces w" and t = "routingTable w"]
    of_structureD [OF assms, where w = w and e = "env (iface_write cb i bytes w)" and f = "ifaces w" and t = "routingTable w"]
  by (simp_all add: upd_iface_def upd_env_def iface_write_def)

lemma of_structure_learn: "of_structure Q \<Longrightarrow> Q (learn_sender cfg i header w) = Q w"
  by (simp add: learn_sender_def of_structure_frame(2))

lemma outgoing_keeps:
  assumes "ndlcomBridgeProcessOutgoingMessage cfg cb header payload origin w = Some w'" and "Q w" and "message_invariant cb Q"
  shows "Q w'"
proof -
  have loop: "Q v'" if "list_for_each_entry links ExternalInterfaceList (write_unless_origin cb wanted bytes origin) pos v = Some v'" "Q v"
    for wanted bytes pos v v'
    by (rule list_for_each_entry_keeps [where Q = Q, OF that])
      (auto simp: write_unless_origin_def split: if_splits Option.bind_splits intro: message_invariantD(2) [OF assms(3)])
  let ?loop = "\<lambda>wanted bytes v. list_for_each_entry links ExternalInterfaceList (write_unless_origin cb wanted bytes origin)
      (lnext (links v) ExternalInterfaceList) v"
  obtain bytes v where v: "?loop is_mirror bytes w = Some v" "w' = v \<or> ?loop (\<lambda>ei. \<not> is_mirror ei) bytes v = Some w' \<or>
      (\<exists>i bytes. w' = iface_write cb i bytes v)"
    using assms(1)
    by (auto simp: ndlcomBridgeProcessOutgoingMessage_def Let_def split: if_splits Option.bind_splits ptr.splits) blast+
  have "Q v" by (rule loop [OF v(1) assms(2)])
  then show ?thesis using v(2) loop message_invariantD(2) [OF assms(3)] by blast
qed

lemma call_handler_preserves:
  assumes "call_handler cb f header payload origin w = Some w'" and "Q w" and "handlers_preserve cb Q"
  shows "Q w'"
proof -
  have user: "Q v'" if "cb_handler cb k header payload origin v = Some v'" "Q v" for k v v'
    using assms(3) that unfolding handlers_preserve_def by blast
  show ?thesis
  proof (cases f)
    case (User_handler k)
    then show ?thesis using assms(1,2) user by (simp add: call_handler_def)
  next
    case (Node_message_handler n)
    have "Q v'" if "list_for_each_entry links head (node_handler_body cb header payload origin) pos v = Some v'" "Q v"
      for head pos v v'
      by (rule list_for_each_entry_keeps [where Q = Q, OF that])
        (auto simp: node_handler_body_def split: if_splits Option.bind_splits intro: user)
    then show ?thesis
      using assms(1,2) Node_message_handler by (auto simp: call_handler_def ndlcomNodeMessageHandler_def split: if_splits)
  qed
qed

lemma decoded_message_keeps:
  assumes "ndlcomBridgeProcessDecodedMessage cfg cb header payload origin w = Some w'" and "Q w" and "message_invariant cb Q"
  shows "Q w'"
proof -
  obtain v where v: "ndlcomBridgeProcessOutgoingMessage cfg cb header payload origin w = Some v"
    "list_for_each_entry_safe links BridgeHandlerList (bridge_handler_body cb header payload origin)
       (lnext (links v) BridgeHandlerList) (lnext (links v) (lnext (links v) BridgeHandlerList)) v = Some w'"
    using assms(1) by (auto simp: ndlcomBridgeProcessDecodedMessage_def split: Option.bind_splits)
  show ?thesis
    by (rule list_for_each_entry_safe_keeps [where Q = Q, OF v(2) outgoing_keeps [OF v(1) assms(2,3)]])
      (auto simp: bridge_handler_body_def split: if_splits Option.bind_splits intro: call_handler_preserves [OF _ _ message_invariantD(1) [OF assms(3)]])
qed

lemma process_bytes_keeps:
  assumes "process_bytes cfg cb i buf k w = Some r" and "Q w" and "run_invariant cfg cb Q"
  shows "Q (snd r)"
  using assms
proof (induction cfg cb i buf k w r rule: process_bytes.raw_induct [rotated, consumes 1])
  case (1 f cfg cb i buf k w r)
  note inv = run_invariantD [OF 1(4)]
  obtain p n where p: "ndlcomParserReceive cfg (ei_parser (ifaces w i)) (drop k buf) = Some (p, n)"
    using 1(2) by (auto split: Option.bind_splits)
  let ?w = "upd_iface i (ei_parser_update (\<lambda>_. p)) w"
  have q: "Q ?w" by (rule inv(3) [OF 1(3) p])
  show ?case
  proof (cases "ndlcomParserHasPacket p")
    case True
    then obtain header payload v where v: "ndlcomBridgeProcessDecodedMessage cfg cb header payload (Iface_ptr i)
        (learn_sender cfg i header ?w) = Some v"
      "(if list_empty (links v) (Iface_list i) \<or> length buf = k + n
        then Some (k + n, upd_iface i (ei_parser_update ndlcomParserDestroyPacket) v)
        else f cfg cb i buf (k + n) (upd_iface i (ei_parser_update ndlcomParserDestroyPacket) v)) = Some r"
      using 1(2) by (auto simp: p Let_def upd_iface_def split: Option.bind_splits if_splits)
    have "Q v" by (rule decoded_message_keeps [OF v(1) inv(2) [OF q] inv(1)])
    then have "Q (upd_iface i (ei_parser_update ndlcomParserDestroyPacket) v)" by (rule inv(4))
    then show ?thesis using v(2) 1(1) [OF _ _ 1(4)] by (auto split: if_splits)
  next
    case False
    then show ?thesis using 1(1) [OF _ q 1(4)] 1(2) q by (auto simp: p Let_def split: if_splits)
  qed
qed

lemma process_interface_keeps:
  assumes "ndlcomBridgeProcessExternalInterface cfg cb i w = Some r" and "Q w" and "run_invariant cfg cb Q"
  shows "Q (snd r)"
proof -
  let ?sz = "NDLCOM_BRIDGE_TEMPORARY_RXBUFFER_SIZE cfg"
  obtain bytes e where rd: "cb_read cb (ei_io (ifaces w i)) ?sz (env w) = (bytes, e)" by fastforce
  have r: "(if length bytes = 0 then Some (0, w\<lparr>env := e\<rparr>) else process_bytes cfg cb i bytes 0 (w\<lparr>env := e\<rparr>)) = Some r"
    using assms(1) by (auto simp: ndlcomBridgeProcessExternalInterface_def iface_read_def rd split: Option.bind_splits if_splits prod.splits)
  have "Q (w\<lparr>env := e\<rparr>)" using run_invariantD(5) [OF assms(3,2), of "ei_io (ifaces w i)" ?sz] rd by simp
  then show ?thesis using r process_bytes_keeps [OF _ _ assms(3)] by (auto split: if_splits)
qed

lemma process_once_keeps:
  assumes "ndlcomBridgeProcessOnce cfg cb w = Some r" and "Q w" and "run_invariant cfg cb Q"
  shows "Q (snd r)"
proof -
  have "Q (snd (fst s'))" if "process_once_body cfg cb pos s = Some s'" "Q (snd s)" for pos s s'
    using that process_interface_keeps [OF _ _ assms(3)]
    by (fastforce simp: process_once_body_def split: Option.bind_splits)
  then show ?thesis
    using list_for_each_entry_safe_keeps [where Q = "\<lambda>s. Q (snd s)", OF assms(1) [unfolded ndlcomBridgeProcessOnce_def]] assms(2)
    by auto
qed

lemma process_until_idle_keeps:
  assumes "process_until_idle cfg cb k w = Some r" and "Q w" and "run_invariant cfg cb Q"
  shows "Q (snd r)"
  using assms
proof (induction cfg cb k w r rule: process_until_idle.raw_induct [rotated, consumes 1])
  case (1 f cfg cb k w r)
  from 1(2) obtain n v where v: "ndlcomBridgeProcessOnce cfg cb w = Some (n, v)"
    "(if n > 0 then f cfg cb (k + n) v else Some (k + n, v)) = Some r"
    by (auto split: Option.bind_splits)
  have "Q v" using process_once_keeps [OF v(1) 1(3,4)] by simp
  then show ?case using v(2) 1(1) [OF _ _ 1(4)] by (auto split: if_splits)
qed

lemma of_structure_run_invariant:
  "of_structure Q \<Longrightarrow> handlers_preserve cb Q \<Longrightarrow> run_invariant cfg cb Q"
  by (simp add: run_invariant_def message_invariant_def of_structure_frame of_structure_learn)

lemmas process_keeps = process_until_idle_keeps [OF _ _ of_structure_run_invariant]

section \<open>The handlers of the C++ classes\<close>

lemma cpp_handlers_preserve:
  assumes "of_structure Q"
    and "\<And>k header payload origin w w'. Q w \<Longrightarrow> other_handle vf k header payload origin w = Some w' \<Longrightarrow> Q w'"
  shows "handlers_preserve (cpp_callbacks cfg vf) Q"
  unfolding handlers_preserve_def
  by (auto simp: cpp_callbacks_def handleWrapper_def put_cerr_def put_object_def of_structure_frame [OF assms(1)]
      intro: assms(2) split: handler_object.splits sum.splits option.splits)

end
