(* ===== verification/Cpp_Properties.thy ===== *)
theory Cpp_Properties
  imports Ownership Process_Keeps Example_World
begin

text \<open>
  Properties of the C++ layer that several of its parts have together: teardown, interfaces from uris,
  nodes with the same id, paused interfaces, and what is printed of the routing table.
\<close>

section \<open>A small program\<close>

definition no_objects :: "unit objects" where
  "no_objects = \<lparr>interface_objects = (\<lambda>_. \<lparr>if_label = [], paused = False, rawBytesTx = 0, rawBytesRx = 0\<rparr>),
     handler_objects = (\<lambda>_. Other_object), handler_labels = (\<lambda>_. []), node_labels = (\<lambda>_. []), std_cerr = [], outside = ()\<rparr>"

lemma blank_world_holds: "holds (blank_world cfg e) no_registry"
proof -
  have "unlinked no_registry x" "registered_at no_registry x = []" for x by (cases x; simp)+
  then have "{x. unlinked no_registry x} = UNIV" "registered_at no_registry = (\<lambda>_. [])" by auto
  then show ?thesis using blank_world_lists [of cfg e] by (simp add: holds_def)
qed

abbreviation new_bridge :: "unit cpp_bridge" where
  "new_bridge \<equiv> Bridge_new default_config [] (blank_world default_config no_objects)"

lemma new_bridge_simps [simp]:
  "externalInterfaces new_bridge = []" "bridgeHandler new_bridge = []" "cpp_nodes new_bridge = []"
  "allHandler new_bridge n = []" "out new_bridge = []"
  "routing_wf default_config (routingTable (c_bridge new_bridge))"
  by (simp_all add: Bridge_new_def ndlcomBridgeInit_def rt.wf_init routing_wf_def blank_world_def upd_links_def
      routing_init_eq)

section \<open>Teardown\<close>



text \<open>Processing messages is one of the other things a program may do in between. Handlers may throw, but must
  not change the lists of the bridge.\<close>

definition outsiders_keep_lists :: "'d virtual_functions \<Rightarrow> bool" where
  "outsiders_keep_lists vf \<longleftrightarrow> (\<forall>k header payload origin w w'. other_handle vf k header payload origin w = Some w' \<longrightarrow>
     links w' = links w \<and> handlers w' = handlers w)"

lemma processing_is_a_step:
  assumes "Bridge_process cfg vf b = Some b'" and "outsiders_keep_lists vf"
  shows "bridge_step cfg b b'"
proof -
  let ?Q = "\<lambda>w. links w = links (c_bridge b) \<and> handlers w = handlers (c_bridge b)"
  obtain n w where w: "ndlcomBridgeProcess cfg (cpp_callbacks cfg vf) (c_bridge b) = Some (n, w)" "b' = b\<lparr>c_bridge := w\<rparr>"
    using assms(1) by (auto simp: Bridge_process_def split: Option.bind_splits)
  have q: "of_structure ?Q" by (simp add: of_structure_def)
  have "handlers_preserve (cpp_callbacks cfg vf) ?Q"
    by (rule cpp_handlers_preserve [OF q]) (use assms(2) in \<open>auto simp: outsiders_keep_lists_def\<close>)
  from process_keeps [OF w(1) [unfolded ndlcomBridgeProcess_def] _ q this]
  show ?thesis unfolding w(2) by (intro bridge_step.elsewhere) simp_all
qed

section \<open>Nodes with the same id\<close>

text \<open>
  C23: a bridge makes a new node for an id that another node of it already has. When one of the
  two is destroyed, the id is no longer guarded, although the other node is still there and still
  registered: the sender of the next message from outside that claims this id is learned.
\<close>

theorem destroyed_twin_takes_the_guard:
  assumes "owns b r" and "routing_wf cfg (routingTable (c_bridge b))"
    and "n \<in> set (cpp_nodes b)" and "m \<in> set (cpp_nodes b)" and "n \<noteq> m"
    and "node_own_id n (c_bridge b) = node_own_id m (c_bridge b)"
    and "unat (node_own_id m (c_bridge b)) < NDLCOM_MAX_NUMBER_OF_DEVICES cfg"
  shows "\<exists>b'. destroyNode cfg n b = Some b' \<and> m \<in> set (cpp_nodes b') \<and>
    ndlcomBridgeCheckBridgeHandler (Handler_of_node m) (c_bridge b') = Some True \<and>
    (\<forall>i header. mSenderId header = node_own_id m (c_bridge b) \<longrightarrow> \<not> is_mirror (ifaces (c_bridge b') i) \<longrightarrow>
      ndlcomRoutingGetDestination cfg (routingTable (learn_sender cfg i header (c_bridge b'))) (mSenderId header) =
        Iface_ptr i)"
proof -
  obtain b' r' where b': "destroyNode cfg n b = Some b'" "owns b' r'" "cpp_nodes b' = removeAll n (cpp_nodes b)"
    "routingTable (c_bridge b') = ndlcomRoutingTableUpdate cfg (routingTable (c_bridge b))
      (node_own_id n (c_bridge b)) NDLCOM_ROUTING_ALL_INTERFACES"
    using destroy_node_owns [OF assms(1,3), of cfg] by blast
  have "Handler_of_node m \<in> set (reg_handlers r')"
    using ownsD(3) [OF b'(2)] b'(3) assms(4,5) by auto
  then have "ndlcomBridgeCheckBridgeHandler (Handler_of_node m) (c_bridge b') = Some True"
    using check_bridge_handler [OF ownsD(1) [OF b'(2), unfolded holds_def], of "Handler_of_node m"] by auto
  moreover have "deviceIdIsNotInternallyUsed cfg (c_bridge b') (node_own_id m (c_bridge b))"
    using rt.lookup_learn [OF assms(2)] b'(4) assms(6,7)
    by (simp add: deviceIdIsNotInternallyUsed_def NDLCOM_ROUTING_ALL_INTERFACES_def)
  moreover have "routing_wf cfg (routingTable (c_bridge b'))" using rt.wf_learn [OF assms(2)] b'(4) by simp
  note rt.lookup_learn [OF this]
  ultimately show ?thesis using b'(1,3) assms(4,5,7) by (auto simp: learn_sender_def)
qed

lemma destroyed_twin_takes_the_guard_witness:
  "\<exists>b b' b''. createNode default_config 1 9 new_bridge = Some b \<and> createNode default_config 2 9 b = Some b' \<and>
    destroyNode default_config 1 b' = Some b'' \<and> 2 \<in> set (cpp_nodes b'')"
proof -
  note start = new_bridge_owns [OF blank_world_holds, of default_config "[]" default_config no_objects]
  obtain b r where b: "createNode default_config 1 9 new_bridge = Some b" "owns b r" "cpp_nodes b = [1]"
    "node_own_id 1 (c_bridge b) = 9" "routing_wf default_config (routingTable (c_bridge b))"
    using create_node_owns [OF start, of 1 default_config 9] by (auto simp: rt.wf_learn)
  obtain b' r' where b': "createNode default_config 2 9 b = Some b'" "owns b' r'" "cpp_nodes b' = [1, 2]"
    "node_own_id 1 (c_bridge b') = 9" "node_own_id 2 (c_bridge b') = 9" "routing_wf default_config (routingTable (c_bridge b'))"
    using create_node_owns [OF b(2), of 2 default_config 9] b(3-5) by (auto simp: rt.wf_learn)
  have "unat (9 :: u8) < NDLCOM_MAX_NUMBER_OF_DEVICES default_config" by (simp add: default_config_def)
  then show ?thesis
    using destroyed_twin_takes_the_guard [OF b'(2,6), of 1 2] b(1) b'(1,3-5)
    by auto
qed

section \<open>Interfaces from uris\<close>

lemma put_cerr_frame [simp]:
  "routingTable (put_cerr g w) = routingTable w" "ifaces (put_cerr g w) = ifaces w"
  "interface_objects (env (put_cerr g w)) = interface_objects (env w)" "links (put_cerr g w) = links w"
  by (simp_all add: put_cerr_def)

lemma set_route_frame [simp]:
  "ifaces (set_route cfg i d w) = ifaces w" "links (set_route cfg i d w) = links w"
  "interface_objects (env (set_route cfg i d w)) = interface_objects (env w)"
  by (simp_all add: set_route_def setRoutingForDeviceId_def ndlcomExternalInterfaceSetRoutingForDeviceId_def
      ndlcomBridgeAddRoutingInformationForDeviceId_def Let_def)

lemma fold_set_route:
  assumes "routing_wf cfg (routingTable w)" and "ei_bridge (ifaces w i) \<noteq> Null"
  shows "routing_wf cfg (routingTable (fold (set_route cfg i) ids w)) \<and>
    ndlcomRoutingGetDestination cfg (routingTable (fold (set_route cfg i) ids w)) deviceId =
      (if deviceId \<in> set ids \<and> unat deviceId < NDLCOM_MAX_NUMBER_OF_DEVICES cfg then Iface_ptr i
       else ndlcomRoutingGetDestination cfg (routingTable w) deviceId) \<and>
    interface_objects (env (fold (set_route cfg i) ids w)) = interface_objects (env w)"
  using assms
proof (induction ids arbitrary: w)
  case (Cons d ids)
  have step: "routingTable (set_route cfg i d w) = ndlcomRoutingTableUpdate cfg (routingTable w) d (Iface_ptr i)"
    using Cons.prems(2) by (simp add: set_route_def setRoutingForDeviceId_def
        ndlcomExternalInterfaceSetRoutingForDeviceId_def ndlcomBridgeAddRoutingInformationForDeviceId_def)
  have wf: "routing_wf cfg (routingTable (set_route cfg i d w))" using rt.wf_learn [OF Cons.prems(1)] by (simp add: step)
  have "ei_bridge (ifaces (set_route cfg i d w) i) \<noteq> Null" using Cons.prems(2) by simp
  from Cons.IH [OF wf this] show ?case
    using rt.lookup_learn [OF Cons.prems(1)] by (auto simp: step)
qed simp

text \<open>
  C22: a well-formed uri makes an interface. When the text has the form of a class's uris, its numbers
  are good for the constructor and the device opens, \<open>createInterface\<close> returns a new interface of this
  class, owned by the bridge and labelled as the class does it, and the messages for the ids in the uri
  are routed to it; all other routes stay as they were.
\<close>

theorem createInterface_sets_routes:
  assumes "owns b r" and "routing_wf cfg (routingTable (c_bridge b))" and "i \<notin> set (externalInterfaces b)"
    and "\<forall>c \<in> set name. name_char c" and "length ns \<le> length (number_groups (uri T))"
    and "list_all2 in_group (take (length ns) (number_groups (uri T))) (map dec ns)"
    and "regex_match (make_uri T name ns ids) T = Some m" and "constructor_arguments T m = Inr c"
    and "\<not> refused flags c" and "opens c"
  shows "\<exists>b'. createInterface cfg opens i (make_uri T name ns ids) flags b = Some (Inr i, b') \<and>
    externalInterfaces b' = externalInterfaces b @ [i] \<and> getInterfaceNames b' ! length (externalInterfaces b) = interface_label c \<and>
    (\<forall>deviceId. ndlcomRoutingGetDestination cfg (routingTable (c_bridge b')) deviceId =
      (if deviceId \<in> set ids \<and> deviceId \<noteq> NDLCOM_ADDR_BROADCAST \<and> unat deviceId < NDLCOM_MAX_NUMBER_OF_DEVICES cfg
       then Iface_ptr i else ndlcomRoutingGetDestination cfg (routingTable (c_bridge b)) deviceId))"
proof -
  have last: "m_last m = join CHR 0x2C (map (dec \<circ> unat) ids)"
    using regex_match_make_uri [OF assms(4-6), of ids] assms(7) by auto
  have "T \<in> set all_interface_classes" "2 \<le> length all_interface_classes"
    by (cases T; simp add: all_interface_classes_def)+
  then have found: "createInterfaceByMatch all_interface_classes (make_uri T name ns ids) = Some (T, m)"
    using assms(7) by (simp add: createInterfaceByMatch_iff)
  obtain b1 r1 where b1: "createExternalInterface cfg i (interface_label c) flags b = Some b1"
    "externalInterfaces b1 = externalInterfaces b @ [i]" "routingTable (c_bridge b1) = routingTable (c_bridge b)"
    "ei_bridge (ifaces (c_bridge b1) i) = Bridge_ptr" "if_label (interface_objects (env (c_bridge b1)) i) = interface_label c"
    using create_interface_owns [OF assms(1,3), of cfg "interface_label c" flags] by blast
  let ?good = "filter (\<lambda>i. i \<noteq> NDLCOM_ADDR_BROADCAST) ids"
  obtain said where said: "convertStringToIds (splitStringIntoStrings (m_last m) CHR '','') (std_cerr (env (c_bridge b1))) =
      (Inr ?good, said)"
    using stoi_no_exception_dec [of ids "std_cerr (env (c_bridge b1))"] split_joined_ids [of ids] last by metis
  let ?w = "fold (set_route cfg i) ?good (put_cerr (\<lambda>_. said) (c_bridge b1))"
  have routed: "setRoutingByString cfg i (m_last m) (c_bridge b1) = (None, ?w)"
    by (simp add: setRoutingByString_def said)
  have created: "createInterface cfg opens i (make_uri T name ns ids) flags b = Some (Inr i, b1\<lparr>c_bridge := ?w\<rparr>)"
    by (simp add: createInterface_def found assms(8-10) b1(1) routed)
  have wf: "routing_wf cfg (routingTable (put_cerr (\<lambda>_. said) (c_bridge b1)))" using assms(2) b1(3) by simp
  have "ei_bridge (ifaces (put_cerr (\<lambda>_. said) (c_bridge b1)) i) \<noteq> Null" using b1(4) by simp
  note routes = fold_set_route [OF wf this]
  show ?thesis
  proof (intro exI conjI allI)
    show "createInterface cfg opens i (make_uri T name ns ids) flags b = Some (Inr i, b1\<lparr>c_bridge := ?w\<rparr>)" by (rule created)
    show "externalInterfaces (b1\<lparr>c_bridge := ?w\<rparr>) = externalInterfaces b @ [i]" using b1(2) by simp
    show "getInterfaceNames (b1\<lparr>c_bridge := ?w\<rparr>) ! length (externalInterfaces b) = interface_label c"
      using b1(2,5) routes by (simp add: getInterfaceNames_def nth_append)
    fix deviceId
    show "ndlcomRoutingGetDestination cfg (routingTable (c_bridge (b1\<lparr>c_bridge := ?w\<rparr>))) deviceId =
      (if deviceId \<in> set ids \<and> deviceId \<noteq> NDLCOM_ADDR_BROADCAST \<and> unat deviceId < NDLCOM_MAX_NUMBER_OF_DEVICES cfg
       then Iface_ptr i else ndlcomRoutingGetDestination cfg (routingTable (c_bridge b)) deviceId)"
      using routes [of ?good deviceId] b1(3) by simp
  qed
qed

lemma createInterface_sets_routes_witness:
  "\<exists>b'. createInterface default_config (\<lambda>_. True) 4 (make_uri InterfaceUdp ''localhost'' [5, 6] [3, 255, 14]) 0 new_bridge =
      Some (Inr 4, b') \<and> externalInterfaces b' = [4] \<and>
    ndlcomRoutingGetDestination default_config (routingTable (c_bridge b')) 14 = Iface_ptr 4"
proof -
  let ?m = "\<lparr>m_name = ''localhost'', m_numbers = [dec 5, dec 6, []], m_last = join CHR 0x2C (map (dec \<circ> unat) [3, 255, 14 :: u8])\<rparr>"
  note start = new_bridge_owns [OF blank_world_holds, of default_config "[]" default_config no_objects]
  have name: "\<forall>c \<in> set ''localhost''. name_char c" by (simp add: name_char_def)
  have numbers: "length [5, 6 :: nat] \<le> length (number_groups (uri InterfaceUdp))"
    "list_all2 in_group (take (length [5, 6 :: nat]) (number_groups (uri InterfaceUdp))) (map dec [5, 6])"
    by (simp_all add: uri_defs in_group_def)
  have found: "regex_match (make_uri InterfaceUdp ''localhost'' [5, 6] [3, 255, 14]) InterfaceUdp = Some ?m"
    using regex_match_make_uri [OF name numbers, of "[3, 255, 14]"] by (simp add: uri_defs)
  have args: "constructor_arguments InterfaceUdp ?m = Inr (Udp_socket ''localhost'' 5 6 0)"
    by (simp add: ExternalInterfaceUdp_of_match_def number_or_def stoi_dec)
  have unused: "4 \<notin> set (externalInterfaces new_bridge)" and wf: "routing_wf default_config (routingTable (c_bridge new_bridge))"
    by simp_all
  have accepted: "\<not> refused 0 (Udp_socket ''localhost'' 5 6 0)" by (simp add: ExternalInterfaceUdp_refuses_def)
  have "unat (14 :: u8) < NDLCOM_MAX_NUMBER_OF_DEVICES default_config" by (simp add: default_config_def)
  then show ?thesis
    using createInterface_sets_routes [OF start wf unused name numbers found args accepted, of "\<lambda>_. True"]
    by (auto simp: NDLCOM_ADDR_BROADCAST_def)
qed

section \<open>Paused interfaces\<close>

text \<open>
  A paused interface is silent. Nothing that the bridge writes to it leaves the process or
  is counted, and processing it takes what the system has received and throws it away: no byte is
  counted or reaches the parser, no message is handled and nothing else changes.
\<close>

theorem paused_interface_is_silent:
  assumes "paused (interface_objects (env w) (ei_io (ifaces w i)))"
  shows "iface_write (cpp_callbacks cfg vf) i bytes w = w \<and>
    ndlcomBridgeProcessExternalInterface cfg (cpp_callbacks cfg vf) i w =
      Some (0, upd_env (\<lambda>e. e\<lparr>outside := snd (readEscapedBytes vf (ei_io (ifaces w i))
        (NDLCOM_BRIDGE_TEMPORARY_RXBUFFER_SIZE cfg) (outside e))\<rparr>) w)"
  using assms
  by (simp add: iface_write_def cpp_callbacks_def writeWrapper_def ndlcomBridgeProcessExternalInterface_def
      iface_read_def readWrapper_def noteIncomingBytes_def upd_interface_object_def upd_env_def
      split: prod.split)

lemma paused_interface_is_silent_witness:
  "let vf = \<lparr>writeEscapedBytes = (\<lambda>i bytes sent. sent @ bytes), readEscapedBytes = (\<lambda>i count sent. ([0x7e], sent)),
        other_handle = (\<lambda>k header payload origin w. Some w)\<rparr>;
       e = \<lparr>interface_objects = (\<lambda>_. \<lparr>if_label = [], paused = True, rawBytesTx = 0, rawBytesRx = 0\<rparr>),
         handler_objects = (\<lambda>_. Other_object), handler_labels = (\<lambda>_. []), node_labels = (\<lambda>_. []), std_cerr = [], outside = []\<rparr>
   in iface_write (cpp_callbacks default_config vf) 0 [1, 2, 3] (small_world default_config e) = small_world default_config e"
  unfolding Let_def by (rule paused_interface_is_silent [THEN conjunct1]) simp

section \<open>What is printed of the routing table\<close>

definition routes_line :: "config \<Rightarrow> 'd cpp_world \<Rightarrow> nat \<Rightarrow> string" where
  "routes_line cfg w i =
     (let ids = filter (\<lambda>d. routingTable w ! d = Iface_ptr i) [0..<NDLCOM_MAX_NUMBER_OF_DEVICES cfg]
      in ''interface '' @ [CHR 0x27] @ if_label (interface_objects (env w) i) @ [CHR 0x27] @ '': '' @
        (if ids = [] then ''<none>'' else concat (map (\<lambda>d. dec d @ '' '') ids)) @ endl)"

lemma run_print_routes:
  "run_entries (print_routes cfg) (map Iface_list is) b =
    Some (b\<lparr>out := out b @ concat (map (routes_line cfg (c_bridge b)) is)\<rparr>)"
  by (induction "is" arbitrary: b) (simp_all add: print_routes_def routes_line_def Let_def)

lemma printRoutingTable_prints:
  assumes "owns b r"
  shows "printRoutingTable cfg b = Some (b\<lparr>out := out b @
    (if externalInterfaces b = []
     then ''printRoutingTable: No external interfaces registered. RoutingTable probably empty'' @ endl
     else ''printRoutingTable: '' @ endl @ concat (map (routes_line cfg (c_bridge b)) (rev (externalInterfaces b))))\<rparr>)"
proof (cases "externalInterfaces b = []")
  case True
  then show ?thesis
    using holds_empty_lists(1) [OF ownsD(1) [OF assms]] ownsD(2) [OF assms] by (simp add: printRoutingTable_def)
next
  case False
  let ?b = "b\<lparr>out := out b @ ''printRoutingTable: '' @ endl\<rparr>"
  have d: "dlist (links (c_bridge ?b)) ExternalInterfaceList (map Iface_list (rev (externalInterfaces b)))"
    using holds_dlist(1) [OF ownsD(1) [OF assms]] ownsD(2) [OF assms] by simp
  have "list_for_each_entry (\<lambda>b. links (c_bridge b)) ExternalInterfaceList (print_routes cfg)
      (lnext (links (c_bridge ?b)) ExternalInterfaceList) ?b =
    run_entries (print_routes cfg) (map Iface_list (rev (externalInterfaces b))) ?b"
    by (rule list_for_each_entry_all [where links = "\<lambda>b. links (c_bridge b)", OF d])
      (auto simp: print_routes_def Let_def)
  then show ?thesis
    using False holds_empty_lists(1) [OF ownsD(1) [OF assms]] ownsD(2) [OF assms]
    by (simp add: printRoutingTable_def run_print_routes)
qed

end
