(* ===== verification/Command_Line.thy ===== *)
theory Command_Line
  imports Cpp_Text
begin

text \<open>
  What the command line tools under \<open>tools/\<close> have in common: how they end, and how they read the numbers
  among their arguments. \<open>getopt_long\<close> has sorted the arguments into options, each a letter and its
  argument, and arguments that are no options.
\<close>

section \<open>How a program ends\<close>

text \<open>\<open>exit(EXIT_SUCCESS)\<close>, \<open>exit(EXIT_FAILURE)\<close>, an exception that nobody catches, or a bad memory access.\<close>

datatype outcome = Success | Failure | Uncaught | Bad_access

type_synonym option_arg = "char \<times> string"

text \<open>
  The loop over the options, with one step per option; when an option ends the program, the rest is not
  looked at.
\<close>

fun each_option :: "('s \<Rightarrow> option_arg \<Rightarrow> 'e + 's) \<Rightarrow> option_arg list \<Rightarrow> 's \<Rightarrow> 'e + 's" where
  "each_option step [] s = Inr s"
| "each_option step (opt # opts) s =
     (case step s opt of Inl e \<Rightarrow> Inl e | Inr s \<Rightarrow> each_option step opts s)"

text \<open>What every option keeps, the loop keeps; and it ends only as one of its options ends.\<close>

lemma each_option_safe:
  assumes "I s" and "\<And>s opt. I s \<Longrightarrow> case step s opt of Inl e \<Rightarrow> E e | Inr s' \<Rightarrow> I s'"
  shows "case each_option step opts s of Inl e \<Rightarrow> E e | Inr s' \<Rightarrow> I s'"
  using assms(1)
proof (induction opts arbitrary: s)
  case (Cons opt opts)
  show ?case
  proof (cases "step s opt")
    case (Inl e)
    then show ?thesis using assms(2) [OF Cons.prems, of opt] by simp
  next
    case (Inr s')
    then have "I s'" using assms(2) [OF Cons.prems, of opt] by simp
    from Cons.IH [OF this] show ?thesis by (simp add: Inr)
  qed
qed simp

section \<open>Numbers\<close>

text \<open>
  \<open>std::istringstream ss(optarg); ss >> temp;\<close> White space, a sign and digits are read. Without digits the
  value is 0, and a value that no \<open>int\<close> has becomes the nearest one. When there is nothing to read the
  variable keeps what was in it, \<open>junk\<close>.
\<close>

definition read_int :: "int \<Rightarrow> string \<Rightarrow> int" where
  "read_int junk arg =
     (let str = dropWhile isspace arg;
          negative = (str \<noteq> [] \<and> hd str = CHR 0x2D);
          digits = takeWhile isdigit (if str \<noteq> [] \<and> (hd str = CHR 0x2D \<or> hd str = CHR 0x2B) then tl str else str);
          number = (if negative then - int (read_dec digits) else int (read_dec digits))
      in if str = [] then junk
         else if digits = [] then 0
         else max (- (2 ^ 31)) (min (2 ^ 31 - 1) number))"

lemma read_int_dec: "n < 2 ^ 31 \<Longrightarrow> read_int junk (dec n) = int n"
proof -
  assume n: "n < 2 ^ 31"
  note h = isdigit_not_sign [OF hd_dec [of n]]
  have "dropWhile isspace (dec n) = dec n" using h(1) by (cases "dec n") auto
  moreover have "takeWhile isdigit (dec n) = dec n"
    unfolding takeWhile_eq_all_conv using dec_digits by blast
  ultimately show ?thesis using h(2,3) n
    by (simp add: read_int_def Let_def del: takeWhile_eq_all_conv)
qed

end
