(* ===== verification/Packet_Producer.thy ===== *)
theory Packet_Producer
  imports Command_Line Parser Pipe_Io
begin

text \<open>
  \<open>tools/ndlcomPacketProducer.cpp\<close>: a packet is put together from options and printed as text, encoded
  for the line. \<open>rand k\<close> is the answer to the \<open>k\<close>-th call of \<open>rand\<close>.
\<close>

section \<open>The state\<close>

record producer =
  producer_header :: NDLComHeader
  producer_payload :: "u8 list"
  rand_calls :: nat

definition fillRandomHeader :: "(nat \<Rightarrow> u32) \<Rightarrow> producer \<Rightarrow> producer" where
  "fillRandomHeader rand p =
     (let k = rand_calls p
      in p\<lparr>producer_header := \<lparr>mReceiverId = ucast (rand (k + 1)), mSenderId = ucast (rand k),
               mCounter = ucast (rand (k + 2)), mDataLen = ucast (rand (k + 3))\<rparr>,
           rand_calls := k + 4\<rparr>)"

text \<open>The loop counts with an \<open>NDLComDataLen\<close> of eight bits.\<close>

function random_payload_loop :: "(nat \<Rightarrow> u32) \<Rightarrow> u8 \<Rightarrow> producer \<Rightarrow> producer option" where
  "random_payload_loop rand i p =
     (if i < mDataLen (producer_header p) then
        (case buf_put (producer_payload p) (unat i) (ucast (rand (rand_calls p))) of
           None \<Rightarrow> None
         | Some bytes \<Rightarrow> random_payload_loop rand (i + 1) (p\<lparr>producer_payload := bytes, rand_calls := rand_calls p + 1\<rparr>))
      else Some p)"
  by pat_completeness auto

definition fillRandomPayload :: "(nat \<Rightarrow> u32) \<Rightarrow> producer \<Rightarrow> producer option" where
  "fillRandomPayload rand p = random_payload_loop rand 0 p"

lemma word8_count_up:
  fixes i n :: u8
  assumes "i < n"
  shows "unat (i + 1) = unat i + 1" and "unat (i + 1) \<le> unat n"
proof -
  have "unat i < unat n" using assms by (simp add: word_less_nat_alt)
  moreover have "unat n \<le> 255" by simp
  ultimately have "Suc (unat i) < 256" by linarith
  then show "unat (i + 1) = unat i + 1" "unat (i + 1) \<le> unat n"
    using \<open>unat i < unat n\<close> by (simp_all add: unat_word_ariths)
qed

termination random_payload_loop
  by (relation "measure (\<lambda>(rand, i, p). unat (mDataLen (producer_header p)) - unat i)")
    (auto simp: word8_count_up word_less_nat_alt)

declare random_payload_loop.simps [simp del]

section \<open>Options\<close>

definition producer_option :: "(nat \<Rightarrow> u32) \<Rightarrow> int \<Rightarrow> producer \<Rightarrow> option_arg \<Rightarrow> outcome + producer" where
  "producer_option rand junk p opt =
     (case opt of (c, optarg) \<Rightarrow>
        if c = CHR ''R'' then
          (case fillRandomPayload rand (fillRandomHeader rand p) of None \<Rightarrow> Inl Bad_access | Some p \<Rightarrow> Inr p)
        else if c = CHR ''H'' then Inr (fillRandomHeader rand p)
        else if c = CHR ''P'' then (case fillRandomPayload rand p of None \<Rightarrow> Inl Bad_access | Some p \<Rightarrow> Inr p)
        else if c = CHR ''s'' then Inr (p\<lparr>producer_header := (producer_header p)\<lparr>mSenderId := of_int (read_int junk optarg)\<rparr>\<rparr>)
        else if c = CHR ''r'' then Inr (p\<lparr>producer_header := (producer_header p)\<lparr>mReceiverId := of_int (read_int junk optarg)\<rparr>\<rparr>)
        else if c = CHR ''l'' then Inr (p\<lparr>producer_header := (producer_header p)\<lparr>mDataLen := of_int (read_int junk optarg)\<rparr>\<rparr>)
        else if c = CHR ''c'' then Inr (p\<lparr>producer_header := (producer_header p)\<lparr>mCounter := of_int (read_int junk optarg)\<rparr>\<rparr>)
        else Inl Failure)"

definition initial_producer :: "config \<Rightarrow> producer" where
  "initial_producer cfg =
     \<lparr>producer_header = \<lparr>mReceiverId = NDLCOM_ADDR_BROADCAST, mSenderId = 0x01, mCounter = 0, mDataLen = 0\<rparr>,
      producer_payload = replicate (NDLCOM_MAX_PAYLOAD_SIZE cfg) 0, rand_calls = 0\<rparr>"

text \<open>
  The whole program: how it ends, and what it prints. \<open>more\<close> tells whether there are arguments that are no
  options, and \<open>escapedBuffer\<close> is what was in the buffer of this name.
\<close>

definition producer_main ::
  "config \<Rightarrow> (nat \<Rightarrow> u32) \<Rightarrow> int \<Rightarrow> u8 list \<Rightarrow> option_arg list \<Rightarrow> bool \<Rightarrow> outcome \<times> string" where
  "producer_main cfg rand junk escapedBuffer opts more_args =
     (case each_option (producer_option rand junk) opts (initial_producer cfg) of
        Inl e \<Rightarrow> (e, [])
      | Inr p \<Rightarrow>
          if more_args then (Failure, [])
          else (case ndlcomEncode cfg escapedBuffer (NDLCOM_MAX_ENCODED_MESSAGE_SIZE cfg) (producer_header p) (producer_payload p) of
                  None \<Rightarrow> (Bad_access, [])
                | Some (escapedBuffer, n) \<Rightarrow> (Success, concat (map print_byte (take n escapedBuffer)))))"

section \<open>Lemmas\<close>

text \<open>Random bytes fill the payload up to the length in the header.\<close>

lemma random_payload_loop_fills:
  assumes "i \<le> mDataLen (producer_header p)" and "unat (mDataLen (producer_header p)) \<le> length (producer_payload p)"
  shows "\<exists>p'. random_payload_loop rand i p = Some p' \<and> producer_header p' = producer_header p \<and>
    length (producer_payload p') = length (producer_payload p) \<and>
    (\<forall>j < length (producer_payload p). producer_payload p' ! j =
      (if unat i \<le> j \<and> j < unat (mDataLen (producer_header p)) then ucast (rand (rand_calls p + (j - unat i))) else producer_payload p ! j)) \<and>
    rand_calls p' = rand_calls p + (unat (mDataLen (producer_header p)) - unat i)"
  using assms
proof (induction rand i p rule: random_payload_loop.induct)
  case (1 rand i p)
  show ?case
  proof (cases "i < mDataLen (producer_header p)")
    case True
    let ?b = "(producer_payload p)[unat i := ucast (rand (rand_calls p))]"
    let ?p = "p\<lparr>producer_payload := ?b, rand_calls := rand_calls p + 1\<rparr>"
    have lt: "unat i < unat (mDataLen (producer_header p))" using True by (simp add: word_less_nat_alt)
    have put: "buf_put (producer_payload p) (unat i) (ucast (rand (rand_calls p))) = Some ?b"
      using lt "1.prems"(2) by (simp add: buf_put_def)
    have "i + 1 \<le> mDataLen (producer_header ?p)" using word8_count_up(2) [OF True] by (simp add: word_le_nat_alt)
    from "1.IH" [OF True put this] "1.prems"(2) obtain p' where p': "random_payload_loop rand (i + 1) ?p = Some p'"
      "producer_header p' = producer_header p" "length (producer_payload p') = length (producer_payload p)"
      "\<forall>j < length (producer_payload p). producer_payload p' ! j =
        (if unat (i + 1) \<le> j \<and> j < unat (mDataLen (producer_header p)) then ucast (rand (rand_calls p + 1 + (j - unat (i + 1)))) else ?b ! j)"
      "rand_calls p' = rand_calls p + 1 + (unat (mDataLen (producer_header p)) - unat (i + 1))" by auto
    have "random_payload_loop rand i p = Some p'" using True put p'(1) by (subst random_payload_loop.simps) simp
    moreover have "producer_payload p' ! j =
        (if unat i \<le> j \<and> j < unat (mDataLen (producer_header p)) then ucast (rand (rand_calls p + (j - unat i))) else producer_payload p ! j)"
      if "j < length (producer_payload p)" for j
    proof -
      have "rand_calls p + 1 + (j - unat (i + 1)) = rand_calls p + (j - unat i)" if "unat (i + 1) \<le> j"
        using that word8_count_up(1) [OF True] by simp
      then show ?thesis
        using p'(4) that lt word8_count_up(1) [OF True] by (cases "j = unat i") (auto simp: nth_list_update)
    qed
    moreover have "rand_calls p' = rand_calls p + (unat (mDataLen (producer_header p)) - unat i)"
      using p'(5) lt word8_count_up(1) [OF True] by simp
    ultimately show ?thesis using p'(2,3) by blast
  next
    case False
    then have "i = mDataLen (producer_header p)" using "1.prems"(1) by simp
    then show ?thesis by (subst random_payload_loop.simps) auto
  qed
qed

lemma fillRandomPayload_fills:
  "unat (mDataLen (producer_header p)) \<le> length (producer_payload p) \<Longrightarrow>
    \<exists>p'. fillRandomPayload rand p = Some p' \<and> producer_header p' = producer_header p \<and> length (producer_payload p') = length (producer_payload p)"
  using random_payload_loop_fills [of 0 p rand] by (auto simp: fillRandomPayload_def)

lemma producer_option_safe:
  assumes "length (producer_payload p) = 255"
  shows "case producer_option rand junk p opt of Inl e \<Rightarrow> e = Failure | Inr p' \<Rightarrow> length (producer_payload p') = 255"
proof -
  have "unat (mDataLen (producer_header q)) \<le> length (producer_payload q)" if "length (producer_payload q) = 255" for q using that by simp
  then have fill: "\<exists>p'. fillRandomPayload rand q = Some p' \<and> producer_header p' = producer_header q \<and> length (producer_payload p') = 255"
    if "length (producer_payload q) = 255" for q using that fillRandomPayload_fills [of q rand] by auto
  have h: "length (producer_payload (fillRandomHeader rand p)) = 255" using assms by (simp add: fillRandomHeader_def Let_def)
  show ?thesis using fill [OF h] fill [OF assms] assms h by (auto simp: producer_option_def split: prod.split)
qed

lemma producer_prints_frame:
  assumes "each_option (producer_option rand junk) opts (initial_producer cfg) = Inr p"
    and "unat (mDataLen (producer_header p)) \<le> length (producer_payload p)" and "unat (mDataLen (producer_header p)) \<le> NDLCOM_MAX_PAYLOAD_SIZE cfg"
    and "length escapedBuffer = NDLCOM_MAX_ENCODED_MESSAGE_SIZE cfg"
  shows "producer_main cfg rand junk escapedBuffer opts False =
    (Success, concat (map print_byte (frame cfg (producer_header p) (take (unat (mDataLen (producer_header p))) (producer_payload p)))))"
proof -
  have "NDLCOM_MAX_ENCODED_MESSAGE_SIZE_FOR_PACKET (producer_header p) \<le> length escapedBuffer"
    using assms(3,4) by (simp add: size_defs)
  from ndlcomEncode_effect [OF this assms(2), of cfg] show ?thesis
    by (simp add: producer_main_def assms(1,4) Let_def overwrite_def)
qed

text \<open>
  Memory safety depends on the build: with payloads of up to 255 bytes no option leads out of the array,
  with smaller ones the option for the length does.
\<close>

lemma producer_stays_in_payload:
  assumes "NDLCOM_MAX_PAYLOAD_SIZE cfg = 255" and "length escapedBuffer = NDLCOM_MAX_ENCODED_MESSAGE_SIZE cfg"
  shows "fst (producer_main cfg rand junk escapedBuffer opts more_args) \<in> {Success, Failure}"
proof (cases "each_option (producer_option rand junk) opts (initial_producer cfg)")
  have safe: "case each_option (producer_option rand junk) opts (initial_producer cfg) of
      Inl e \<Rightarrow> e = Failure | Inr p \<Rightarrow> length (producer_payload p) = 255"
    by (rule each_option_safe) (simp_all add: initial_producer_def assms(1) producer_option_safe)
  {
    case (Inl e)
    then show ?thesis using safe by (simp add: producer_main_def)
  next
    case (Inr p)
    then have "length (producer_payload p) = 255" using safe by simp
    then show ?thesis
      using producer_prints_frame [OF Inr _ _ assms(2)] Inr
      by (cases more_args) (simp_all add: assms(1), simp add: producer_main_def)
  }
qed

lemma long_payload_is_read_beyond:
  assumes "NDLCOM_MAX_PAYLOAD_SIZE cfg < n" and "n < 256"
  shows "producer_main cfg rand junk escapedBuffer [(CHR ''l'', dec n)] False = (Bad_access, [])"
proof -
  have r: "read_int junk (dec n) = int n" by (rule read_int_dec) (use assms(2) in simp)
  have n: "unat (of_nat n :: u8) = n" using assms(2) by (subst unat_of_nat) simp
  show ?thesis using assms(1)
    by (simp add: producer_main_def producer_option_def r initial_producer_def ndlcomEncode_def n)
qed

end
