(* ===== verification/Packet_Consumer.thy ===== *)
theory Packet_Consumer
  imports Packet_Producer Link
begin

text \<open>
  \<open>tools/ndlcomPacketConsumer.cpp\<close>: reads bytes as text from its standard input, parses them and prints the
  packets that its filters let pass. The standard input is the text that arrives until its end. The
  answers of the system depend on what was printed, or on what is left to read, so that they can differ
  from call to call.
\<close>

section \<open>Reading bytes\<close>

text \<open>\<open>readBytesBlocking\<close>; \<open>error\<close> is \<open>ferror(stdin)\<close> at the end of the text.\<close>

function readBytesBlocking :: "bool \<Rightarrow> nat \<Rightarrow> u8 list \<Rightarrow> string \<Rightarrow> outcome + u8 list \<times> string" where
  "readBytesBlocking error count buf stdin =
     (if length buf < count then
        (case scan stdin of
           (Scan_eof, t) \<Rightarrow> Inl (if error then Uncaught else Failure)
         | (Scan_none, t) \<Rightarrow> (case t of [] \<Rightarrow> Inl Uncaught | c # u \<Rightarrow> readBytesBlocking error count buf u)
         | (Scan_byte v, t) \<Rightarrow> readBytesBlocking error count (buf @ [of_nat v]) t)
      else Inr (buf, stdin))"
  by pat_completeness auto
termination
proof (relation "measure (\<lambda>(error, count, buf, s). length s)")
  fix error :: bool and count :: nat and buf :: "u8 list" and s t u :: string and c and r
  assume "(r, t) = scan s" "t = c # u"
  then have "length (c # u) \<le> length s" using length_scan [of s] by (metis snd_conv)
  then show "((error, count, buf, u), error, count, buf, s) \<in> measure (\<lambda>(error, count, buf, s). length s)" by simp
qed (auto dest: scan_byte_shorter [OF sym])

declare readBytesBlocking.simps [simp del]

section \<open>Options\<close>

record consumer =
  print_header :: bool
  print_payload :: bool
  print_timestamp :: bool
  filterSenderId :: "u8 list"
  filterReceiverId :: "u8 list"
  numberOfLinesToRead :: int

definition initial_consumer :: consumer where
  "initial_consumer =
     \<lparr>print_header = True, print_payload = False, print_timestamp = True, filterSenderId = [], filterReceiverId = [],
      numberOfLinesToRead = - 1\<rparr>"

definition consumer_option :: "int \<Rightarrow> consumer \<Rightarrow> option_arg \<Rightarrow> outcome + consumer" where
  "consumer_option junk s opt =
     (case opt of (c, optarg) \<Rightarrow>
        if c = CHR ''H'' then Inr (s\<lparr>print_header := False\<rparr>)
        else if c = CHR ''P'' then Inr (s\<lparr>print_payload := True\<rparr>)
        else if c = CHR ''S'' then Inr (s\<lparr>print_timestamp := False\<rparr>)
        else if c = CHR ''r'' then Inr (s\<lparr>filterReceiverId := filterReceiverId s @ [of_int (read_int junk optarg)]\<rparr>)
        else if c = CHR ''s'' then Inr (s\<lparr>filterSenderId := filterSenderId s @ [of_int (read_int junk optarg)]\<rparr>)
        else if c = CHR ''n'' then
          (let n = read_int (numberOfLinesToRead s) optarg
           in if n = 0 then Inl Success else Inr (s\<lparr>numberOfLinesToRead := n\<rparr>))
        else Inl Failure)"

section \<open>Printing\<close>

text \<open>\<open>clock out\<close> is the time as text when \<open>out\<close> has been printed, if the clock can be read.\<close>

record consumer_system =
  clock :: "string \<Rightarrow> string option"
  select_fails :: "string \<Rightarrow> bool"
  stdin_error :: bool

definition hex2 :: "u8 \<Rightarrow> string" where
  "hex2 b = ''0x'' @ [hexdigit (unat b div 16), hexdigit (unat b mod 16)]"

definition header_text :: "NDLComHeader \<Rightarrow> string" where
  "header_text h =
     ''[sender: '' @ hex2 (mSenderId h) @ '' receiver: '' @ hex2 (mReceiverId h) @
     '' counter: '' @ setw 3 (dec (unat (mCounter h))) @ '' length: '' @ setw 3 (dec (unat (mDataLen h))) @ ''] ''"

fun print_bytes :: "u8 list \<Rightarrow> string" where
  "print_bytes [] = []"
| "print_bytes (b # bs) = hex2 b @ (if bs = [] then [] else '' '' @ print_bytes bs)"

definition printPackage ::
  "consumer_system \<Rightarrow> consumer \<Rightarrow> NDLComHeader \<Rightarrow> u8 list \<Rightarrow> string \<Rightarrow> (outcome \<times> string) + string" where
  "printPackage sys s header payload out =
     (case (if print_timestamp s then map_option (\<lambda>time. ''['' @ time @ ''] '') (clock sys out) else Some []) of
        None \<Rightarrow> Inl (Uncaught, out)
      | Some stamp \<Rightarrow>
          if print_payload s \<and> length payload < unat (mDataLen header) then Inl (Bad_access, out)
          else Inr (out @ stamp @ (if print_header s then header_text header else []) @
            (if print_payload s then ''['' @ print_bytes (take (unat (mDataLen header)) payload) @ '']'' else []) @ endl))"

section \<open>The main loop\<close>

definition skips_print :: "consumer \<Rightarrow> NDLComHeader \<Rightarrow> bool" where
  "skips_print s header \<longleftrightarrow>
     filterSenderId s \<noteq> [] \<and> mSenderId header \<notin> set (filterSenderId s) \<or>
     filterReceiverId s \<noteq> [] \<and> mReceiverId header \<in> set (filterReceiverId s)"

text \<open>The inner loop, over the bytes in the buffer; \<open>None\<close> is a loop without end or a bad access of the parser.\<close>

partial_function (option) consume_bytes ::
  "config \<Rightarrow> consumer_system \<Rightarrow> u8 list \<Rightarrow> nat \<Rightarrow> NDLComParser \<times> consumer \<times> string \<Rightarrow>
   ((outcome \<times> string) + NDLComParser \<times> consumer \<times> string) option" where
  "consume_bytes cfg sys buffer bytesProcessed st = do {
     let (parser, s, out) = st;
     (parser, n) \<leftarrow> ndlcomParserReceive cfg parser (drop bytesProcessed buffer);
     let bytesProcessed = bytesProcessed + n;
     r \<leftarrow> (if ndlcomParserHasPacket parser then do {
         header \<leftarrow> ndlcomParserGetHeader parser;
         payload \<leftarrow> ndlcomParserGetPacket parser;
         Some (if skips_print s header then Inr (ndlcomParserDestroyPacket parser, s, out)
           else case printPackage sys s header payload out of
             Inl e \<Rightarrow> Inl e
           | Inr out \<Rightarrow> Inr (ndlcomParserDestroyPacket parser,
               if numberOfLinesToRead s > 0 then s\<lparr>numberOfLinesToRead := numberOfLinesToRead s - 1\<rparr> else s, out))
       } else Some (Inr (parser, s, out)));
     case r of
       Inl e \<Rightarrow> Some (Inl e)
     | Inr st \<Rightarrow>
         if numberOfLinesToRead (fst (snd st)) = 0 then Some (Inr st)
         else if length buffer \<noteq> bytesProcessed then consume_bytes cfg sys buffer bytesProcessed st
         else Some (Inr st)
   }"

partial_function (option) consumer_loop ::
  "config \<Rightarrow> consumer_system \<Rightarrow> string \<Rightarrow> NDLComParser \<times> consumer \<times> string \<Rightarrow> (outcome \<times> string) option" where
  "consumer_loop cfg sys stdin st =
     (case readBytesBlocking (stdin_error sys) 1 [] stdin of
        Inl e \<Rightarrow> Some (e, snd (snd st))
      | Inr (buffer, stdin) \<Rightarrow> do {
          r \<leftarrow> consume_bytes cfg sys buffer 0 st;
          case r of
            Inl e \<Rightarrow> Some e
          | Inr st \<Rightarrow>
              if select_fails sys stdin then Some (Uncaught, snd (snd st))
              else if numberOfLinesToRead (fst (snd st)) \<noteq> 0 then consumer_loop cfg sys stdin st
              else Some (Success, snd (snd st))
        })"

text \<open>\<open>mem\<close> is what was in the memory of the parser before.\<close>

definition consumer_main ::
  "config \<Rightarrow> consumer_system \<Rightarrow> int \<Rightarrow> NDLComParser \<Rightarrow> option_arg list \<Rightarrow> bool \<Rightarrow> string \<Rightarrow> (outcome \<times> string) option" where
  "consumer_main cfg sys junk mem opts more_args stdin =
     (case each_option (consumer_option junk) opts initial_consumer of
        Inl e \<Rightarrow> Some (e, [])
      | Inr s \<Rightarrow>
          if more_args then Some (Failure, [])
          else do {
            parser \<leftarrow> ndlcomParserCreate cfg (Some mem) (NDLCOM_PARSER_MIN_BUFFER_SIZE cfg);
            consumer_loop cfg sys stdin (parser, s, [])
          })"

end
