(* ===== verification/Packet_Stream.thy ===== *)
theory Packet_Stream
  imports Bridge
begin

text \<open>
  The packets in a stream of bytes do not depend on how the stream is cut; and what the calls that
  read one interface handle, together, are the packets in all the bytes that they read.
\<close>

section \<open>Packets, byte by byte\<close>

lemma packets_Nil [simp]: "packets cfg d [] = ([], d)"
  by (simp add: packets.simps)

lemma packets_Cons:
  "packets cfg d (c # bs) =
    (case df_phase (deframe_byte cfg d c) of
       Packet_ready h pl \<Rightarrow>
         let r = packets cfg ((deframe_byte cfg d c)\<lparr>df_escape := False, df_phase := Collect []\<rparr>) bs
         in ((h, pl) # fst r, snd r)
     | _ \<Rightarrow> packets cfg (deframe_byte cfg d c) bs)"
proof (cases "is_ready (df_phase (deframe_byte cfg d c))")
  case True
  then show ?thesis by (cases "df_phase (deframe_byte cfg d c)") (simp_all add: packets.simps [of cfg d "c # bs"])
next
  case False
  then have step: "deframe cfg d (c # bs) = (fst (deframe cfg (deframe_byte cfg d c) bs), snd (deframe cfg (deframe_byte cfg d c) bs) + 1)"
    by simp
  have "packets cfg d (c # bs) = packets cfg (deframe_byte cfg d c) bs"
  proof (cases bs)
    case Nil
    then show ?thesis using False step by (subst packets.simps) (auto split: phase.split)
  next
    case (Cons b bs')
    show ?thesis unfolding packets.simps [of cfg d "c # bs"] packets.simps [of cfg "deframe_byte cfg d c" bs] step
      by (simp only: fst_conv snd_conv Suc_eq_plus1 [symmetric] drop_Suc_Cons) (simp add: Cons)
  qed
  then show ?thesis using False by (cases "df_phase (deframe_byte cfg d c)") simp_all
qed

lemma packets_append:
  "packets cfg d (xs @ ys) =
    (fst (packets cfg d xs) @ fst (packets cfg (snd (packets cfg d xs)) ys), snd (packets cfg (snd (packets cfg d xs)) ys))"
proof (induction xs arbitrary: d)
  case (Cons c xs)
  then show ?case by (cases "df_phase (deframe_byte cfg d c)") (simp_all add: packets_Cons Let_def)
qed simp

section \<open>Several reads\<close>

text \<open>\<open>k\<close> calls that read the interface \<open>i\<close>, and the bytes that all of them read.\<close>

fun read_calls :: "config \<Rightarrow> 'e callbacks \<Rightarrow> nat \<Rightarrow> nat \<Rightarrow> 'e world \<Rightarrow> (u8 list \<times> 'e world) option" where
  "read_calls cfg cb i 0 w = Some ([], w)"
| "read_calls cfg cb i (Suc k) w = do {
     (n, w1) \<leftarrow> ndlcomBridgeProcessExternalInterface cfg cb i w;
     (bytes, w2) \<leftarrow> read_calls cfg cb i k w1;
     Some (fst (cb_read cb (ei_io (ifaces w i)) (NDLCOM_BRIDGE_TEMPORARY_RXBUFFER_SIZE cfg) (env w)) @ bytes, w2)
   }"

text \<open>Messages that are handled in several reads; a read changes the environment before its messages.\<close>

inductive reads_handled ::
  "config \<Rightarrow> 'e callbacks \<Rightarrow> nat \<Rightarrow> nat list \<Rightarrow> handler_id list \<Rightarrow> (NDLComHeader \<times> u8 list) list \<Rightarrow>
    'e world \<Rightarrow> 'e world \<Rightarrow> bool"
  for cfg cb i "is" hs where
  no_read: "reads_handled cfg cb i is hs [] w w"
| one_read: "cb_read cb (ei_io (ifaces w i)) (NDLCOM_BRIDGE_TEMPORARY_RXBUFFER_SIZE cfg) (env w) = (bytes, e) \<Longrightarrow>
    message_steps cfg cb i is hs ms (w\<lparr>env := e\<rparr>) w1 \<Longrightarrow> reads_handled cfg cb i is hs ms' w1 w2 \<Longrightarrow>
    reads_handled cfg cb i is hs (ms @ ms') w w2"

lemma read_calls_handled:
  assumes "handlers_leave_lists cb" and "bridge_ok cfg w is hs" and "i \<in> set is"
    and "parser_abs cfg (ei_parser (ifaces w i)) d" and "read_calls cfg cb i k w = Some (bytes, w')"
  shows "reads_handled cfg cb i is hs (fst (packets cfg d bytes)) w w' \<and> bridge_ok cfg w' is hs \<and>
    parser_abs cfg (ei_parser (ifaces w' i)) (snd (packets cfg d bytes))"
  using assms(2,4,5)
proof (induction k arbitrary: w d bytes)
  case 0
  then show ?case by (auto intro: reads_handled.no_read)
next
  case (Suc k)
  let ?sz = "NDLCOM_BRIDGE_TEMPORARY_RXBUFFER_SIZE cfg"
  obtain bs e where rd: "cb_read cb (ei_io (ifaces w i)) ?sz (env w) = (bs, e)" by fastforce
  obtain n w1 rest where w1: "ndlcomBridgeProcessExternalInterface cfg cb i w = Some (n, w1)"
    "read_calls cfg cb i k w1 = Some (rest, w')" "bytes = bs @ rest"
    using Suc.prems(3) rd by (auto split: Option.bind_splits)
  have len: "length bs \<le> ?sz"
    using w1(1) rd by (auto simp: ndlcomBridgeProcessExternalInterface_def iface_read_def split: if_splits)
  have step: "message_steps cfg cb i is hs (fst (packets cfg d bs)) (w\<lparr>env := e\<rparr>) w1" "bridge_ok cfg w1 is hs"
    "parser_abs cfg (ei_parser (ifaces w1 i)) (snd (packets cfg d bs))"
    using process_interface_run [OF assms(1) Suc.prems(1) assms(3) rd len Suc.prems(2)] w1(1) by auto
  from Suc.IH [OF step(2,3) w1(2)] show ?case
    unfolding w1(3) packets_append [of cfg d bs rest] using reads_handled.one_read [OF rd step(1)] by simp
qed

section \<open>What a device delivers\<close>

text \<open>The endpoint \<open>io\<close> reads from the medium that \<open>chan\<close> finds in the environment; nothing else touches it.\<close>

definition reads_channel ::
  "(nat \<Rightarrow> 'm \<Rightarrow> (u8 list \<times> 'm) option) \<Rightarrow> ('e \<Rightarrow> 'm) \<Rightarrow> nat \<Rightarrow> nat \<Rightarrow> 'e callbacks \<Rightarrow> bool" where
  "reads_channel read chan io count cb \<longleftrightarrow>
     (\<forall>e xs m. read count (chan e) = Some (xs, m) \<longrightarrow>
        fst (cb_read cb io count e) = xs \<and> chan (snd (cb_read cb io count e)) = m) \<and>
     (\<forall>io bytes e. chan (cb_write cb io bytes e) = chan e) \<and>
     (\<forall>m. handlers_preserve cb (\<lambda>v. chan (env v) = m))"

text \<open>
  A medium from which bytes can be read: \<open>holds m bytes\<close> when these bytes can still be read from it. With
  \<open>enough\<close> room, a read delivers some of them if there are any.
\<close>

locale channel =
  fixes read :: "nat \<Rightarrow> 'm \<Rightarrow> (u8 list \<times> 'm) option"
    and holds :: "'m \<Rightarrow> u8 list \<Rightarrow> bool"
    and enough :: "nat \<Rightarrow> bool"
  assumes delivers: "holds m bytes \<Longrightarrow> bytes \<noteq> [] \<Longrightarrow> enough count \<Longrightarrow>
    \<exists>xs ys m'. read count m = Some (xs, m') \<and> xs \<noteq> [] \<and> bytes = xs @ ys \<and> length xs \<le> count \<and> holds m' ys"
begin

lemma read_calls_drain:
  assumes "handlers_return cb is" and "bridge_ok cfg w is hs" and "i \<in> set is"
    and "reads_channel read chan (ei_io (ifaces w i)) (NDLCOM_BRIDGE_TEMPORARY_RXBUFFER_SIZE cfg) cb"
    and "enough (NDLCOM_BRIDGE_TEMPORARY_RXBUFFER_SIZE cfg)" and "holds (chan (env w)) bytes"
  shows "\<exists>k w'. read_calls cfg cb i k w = Some (bytes, w') \<and> holds (chan (env w')) []"
  using assms(2,4,6)
proof (induction "length bytes" arbitrary: bytes w rule: less_induct)
  case less
  let ?sz = "NDLCOM_BRIDGE_TEMPORARY_RXBUFFER_SIZE cfg" and ?io = "ei_io (ifaces w i)"
  note leave = handlers_return_leave [OF assms(1)]
  show ?case
  proof (cases "bytes = []")
    case True
    then show ?thesis using less.prems(3) by (intro exI [of _ 0]) simp
  next
    case False
    obtain xs ys m' where m': "read ?sz (chan (env w)) = Some (xs, m')" "xs \<noteq> []" "bytes = xs @ ys"
      "length xs \<le> ?sz" "holds m' ys"
      using delivers [OF less.prems(3) False assms(5)] by blast
    define e where "e = snd (cb_read cb ?io ?sz (env w))"
    have rd: "cb_read cb ?io ?sz (env w) = (xs, e)" and chan: "chan e = m'"
      using less.prems(2) m'(1) unfolding reads_channel_def e_def by (metis prod.collapse, metis)
    obtain d where d: "parser_abs cfg (ei_parser (ifaces w i)) d"
      using less.prems(1) assms(3) by (auto simp: bridge_ok_def parser_wf_def)
    obtain w1 where w1: "ndlcomBridgeProcessExternalInterface cfg cb i w = Some (length xs, w1)"
      "message_steps cfg cb i is hs (fst (packets cfg d xs)) (w\<lparr>env := e\<rparr>) w1" "bridge_ok cfg w1 is hs"
      using process_interface_effect [OF assms(1) less.prems(1) assms(3) rd m'(4) d] by blast
    have nl: "node_lists (w\<lparr>env := e\<rparr>)" using less.prems(1) by (simp add: bridge_ok_def registered_def node_lists_def)
    have io: "ei_io (ifaces w1 i) = ?io" using message_steps_frame [OF w1(2) leave nl] by simp
    have ch: "chan (env w1) = m'"
      by (rule message_steps_preserve [where Q = "\<lambda>v. chan (env v) = m'", OF w1(2) _ _ leave nl])
        (use less.prems(2) chan in \<open>auto simp: reads_channel_def iface_write_def upd_iface_def learn_sender_def\<close>)
    have "length ys < length bytes" using m'(2,3) by simp
    from less.hyps [OF this w1(3)] obtain k w' where
      "read_calls cfg cb i k w1 = Some (ys, w')" "holds (chan (env w')) []"
      using less.prems(2) io ch m'(5) by auto
    then show ?thesis using w1(1) rd m'(3) by (intro exI [of _ "Suc k"] exI [of _ w']) simp
  qed
qed

end

end
