(* ===== verification/Consumer_Properties.thy ===== *)
theory Consumer_Properties
  imports Packet_Consumer Packet_Stream
begin

text \<open>
  What the consumer prints: it is compared with the deframer of \<open>Parser\<close> and the filters of the options,
  and put behind the producer.
\<close>

section \<open>The bytes in a text\<close>

text \<open>What can be read from a text to its end, and whether it ends well.\<close>

function text_bytes :: "string \<Rightarrow> u8 list \<times> bool" where
  "text_bytes s =
     (case scan s of
        (Scan_eof, t) \<Rightarrow> ([], True)
      | (Scan_none, t) \<Rightarrow> (case t of [] \<Rightarrow> ([], False) | c # u \<Rightarrow> text_bytes u)
      | (Scan_byte v, t) \<Rightarrow> (of_nat v # fst (text_bytes t), snd (text_bytes t)))"
  by pat_completeness auto
termination
proof (relation "measure length")
  fix s t u :: string and c and r
  assume "(r, t) = scan s" "t = c # u"
  then have "length (c # u) \<le> length s" using length_scan [of s] by (metis snd_conv)
  then show "(u, s) \<in> measure length" by simp
qed (auto dest: scan_byte_shorter [OF sym])

declare text_bytes.simps [simp del]

lemma read_one_byte:
  "case text_bytes s of
     (b # bs, good) \<Rightarrow> \<exists>t. readBytesBlocking e 1 [] s = Inr ([b], t) \<and> text_bytes t = (bs, good)
   | ([], good) \<Rightarrow> readBytesBlocking e 1 [] s = Inl (if good \<and> \<not> e then Failure else Uncaught)"
proof (induction s rule: text_bytes.induct)
  case (1 s)
  obtain r t where sc: "scan s = (r, t)" by (cases "scan s")
  show ?case
  proof (cases r)
    case Scan_eof
    then show ?thesis by (simp add: text_bytes.simps [of s] readBytesBlocking.simps [of _ _ _ s] sc)
  next
    case Scan_none
    show ?thesis
    proof (cases t)
      case Nil
      then show ?thesis by (simp add: text_bytes.simps [of s] readBytesBlocking.simps [of _ _ _ s] sc Scan_none)
    next
      case (Cons c u)
      have "text_bytes s = text_bytes u" "readBytesBlocking e 1 [] s = readBytesBlocking e 1 [] u"
        by (simp_all add: text_bytes.simps [of s] readBytesBlocking.simps [of _ _ _ s] sc Scan_none Cons)
      then show ?thesis using "1.IH"(1) [OF sc [symmetric] Scan_none Cons] by (simp only:)
    qed
  next
    case (Scan_byte v)
    have "text_bytes s = (of_nat v # fst (text_bytes t), snd (text_bytes t))"
      by (simp add: text_bytes.simps [of s] sc Scan_byte)
    moreover have "readBytesBlocking e 1 [] s = Inr ([of_nat v], t)"
      by (simp add: readBytesBlocking.simps [of _ _ _ s] sc Scan_byte) (simp add: readBytesBlocking.simps)
    ultimately show ?thesis by simp
  qed
qed

section \<open>What is printed\<close>

definition selected :: "consumer \<Rightarrow> (NDLComHeader \<times> u8 list) list \<Rightarrow> (NDLComHeader \<times> u8 list) list" where
  "selected s ms = filter (\<lambda>m. \<not> skips_print s (fst m)) ms"

definition print_one :: "consumer_system \<Rightarrow> consumer \<Rightarrow> NDLComHeader \<times> u8 list \<Rightarrow> string \<Rightarrow> string" where
  "print_one sys s m out = (case printPackage sys s (fst m) (snd m) out of Inl e \<Rightarrow> snd e | Inr out \<Rightarrow> out)"

text \<open>The number of lines that are left to print, of \<open>k\<close> packets.\<close>

definition line_limit :: "consumer \<Rightarrow> nat \<Rightarrow> nat" where
  "line_limit s k = (if numberOfLinesToRead s < 0 then k else min k (nat (numberOfLinesToRead s)))"

definition counted :: "consumer \<Rightarrow> consumer" where
  "counted s = (if numberOfLinesToRead s > 0 then s\<lparr>numberOfLinesToRead := numberOfLinesToRead s - 1\<rparr> else s)"

lemma counted_same [simp]:
  "print_timestamp (counted s) = print_timestamp s" "print_header (counted s) = print_header s"
  "print_payload (counted s) = print_payload s" "filterSenderId (counted s) = filterSenderId s"
  "filterReceiverId (counted s) = filterReceiverId s"
  by (simp_all add: counted_def)

lemma printPackage_counted [simp]: "printPackage sys (counted s) header mem out = printPackage sys s header mem out"
  by (cases "clock sys out") (simp_all add: printPackage_def)

lemma counted_prints [simp]: "selected (counted s) = selected s" "print_one sys (counted s) = print_one sys s"
  by (simp_all add: fun_eq_iff selected_def skips_print_def print_one_def)

text \<open>The payload may be any memory that begins with the payload of the packet.\<close>

lemma printPackage_memory:
  assumes "\<And>out. clock sys out \<noteq> None" and "unat (mDataLen h) \<le> length mem"
  shows "printPackage sys s h mem out = Inr (print_one sys s (h, take (unat (mDataLen h)) mem) out)"
proof -
  obtain time where "clock sys out = Some time" using assms(1) [of out] by auto
  then show ?thesis using assms(2) by (simp add: print_one_def printPackage_def)
qed

section \<open>The loops\<close>

text \<open>What the inner loop makes of one byte.\<close>

lemma consume_one_byte:
  assumes "parser_abs cfg p d" and "\<not> is_ready (df_phase d)" and "\<And>out. clock sys out \<noteq> None"
    and "numberOfLinesToRead s \<noteq> 0"
  shows "\<exists>p'. consume_bytes cfg sys [b] 0 (p, s, out) = Some (Inr (
      case df_phase (deframe_byte cfg d b) of
        Packet_ready h pl \<Rightarrow>
          if skips_print s h then (p', s, out) else (p', counted s, print_one sys s (h, pl) out)
      | _ \<Rightarrow> (p', s, out))) \<and>
    parser_abs cfg p' (case df_phase (deframe_byte cfg d b) of
        Packet_ready h pl \<Rightarrow> (deframe_byte cfg d b)\<lparr>df_escape := False, df_phase := Collect []\<rparr>
      | _ \<Rightarrow> deframe_byte cfg d b)"
proof -
  let ?d = "deframe_byte cfg d b"
  have np: "\<not> ndlcomParserHasPacket p" using parser_abs_ready [OF assms(1)] assms(2) by simp
  have de: "deframe cfg d [b] = (?d, 1)" by simp
  obtain p1 where p1: "ndlcomParserReceive cfg p [b] = Some (p1, 1)" "parser_abs cfg p1 ?d"
    using receive_simulates [OF assms(1) np, of "[b]"] unfolding de by auto
  note ready = parser_abs_ready [OF p1(2)]
  show ?thesis
  proof (cases "df_phase ?d")
    case (Packet_ready h pl)
    obtain mem where mem: "ndlcomParserGetHeader p1 = Some h" "ndlcomParserGetPacket p1 = Some mem"
      "take (unat (mDataLen h)) mem = pl" and len: "unat (mDataLen h) \<le> length mem"
      by (rule parser_abs_packet [OF p1(2) Packet_ready])
    note pr = printPackage_memory [OF assms(3) len, of s out, unfolded mem(3)]
    note parser_abs_after_packet [OF p1(2)]
    moreover have "consume_bytes cfg sys [b] 0 (p, s, out) =
        Some (Inr (if skips_print s h then (ndlcomParserDestroyPacket p1, s, out)
          else (ndlcomParserDestroyPacket p1, counted s, print_one sys s (h, pl) out)))"
      using ready Packet_ready by (subst consume_bytes.simps) (simp add: p1(1) mem(1,2) pr counted_def)
    ultimately show ?thesis by (auto simp: Packet_ready)
  next
    case (Collect bs)
    have "consume_bytes cfg sys [b] 0 (p, s, out) = Some (Inr (p1, s, out))"
      using ready Collect by (subst consume_bytes.simps) (simp add: p1(1) assms(4))
    then show ?thesis using p1(2) by (auto simp: Collect)
  next
    case Oversized
    have "consume_bytes cfg sys [b] 0 (p, s, out) = Some (Inr (p1, s, out))"
      using ready Oversized by (subst consume_bytes.simps) (simp add: p1(1) assms(4))
    then show ?thesis using p1(2) by (auto simp: Oversized)
  qed
qed

text \<open>How the program ends and what it prints, given the packets that its filters let pass.\<close>

definition consumer_result ::
  "consumer_system \<Rightarrow> consumer \<Rightarrow> bool \<Rightarrow> (NDLComHeader \<times> u8 list) list \<Rightarrow> string \<Rightarrow> outcome \<times> string" where
  "consumer_result sys s good ms out =
     (if 0 < numberOfLinesToRead s \<and> nat (numberOfLinesToRead s) \<le> length ms then Success
      else if good \<and> \<not> stdin_error sys then Failure else Uncaught,
      fold (print_one sys s) (take (line_limit s (length ms)) ms) out)"

lemma consumer_result_Nil:
  "numberOfLinesToRead s \<noteq> 0 \<Longrightarrow>
    consumer_result sys s good [] out = (if good \<and> \<not> stdin_error sys then Failure else Uncaught, out)"
  by (auto simp: consumer_result_def)

lemma consumer_result_Cons:
  assumes "numberOfLinesToRead s \<noteq> 0"
  shows "consumer_result sys s good (m # ms) out =
    (if numberOfLinesToRead s = 1 then (Success, print_one sys s m out)
     else consumer_result sys (counted s) good ms (print_one sys s m out))"
proof (cases "numberOfLinesToRead s < 0")
  case True
  then show ?thesis by (simp add: consumer_result_def line_limit_def counted_def)
next
  case False
  then obtain n where n: "numberOfLinesToRead s = int (Suc n)"
    using assms by (metis int_nat_eq linorder_not_less nat_0_iff not0_implies_Suc order_antisym of_nat_0)
  have c: "numberOfLinesToRead (counted s) = int n" by (simp add: counted_def n)
  have "nat (numberOfLinesToRead s) = Suc n" "nat (numberOfLinesToRead (counted s)) = n"
    "\<not> numberOfLinesToRead s < 0" "\<not> numberOfLinesToRead (counted s) < 0" "0 < numberOfLinesToRead s"
    by (simp_all add: n c del: of_nat_Suc)
  then show ?thesis
    using c n by (auto simp: consumer_result_def line_limit_def simp del: of_nat_Suc)
qed

lemma consumer_loop_step:
  assumes "readBytesBlocking (stdin_error sys) 1 [] stdin = Inr (buffer, t)"
    and "consume_bytes cfg sys buffer 0 st = Some (Inr (p', s', out'))" and "\<not> select_fails sys t"
  shows "consumer_loop cfg sys stdin st =
    (if numberOfLinesToRead s' \<noteq> 0 then consumer_loop cfg sys t (p', s', out') else Some (Success, out'))"
  using assms(2,3) by (subst consumer_loop.simps) (simp add: assms(1) [unfolded One_nat_def])

text \<open>A packet is printed or skipped, and the rest of the input goes on from there.\<close>

lemma consumer_loop_packet:
  assumes "numberOfLinesToRead s \<noteq> 0"
    and "\<And>s out. numberOfLinesToRead s \<noteq> 0 \<Longrightarrow>
      consumer_loop cfg sys t (p, s, out) = Some (consumer_result sys s good (selected s ms) out)"
    and "s' = (if skips_print s h then s else counted s)"
    and "out' = (if skips_print s h then out else print_one sys s (h, pl) out)"
  shows "(if numberOfLinesToRead s' \<noteq> 0 then consumer_loop cfg sys t (p, s', out') else Some (Success, out')) =
    Some (consumer_result sys s good (selected s ((h, pl) # ms)) out)"
proof (cases "skips_print s h")
  case True
  then show ?thesis using assms(2) [of s out] assms(1,3,4) by (simp add: selected_def)
next
  case False
  then have sel: "selected s ((h, pl) # ms) = (h, pl) # selected s ms" by (simp add: selected_def)
  have zero: "numberOfLinesToRead (counted s) = 0 \<longleftrightarrow> numberOfLinesToRead s = 1" using assms(1) by (simp add: counted_def)
  show ?thesis unfolding sel consumer_result_Cons [OF assms(1)]
    using assms(2) [of "counted s" "print_one sys s (h, pl) out"] assms(3,4) False zero by simp
qed

lemma consumer_loop_prints:
  assumes "parser_abs cfg p d" and "\<not> is_ready (df_phase d)" and "\<And>out. clock sys out \<noteq> None"
    and "\<And>t. \<not> select_fails sys t" and "numberOfLinesToRead s \<noteq> 0" and "text_bytes stdin = (bs, good)"
  shows "consumer_loop cfg sys stdin (p, s, out) =
    Some (consumer_result sys s good (selected s (fst (packets cfg d bs))) out)"
  using assms(1,2,5,6)
proof (induction bs arbitrary: p d s stdin out)
  case Nil
  have "readBytesBlocking (stdin_error sys) 1 [] stdin = Inl (if good \<and> \<not> stdin_error sys then Failure else Uncaught)"
    using read_one_byte [where s = stdin and e = "stdin_error sys"] Nil.prems(4) by simp
  then show ?case
    using Nil.prems(3) by (subst consumer_loop.simps) (simp add: consumer_result_Nil selected_def)
next
  case (Cons b bs)
  let ?d = "deframe_byte cfg d b"
  obtain t where t: "readBytesBlocking (stdin_error sys) 1 [] stdin = Inr ([b], t)" "text_bytes t = (bs, good)"
    using read_one_byte [where s = stdin and e = "stdin_error sys"] Cons.prems(4) by auto
  note one = consume_one_byte [OF Cons.prems(1,2) assms(3) Cons.prems(3), of b out]
  show ?case
  proof (cases "is_ready (df_phase ?d)")
    case True
    then obtain h pl where ph: "df_phase ?d = Packet_ready h pl" by (cases "df_phase ?d") auto
    let ?r = "?d\<lparr>df_escape := False, df_phase := Collect []\<rparr>"
    let ?s = "if skips_print s h then s else counted s"
    let ?out = "if skips_print s h then out else print_one sys s (h, pl) out"
    obtain p' where p': "consume_bytes cfg sys [b] 0 (p, s, out) = Some (Inr (p', ?s, ?out))" "parser_abs cfg p' ?r"
      using one by (auto simp: ph split: if_splits)
    have pk: "fst (packets cfg d (b # bs)) = (h, pl) # fst (packets cfg ?r bs)"
      by (simp add: packets_Cons [of cfg d] ph Let_def)
    have "consumer_loop cfg sys t (p', s, out) = Some (consumer_result sys s good (selected s (fst (packets cfg ?r bs))) out)"
      if "numberOfLinesToRead s \<noteq> 0" for s out using Cons.IH [OF p'(2) _ that t(2)] by simp
    from consumer_loop_packet [OF Cons.prems(3) this refl refl] show ?thesis
      unfolding pk consumer_loop_step [OF t(1) p'(1) assms(4)] .
  next
    case False
    then obtain p' where p': "consume_bytes cfg sys [b] 0 (p, s, out) = Some (Inr (p', s, out))" "parser_abs cfg p' ?d"
      using one by (cases "df_phase ?d") auto
    have "packets cfg d (b # bs) = packets cfg ?d bs"
      using False by (cases "df_phase ?d") (simp_all add: packets_Cons [of cfg d])
    then show ?thesis
      using Cons.IH [OF p'(2) False Cons.prems(3) t(2)] Cons.prems(3) consumer_loop_step [OF t(1) p'(1) assms(4)] by simp
  qed
qed

section \<open>The whole program\<close>

abbreviation fresh_deframer :: deframer where
  "fresh_deframer \<equiv> \<lparr>df_escape = False, df_phase = Collect [], df_fails = 0\<rparr>"

definition parser_memory :: "config \<Rightarrow> NDLComParser \<Rightarrow> bool" where
  "parser_memory cfg mem \<longleftrightarrow> length (mHeader_raw mem) = 4 \<and> length (mpData mem) = NDLCOM_MAX_PAYLOAD_SIZE cfg"

lemma parser_created:
  assumes "parser_memory cfg mem"
  obtains p where "ndlcomParserCreate cfg (Some mem) (NDLCOM_PARSER_MIN_BUFFER_SIZE cfg) = Some p" and "parser_abs cfg p fresh_deframer"
  using that parser_abs_fresh [of mem cfg] assms by (simp add: ndlcomParserCreate_def parser_memory_def)

text \<open>An option never makes the number of lines 0: the program ends then.\<close>

lemma options_leave_lines:
  assumes "each_option (consumer_option junk) opts initial_consumer = Inr s"
  shows "numberOfLinesToRead s \<noteq> 0"
proof -
  have "case each_option (consumer_option junk) opts initial_consumer of
      Inl e \<Rightarrow> e \<in> {Success, Failure} | Inr s \<Rightarrow> numberOfLinesToRead s \<noteq> 0"
    by (rule each_option_safe) (auto simp: initial_consumer_def consumer_option_def Let_def split: prod.split)
  then show ?thesis by (simp add: assms)
qed

lemma consumer_main_prints:
  assumes "each_option (consumer_option junk) opts initial_consumer = Inr s" and "parser_memory cfg mem"
    and "\<And>out. clock sys out \<noteq> None" and "\<And>t. \<not> select_fails sys t" and "text_bytes stdin = (bs, good)"
  shows "consumer_main cfg sys junk mem opts False stdin =
    Some (consumer_result sys s good (selected s (fst (packets cfg fresh_deframer bs))) [])"
proof -
  obtain p where p: "ndlcomParserCreate cfg (Some mem) (NDLCOM_PARSER_MIN_BUFFER_SIZE cfg) = Some p" "parser_abs cfg p fresh_deframer"
    by (rule parser_created [OF assms(2)])
  from consumer_loop_prints [OF p(2) _ assms(3,4) options_leave_lines [OF assms(1)] assms(5), of "[]"]
  show ?thesis by (simp add: consumer_main_def assms(1) p(1))
qed

text \<open>Bytes that were printed are read again.\<close>

lemma text_bytes_printed:
  assumes "blank ws"
  shows "text_bytes (ws @ concat (map print_byte bs)) = (bs, True)"
  using assms
proof (induction bs arbitrary: ws)
  case Nil
  then have "dropWhile isspace ws = []" by (simp add: blank_def)
  then have "scan ws = (Scan_eof, [])" by (simp add: scan_def del: dropWhile_eq_Nil_conv)
  then show ?case by (simp add: text_bytes.simps [of ws])
next
  case (Cons b bs)
  have "blank '' ''" by (simp add: blank_def isspace_def)
  from Cons.IH [OF this] scan_print_byte [OF Cons.prems, of b "concat (map print_byte bs)"]
  show ?case by (subst text_bytes.simps) simp
qed

section \<open>It always ends\<close>

lemma printPackage_cases:
  assumes "unat (mDataLen h) \<le> length mem"
  shows "(\<exists>out'. printPackage sys s h mem out = Inr out') \<or> printPackage sys s h mem out = Inl (Uncaught, out)"
  using assms by (cases "clock sys out") (simp_all add: printPackage_def)

lemma consume_byte_ends:
  assumes "parser_abs cfg p d" and "\<not> is_ready (df_phase d)"
  shows "\<exists>r. consume_bytes cfg sys [b] 0 (p, s, out) = Some r \<and>
    (case r of Inl e \<Rightarrow> fst e = Uncaught | Inr (p', s', out') \<Rightarrow> \<exists>d'. parser_abs cfg p' d' \<and> \<not> is_ready (df_phase d'))"
proof -
  let ?d = "deframe_byte cfg d b"
  have np: "\<not> ndlcomParserHasPacket p" using parser_abs_ready [OF assms(1)] assms(2) by simp
  have de: "deframe cfg d [b] = (?d, 1)" by simp
  obtain p1 where p1: "ndlcomParserReceive cfg p [b] = Some (p1, 1)" "parser_abs cfg p1 ?d"
    using receive_simulates [OF assms(1) np, of "[b]"] unfolding de by auto
  note ready = parser_abs_ready [OF p1(2)]
  show ?thesis
  proof (cases "ndlcomParserHasPacket p1")
    case True
    then obtain h pl where ph: "df_phase ?d = Packet_ready h pl" using ready by (cases "df_phase ?d") auto
    obtain mem where mem: "ndlcomParserGetHeader p1 = Some h" "ndlcomParserGetPacket p1 = Some mem"
      and len: "unat (mDataLen h) \<le> length mem"
      by (rule parser_abs_packet [OF p1(2) ph])
    have "\<exists>d'. parser_abs cfg (ndlcomParserDestroyPacket p1) d' \<and> \<not> is_ready (df_phase d')"
      using parser_abs_after_packet [OF p1(2)] by fastforce
    then show ?thesis
      using True printPackage_cases [OF len, of sys s out]
      by (subst consume_bytes.simps) (auto simp: p1(1) mem)
  next
    case False
    then have "consume_bytes cfg sys [b] 0 (p, s, out) = Some (Inr (p1, s, out))"
      by (subst consume_bytes.simps) (simp add: p1(1))
    then show ?thesis using p1(2) ready False by auto
  qed
qed

lemma consumer_loop_ends:
  assumes "parser_abs cfg p d" and "\<not> is_ready (df_phase d)"
  shows "\<exists>r. consumer_loop cfg sys stdin (p, s, out) = Some r \<and> fst r \<noteq> Bad_access"
  using assms
proof (induction "fst (text_bytes stdin)" arbitrary: p d s stdin out)
  case Nil
  then have "\<exists>e. readBytesBlocking (stdin_error sys) 1 [] stdin = Inl e \<and> e \<noteq> Bad_access"
    using read_one_byte [where s = stdin and e = "stdin_error sys"] by (auto split: prod.splits)
  then show ?case by (subst consumer_loop.simps) auto
next
  case (Cons b bs)
  have "text_bytes stdin = (b # bs, snd (text_bytes stdin))" using Cons.hyps(2) by (metis prod.collapse)
  then obtain t where t: "readBytesBlocking (stdin_error sys) 1 [] stdin = Inr ([b], t)" "fst (text_bytes t) = bs"
    using read_one_byte [where s = stdin and e = "stdin_error sys"] by auto
  obtain r where r: "consume_bytes cfg sys [b] 0 (p, s, out) = Some r"
    "case r of Inl e \<Rightarrow> fst e = Uncaught | Inr (p', s', out') \<Rightarrow> \<exists>d'. parser_abs cfg p' d' \<and> \<not> is_ready (df_phase d')"
    using consume_byte_ends [OF Cons.prems] by blast
  show ?case
  proof (cases r)
    case (Inl e)
    then show ?thesis using r by (subst consumer_loop.simps) (simp add: t(1) [unfolded One_nat_def])
  next
    case (Inr st)
    obtain p' s' out' where st: "st = (p', s', out')" by (cases st)
    obtain d' where d': "parser_abs cfg p' d'" "\<not> is_ready (df_phase d')" using r(2) Inr st by auto
    show ?thesis
    proof (cases "select_fails sys t")
      case True
      then show ?thesis by (subst consumer_loop.simps) (simp add: t(1) [unfolded One_nat_def] r(1) Inr)
    next
      case False
      show ?thesis
        using Cons.hyps(1) [OF t(2) [symmetric] d', of s' out'] consumer_loop_step [OF t(1) r(1) [unfolded Inr st] False]
        by auto
    qed
  qed
qed

section \<open>Properties\<close>

text \<open>
  C15: the consumer prints the packets in its input. Its lines are those of the packets that a
  deframer finds in the bytes of the text and that the filters let pass, in order and at most as many
  as asked for; it ends successfully exactly if that many were found, and otherwise when the text ends.
\<close>

theorem consumer_prints_packets:
  assumes "each_option (consumer_option junk) opts initial_consumer = Inr s" and "parser_memory cfg mem"
    and "\<And>out. clock sys out \<noteq> None" and "\<And>t. \<not> select_fails sys t" and "text_bytes stdin = (bs, good)"
    and "ms = filter (\<lambda>m. \<not> skips_print s (fst m)) (fst (packets cfg fresh_deframer bs))"
  shows "consumer_main cfg sys junk mem opts False stdin =
    Some (if 0 < numberOfLinesToRead s \<and> nat (numberOfLinesToRead s) \<le> length ms then Success
          else if good \<and> \<not> stdin_error sys then Failure else Uncaught,
          fold (print_one sys s) (take (line_limit s (length ms)) ms) [])"
  using consumer_main_prints [OF assms(1-5)] by (simp add: consumer_result_def assms(6) selected_def)

definition quiet_system :: consumer_system where
  "quiet_system = \<lparr>clock = (\<lambda>out. Some ''now''), select_fails = (\<lambda>t. False), stdin_error = False\<rparr>"

lemma quiet_system [simp]:
  "clock quiet_system out = Some ''now''" "\<not> select_fails quiet_system t" "\<not> stdin_error quiet_system"
  by (simp_all add: quiet_system_def)

lemma blank_parser_memory: "parser_memory cfg (blank_parser cfg)"
  by (simp add: parser_memory_def blank_parser_def)

lemma consumer_prints_packets_witness:
  "consumer_main default_config quiet_system 0 (blank_parser default_config) [(CHR ''n'', ''1'')] False ''0x7e 0x01'' =
    Some (Failure, [])"
proof -
  have o: "each_option (consumer_option 0) [(CHR ''n'', ''1'')] initial_consumer = Inr (initial_consumer\<lparr>numberOfLinesToRead := 1\<rparr>)"
    by (simp add: consumer_option_def read_int_def isspace_def isdigit_def read_dec_def digit_value_def Let_def)
  have clk: "clock quiet_system out \<noteq> None" "\<not> select_fails quiet_system t" for out t by simp_all
  have tb: "text_bytes ''0x7e 0x01'' = ([0x7e, 0x01], True)"
    by (simp add: text_bytes.simps scan_def scan_value_def isspace_def isxdigit_def hex_value_def isdigit_def)
  have "packets default_config fresh_deframer [0x7e, 0x01] = ([], fresh_deframer\<lparr>df_phase := Collect [1]\<rparr>)"
    by (simp add: packets_Cons deframe_byte_def deframe_decoded_def classify_def NDLCOM_START_STOP_FLAG_def NDLCOM_ESC_CHAR_def)
  with consumer_prints_packets [OF o blank_parser_memory clk tb refl, of default_config]
  show ?thesis by simp
qed

text \<open>
  The filter for receivers is inverted. With the option for a sender the packets of this sender
  are printed; with the option for a receiver, all packets but those to this receiver.
\<close>

theorem receiver_filter_is_inverted:
  assumes "n < 256"
    and "each_option (consumer_option junk) [(CHR ''s'', dec n)] initial_consumer = Inr s"
    and "each_option (consumer_option junk) [(CHR ''r'', dec n)] initial_consumer = Inr r"
  shows "(skips_print s h \<longleftrightarrow> unat (mSenderId h) \<noteq> n) \<and> (skips_print r h \<longleftrightarrow> unat (mReceiverId h) = n)"
proof -
  have n: "unat (of_nat n :: u8) = n" using assms(1) by (subst unat_of_nat) simp
  have eq: "x = of_nat n \<longleftrightarrow> unat x = n" for x :: u8 by (subst word_unat_eq_iff) (simp only: n)
  have r: "read_int junk (dec n) = int n" by (rule read_int_dec) (use assms(1) in simp)
  have "s = initial_consumer\<lparr>filterSenderId := [of_nat n]\<rparr>" "r = initial_consumer\<lparr>filterReceiverId := [of_nat n]\<rparr>"
    using assms(2,3) by (simp_all add: consumer_option_def r initial_consumer_def)
  then show ?thesis by (simp add: skips_print_def initial_consumer_def eq)
qed

lemma receiver_filter_is_inverted_witness:
  "\<exists>s r. each_option (consumer_option 0) [(CHR ''s'', dec 7)] initial_consumer = Inr s \<and>
    each_option (consumer_option 0) [(CHR ''r'', dec 7)] initial_consumer = Inr r \<and>
    \<not> skips_print s \<lparr>mReceiverId = 7, mSenderId = 7, mCounter = 0, mDataLen = 0\<rparr> \<and>
    skips_print r \<lparr>mReceiverId = 7, mSenderId = 7, mCounter = 0, mDataLen = 0\<rparr>"
proof -
  have o: "each_option (consumer_option 0) [(CHR ''s'', dec 7)] initial_consumer = Inr (initial_consumer\<lparr>filterSenderId := [7]\<rparr>)"
    "each_option (consumer_option 0) [(CHR ''r'', dec 7)] initial_consumer = Inr (initial_consumer\<lparr>filterReceiverId := [7]\<rparr>)"
    by (simp_all add: consumer_option_def read_int_dec initial_consumer_def)
  have "(7 :: nat) < 256" by simp
  from receiver_filter_is_inverted [OF this o, of "\<lparr>mReceiverId = 7, mSenderId = 7, mCounter = 0, mDataLen = 0\<rparr>"] o
  show ?thesis by auto
qed

text \<open>
  C40: the consumer always ends. Whatever text it gets and whatever options, clock and system do, it
  returns from its loops when the text is used up at the latest, and never reads or writes outside of
  the parser.
\<close>

theorem consumer_ends:
  assumes "parser_memory cfg mem"
  shows "\<exists>e out. consumer_main cfg sys junk mem opts more_args stdin = Some (e, out) \<and> e \<noteq> Bad_access"
proof (cases "each_option (consumer_option junk) opts initial_consumer")
  case (Inl e)
  have "case each_option (consumer_option junk) opts initial_consumer of Inl e \<Rightarrow> e \<in> {Success, Failure} | Inr s \<Rightarrow> True"
    by (rule each_option_safe [where I = "\<lambda>s. True"]) (auto simp: consumer_option_def Let_def split: prod.split)
  then show ?thesis by (auto simp: consumer_main_def Inl)
next
  case (Inr s)
  obtain p where p: "ndlcomParserCreate cfg (Some mem) (NDLCOM_PARSER_MIN_BUFFER_SIZE cfg) = Some p" "parser_abs cfg p fresh_deframer"
    by (rule parser_created [OF assms])
  have "\<exists>r. consumer_loop cfg sys stdin (p, s, []) = Some r \<and> fst r \<noteq> Bad_access"
    by (rule consumer_loop_ends [OF p(2)]) simp
  then show ?thesis by (cases more_args) (auto simp: consumer_main_def Inr p(1))
qed

lemma consumer_ends_witness:
  "\<exists>e out. consumer_main default_config (quiet_system\<lparr>clock := (\<lambda>out. None)\<rparr>) 0 (blank_parser default_config) [] False
      (concat (map print_byte (frame default_config (header_of_bytes [1, 2, 3, 1]) [4]))) = Some (e, out) \<and> e \<noteq> Bad_access"
  by (rule consumer_ends [OF blank_parser_memory])

text \<open>
  C14: from the producer to the consumer. Whatever options a packet was made with, when its payload
  fits the arrays of both programs the text that the producer prints makes the consumer print one line,
  with the time and exactly this header, before it fails at the end of the text.
\<close>

theorem produced_packet_is_consumed:
  assumes "each_option (producer_option rand junk) opts (initial_producer cfg) = Inr p"
    and "unat (mDataLen (producer_header p)) \<le> length (producer_payload p)"
    and "unat (mDataLen (producer_header p)) \<le> NDLCOM_MAX_PAYLOAD_SIZE cfg"
    and "unat (mDataLen (producer_header p)) \<le> NDLCOM_MAX_PAYLOAD_SIZE cfg'"
    and "length escapedBuffer = NDLCOM_MAX_ENCODED_MESSAGE_SIZE cfg" and "\<not> big_endian cfg"
    and "parser_memory cfg' mem" and "clock sys [] = Some time" and "\<And>out. clock sys out \<noteq> None"
    and "\<And>t. \<not> select_fails sys t" and "\<not> stdin_error sys"
  shows "fst (producer_main cfg rand junk escapedBuffer opts False) = Success \<and>
    consumer_main cfg' sys junk' mem [] False (snd (producer_main cfg rand junk escapedBuffer opts False)) =
      Some (Failure, ''['' @ time @ ''] '' @ header_text (producer_header p) @ endl)"
proof -
  let ?h = "producer_header p" and ?pl = "take (unat (mDataLen (producer_header p))) (producer_payload p)"
  have ok: "\<forall>m \<in> set [(?h, ?pl)]. sendable cfg' m" using assms(2,4) by (simp add: sendable_def)
  have pk: "fst (packets cfg' fresh_deframer (frame cfg ?h ?pl)) = [(?h, ?pl)]"
    using packets_frames [OF ok assms(6), of fresh_deframer] by simp
  have "blank []" by (simp add: blank_def)
  from text_bytes_printed [OF this, of "frame cfg ?h ?pl"]
  have tb: "text_bytes (concat (map print_byte (frame cfg ?h ?pl))) = (frame cfg ?h ?pl, True)" by simp
  have opts: "each_option (consumer_option junk') [] initial_consumer = Inr initial_consumer" by simp
  have "consumer_main cfg' sys junk' mem [] False (concat (map print_byte (frame cfg ?h ?pl))) =
      Some (Failure, ''['' @ time @ ''] '' @ header_text ?h @ endl)"
    unfolding consumer_main_prints [OF opts assms(7,9,10) tb] pk
    by (simp add: consumer_result_def selected_def skips_print_def initial_consumer_def line_limit_def print_one_def
        printPackage_def assms(8,11))
  then show ?thesis using producer_prints_frame [OF assms(1-3,5)] by simp
qed

lemma default_header_text:
  "header_text (producer_header (initial_producer cfg)) = ''[sender: 0x01 receiver: 0xff counter:   0 length:   0] ''"
proof -
  have "hex2 1 = ''0x01''" "hex2 0xff = ''0xff''" "dec 0 = ''0''"
    by (simp_all add: hex2_def hexdigit_def dec.simps [of 0] digit_def char_of_eq_iff)
  moreover have "setw 3 ''0'' = ''  0''" by (simp add: setw_def eval_nat_numeral)
  ultimately show ?thesis by (simp add: header_text_def initial_producer_def NDLCOM_ADDR_BROADCAST_def)
qed

lemma produced_packet_is_consumed_witness:
  "consumer_main default_config quiet_system 0 (blank_parser default_config) [] False
      (snd (producer_main default_config (\<lambda>k. 0) 0 (replicate (NDLCOM_MAX_ENCODED_MESSAGE_SIZE default_config) 0) [] False)) =
    Some (Failure, ''[now] [sender: 0x01 receiver: 0xff counter:   0 length:   0] '' @ endl)"
proof -
  have o: "each_option (producer_option (\<lambda>k. 0) 0) [] (initial_producer default_config) = Inr (initial_producer default_config)" by simp
  have size: "unat (mDataLen (producer_header (initial_producer default_config))) \<le> length (producer_payload (initial_producer default_config))"
    "unat (mDataLen (producer_header (initial_producer default_config))) \<le> NDLCOM_MAX_PAYLOAD_SIZE default_config"
    by (simp_all add: initial_producer_def)
  have e: "\<not> big_endian default_config" by (simp add: default_config_def)
  have clk: "clock quiet_system out \<noteq> None" "\<not> select_fails quiet_system t" "\<not> stdin_error quiet_system" for out t by simp_all
  have n: "unat (mDataLen (producer_header (initial_producer default_config))) \<le> NDLCOM_MAX_PAYLOAD_SIZE default_config"
    by (rule size(2))
  have len: "length (replicate (NDLCOM_MAX_ENCODED_MESSAGE_SIZE default_config) 0) = NDLCOM_MAX_ENCODED_MESSAGE_SIZE default_config"
    by (rule length_replicate)
  have "''['' @ ''now'' @ ''] '' @ ''[sender: 0x01 receiver: 0xff counter:   0 length:   0] '' @ endl =
      ''[now] [sender: 0x01 receiver: 0xff counter:   0 length:   0] '' @ endl" by simp
  with conjunct2 [OF produced_packet_is_consumed [OF o size n len e blank_parser_memory quiet_system(1) clk, of 0]]
  show ?thesis unfolding default_header_text by (simp only:)
qed

end
