(* ===== verification/Bridge_Help.thy ===== *)
theory Bridge_Help
  imports Uri
begin

text \<open>
  The help text of \<open>tools/ndlcomBridge.cpp\<close>, which names the program by its path and by its file name, and the uris in it.
\<close>

definition tab :: string where
  "tab = [CHR 0x09]"

text \<open>\<open>substr\<close> behind the last slash; without one this is the whole name.\<close>

definition file_name :: "string \<Rightarrow> string" where
  "file_name name = rev (takeWhile (\<lambda>c. c \<noteq> CHR 0x2F) (rev name))"

definition help_text :: "string \<Rightarrow> string" where
  "help_text name =
     (let actualName = file_name name in
      endl @ actualName @ endl @ endl @
      ''Low-level tool to create multiple NDLCom-interfaces, connect them by routing messages as needed and '' @
      ''possibly listen to multiple nodeIds. Can print miss-events by observing the packet-counter of '' @
      ''passing messages. During runtime the mainloop will listen to '' @ [CHR 0x27] @ ''q'' @ [CHR 0x27] @ '' (quit), '' @
      [CHR 0x27] @ ''s'' @ [CHR 0x27] @ '' (status) and '' @ [CHR 0x27] @ ''r'' @ [CHR 0x27] @
      '' (print routing table). Additionally, sending a SIGINT (ctrl-c) will also close the program in a '' @
      ''orderly way.'' @ endl @
      endl @
      ''Besides creating ordinary interfaces which will be used in the dynamic routing table, additional '' @ [CHR 0x27] @
      ''mirror interfaces'' @ [CHR 0x27] @
      '' can requested as well. These will output a copy of _all_ passing messages and forwards incoming '' @
      ''messages without updating the routing table.'' @ endl @
      endl @
      ''DeviceIds which are reachable behind an interfrace can be appended in the form '' @ [CHR 0x27] @ ''&id1,id2,id3'' @
      [CHR 0x27] @ '' to the interface description. Thus it is possible to preconfigure the internal routing table in '' @
      ''known environments'' @ endl @
      endl @
      ''options:'' @ endl @
      ''--uri'' @ tab @ tab @ ''-u'' @ tab @ ''Interface to create. Possible: '' @ [CHR 0x27] @ ''fpga'' @ [CHR 0x27] @
      '', '' @ [CHR 0x27] @ ''serial'' @ [CHR 0x27] @ '', '' @ [CHR 0x27] @ ''pty'' @ [CHR 0x27] @ '', '' @ [CHR 0x27] @
      ''pipe'' @ [CHR 0x27] @ '', '' @ [CHR 0x27] @ ''udp'' @ [CHR 0x27] @ endl @
      ''--mirrorUri'' @ tab @ ''-m'' @ tab @ ''Mirror interface to create, otherwise the same as in '' @ [CHR 0x27] @
      ''--uri'' @ [CHR 0x27] @ endl @
      ''--ownDeviceId'' @ tab @ ''-i'' @ tab @ ''Creates and adds a node to the bridge listening to this deviceId'' @ endl @
      ''--frequency'' @ tab @ ''-f'' @ tab @ ''Polling of the main-loop in Hz'' @ endl @
      ''--print-all'' @ tab @ ''-A'' @ tab @ ''Print every packet'' @ endl @
      ''--print-own'' @ tab @ ''-O'' @ tab @ ''Print packets directed at the given '' @ [CHR 0x27] @ ''deviceId'' @
      [CHR 0x27] @ endl @
      ''--print-miss'' @ tab @ ''-M'' @ tab @ ''Print miss events of packets passing thorugh the bridge'' @ endl @
      ''--realtime'' @ tab @ ''-R'' @ tab @ ''try to obtain realtime scheduling. needs root.'' @ endl @
      endl @
      ''examples:'' @ endl @
      endl @
      ''Specify that deviceIds 2 to 6 are reachable on localhost:'' @ endl @
      endl @
      tab @ name @ '' -u '' @ [CHR 0x22] @ ''udp://localhost:34000:34001&2,3,4,5,6'' @ [CHR 0x22] @ endl @
      endl @
      ''routing of messages from serial to udp on localhost, usable by CommonGui:'' @ endl @
      endl @
      tab @ name @ '' -u udp://localhost:34000:34001 -u serial:///dev/ttyUSB0:921600'' @ endl @
      endl @
      ''route between kernel-module with udp-connection, print missing packages:'' @ endl @
      endl @
      tab @ name @ '' -u fpga:///dev/NDLCom -u udp://localhost:34000:34001 -M'' @ endl @
      endl @
      ''Creates UDP socket with explicit setting of the socket priority. The default value is 0.'' @ endl @
      endl @
      tab @ name @ '' -u udp://localhost:34000:34001:<priority value>'' @ endl @
      endl @
      tab @ '' It accepts priority values between 0 and 15:'' @ endl @
      endl @
      tab @ '' Linux Priority Name         Value'' @ endl @
      tab @ '' ------------------------    -----'' @ endl @
      tab @ '' TC_PRIO_BESTEFFORT          0'' @ endl @
      tab @ '' TC_PRIO_FILLER              1'' @ endl @
      tab @ '' TC_PRIO_BULK                2'' @ endl @
      tab @ '' TC_PRIO_INTERACTIVE_BULK    4'' @ endl @
      tab @ '' TC_PRIO_INTERACTIVE         6'' @ endl @
      tab @ '' TC_PRIO_CONTROL             7'' @ endl @
      tab @ '' TC_PRIO_MAX                 15'' @ endl @
      endl @
      ''create pseudoterminal and open this in CommonGui:'' @ endl @
      endl @
      tab @ name @ '' -u pty:///tmp/symlink'' @ endl @
      endl @
      ''route from one hex-encoded pipe to another, print all passing packages:'' @ endl @
      endl @
      tab @ name @ '' -u pipe://pipeA -u pipe://pipeB -A'' @ endl)"

text \<open>The examples in the text are uris of the classes they are examples for.\<close>

lemma help_uris_understood:
  "map (\<lambda>s. map_option fst (createInterfaceByMatch all_interface_classes s))
     [''udp://localhost:34000:34001&2,3,4,5,6'', ''udp://localhost:34000:34001'', ''serial:///dev/ttyUSB0:921600'',
      ''fpga:///dev/NDLCom'', ''pty:///tmp/symlink'', ''pipe://pipeA'', ''pipe://pipeB''] =
   map Some [InterfaceUdp, InterfaceUdp, InterfaceSerial, InterfaceFpga, InterfacePty, InterfacePipe, InterfacePipe]"
  by code_simp

lemma file_name_of_path:
  assumes "CHR 0x2F \<notin> set name"
  shows "file_name (folder @ [CHR 0x2F] @ name) = name"
proof -
  have "takeWhile (\<lambda>c. c \<noteq> CHR 0x2F) (rev name @ [CHR 0x2F] @ rev folder) = rev name"
    using assms by (subst takeWhile_append2) auto
  then show ?thesis by (simp add: file_name_def)
qed

end
