(* ===== verification/Bridge_Tool.thy ===== *)
theory Bridge_Tool
  imports Cpp_Properties Command_Line Bridge_Help
begin

text \<open>
  \<open>tools/ndlcomBridge.cpp\<close>: a bridge with the interfaces, nodes and printers that its options ask for,
  and a main loop that processes messages and listens to the keyboard. Every new object gets the next
  unused address. The frequency of the main loop is a number of a type that is left open, with what the
  program does with it as parameters. While the loop sleeps anything may happen to the devices.
\<close>

section \<open>The state\<close>

record ('d, 'f) bridge_tool =
  tool_bridge :: "'d cpp_bridge" \<comment> \<open>the global \<open>bridge\<close>\<close>
  new_object :: nat
  stopMainLoop :: bool
  mainLoopFrequency_hz :: 'f

text \<open>
  What depends on floating-point numbers: the initial 1000 Hz, the number after it was read from a
  text (which may leave it as it was), and the text \<open>1000Hz (update every 1000us)\<close> for a number.
\<close>

record 'f rates =
  initial_rate :: 'f
  read_rate :: "'f \<Rightarrow> string \<Rightarrow> 'f"
  rate_text :: "'f \<Rightarrow> string"

definition tool_prints :: "string \<Rightarrow> ('d, 'f) bridge_tool \<Rightarrow> ('d, 'f) bridge_tool" where
  "tool_prints message t = t\<lparr>tool_bridge := (tool_bridge t)\<lparr>c_bridge := put_cerr (\<lambda>s. s @ message) (c_bridge (tool_bridge t))\<rparr>\<rparr>"

text \<open>An option that ends the program leaves the state it ends in.\<close>

type_synonym ('d, 'f) stopped = "outcome \<times> ('d, 'f) bridge_tool"

definition with_new_object :: "('d, 'f) bridge_tool \<Rightarrow> 'd cpp_bridge option \<Rightarrow> ('d, 'f) stopped + ('d, 'f) bridge_tool" where
  "with_new_object t made =
     (case made of None \<Rightarrow> Inl (Bad_access, t) | Some b \<Rightarrow> Inr (t\<lparr>tool_bridge := b, new_object := new_object t + 1\<rparr>))"

section \<open>Options\<close>

text \<open>
  \<open>opens\<close> tells whether a device can be opened, and \<open>realtime\<close> the error when \<open>sched_setscheduler\<close> fails. The
  weak pointer that \<open>createInterface\<close> returns is expired when the bridge does not own the object.
\<close>

definition interface_option ::
  "config \<Rightarrow> (interface_config \<Rightarrow> bool) \<Rightarrow> u8 \<Rightarrow> string \<Rightarrow> ('d, 'f) bridge_tool \<Rightarrow> ('d, 'f) stopped + ('d, 'f) bridge_tool" where
  "interface_option cfg opens flags optarg t =
     (case createInterface cfg opens (new_object t) optarg flags (tool_bridge t) of
        None \<Rightarrow> Inl (Bad_access, t)
      | Some (Inl e, b) \<Rightarrow> Inl (Uncaught, t\<lparr>tool_bridge := b\<rparr>)
      | Some (Inr i, b) \<Rightarrow>
          if i \<notin> set (externalInterfaces b) then
            Inl (Failure, tool_prints (''invalid uri: '' @ [CHR 0x27] @ optarg @ [CHR 0x27] @ endl) (t\<lparr>tool_bridge := b\<rparr>))
          else with_new_object t (Some b))"

definition bridge_option ::
  "config \<Rightarrow> 'f rates \<Rightarrow> (interface_config \<Rightarrow> bool) \<Rightarrow> string option \<Rightarrow> string \<Rightarrow> int \<Rightarrow> ('d, 'f) bridge_tool \<Rightarrow> option_arg \<Rightarrow>
    ('d, 'f) stopped + ('d, 'f) bridge_tool" where
  "bridge_option cfg rates opens realtime name junk t opt =
     (case opt of (c, optarg) \<Rightarrow>
        if c = CHR ''u'' then interface_option cfg opens NDLCOM_EXTERNAL_INTERFACE_FLAGS_DEFAULT optarg t
        else if c = CHR ''m'' then interface_option cfg opens NDLCOM_EXTERNAL_INTERFACE_FLAGS_DEBUG_MIRROR optarg t
        else if c = CHR ''i'' then
          with_new_object t (enableOwnId cfg (new_object t) (new_object t) (of_int (read_int junk optarg)) False (tool_bridge t))
        else if c = CHR ''f'' then Inr (t\<lparr>mainLoopFrequency_hz := read_rate rates (mainLoopFrequency_hz t) optarg\<rparr>)
        else if c = CHR ''A'' then with_new_object t (enablePrintAll (new_object t) (tool_bridge t))
        else if c = CHR ''O'' then
          with_new_object t (enableOwnId cfg (new_object t) (new_object t) (of_int (read_int junk optarg)) True (tool_bridge t))
        else if c = CHR ''M'' then with_new_object t (enablePrintMiss (new_object t) (tool_bridge t))
        else if c = CHR ''R'' then
          (let t = tool_prints (''enabling SCHED_FIFO with priority 99'' @ endl) t
           in case realtime of
                None \<Rightarrow> Inr t
              | Some failure \<Rightarrow>
                  Inl (Failure, tool_prints (''sched_setscheduler() failed: '' @ [CHR 0x27] @ failure @ [CHR 0x27] @ endl) t))
        else Inl (Failure, tool_prints (help_text name) t))"

section \<open>The main loop\<close>

text \<open>
  One turn of the loop: the line that was entered when \<open>select\<close> finds input, whether the program gets
  a \<open>SIGINT\<close> in this turn, and what happens to the devices while it sleeps. At the end of the standard input
  \<open>select\<close> finds input and the line is empty.
\<close>

record 'd turn =
  entered :: "string option"
  interrupted :: bool
  meanwhile :: "'d \<Rightarrow> 'd"

definition sleep_until :: "('d \<Rightarrow> 'd) \<Rightarrow> ('d, 'f) bridge_tool \<Rightarrow> ('d, 'f) bridge_tool" where
  "sleep_until arrives t = t\<lparr>tool_bridge := (tool_bridge t)\<lparr>c_bridge := upd_env (outside_update arrives) (c_bridge (tool_bridge t))\<rparr>\<rparr>"

definition handleInput :: "config \<Rightarrow> string option \<Rightarrow> ('d, 'f) bridge_tool \<Rightarrow> ('d, 'f) bridge_tool option" where
  "handleInput cfg line t =
     (case line of
        None \<Rightarrow> Some t
      | Some s \<Rightarrow>
          let b = tool_bridge t in
          if s = ''r'' then map_option (\<lambda>b. t\<lparr>tool_bridge := b\<rparr>) (printRoutingTable cfg b)
          else if s = ''q'' then Some (t\<lparr>stopMainLoop := True\<rparr>)
          else if s = ''s'' then Some (t\<lparr>tool_bridge := b\<lparr>out := out b @ Bridge_printStatus cfg b\<rparr>\<rparr>)
          else Some t)"

fun main_loop :: "config \<Rightarrow> 'd virtual_functions \<Rightarrow> 'd turn list \<Rightarrow> ('d, 'f) bridge_tool \<Rightarrow> ('d, 'f) bridge_tool option" where
  "main_loop cfg vf [] t = Some t"
| "main_loop cfg vf (tn # turns) t =
     (if stopMainLoop t then Some t
      else do {
        b \<leftarrow> Bridge_process cfg vf (tool_bridge t);
        t \<leftarrow> handleInput cfg (entered tn) (t\<lparr>tool_bridge := b\<rparr>);
        let t = sleep_until (meanwhile tn) t;
        main_loop cfg vf turns (if interrupted tn then t\<lparr>stopMainLoop := True\<rparr> else t)
      })"

text \<open>
  How the program ends: by \<open>exit\<close>, after which the bridge is destroyed, as it is a global object; with an
  uncaught exception or bad access; or not at all as long as there is nothing more to happen. A function that does
  not return counts as a bad access.
\<close>

datatype ('d, 'f) bridge_end = Quit outcome "'d cpp_bridge" | Ended outcome | Running "('d, 'f) bridge_tool"

definition exit_program :: "config \<Rightarrow> outcome \<Rightarrow> ('d, 'f) bridge_tool \<Rightarrow> ('d, 'f) bridge_end" where
  "exit_program cfg status t =
     (case Bridge_destructor cfg (tool_bridge t) of None \<Rightarrow> Ended Bad_access | Some b \<Rightarrow> Quit status b)"

definition bridge_main ::
  "config \<Rightarrow> 'f rates \<Rightarrow> 'd virtual_functions \<Rightarrow> (interface_config \<Rightarrow> bool) \<Rightarrow> string option \<Rightarrow> string \<Rightarrow> int \<Rightarrow> 'd cpp_world \<Rightarrow>
   option_arg list \<Rightarrow> bool \<Rightarrow> 'd turn list \<Rightarrow> ('d, 'f) bridge_end" where
  "bridge_main cfg rates vf opens realtime name junk w opts more_args turns =
     (case each_option (bridge_option cfg rates opens realtime name junk) opts
             \<lparr>tool_bridge = Bridge_new cfg [] w, new_object = 0, stopMainLoop = False, mainLoopFrequency_hz = initial_rate rates\<rparr> of
        Inl (e, t) \<Rightarrow> if e = Failure then exit_program cfg Failure t else Ended e
      | Inr t \<Rightarrow>
          if more_args then exit_program cfg Failure (tool_prints (help_text name) t)
          else let t = tool_prints (''using update rate of '' @ rate_text rates (mainLoopFrequency_hz t) @ endl @ endl) t;
                   b = tool_bridge t;
                   t = t\<lparr>tool_bridge := b\<lparr>out := out b @ Bridge_printStatus cfg b\<rparr>\<rparr>
            in case main_loop cfg vf turns t of
                 None \<Rightarrow> Ended Bad_access
               | Some t \<Rightarrow>
                   if \<not> stopMainLoop t then Running t
                   else exit_program cfg Success (tool_prints (''quitting'' @ endl) t))"

section \<open>What the program owns\<close>

definition tool_ok :: "('d, 'f) bridge_tool \<Rightarrow> bool" where
  "tool_ok t \<longleftrightarrow> (\<exists>r. owns (tool_bridge t) r) \<and>
     (\<forall>x \<in> set (externalInterfaces (tool_bridge t)) \<union> set (bridgeHandler (tool_bridge t)) \<union> set (cpp_nodes (tool_bridge t)) \<union>
        (\<Union>n. set (allHandler (tool_bridge t) n)). x < new_object t)"

lemma owns_out [simp]: "owns (b\<lparr>out := s\<rparr>) r = owns b r"
  by (simp add: owns_def)

lemma owns_elsewhere:
  assumes "owns b r" and "links w' = links (c_bridge b)" and "handlers w' = handlers (c_bridge b)"
  shows "\<exists>r'. owns (b\<lparr>c_bridge := w'\<rparr>) r'"
  by (rule bridge_step_owns [OF bridge_step.elsewhere [OF assms(2,3)] assms(1)])

lemma tool_ok_out: "tool_ok (t\<lparr>tool_bridge := (tool_bridge t)\<lparr>out := s\<rparr>\<rparr>) = tool_ok t"
  by (simp add: tool_ok_def)

lemma tool_ok_elsewhere:
  assumes "tool_ok t" and "links w' = links (c_bridge (tool_bridge t))" and "handlers w' = handlers (c_bridge (tool_bridge t))"
  shows "tool_ok (t\<lparr>tool_bridge := (tool_bridge t)\<lparr>c_bridge := w'\<rparr>\<rparr>)"
  using assms owns_elsewhere by (auto simp: tool_ok_def)

lemma tool_ok_prints: "tool_ok t \<Longrightarrow> tool_ok (tool_prints message t)"
  unfolding tool_prints_def by (rule tool_ok_elsewhere) (simp_all add: put_cerr_def)

text \<open>The objects of the bridge \<open>b'\<close> are those of \<open>b\<close> and perhaps \<open>x\<close>.\<close>

definition grows :: "nat \<Rightarrow> 'd cpp_bridge \<Rightarrow> 'd cpp_bridge \<Rightarrow> bool" where
  "grows x b b' \<longleftrightarrow> set (externalInterfaces b') \<subseteq> insert x (set (externalInterfaces b)) \<and>
     set (bridgeHandler b') \<subseteq> insert x (set (bridgeHandler b)) \<and> set (cpp_nodes b') \<subseteq> insert x (set (cpp_nodes b)) \<and>
     (\<forall>n. set (allHandler b' n) \<subseteq> insert x (set (allHandler b n)))"

lemma tool_ok_grows:
  assumes "tool_ok t" and "owns b r" and "grows (new_object t) (tool_bridge t) b"
  shows "tool_ok (t\<lparr>tool_bridge := b, new_object := new_object t + 1\<rparr>)"
  using assms unfolding tool_ok_def grows_def by (fastforce simp: less_Suc_eq)

lemma tool_okD:
  assumes "tool_ok t"
  shows "new_object t \<notin> set (externalInterfaces (tool_bridge t))" "new_object t \<notin> set (bridgeHandler (tool_bridge t))"
    "new_object t \<notin> set (cpp_nodes (tool_bridge t))" "new_object t \<notin> set (allHandler (tool_bridge t) n)"
  using assms by (auto simp: tool_ok_def)

lemma fold_set_route_structure:
  "links (fold (set_route cfg i) ids w) = links w \<and> handlers (fold (set_route cfg i) ids w) = handlers w"
  by (induction ids arbitrary: w)
    (simp_all add: set_route_def setRoutingForDeviceId_def ndlcomExternalInterfaceSetRoutingForDeviceId_def
      ndlcomBridgeAddRoutingInformationForDeviceId_def put_cerr_def Let_def)

lemma setRoutingByString_structure:
  "links (snd (setRoutingByString cfg i conn w)) = links w \<and> handlers (snd (setRoutingByString cfg i conn w)) = handlers w"
  by (simp add: setRoutingByString_def fold_set_route_structure put_cerr_def Let_def split: prod.split sum.split)

lemma create_interface_by_uri:
  assumes "owns b r" and "i \<notin> set (externalInterfaces b)"
  shows "\<exists>e b' r'. createInterface cfg opens i text flags b = Some (e, b') \<and> owns b' r' \<and> grows i b b' \<and>
    (case e of Inl x \<Rightarrow> True | Inr k \<Rightarrow> k = i \<and> i \<in> set (externalInterfaces b'))"
proof -
  have same: "grows i b b" by (auto simp: grows_def)
  show ?thesis
  proof (cases "createInterfaceByMatch all_interface_classes text")
    case None
    then show ?thesis using assms(1) same by (auto simp: createInterface_def)
  next
    case (Some found)
    obtain T m where f: "found = (T, m)" by (cases found)
    show ?thesis
    proof (cases "constructor_arguments T m")
      case (Inl e)
      then show ?thesis using assms(1) same by (auto simp: createInterface_def Some f)
    next
      case (Inr c)
      show ?thesis
      proof (cases "refused flags c \<or> \<not> opens c")
        case True
        then show ?thesis using assms(1) same by (auto simp: createInterface_def Some f Inr)
      next
        case False
        obtain b1 r1 where b1: "createExternalInterface cfg i (interface_label c) flags b = Some b1" "owns b1 r1"
          "externalInterfaces b1 = externalInterfaces b @ [i]" "bridgeHandler b1 = bridgeHandler b"
          "cpp_nodes b1 = cpp_nodes b" "allHandler b1 = allHandler b"
          using create_interface_owns [OF assms, of cfg "interface_label c" flags] by blast
        obtain x w' where w': "setRoutingByString cfg i (m_last m) (c_bridge b1) = (x, w')"
          by (cases "setRoutingByString cfg i (m_last m) (c_bridge b1)")
        then have "links w' = links (c_bridge b1)" "handlers w' = handlers (c_bridge b1)"
          using setRoutingByString_structure [of cfg i "m_last m" "c_bridge b1"] by simp_all
        from owns_elsewhere [OF b1(2) this] obtain r' where "owns (b1\<lparr>c_bridge := w'\<rparr>) r'" by blast
        then show ?thesis using False b1 w'
          by (auto simp: createInterface_def Some f Inr grows_def split: option.split)
      qed
    qed
  qed
qed

lemma enableOwnId_owns:
  assumes "owns b r" and "n \<notin> set (cpp_nodes b)" and "\<And>m. n \<notin> set (allHandler b m)"
  shows "\<exists>b' r'. enableOwnId cfg n n i print b = Some b' \<and> owns b' r' \<and> grows n b b'"
proof -
  obtain b1 r1 where b1: "createNode cfg n i b = Some b1" "owns b1 r1" "externalInterfaces b1 = externalInterfaces b"
    "bridgeHandler b1 = bridgeHandler b" "cpp_nodes b1 = cpp_nodes b @ [n]" "allHandler b1 = allHandler b"
    using create_node_owns [OF assms(1,2), of cfg i] by blast
  show ?thesis
  proof (cases print)
    case True
    have "n \<in> set (cpp_nodes b1)" "\<And>m. n \<notin> set (allHandler b1 m)" using b1(5,6) assms(3) by simp_all
    from create_node_handler_owns [OF b1(2) this]
    obtain r' where "owns (createNodeHandler n n ''NodeHandlerPrintOwnId'' PrintOwnId_object b1) r'" by blast
    then show ?thesis using b1 True by (auto simp: enableOwnId_def grows_def createNodeHandler_def)
  next
    case False
    then show ?thesis using b1 by (auto simp: enableOwnId_def grows_def)
  qed
qed

lemma create_handler_grows:
  assumes "owns b r" and "k \<notin> set (bridgeHandler b)"
  shows "\<exists>b' r'. createBridgeHandler k label s b = Some b' \<and> owns b' r' \<and> grows k b b'"
proof -
  obtain b' r' where b': "createBridgeHandler k label s b = Some b'" "owns b' r'" "externalInterfaces b' = externalInterfaces b"
    "bridgeHandler b' = bridgeHandler b @ [k]" "cpp_nodes b' = cpp_nodes b" "allHandler b' = allHandler b"
    using create_handler_owns [OF assms, of label s] by blast
  then show ?thesis by (auto simp: grows_def)
qed

lemma tool_ok_fields [simp]:
  "tool_ok (t\<lparr>stopMainLoop := s\<rparr>) = tool_ok t" "tool_ok (t\<lparr>mainLoopFrequency_hz := f\<rparr>) = tool_ok t"
  by (simp_all add: tool_ok_def)

lemma frequency_tool_prints [simp]: "mainLoopFrequency_hz (tool_prints message t) = mainLoopFrequency_hz t"
  by (simp add: tool_prints_def)

text \<open>Options never do damage: they add an object, or end the program.\<close>

definition option_ok :: "('d, 'f) stopped + ('d, 'f) bridge_tool \<Rightarrow> bool" where
  "option_ok x \<longleftrightarrow> (case x of Inl (e, t) \<Rightarrow> tool_ok t \<and> e = Failure \<or> e = Uncaught | Inr t \<Rightarrow> tool_ok t)"

lemma interface_option_ok:
  assumes "tool_ok t"
  shows "option_ok (interface_option cfg opens flags optarg t)"
proof -
  obtain r where r: "owns (tool_bridge t) r" using assms by (auto simp: tool_ok_def)
  obtain e b' r' where b': "createInterface cfg opens (new_object t) optarg flags (tool_bridge t) = Some (e, b')" "owns b' r'"
    "grows (new_object t) (tool_bridge t) b'"
    "case e of Inl x \<Rightarrow> True | Inr k \<Rightarrow> k = new_object t \<and> new_object t \<in> set (externalInterfaces b')"
    using create_interface_by_uri [OF r tool_okD(1) [OF assms], of cfg opens optarg flags] by blast
  show ?thesis
    using b'(4) tool_ok_grows [OF assms b'(2,3)]
    by (cases e) (auto simp: option_ok_def interface_option_def b'(1) with_new_object_def)
qed

lemma bridge_option_ok:
  assumes "tool_ok t"
  shows "option_ok (bridge_option cfg rates opens realtime name junk t opt)"
proof -
  obtain r where r: "owns (tool_bridge t) r" using assms by (auto simp: tool_ok_def)
  note new = tool_okD [OF assms]
  have node: "option_ok (with_new_object t (enableOwnId cfg (new_object t) (new_object t) i print (tool_bridge t)))" for i print
    using enableOwnId_owns [OF r new(3,4), of cfg i print] tool_ok_grows [OF assms] by (auto simp: with_new_object_def option_ok_def)
  have handler: "option_ok (with_new_object t (createBridgeHandler (new_object t) label h (tool_bridge t)))" for label h
    using create_handler_grows [OF r new(2), of label h] tool_ok_grows [OF assms] by (auto simp: with_new_object_def option_ok_def)
  have others: "option_ok (Inl (Failure, tool_prints s t))" "option_ok (Inr (t\<lparr>mainLoopFrequency_hz := f\<rparr>))" for s f
    using assms by (simp_all add: option_ok_def tool_ok_prints)
  have scheduler: "option_ok (let t = tool_prints s t in case realtime of None \<Rightarrow> Inr t | Some failure \<Rightarrow> Inl (Failure, tool_prints (s' failure) t))"
    for s s' using assms by (simp add: option_ok_def Let_def tool_ok_prints split: option.split)
  show ?thesis
    by (cases opt) (simp add: bridge_option_def enablePrintAll_def enablePrintMiss_def interface_option_ok [OF assms]
        node handler others scheduler)
qed

section \<open>The loop keeps it\<close>

lemma Bridge_process_owns:
  assumes "Bridge_process cfg vf b = Some b'" and "outsiders_keep_lists vf" and "owns b r"
  shows "\<exists>r'. owns b' r'"
  by (rule bridge_step_owns [OF processing_is_a_step [OF assms(1,2)] assms(3)])

lemma Bridge_process_vectors:
  "Bridge_process cfg vf b = Some b' \<Longrightarrow> externalInterfaces b' = externalInterfaces b \<and> bridgeHandler b' = bridgeHandler b \<and>
    cpp_nodes b' = cpp_nodes b \<and> allHandler b' = allHandler b"
  by (auto simp: Bridge_process_def split: Option.bind_splits)

lemma Bridge_process_tool_ok:
  assumes "Bridge_process cfg vf (tool_bridge t) = Some b" and "outsiders_keep_lists vf" and "tool_ok t"
  shows "tool_ok (t\<lparr>tool_bridge := b\<rparr>)"
proof -
  obtain r where "owns (tool_bridge t) r" using assms(3) by (auto simp: tool_ok_def)
  from Bridge_process_owns [OF assms(1,2) this] show ?thesis
    using Bridge_process_vectors [OF assms(1)] assms(3) by (simp add: tool_ok_def)
qed

lemma tool_ok_sleep: "tool_ok t \<Longrightarrow> tool_ok (sleep_until arrives t)"
  unfolding sleep_until_def by (rule tool_ok_elsewhere) simp_all

lemma handleInput_ok:
  assumes "tool_ok t"
  shows "\<exists>t'. handleInput cfg line t = Some t' \<and> tool_ok t' \<and> (stopMainLoop t' \<longleftrightarrow> stopMainLoop t \<or> line = Some ''q'')"
proof -
  obtain r where r: "owns (tool_bridge t) r" using assms by (auto simp: tool_ok_def)
  have "\<exists>s. printRoutingTable cfg (tool_bridge t) = Some ((tool_bridge t)\<lparr>out := s\<rparr>)"
    using printRoutingTable_prints [OF r, of cfg] by blast
  then show ?thesis using assms by (auto simp: handleInput_def Let_def tool_ok_out split: option.split)
qed

lemma main_loop_ok:
  assumes "main_loop cfg vf turns t = Some t'" and "outsiders_keep_lists vf" and "tool_ok t"
  shows "tool_ok t'"
  using assms(1,3)
proof (induction turns arbitrary: t)
  case (Cons tn turns)
  show ?case
  proof (cases "stopMainLoop t")
    case False
    then obtain b t1 where b: "Bridge_process cfg vf (tool_bridge t) = Some b" "handleInput cfg (entered tn) (t\<lparr>tool_bridge := b\<rparr>) = Some t1"
      "main_loop cfg vf turns (let t1 = sleep_until (meanwhile tn) t1 in if interrupted tn then t1\<lparr>stopMainLoop := True\<rparr> else t1) = Some t'"
      using Cons.prems(1) by (auto simp: Let_def split: Option.bind_splits)
    have "tool_ok (t\<lparr>tool_bridge := b\<rparr>)" by (rule Bridge_process_tool_ok [OF b(1) assms(2) Cons.prems(2)])
    from handleInput_ok [OF this, of cfg "entered tn"] have "tool_ok t1" by (simp add: b(2))
    then show ?thesis using Cons.IH [OF b(3)] tool_ok_sleep [of t1 "meanwhile tn"] by (simp add: Let_def)
  qed (use Cons.prems in simp)
qed simp

lemma main_loop_fails:
  assumes "main_loop cfg vf turns t = None" and "outsiders_keep_lists vf" and "tool_ok t"
  shows "\<exists>b r. owns b r \<and> Bridge_process cfg vf b = None"
  using assms(1,3)
proof (induction turns arbitrary: t)
  case (Cons tn turns)
  show ?case
  proof (cases "Bridge_process cfg vf (tool_bridge t)")
    case None
    then show ?thesis using Cons.prems(2) unfolding tool_ok_def by blast
  next
    case (Some b)
    have "tool_ok (t\<lparr>tool_bridge := b\<rparr>)" by (rule Bridge_process_tool_ok [OF Some assms(2) Cons.prems(2)])
    from handleInput_ok [OF this, of cfg "entered tn"] obtain t1 where t1: "handleInput cfg (entered tn) (t\<lparr>tool_bridge := b\<rparr>) = Some t1"
      "tool_ok t1" by blast
    let ?t = "sleep_until (meanwhile tn) t1"
    have "tool_ok ?t" by (rule tool_ok_sleep [OF t1(2)])
    then show ?thesis using Cons.IH [of "if interrupted tn then ?t\<lparr>stopMainLoop := True\<rparr> else ?t"] Cons.prems(1) Some t1(1)
      by (auto simp: Let_def split: if_splits)
  qed
qed simp

section \<open>Properties\<close>

lemma tool_start_ok:
  assumes "holds w no_registry"
  shows "tool_ok \<lparr>tool_bridge = Bridge_new cfg s w, new_object = 0, stopMainLoop = False, mainLoopFrequency_hz = f\<rparr>"
  using new_bridge_owns [OF assms, of cfg s] by (auto simp: tool_ok_def Bridge_new_def)

lemma bridge_options_ok:
  assumes "holds w no_registry"
  shows "option_ok (each_option (bridge_option cfg rates opens realtime name junk) opts
    \<lparr>tool_bridge = Bridge_new cfg s w, new_object = 0, stopMainLoop = False, mainLoopFrequency_hz = f\<rparr>)"
proof -
  have step: "case bridge_option cfg rates opens realtime name junk t opt of Inl e \<Rightarrow> option_ok (Inl e) | Inr t' \<Rightarrow> tool_ok t'"
    if "tool_ok t" for t opt
    using bridge_option_ok [OF that, of cfg rates opens realtime name junk opt]
    by (cases "bridge_option cfg rates opens realtime name junk t opt") (simp_all add: option_ok_def)
  have "case each_option (bridge_option cfg rates opens realtime name junk) opts
      \<lparr>tool_bridge = Bridge_new cfg s w, new_object = 0, stopMainLoop = False, mainLoopFrequency_hz = f\<rparr> of
    Inl e \<Rightarrow> option_ok (Inl e) | Inr t \<Rightarrow> tool_ok t"
    by (rule each_option_safe [OF tool_start_ok [OF assms] step])
  then show ?thesis by (auto simp: option_ok_def split: sum.splits prod.splits)
qed

text \<open>The bridge is destroyed without complaint.\<close>

definition torn_down :: "'d cpp_bridge \<Rightarrow> 'd cpp_bridge \<Rightarrow> bool" where
  "torn_down b0 b \<longleftrightarrow> unchanged_streams b0 b \<and> externalInterfaces b = [] \<and> bridgeHandler b = [] \<and> cpp_nodes b = [] \<and>
     (\<forall>n. allHandler b n = []) \<and> list_empty (links (c_bridge b)) ExternalInterfaceList \<and>
     list_empty (links (c_bridge b)) BridgeHandlerList"

lemma exit_program_tears_down:
  assumes "tool_ok t"
  shows "\<exists>b. exit_program cfg status t = Quit status b \<and> torn_down (tool_bridge t) b"
proof -
  obtain r where "owns (tool_bridge t) r" using assms unfolding tool_ok_def by blast
  from destructor_effect [OF this, of cfg] show ?thesis unfolding exit_program_def torn_down_def by auto
qed

text \<open>What is promised of the end of the program.\<close>

definition ends_cleanly :: "config \<Rightarrow> 'd virtual_functions \<Rightarrow> ('d, 'f) bridge_end \<Rightarrow> bool" where
  "ends_cleanly cfg vf x \<longleftrightarrow> (case x of
      Quit status b \<Rightarrow> externalInterfaces b = [] \<and> bridgeHandler b = [] \<and> cpp_nodes b = [] \<and> (\<forall>n. allHandler b n = []) \<and>
        list_empty (links (c_bridge b)) ExternalInterfaceList \<and> list_empty (links (c_bridge b)) BridgeHandlerList \<and>
        (status = Success \<and> (\<exists>text. std_cerr (env (c_bridge b)) = text @ ''quitting'' @ endl) \<or> status = Failure)
    | Running t \<Rightarrow> \<exists>r. owns (tool_bridge t) r
    | Ended e \<Rightarrow> e = Uncaught \<or> e = Bad_access \<and> (\<exists>b r. owns b r \<and> Bridge_process cfg vf b = None))"

lemma exit_ends_cleanly:
  assumes "tool_ok t"
  shows "ends_cleanly cfg vf (exit_program cfg Failure t)"
    and "ends_cleanly cfg vf (exit_program cfg Success (tool_prints (''quitting'' @ endl) t))"
  using exit_program_tears_down [OF assms, of cfg Failure]
    exit_program_tears_down [OF tool_ok_prints [OF assms, of "''quitting'' @ endl"], of cfg Success]
  by (auto simp: ends_cleanly_def torn_down_def unchanged_streams_def tool_prints_def put_cerr_def)

lemma main_loop_ends_cleanly:
  assumes "tool_ok t" and "outsiders_keep_lists vf"
  shows "ends_cleanly cfg vf (case main_loop cfg vf turns t of
      None \<Rightarrow> Ended Bad_access
    | Some t \<Rightarrow> if \<not> stopMainLoop t then Running t else exit_program cfg Success (tool_prints (''quitting'' @ endl) t))"
proof (cases "main_loop cfg vf turns t")
  case None
  then show ?thesis using main_loop_fails [OF None assms(2,1)] by (simp add: ends_cleanly_def)
next
  case (Some v)
  have "tool_ok v" by (rule main_loop_ok [OF Some assms(2,1)])
  then show ?thesis using exit_ends_cleanly(2) by (auto simp: Some ends_cleanly_def tool_ok_def)
qed

text \<open>Whatever the devices do, and with any number of device ids, the program fails only when processing does.\<close>

lemma bridge_main_ends_cleanly:
  assumes "holds w no_registry" and "outsiders_keep_lists vf"
  shows "ends_cleanly cfg vf (bridge_main cfg rates vf opens realtime name junk w opts more_args turns)"
proof (cases "each_option (bridge_option cfg rates opens realtime name junk) opts
    \<lparr>tool_bridge = Bridge_new cfg [] w, new_object = 0, stopMainLoop = False, mainLoopFrequency_hz = initial_rate rates\<rparr>")
  case (Inl x)
  obtain e t where x: "x = (e, t)" by (cases x)
  have "tool_ok t \<and> e = Failure \<or> e = Uncaught"
    using bridge_options_ok [OF assms(1), of cfg rates opens realtime name junk opts "[]" "initial_rate rates"] by (simp add: option_ok_def Inl x)
  then show ?thesis using exit_ends_cleanly(1) by (auto simp: bridge_main_def Inl x ends_cleanly_def)
next
  case (Inr t)
  have t: "tool_ok t"
    using bridge_options_ok [OF assms(1), of cfg rates opens realtime name junk opts "[]" "initial_rate rates"] by (simp add: option_ok_def Inr)
  show ?thesis
  proof (cases more_args)
    case True
    then show ?thesis using exit_ends_cleanly(1) [OF tool_ok_prints [OF t]] by (simp add: bridge_main_def Inr)
  next
    case False
    let ?t = "tool_prints (''using update rate of '' @ rate_text rates (mainLoopFrequency_hz t) @ endl @ endl) t"
    let ?u = "?t\<lparr>tool_bridge := (tool_bridge ?t)\<lparr>out := out (tool_bridge ?t) @ Bridge_printStatus cfg (tool_bridge ?t)\<rparr>\<rparr>"
    have "tool_ok ?u" unfolding tool_ok_out by (rule tool_ok_prints [OF t])
    from main_loop_ends_cleanly [OF this assms(2)] False show ?thesis unfolding bridge_main_def Inr Let_def by simp
  qed
qed

definition silent_line :: "unit virtual_functions" where
  "silent_line = \<lparr>writeEscapedBytes = (\<lambda>i bytes d. d), readEscapedBytes = (\<lambda>i count d. ([], d)),
     other_handle = (\<lambda>k header payload origin w. Some w)\<rparr>"

lemma silent_line_keeps_lists: "outsiders_keep_lists silent_line"
  by (simp add: outsiders_keep_lists_def silent_line_def)

text \<open>Without interfaces there is nothing to process.\<close>

lemma process_without_interfaces:
  assumes "owns b r" and "externalInterfaces b = []"
  shows "Bridge_process cfg vf b = Some b"
proof -
  have "dlist (links (c_bridge b)) ExternalInterfaceList []"
    using holds_dlist(1) [OF ownsD(1) [OF assms(1)]] ownsD(2) [OF assms(1)] assms(2) by simp
  then have "lnext (links (c_bridge b)) ExternalInterfaceList = ExternalInterfaceList" by (simp add: dlist_first)
  then show ?thesis
    by (simp add: Bridge_process_def ndlcomBridgeProcess_def process_until_idle.simps [of cfg "cpp_callbacks cfg vf"]
        ndlcomBridgeProcessOnce_def list_for_each_entry_safe.simps [of "links \<circ> snd"])
qed

lemma quit_at_once:
  assumes "tool_ok t" and "externalInterfaces (tool_bridge t) = []" and "\<not> stopMainLoop t"
  shows "main_loop cfg vf [\<lparr>entered = Some ''q'', interrupted = False, meanwhile = id\<rparr>] t = Some (t\<lparr>stopMainLoop := True\<rparr>)"
proof -
  obtain r where "owns (tool_bridge t) r" using assms(1) by (auto simp: tool_ok_def)
  from process_without_interfaces [OF this assms(2)] show ?thesis
    using assms(3) by (simp add: handleInput_def Let_def sleep_until_def upd_env_def)
qed

text \<open>Frequencies as texts.\<close>

definition plain_rates :: "string rates" where
  "plain_rates = \<lparr>initial_rate = ''1000'', read_rate = (\<lambda>old arg. arg), rate_text = (\<lambda>hz. hz @ ''Hz'')\<rparr>"

lemma plain_rates_simps [simp]: "initial_rate plain_rates = ''1000''" "rate_text plain_rates hz = hz @ ''Hz''"
  by (simp_all add: plain_rates_def)

lemma quitting_program:
  "\<exists>b. bridge_main default_config plain_rates silent_line (\<lambda>_. True) None ''ndlcomBridge'' 0 (blank_world default_config no_objects)
      [(CHR ''R'', [])] False [\<lparr>entered = Some ''q'', interrupted = False, meanwhile = id\<rparr>] = Quit Success b"
proof -
  let ?start = "\<lparr>tool_bridge = Bridge_new default_config [] (blank_world default_config no_objects), new_object = 0, stopMainLoop = False, mainLoopFrequency_hz = ''1000''\<rparr>"
  let ?t = "tool_prints (''using update rate of '' @ ''1000Hz'' @ endl @ endl) (tool_prints (''enabling SCHED_FIFO with priority 99'' @ endl) ?start)"
  let ?u = "?t\<lparr>tool_bridge := (tool_bridge ?t)\<lparr>out := out (tool_bridge ?t) @ Bridge_printStatus default_config (tool_bridge ?t)\<rparr>\<rparr>"
  let ?main = "bridge_main default_config plain_rates silent_line (\<lambda>_. True) None ''ndlcomBridge'' 0 (blank_world default_config no_objects)
      [(CHR ''R'', [])] False [\<lparr>entered = Some ''q'', interrupted = False, meanwhile = id\<rparr>]"
  have u: "tool_ok ?u"
    unfolding tool_ok_out by (intro tool_ok_prints tool_start_ok blank_world_holds)
  have loop: "main_loop default_config silent_line [\<lparr>entered = Some ''q'', interrupted = False, meanwhile = id\<rparr>] ?u = Some (?u\<lparr>stopMainLoop := True\<rparr>)"
    by (rule quit_at_once [OF u]) (simp_all add: tool_prints_def Bridge_new_def)
  have opts: "each_option (bridge_option default_config plain_rates (\<lambda>_. True) None ''ndlcomBridge'' 0) [(CHR ''R'', [])] ?start =
      Inr (tool_prints (''enabling SCHED_FIFO with priority 99'' @ endl) ?start)"
    by (simp add: bridge_option_def Let_def)
  let ?v = "tool_prints (''quitting'' @ endl) (?u\<lparr>stopMainLoop := True\<rparr>)"
  have "tool_ok ?v" using u by (intro tool_ok_prints) simp
  from exit_program_tears_down [OF this] obtain b where b: "exit_program default_config Success ?v = Quit Success b" by blast
  have "?main = exit_program default_config Success ?v"
    unfolding bridge_main_def plain_rates_simps opts sum.case Let_def by (simp add: loop [simplified])
  then show ?thesis using b by simp
qed

text \<open>
  A wrong uri ends the program with an exception. The message for invalid uris is never
  printed: when no class of interfaces takes the text of an option, \<open>createInterface\<close> throws and nobody
  catches it; and when it returns, its pointer is not expired.
\<close>

lemma invalid_uri_is_uncaught:
  assumes "createInterfaceByMatch all_interface_classes optarg = None" and "c = CHR ''u'' \<or> c = CHR ''m''"
  shows "bridge_main cfg rates vf opens realtime name junk w ((c, optarg) # opts) more_args turns = Ended Uncaught"
  using assms by (auto simp: bridge_main_def bridge_option_def interface_option_def createInterface_def)

lemma invalid_uri_is_uncaught_witness:
  "bridge_main default_config plain_rates silent_line (\<lambda>_. True) None ''ndlcomBridge'' 0 (blank_world default_config no_objects)
      [(CHR ''u'', ''oops'')] False [] = Ended Uncaught"
proof -
  have "createInterfaceByMatch all_interface_classes ''oops'' = None"
    by (simp add: all_interface_classes_def regex_match_def uri_defs strip_prefix_def)
  then show ?thesis by (rule invalid_uri_is_uncaught) simp
qed

end
