(* ===== verification/Hash_List.thy ===== *)
theory Hash_List
  imports Ndl_Prelude
begin

text \<open>
  The hash lists of \<open>include/ndlcom/list.h\<close>: lists with a single pointer as their head, whose entries hold
  the next entry and the address of the pointer that points at them. A pointer variable of the store is
  a \<open>slot\<close>: the \<open>first\<close> of a head or the \<open>next\<close> of an entry. \<open>NULL\<close> is \<open>None\<close>, and an operation that
  dereferences it has no result.
\<close>

section \<open>The code\<close>

datatype ('h, 'n) slot = First 'h | Next 'n

record ('h, 'n) hlinks =
  hfirst :: "'h \<Rightarrow> 'n option"
  hnext :: "'n \<Rightarrow> 'n option"
  hpprev :: "'n \<Rightarrow> ('h, 'n) slot option"

fun deref :: "('h, 'n) slot \<Rightarrow> ('h, 'n) hlinks \<Rightarrow> 'n option" where
  "deref (First h) s = hfirst s h"
| "deref (Next x) s = hnext s x"

fun assign :: "('h, 'n) slot \<Rightarrow> 'n option \<Rightarrow> ('h, 'n) hlinks \<Rightarrow> ('h, 'n) hlinks" where
  "assign (First h) v s = s\<lparr>hfirst := (hfirst s)(h := v)\<rparr>"
| "assign (Next x) v s = s\<lparr>hnext := (hnext s)(x := v)\<rparr>"

definition set_pprev :: "'n \<Rightarrow> ('h, 'n) slot option \<Rightarrow> ('h, 'n) hlinks \<Rightarrow> ('h, 'n) hlinks" where
  "set_pprev x v s = s\<lparr>hpprev := (hpprev s)(x := v)\<rparr>"

definition INIT_HLIST_HEAD :: "'h \<Rightarrow> ('h, 'n) hlinks \<Rightarrow> ('h, 'n) hlinks" where
  "INIT_HLIST_HEAD h s = assign (First h) None s"

definition INIT_HLIST_NODE :: "'n \<Rightarrow> ('h, 'n) hlinks \<Rightarrow> ('h, 'n) hlinks" where
  "INIT_HLIST_NODE n s = set_pprev n None (assign (Next n) None s)"

definition hlist_unhashed :: "'n \<Rightarrow> ('h, 'n) hlinks \<Rightarrow> bool" where
  "hlist_unhashed n s \<longleftrightarrow> hpprev s n = None"

definition hlist_empty :: "'h \<Rightarrow> ('h, 'n) hlinks \<Rightarrow> bool" where
  "hlist_empty h s \<longleftrightarrow> hfirst s h = None"

definition hlist_del_raw :: "'n \<Rightarrow> ('h, 'n) hlinks \<Rightarrow> ('h, 'n) hlinks option" where
  "hlist_del_raw n s =
     (let nx = hnext s n in
      case hpprev s n of
        None \<Rightarrow> None
      | Some pprev \<Rightarrow>
          let s = assign pprev nx s in
          Some (case nx of None \<Rightarrow> s | Some x \<Rightarrow> set_pprev x (Some pprev) s))"

text \<open>The two poison addresses are arguments: they are not objects of the program.\<close>

definition hlist_del ::
  "'n \<Rightarrow> ('h, 'n) slot \<Rightarrow> 'n \<Rightarrow> ('h, 'n) hlinks \<Rightarrow> ('h, 'n) hlinks option" where
  "hlist_del LIST_POISON1 LIST_POISON2 n s =
     do { s \<leftarrow> hlist_del_raw n s;
          Some (set_pprev n (Some LIST_POISON2) (assign (Next n) (Some LIST_POISON1) s)) }"

definition hlist_del_init :: "'n \<Rightarrow> ('h, 'n) hlinks \<Rightarrow> ('h, 'n) hlinks option" where
  "hlist_del_init n s =
     (if \<not> hlist_unhashed n s then do { s \<leftarrow> hlist_del_raw n s; Some (INIT_HLIST_NODE n s) } else Some s)"

definition hlist_add_head :: "'n \<Rightarrow> 'h \<Rightarrow> ('h, 'n) hlinks \<Rightarrow> ('h, 'n) hlinks" where
  "hlist_add_head n h s =
     (let first = hfirst s h;
          s = assign (Next n) first s;
          s = (case first of None \<Rightarrow> s | Some x \<Rightarrow> set_pprev x (Some (Next n)) s);
          s = assign (First h) (Some n) s
      in set_pprev n (Some (First h)) s)"

definition hlist_add_before :: "'n \<Rightarrow> 'n \<Rightarrow> ('h, 'n) hlinks \<Rightarrow> ('h, 'n) hlinks option" where
  "hlist_add_before n nx s =
     (let s = set_pprev n (hpprev s nx) s;
          s = assign (Next n) (Some nx) s;
          s = set_pprev nx (Some (Next n)) s
      in map_option (\<lambda>pprev. assign pprev (Some n) s) (hpprev s n))"

definition hlist_add_behind :: "'n \<Rightarrow> 'n \<Rightarrow> ('h, 'n) hlinks \<Rightarrow> ('h, 'n) hlinks" where
  "hlist_add_behind n prv s =
     (let s = assign (Next n) (hnext s prv) s;
          s = assign (Next prv) (Some n) s;
          s = set_pprev n (Some (Next prv)) s
      in case hnext s n of None \<Rightarrow> s | Some x \<Rightarrow> set_pprev x (Some (Next n)) s)"

definition hlist_add_fake :: "'n \<Rightarrow> ('h, 'n) hlinks \<Rightarrow> ('h, 'n) hlinks" where
  "hlist_add_fake n s = set_pprev n (Some (Next n)) s"

definition hlist_move_list :: "'h \<Rightarrow> 'h \<Rightarrow> ('h, 'n) hlinks \<Rightarrow> ('h, 'n) hlinks" where
  "hlist_move_list old inew s =
     (let s = assign (First inew) (hfirst s old) s;
          s = (case hfirst s inew of None \<Rightarrow> s | Some x \<Rightarrow> set_pprev x (Some (First inew)) s)
      in assign (First old) None s)"

text \<open>
  The loops, with the address of an entry and that of its links taken as one. All of them walk from a
  cursor to the null pointer and differ in where they start; the safe ones read the next pointer before
  the body.
\<close>

partial_function (option) hlist_walk ::
  "('s \<Rightarrow> ('h, 'n) hlinks) \<Rightarrow> ('n \<Rightarrow> 's \<Rightarrow> 's option) \<Rightarrow> 'n option \<Rightarrow> 's \<Rightarrow> 's option" where
  "hlist_walk links body pos s =
     (case pos of
        None \<Rightarrow> Some s
      | Some x \<Rightarrow> do { s \<leftarrow> body x s; hlist_walk links body (hnext (links s) x) s })"

partial_function (option) hlist_walk_safe ::
  "('s \<Rightarrow> ('h, 'n) hlinks) \<Rightarrow> ('n \<Rightarrow> 's \<Rightarrow> 's option) \<Rightarrow> 'n option \<Rightarrow> 's \<Rightarrow> 's option" where
  "hlist_walk_safe links body pos s =
     (case pos of
        None \<Rightarrow> Some s
      | Some x \<Rightarrow>
          let n = hnext (links s) x
          in do { s \<leftarrow> body x s; hlist_walk_safe links body n s })"

text \<open>The entry around a pointer to links, if there is one.\<close>

definition hlist_entry_safe :: "'n option \<Rightarrow> 'n option" where
  "hlist_entry_safe ptr = (case ptr of None \<Rightarrow> None | Some x \<Rightarrow> Some x)"

definition hlist_for_each ::
  "('s \<Rightarrow> ('h, 'n) hlinks) \<Rightarrow> 'h \<Rightarrow> ('n \<Rightarrow> 's \<Rightarrow> 's option) \<Rightarrow> 's \<Rightarrow> 's option" where
  "hlist_for_each links head body s = hlist_walk links body (hfirst (links s) head) s"

definition hlist_for_each_safe ::
  "('s \<Rightarrow> ('h, 'n) hlinks) \<Rightarrow> 'h \<Rightarrow> ('n \<Rightarrow> 's \<Rightarrow> 's option) \<Rightarrow> 's \<Rightarrow> 's option" where
  "hlist_for_each_safe links head body s = hlist_walk_safe links body (hfirst (links s) head) s"

definition hlist_for_each_entry ::
  "('s \<Rightarrow> ('h, 'n) hlinks) \<Rightarrow> 'h \<Rightarrow> ('n \<Rightarrow> 's \<Rightarrow> 's option) \<Rightarrow> 's \<Rightarrow> 's option" where
  "hlist_for_each_entry links head body s = hlist_walk links body (hlist_entry_safe (hfirst (links s) head)) s"

definition hlist_for_each_entry_continue ::
  "('s \<Rightarrow> ('h, 'n) hlinks) \<Rightarrow> ('n \<Rightarrow> 's \<Rightarrow> 's option) \<Rightarrow> 'n \<Rightarrow> 's \<Rightarrow> 's option" where
  "hlist_for_each_entry_continue links body pos s = hlist_walk links body (hlist_entry_safe (hnext (links s) pos)) s"

definition hlist_for_each_entry_from ::
  "('s \<Rightarrow> ('h, 'n) hlinks) \<Rightarrow> ('n \<Rightarrow> 's \<Rightarrow> 's option) \<Rightarrow> 'n option \<Rightarrow> 's \<Rightarrow> 's option" where
  "hlist_for_each_entry_from links body pos s = hlist_walk links body pos s"

definition hlist_for_each_entry_safe ::
  "('s \<Rightarrow> ('h, 'n) hlinks) \<Rightarrow> 'h \<Rightarrow> ('n \<Rightarrow> 's \<Rightarrow> 's option) \<Rightarrow> 's \<Rightarrow> 's option" where
  "hlist_for_each_entry_safe links head body s = hlist_walk_safe links body (hlist_entry_safe (hfirst (links s) head)) s"

lemma hlist_entry_safe_id [simp]: "hlist_entry_safe ptr = ptr"
  by (simp add: hlist_entry_safe_def split: option.split)

lemma hlist_entry_loops:
  "hlist_for_each_entry links head body s = hlist_for_each links head body s"
  "hlist_for_each_entry_safe links head body s = hlist_for_each_safe links head body s"
  by (simp_all add: hlist_for_each_entry_def hlist_for_each_entry_safe_def hlist_for_each_def hlist_for_each_safe_def)

section \<open>Reading after a write\<close>

lemma deref_assign [simp]: "deref p (assign q v s) = (if p = q then v else deref p s)"
  by (cases p; cases q) auto

lemma hpprev_assign [simp]: "hpprev (assign q v s) = hpprev s"
  by (cases q) auto

lemma deref_set_pprev [simp]: "deref p (set_pprev x v s) = deref p s"
  by (cases p) (auto simp: set_pprev_def)

lemma hpprev_set_pprev [simp]: "hpprev (set_pprev x v s) = (hpprev s)(x := v)"
  by (simp add: set_pprev_def)

lemma hnext_deref: "hnext s x = deref (Next x) s"
  by simp

lemma hfirst_deref: "hfirst s h = deref (First h) s"
  by simp

lemmas slots = hnext_deref hfirst_deref

declare deref.simps [simp del] assign.simps [simp del]

section \<open>Paths\<close>

text \<open>\<open>hpath s p xs r\<close>: from the slot \<open>p\<close> the entries \<open>xs\<close> follow each other, and the last slot holds \<open>r\<close>.\<close>

fun hpath :: "('h, 'n) hlinks \<Rightarrow> ('h, 'n) slot \<Rightarrow> 'n list \<Rightarrow> 'n option \<Rightarrow> bool" where
  "hpath s p [] r \<longleftrightarrow> deref p s = r"
| "hpath s p (x # xs) r \<longleftrightarrow> deref p s = Some x \<and> hpprev s x = Some p \<and> hpath s (Next x) xs r"

fun end_slot :: "('h, 'n) slot \<Rightarrow> 'n list \<Rightarrow> ('h, 'n) slot" where
  "end_slot p [] = p"
| "end_slot p (x # xs) = end_slot (Next x) xs"

lemma end_slot_append [simp]: "end_slot p (xs @ ys) = end_slot (end_slot p xs) ys"
  by (induction xs arbitrary: p) simp_all

lemma end_slot_in: "end_slot p xs \<in> insert p (Next ` set xs)"
  by (induction xs arbitrary: p) (simp, force)

lemma hpath_append: "hpath s p (xs @ ys) r \<longleftrightarrow>
    hpath s p xs (deref (end_slot p xs) s) \<and> hpath s (end_slot p xs) ys r"
  by (induction xs arbitrary: p) auto

lemma hpath_end: "hpath s p xs r \<Longrightarrow> deref (end_slot p xs) s = r"
  by (induction xs arbitrary: p) auto

lemma hpath_snoc: "hpath s p (xs @ [x]) r \<longleftrightarrow>
    hpath s p xs (Some x) \<and> hpprev s x = Some (end_slot p xs) \<and> deref (Next x) s = r"
  by (simp add: hpath_append) (metis hpath_end)

lemma hpath_cong:
  "(\<And>q. q \<in> insert p (Next ` set xs) \<Longrightarrow> deref q s' = deref q s) \<Longrightarrow>
   (\<And>x. x \<in> set xs \<Longrightarrow> hpprev s' x = hpprev s x) \<Longrightarrow> hpath s' p xs r = hpath s p xs r"
  by (induction xs arbitrary: p) simp_all

text \<open>A path does not come back: the rest of a list is determined by where it starts.\<close>

lemma hpath_unique: "hpath s p xs None \<Longrightarrow> hpath s p ys None \<Longrightarrow> xs = ys"
proof (induction xs arbitrary: p ys)
  case Nil
  then show ?case by (cases ys) auto
next
  case (Cons x xs)
  then show ?case by (cases ys) auto
qed

lemma hpath_distinct:
  assumes "hpath s p xs None"
  shows "distinct xs"
proof (rule ccontr)
  assume "\<not> distinct xs"
  then obtain us x vs ws where xs: "xs = us @ x # vs @ x # ws"
    using not_distinct_decomp [of xs] by auto
  have "hpath s (Next x) (vs @ x # ws) None" and "hpath s (Next x) ws None"
    using assms hpath_append [of s "Next x" vs "x # ws" None] unfolding xs by (auto simp: hpath_append)
  then have "vs @ x # ws = ws" by (rule hpath_unique)
  then have "length (vs @ x # ws) = length ws" by (rule arg_cong)
  then show False by simp
qed

lemma hpath_start: "hpath s p xs None \<Longrightarrow> p \<notin> Next ` set xs"
proof
  assume p: "hpath s p xs None" and "p \<in> Next ` set xs"
  then obtain us z vs where z: "p = Next z" "xs = us @ z # vs" by (auto dest!: split_list)
  then have "hpath s p vs None" using p by (simp add: hpath_append)
  from hpath_unique [OF p this] z(2) have "length (us @ z # vs) = length vs" by metis
  then show False by simp
qed

text \<open>The pointer to an entry tells its list: two lists that share an entry have the same head.\<close>

lemma hpath_share:
  assumes "hpath s (First h) xs r" and "hpath s (First k) ys r'" and "x \<in> set xs" and "x \<in> set ys"
  shows "h = k"
proof -
  have "h = k" if "hpath s (First h) (us @ [x]) a" "hpath s (First k) (vs @ [x]) b" for us vs a b x
    using that
  proof (induction us arbitrary: vs x a b rule: rev_induct)
    case Nil
    then show ?case by (cases vs rule: rev_cases) (auto simp: hpath_append)
  next
    case (snoc y us)
    show ?case
    proof (cases vs rule: rev_cases)
      case Nil
      then show ?thesis using snoc.prems by (auto simp: hpath_append)
    next
      case (snoc ws z)
      have "z = y" using snoc snoc.prems by (auto simp: hpath_append)
      then show ?thesis
        using snoc.IH [of y "Some x" ws "Some x"] snoc.prems snoc by (auto simp: hpath_append)
    qed
  qed
  moreover obtain us us' vs vs' where "xs = (us @ [x]) @ us'" "ys = (vs @ [x]) @ vs'"
    using assms(3,4) by (auto dest!: split_list)
  ultimately show ?thesis using assms(1,2) by (metis hpath_append)
qed

section \<open>Linking and unlinking at a slot\<close>

definition hlink_at :: "('h, 'n) slot \<Rightarrow> 'n \<Rightarrow> ('h, 'n) hlinks \<Rightarrow> ('h, 'n) hlinks" where
  "hlink_at p n s =
     (let r = deref p s;
          s = assign (Next n) r s;
          s = (case r of None \<Rightarrow> s | Some x \<Rightarrow> set_pprev x (Some (Next n)) s)
      in set_pprev n (Some p) (assign p (Some n) s))"

lemma hlink_at_deref: "p \<noteq> Next n \<Longrightarrow>
    deref q (hlink_at p n s) = (if q = p then Some n else if q = Next n then deref p s else deref q s)"
  by (simp add: hlink_at_def Let_def split: option.split)

lemma hlink_at_pprev: "hpprev (hlink_at p n s) x =
    (if x = n then Some p else if deref p s = Some x then Some (Next n) else hpprev s x)"
  by (simp add: hlink_at_def Let_def split: option.split)

lemma hpath_link:
  assumes "hpath s p (xs @ ys) None" and "n \<notin> set (xs @ ys)" and "p \<notin> Next ` set (n # xs @ ys)"
    and q: "q = end_slot p xs"
  shows "hpath (hlink_at q n s) p (xs @ n # ys) None"
proof -
  let ?s = "hlink_at q n s"
  have dist: "distinct (xs @ ys)" using assms(1) by (rule hpath_distinct)
  have qin: "q \<in> insert p (Next ` set xs)" unfolding q by (rule end_slot_in)
  then have qn: "q \<noteq> Next n" "q \<notin> Next ` set ys" using assms(2,3) dist by auto
  have c: "hpath s p xs (deref q s)" "hpath s q ys None" using assms(1) by (simp_all add: hpath_append q)
  have ys: "hpath ?s (Next n) ys None"
  proof (cases ys)
    case Nil
    then show ?thesis using c(2) qn by (simp add: hlink_at_deref)
  next
    case (Cons y zs)
    have "hpath ?s (Next y) zs None = hpath s (Next y) zs None"
      using dist assms(2) qn c(2) Cons by (intro hpath_cong) (auto simp: hlink_at_deref hlink_at_pprev)
    then show ?thesis
      using c(2) qn Cons assms(2) by (auto simp: hlink_at_deref hlink_at_pprev)
  qed
  have "hpath ?s p xs (Some n)"
  proof (cases xs rule: rev_cases)
    case Nil
    then show ?thesis using qn q by (simp add: hlink_at_deref)
  next
    case (snoc us x)
    have x: "q = Next x" using q snoc by simp
    have "deref q s = None \<or> (\<exists>y \<in> set ys. deref q s = Some y)"
      using c(2) by (cases ys) auto
    then have "hpprev ?s z = hpprev s z" if "z \<in> set xs" for z
      using that assms(2) dist by (auto simp: hlink_at_pprev)
    moreover have "deref r ?s = deref r s" if "r \<in> insert p (Next ` set us)" for r
      using that qn x dist snoc assms(2,3) by (auto simp: hlink_at_deref)
    ultimately have "hpath ?s p us (Some x) = hpath s p us (Some x)"
      using snoc by (intro hpath_cong) auto
    moreover have "hpprev ?s x = hpprev s x"
      using \<open>\<And>z. z \<in> set xs \<Longrightarrow> hpprev ?s z = hpprev s z\<close> snoc by simp
    ultimately show ?thesis using c(1) snoc qn(1) x by (simp add: hpath_snoc hlink_at_deref)
  qed
  moreover have "deref q ?s = Some n" "hpprev ?s n = Some q" using qn by (simp_all add: hlink_at_deref hlink_at_pprev)
  ultimately show ?thesis using ys q by (simp add: hpath_append)
qed


lemma hlist_add_head_link: "hlist_add_head n h s = hlink_at (First h) n s"
  by (simp add: hlist_add_head_def hlink_at_def slots)

text \<open>Behind and before another entry, up to the order of the writes.\<close>

definition same_links :: "('h, 'n) hlinks \<Rightarrow> ('h, 'n) hlinks \<Rightarrow> bool" where
  "same_links s t \<longleftrightarrow> (\<forall>p. deref p s = deref p t) \<and> hpprev s = hpprev t"

lemma same_links_eq: "same_links s t \<Longrightarrow> s = t"
  unfolding same_links_def
  by (rule hlinks.equality) (auto simp: fun_eq_iff slots simp flip: deref.simps)

lemma hlist_add_behind_link: "n \<noteq> m \<Longrightarrow> deref (Next m) s \<noteq> Some n \<Longrightarrow>
    hlist_add_behind n m s = hlink_at (Next m) n s"
  by (rule same_links_eq)
    (auto simp: same_links_def fun_eq_iff hlist_add_behind_def hlink_at_def slots Let_def split: option.split)

lemma hlist_add_before_link:
  "n \<noteq> m \<Longrightarrow> hpprev s m = Some p \<Longrightarrow> p \<noteq> Next n \<Longrightarrow> deref p s = Some m \<Longrightarrow> hlist_add_before n m s = Some (hlink_at p n s)"
  by (auto simp: hlist_add_before_def hlink_at_def Let_def same_links_def fun_eq_iff intro!: same_links_eq)

text \<open>Unlinking an entry.\<close>

lemma hlist_del_raw_reads:
  assumes "hpprev s n = Some q" and "hlist_del_raw n s = Some s'"
  shows "deref r s' = (if r = q then deref (Next n) s else deref r s)"
    and "hpprev s' x = (if deref (Next n) s = Some x then Some q else hpprev s x)"
  using assms by (auto simp: hlist_del_raw_def slots Let_def split: option.splits)

lemma hpath_unlink:
  assumes "hpath s p (xs @ n # ys) None"
  shows "\<exists>s'. hlist_del_raw n s = Some s' \<and> hpath s' p (xs @ ys) None"
proof -
  note start = hpath_start [OF assms]
  let ?q = "end_slot p xs"
  have dist: "distinct (xs @ n # ys)" using assms by (rule hpath_distinct)
  have c: "hpath s p xs (Some n)" "hpprev s n = Some ?q" "hpath s (Next n) ys None"
    using assms hpath_end by (auto simp: hpath_append)
  then obtain s' where s': "hlist_del_raw n s = Some s'" by (simp add: hlist_del_raw_def Let_def)
  note reads = hlist_del_raw_reads [OF c(2) s']
  have qin: "?q \<in> insert p (Next ` set xs)" by (rule end_slot_in)
  have ys: "hpath s' ?q ys None"
  proof (cases ys)
    case Nil
    then show ?thesis using c(3) by (simp add: reads)
  next
    case (Cons y zs)
    have "hpath s' (Next y) zs None = hpath s (Next y) zs None"
      using dist c(3) Cons qin start by (intro hpath_cong) (auto simp: reads)
    then show ?thesis using c(3) Cons by (auto simp: reads)
  qed
  have "hpath s' p xs (deref ?q s')"
  proof (cases xs rule: rev_cases)
    case (snoc us x)
    have pp: "hpprev s' z = hpprev s z" if "z \<in> set xs" for z
      using that dist c(3) by (cases ys) (auto simp: reads)
    have "hpath s' p us (Some x) = hpath s p us (Some x)"
      using snoc dist start pp by (intro hpath_cong) (auto simp: reads)
    then show ?thesis using c(1) pp snoc by (simp add: hpath_snoc)
  qed simp
  with ys s' show ?thesis by (auto simp: hpath_append)
qed

section \<open>Lists from a head\<close>

definition hlist :: "('h, 'n) hlinks \<Rightarrow> 'h \<Rightarrow> 'n list \<Rightarrow> bool" where
  "hlist s h xs \<longleftrightarrow> hpath s (First h) xs None"

lemma hlist_frame:
  assumes "hlist s k ys" and "\<And>q. q = First k \<or> q \<in> Next ` set ys \<Longrightarrow> deref q s' = deref q s"
    and "\<And>y. y \<in> set ys \<Longrightarrow> hpprev s' y = hpprev s y"
  shows "hlist s' k ys"
  using assms(1) hpath_cong [of "First k" ys s' s None] assms(2,3) by (simp add: hlist_def)

lemma hlist_empty_iff: "hlist s h xs \<Longrightarrow> hlist_empty h s \<longleftrightarrow> xs = []"
  by (cases xs) (auto simp: hlist_def hlist_empty_def slots)

lemma hlist_in_pprev: "hlist s h xs \<Longrightarrow> x \<in> set xs \<Longrightarrow> hpprev s x \<noteq> None"
  by (auto simp: hlist_def hpath_append dest!: split_list)


section \<open>The contract\<close>

text \<open>
  What the operations promise: a list of entries for each head. \<open>hlist_spec\<close> has no result where the
  program must not call the operation.
\<close>

datatype ('h, 'n) hlist_op =
    Add_Head 'n 'h | Add_Before 'n 'n | Add_Behind 'n 'n | Del_Init 'n | Move_List 'h 'h

definition hlinked :: "('h \<Rightarrow> 'n list) \<Rightarrow> 'n \<Rightarrow> bool" where
  "hlinked f x \<longleftrightarrow> (\<exists>h. x \<in> set (f h))"

fun insert_before :: "'n \<Rightarrow> 'n \<Rightarrow> 'n list \<Rightarrow> 'n list" where
  "insert_before n m [] = []"
| "insert_before n m (x # xs) = (if x = m then n # x # xs else x # insert_before n m xs)"

fun insert_behind :: "'n \<Rightarrow> 'n \<Rightarrow> 'n list \<Rightarrow> 'n list" where
  "insert_behind n m [] = []"
| "insert_behind n m (x # xs) = (if x = m then x # n # xs else x # insert_behind n m xs)"

fun hlist_spec :: "('h, 'n) hlist_op \<Rightarrow> ('h \<Rightarrow> 'n list) \<Rightarrow> ('h \<Rightarrow> 'n list) option" where
  "hlist_spec (Add_Head n h) f = (if hlinked f n then None else Some (f(h := n # f h)))"
| "hlist_spec (Add_Before n m) f =
     (if hlinked f n \<or> \<not> hlinked f m then None else Some (\<lambda>h. insert_before n m (f h)))"
| "hlist_spec (Add_Behind n m) f =
     (if hlinked f n \<or> \<not> hlinked f m then None else Some (\<lambda>h. insert_behind n m (f h)))"
| "hlist_spec (Del_Init n) f = Some (\<lambda>h. remove1 n (f h))"
| "hlist_spec (Move_List h k) f = (if h = k \<or> f k \<noteq> [] then None else Some (f(k := f h, h := [])))"

fun hlist_step :: "('h, 'n) hlist_op \<Rightarrow> ('h, 'n) hlinks \<Rightarrow> ('h, 'n) hlinks option" where
  "hlist_step (Add_Head n h) s = Some (hlist_add_head n h s)"
| "hlist_step (Add_Before n m) s = hlist_add_before n m s"
| "hlist_step (Add_Behind n m) s = Some (hlist_add_behind n m s)"
| "hlist_step (Del_Init n) s = hlist_del_init n s"
| "hlist_step (Move_List h k) s = Some (hlist_move_list h k s)"

fun hlist_specs :: "('h, 'n) hlist_op list \<Rightarrow> ('h \<Rightarrow> 'n list) \<Rightarrow> ('h \<Rightarrow> 'n list) option" where
  "hlist_specs [] f = Some f"
| "hlist_specs (c # cs) f = do { f \<leftarrow> hlist_spec c f; hlist_specs cs f }"

fun hlist_steps :: "('h, 'n) hlist_op list \<Rightarrow> ('h, 'n) hlinks \<Rightarrow> ('h, 'n) hlinks option" where
  "hlist_steps [] s = Some s"
| "hlist_steps (c # cs) s = do { s \<leftarrow> hlist_step c s; hlist_steps cs s }"

definition hshape :: "('h, 'n) hlinks \<Rightarrow> ('h \<Rightarrow> 'n list) \<Rightarrow> bool" where
  "hshape s f \<longleftrightarrow> (\<forall>h. hlist s h (f h)) \<and> (\<forall>x. \<not> hlinked f x \<longrightarrow> hpprev s x = None)"

lemma hshape_hlist: "hshape s f \<Longrightarrow> hlist s h (f h)"
  by (simp add: hshape_def)

lemma hshape_share: "hshape s f \<Longrightarrow> x \<in> set (f h) \<Longrightarrow> x \<in> set (f k) \<Longrightarrow> h = k"
  using hpath_share hshape_hlist unfolding hlist_def by metis

lemma hshape_unhashed: "hshape s f \<Longrightarrow> hlist_unhashed x s \<longleftrightarrow> \<not> hlinked f x"
  using hlist_in_pprev unfolding hshape_def hlist_unhashed_def hlinked_def by metis

lemma hshape_distinct: "hshape s f \<Longrightarrow> distinct (f h)"
  using hshape_hlist hpath_distinct unfolding hlist_def by metis

lemma hlinked_upd: "(\<And>k. k \<noteq> h \<Longrightarrow> g k = f k) \<Longrightarrow>
    hlinked g x \<longleftrightarrow> x \<in> set (g h) \<or> (\<exists>k. k \<noteq> h \<and> x \<in> set (f k))"
  unfolding hlinked_def by metis

lemma not_hlinked_upd:
  assumes "\<not> hlinked (f(h := zs)) x"
  shows "x \<notin> set zs" and "x \<notin> set (f h) \<Longrightarrow> \<not> hlinked f x"
  using assms unfolding hlinked_def by (metis fun_upd_same, metis fun_upd_other)

text \<open>Only the list that an operation works on changes.\<close>

lemma insert_other: "m \<notin> set xs \<Longrightarrow> insert_before n m xs = xs \<and> insert_behind n m xs = xs"
  by (induction xs) auto

lemma insert_split: "m \<notin> set xs \<Longrightarrow>
    insert_before n m (xs @ m # ys) = xs @ n # m # ys \<and> insert_behind n m (xs @ m # ys) = xs @ m # n # ys"
  by (induction xs) auto

text \<open>Linking an entry at the slot behind a prefix of a list of the shape.\<close>

lemma hshape_link:
  assumes "hshape s f" and "\<not> hlinked f n" and "f h = xs @ ys" and q: "q = end_slot (First h) xs"
  shows "hshape (hlink_at q n s) (f(h := xs @ n # ys))"
proof -
  have h: "hpath s (First h) (xs @ ys) None" using hshape_hlist [OF assms(1), of h] assms(3) by (simp add: hlist_def)
  have qin: "q \<in> insert (First h) (Next ` set xs)" unfolding q by (rule end_slot_in)
  have n: "n \<notin> set (f k)" for k using assms(2) by (simp add: hlinked_def)
  have y: "deref q s = None \<or> (\<exists>y \<in> set ys. deref q s = Some y)"
    using h hpath_end [of s "First h" xs None] unfolding q by (cases ys) (simp_all add: hpath_append)
  have "hlist (hlink_at q n s) h (xs @ n # ys)"
    unfolding hlist_def using h n [of h] assms(3) by (intro hpath_link [OF _ _ _ q]) auto
  moreover have "hlist (hlink_at q n s) k (f k)" if "k \<noteq> h" for k
  proof (rule hlist_frame [OF hshape_hlist [OF assms(1)]])
    have other: "x \<notin> set (f h)" if "x \<in> set (f k)" for x
      using hshape_share [OF assms(1) that, of h] \<open>k \<noteq> h\<close> by auto
    have qn: "q \<noteq> Next n" using qin n [of h] assms(3) by auto
    show "deref r (hlink_at q n s) = deref r s" if "r = First k \<or> r \<in> Next ` set (f k)" for r
      using that qin qn other \<open>k \<noteq> h\<close> n [of k] assms(3) by (auto simp: hlink_at_deref)
    show "hpprev (hlink_at q n s) x = hpprev s x" if "x \<in> set (f k)" for x
      using other [OF that] that n [of k] y assms(3) by (auto simp: hlink_at_pprev)
  qed
  moreover have "hpprev (hlink_at q n s) x = None" if "\<not> hlinked (f(h := xs @ n # ys)) x" for x
  proof -
    have "\<not> hlinked f x" "x \<noteq> n" "x \<notin> set ys"
      using not_hlinked_upd [OF that] assms(3) by auto
    then show ?thesis using assms(1) y by (auto simp: hlink_at_pprev hshape_def)
  qed
  ultimately show ?thesis by (auto simp: hshape_def)
qed

lemma hshape_unlink:
  assumes "hshape s f" and "f h = xs @ n # ys"
  shows "\<exists>s'. hlist_del_init n s = Some s' \<and> hshape s' (f(h := xs @ ys))"
proof -
  define q where "q = end_slot (First h) xs"
  have h: "hpath s (First h) (xs @ n # ys) None" using hshape_hlist [OF assms(1), of h] assms(2) by (simp add: hlist_def)
  obtain t where t: "hlist_del_raw n s = Some t" "hpath t (First h) (xs @ ys) None"
    using hpath_unlink [OF h] by auto
  define u where "u = INIT_HLIST_NODE n t"
  have dist: "distinct (xs @ n # ys)" using h by (rule hpath_distinct)
  have pp: "hpprev s n = Some q" and nx: "hpath s (Next n) ys None"
    using h by (auto simp: hpath_append q_def)
  have qin: "q \<in> insert (First h) (Next ` set xs)" unfolding q_def by (rule end_slot_in)
  have y: "x \<in> set ys" if "deref (Next n) s = Some x" for x using nx that by (cases ys) auto
  have d: "deref r u = (if r = Next n then None else if r = q then deref (Next n) s else deref r s)" for r
    by (simp add: u_def INIT_HLIST_NODE_def hlist_del_raw_reads [OF pp t(1)])
  have p: "hpprev u x = (if x = n then None else if deref (Next n) s = Some x then Some q else hpprev s x)" for x
    by (simp add: u_def INIT_HLIST_NODE_def hlist_del_raw_reads [OF pp t(1)])
  have "hlist u h (xs @ ys)"
    by (rule hlist_frame [of t]) (use t(2) dist in \<open>auto simp: hlist_def u_def INIT_HLIST_NODE_def\<close>)
  moreover have "hlist u k (f k)" if "k \<noteq> h" for k
  proof (rule hlist_frame [OF hshape_hlist [OF assms(1)]])
    have other: "x \<noteq> n \<and> x \<notin> set xs \<and> x \<notin> set ys" if "x \<in> set (f k)" for x
      using hshape_share [OF assms(1) that, of h] \<open>k \<noteq> h\<close> assms(2) by auto
    show "deref r u = deref r s" if "r = First k \<or> r \<in> Next ` set (f k)" for r
    proof -
      have "r \<noteq> Next n \<and> r \<noteq> q" using that qin other \<open>k \<noteq> h\<close> by blast
      then show ?thesis by (simp add: d)
    qed
    show "hpprev u x = hpprev s x" if "x \<in> set (f k)" for x
      using other [OF that] y [of x] by (auto simp: p)
  qed
  moreover have "hpprev u x = None" if "\<not> hlinked (f(h := xs @ ys)) x" for x
  proof (cases "x = n")
    case False
    then have "\<not> hlinked f x" "x \<notin> set ys"
      using not_hlinked_upd [OF that] assms(2) False by auto
    then show ?thesis using assms(1) y [of x] by (auto simp: p hshape_def)
  qed (simp add: p)
  moreover have "hlist_del_init n s = Some u"
    using pp t(1) by (simp add: hlist_del_init_def hlist_unhashed_def u_def)
  ultimately show ?thesis by (auto simp: hshape_def)
qed

lemma hshape_move:
  assumes "hshape s f" and "h \<noteq> k" and "f k = []"
  shows "hshape (hlist_move_list h k s) (f(k := f h, h := []))"
proof -
  let ?s = "hlist_move_list h k s"
  have h: "hpath s (First h) (f h) None" using hshape_hlist [OF assms(1), of h] by (simp add: hlist_def)
  have first: "deref (First h) s = (case f h of [] \<Rightarrow> None | x # xs \<Rightarrow> Some x)"
    using h by (cases "f h") auto
  have d: "deref r ?s = (if r = First h then None else if r = First k then deref (First h) s else deref r s)" for r
    using assms(2) by (auto simp: hlist_move_list_def Let_def slots split: option.split)
  have p: "hpprev ?s x = (if deref (First h) s = Some x then Some (First k) else hpprev s x)" for x
    using assms(2) by (auto simp: hlist_move_list_def Let_def slots split: option.split)
  have "hlist ?s k (f h)"
  proof (cases "f h")
    case Nil
    then show ?thesis using first assms(2) by (simp add: hlist_def d)
  next
    case (Cons x xs)
    have "hpath ?s (Next x) xs None = hpath s (Next x) xs None"
      using hpath_distinct [OF h] Cons first by (intro hpath_cong) (auto simp: d p)
    then show ?thesis using h Cons first assms(2) by (simp add: hlist_def d p)
  qed
  moreover have "hlist ?s h []" using assms(2) by (simp add: hlist_def d)
  moreover have "hlist ?s m (f m)" if "m \<noteq> h" "m \<noteq> k" for m
  proof (rule hlist_frame [OF hshape_hlist [OF assms(1)]])
    show "deref r ?s = deref r s" if "r = First m \<or> r \<in> Next ` set (f m)" for r
      using that \<open>m \<noteq> h\<close> \<open>m \<noteq> k\<close> by (auto simp: d)
    show "hpprev ?s x = hpprev s x" if "x \<in> set (f m)" for x
      using hshape_share [OF assms(1) that, of h] \<open>m \<noteq> h\<close> first by (cases "f h") (auto simp: p)
  qed
  moreover have "hlinked (f(k := f h, h := [])) x \<longleftrightarrow> hlinked f x" for x
    using assms(2,3) by (auto simp: hlinked_def split: if_splits) (metis empty_iff empty_set)+
  moreover have "hpprev ?s x = None" if "\<not> hlinked f x" for x
  proof -
    have "x \<notin> set (f h)" using that by (auto simp: hlinked_def)
    then show ?thesis using that assms(1) first by (cases "f h") (auto simp: p hshape_def)
  qed
  ultimately show ?thesis by (simp add: hshape_def)
qed


section \<open>The operations refine the contract\<close>

lemma hlinked_split:
  assumes "hlinked f x"
  obtains h xs ys where "f h = xs @ x # ys" "x \<notin> set xs"
  using assms split_list_first unfolding hlinked_def by metis

lemma hshape_at:
  assumes "hshape s f" and "f h = xs @ x # ys"
  shows "hpprev s x = Some (end_slot (First h) xs)" and "deref (end_slot (First h) xs) s = Some x"
    and "deref (Next x) s = (case ys of [] \<Rightarrow> None | y # zs \<Rightarrow> Some y)" and "\<And>k. k \<noteq> h \<Longrightarrow> x \<notin> set (f k)"
proof -
  have "hpath s (First h) (xs @ x # ys) None" using hshape_hlist [OF assms(1), of h] assms(2) by (simp add: hlist_def)
  then show "hpprev s x = Some (end_slot (First h) xs)" and "deref (end_slot (First h) xs) s = Some x"
    and "deref (Next x) s = (case ys of [] \<Rightarrow> None | y # zs \<Rightarrow> Some y)"
    by (cases ys; auto simp: hpath_append)+
  show "x \<notin> set (f k)" if "k \<noteq> h" for k using hshape_share [OF assms(1), of x h k] assms(2) that by auto
qed

lemma hlist_add_before_refines:
  assumes "hshape s f" and "\<not> hlinked f n" and "hlinked f m"
  shows "\<exists>s'. hlist_add_before n m s = Some s' \<and> hshape s' (\<lambda>h. insert_before n m (f h))"
proof -
  from assms(3) obtain h xs ys where at: "f h = xs @ m # ys" "m \<notin> set xs" by (rule hlinked_split)
  note m = hshape_at [OF assms(1) at(1)]
  have other: "insert_before n m (f k) = f k" if "k \<noteq> h" for k using insert_other m(4) that by metis
  then have f': "(\<lambda>h. insert_before n m (f h)) = f(h := xs @ n # m # ys)"
    using insert_split [OF at(2)] at(1) by (auto simp: fun_eq_iff)
  have nh: "n \<notin> set (xs @ m # ys)" using assms(2) at(1) by (metis hlinked_def)
  then have "end_slot (First h) xs \<noteq> Next n" "n \<noteq> m"
    using end_slot_in [of "First h" xs] nh by auto
  then show ?thesis
    unfolding f' using hshape_link [OF assms(1,2) at(1) refl] hlist_add_before_link [OF _ m(1) _ m(2)] by auto
qed

lemma hlist_add_behind_refines:
  assumes "hshape s f" and "\<not> hlinked f n" and "hlinked f m"
  shows "hshape (hlist_add_behind n m s) (\<lambda>h. insert_behind n m (f h))"
proof -
  from assms(3) obtain h xs ys where at: "f h = xs @ m # ys" "m \<notin> set xs" by (rule hlinked_split)
  note m = hshape_at [OF assms(1) at(1)]
  have other: "insert_behind n m (f k) = f k" if "k \<noteq> h" for k using insert_other m(4) that by metis
  then have f': "(\<lambda>h. insert_behind n m (f h)) = f(h := (xs @ [m]) @ n # ys)"
    using insert_split [OF at(2)] at(1) by (auto simp: fun_eq_iff)
  have nh: "n \<notin> set (xs @ m # ys)" using assms(2) at(1) by (metis hlinked_def)
  then have nm: "n \<noteq> m" "n \<notin> set ys" by auto
  then have "deref (Next m) s \<noteq> Some n" using m(3) by (cases ys) auto
  then have "hlist_add_behind n m s = hlink_at (Next m) n s" using nm by (intro hlist_add_behind_link)
  then show ?thesis unfolding f' using hshape_link [OF assms(1,2), of h "xs @ [m]" ys] at(1) by simp
qed

lemma hlist_del_init_refines:
  assumes "hshape s f"
  shows "\<exists>s'. hlist_del_init n s = Some s' \<and> hshape s' (\<lambda>h. remove1 n (f h))"
proof (cases "hlinked f n")
  case True
  then obtain h xs ys where at: "f h = xs @ n # ys" "n \<notin> set xs" by (rule hlinked_split)
  have "(\<lambda>k. remove1 n (f k)) = f(h := xs @ ys)"
    using hshape_at(4) [OF assms(1) at(1)] at by (auto simp: fun_eq_iff remove1_idem remove1_append)
  then show ?thesis using hshape_unlink [OF assms(1) at(1)] by auto
next
  case False
  then have "(\<lambda>h. remove1 n (f h)) = f" by (auto simp: fun_eq_iff remove1_idem hlinked_def)
  then show ?thesis using hshape_unhashed [OF assms(1)] False assms(1) by (auto simp: hlist_del_init_def)
qed

lemma hlist_step_refines:
  assumes "hshape s f" and "hlist_spec c f = Some f'"
  shows "\<exists>s'. hlist_step c s = Some s' \<and> hshape s' f'"
proof (cases c)
  case (Add_Head n h)
  then show ?thesis
    using assms hshape_link [OF assms(1), of n h "[]" "f h"]
    by (auto simp: hlist_add_head_link split: if_splits)
next
  case (Move_List h k)
  then show ?thesis using assms hshape_move [OF assms(1), of h k] by (auto split: if_splits)
qed (use assms hlist_add_before_refines hlist_add_behind_refines hlist_del_init_refines in \<open>auto split: if_splits\<close>)

lemma hlist_steps_refine:
  "hshape s f \<Longrightarrow> hlist_specs cs f = Some f' \<Longrightarrow> \<exists>s'. hlist_steps cs s = Some s' \<and> hshape s' f'"
proof (induction cs arbitrary: s f)
  case (Cons c cs)
  obtain g where g: "hlist_spec c f = Some g" "hlist_specs cs g = Some f'"
    using Cons.prems(2) by (auto split: Option.bind_splits)
  then show ?case using hlist_step_refines [OF Cons.prems(1) g(1)] Cons.IH [of _ g] by auto
qed simp

definition hlist_blank :: "('h, 'n) hlinks" where
  "hlist_blank = \<lparr>hfirst = \<lambda>_. None, hnext = \<lambda>_. None, hpprev = \<lambda>_. None\<rparr>"

lemma hshape_blank: "hshape hlist_blank (\<lambda>_. [])"
  by (simp add: hshape_def hlist_def hlist_blank_def deref.simps)

section \<open>The loops\<close>

fun run_nodes :: "('n \<Rightarrow> 's \<Rightarrow> 's option) \<Rightarrow> 'n list \<Rightarrow> 's \<Rightarrow> 's option" where
  "run_nodes body [] s = Some s"
| "run_nodes body (x # xs) s = do { s \<leftarrow> body x s; run_nodes body xs s }"

lemma hlist_walk_path:
  assumes "hpath (links s) p xs None" and "\<And>x s s'. x \<in> set xs \<Longrightarrow> body x s = Some s' \<Longrightarrow> links s' = links s"
  shows "hlist_walk links body (deref p (links s)) s = run_nodes body xs s"
  using assms
proof (induction xs arbitrary: p s)
  case Nil
  then show ?case by (simp add: hlist_walk.simps)
next
  case (Cons x xs)
  show ?case
  proof (cases "body x s")
    case None
    then show ?thesis using Cons.prems(1) by (subst hlist_walk.simps) simp
  next
    case (Some s')
    then have same: "links s' = links s" by (intro Cons.prems(2)) simp_all
    have "hlist_walk links body (deref (Next x) (links s')) s' = run_nodes body xs s'"
    proof (rule Cons.IH)
      show "hpath (links s') (Next x) xs None" using Cons.prems(1) same by simp
      show "links u' = links u" if "z \<in> set xs" "body z u = Some u'" for z u u'
        by (rule Cons.prems(2) [OF _ that(2)]) (simp add: that(1))
    qed
    then show ?thesis using Cons.prems(1) Some by (subst hlist_walk.simps) (simp add: slots)
  qed
qed

lemma hlist_for_each_all:
  "hlist (links s) h xs \<Longrightarrow> (\<And>x s s'. x \<in> set xs \<Longrightarrow> body x s = Some s' \<Longrightarrow> links s' = links s) \<Longrightarrow>
    hlist_for_each links h body s = run_nodes body xs s"
  using hlist_walk_path [of links s "First h" xs body] by (simp add: hlist_def hlist_for_each_def slots)

lemma hlist_for_each_entry_continue_rest:
  "hlist (links s) h (xs @ x # ys) \<Longrightarrow> (\<And>x s s'. x \<in> set ys \<Longrightarrow> body x s = Some s' \<Longrightarrow> links s' = links s) \<Longrightarrow>
    hlist_for_each_entry_continue links body x s = run_nodes body ys s"
  using hlist_walk_path [of links s "Next x" ys body]
  by (simp add: hlist_def hlist_for_each_entry_continue_def slots hpath_append)

lemma hlist_for_each_entry_from_rest:
  "hlist (links s) h (xs @ x # ys) \<Longrightarrow> (\<And>z s s'. z \<in> set (x # ys) \<Longrightarrow> body z s = Some s' \<Longrightarrow> links s' = links s) \<Longrightarrow>
    hlist_for_each_entry_from links body (Some x) s = run_nodes body (x # ys) s"
  using hlist_walk_path [of links s "end_slot (First h) xs" "x # ys" body]
  by (simp add: hlist_def hlist_for_each_entry_from_def hpath_append)

text \<open>
  A safe loop visits every entry once, whatever its body does to the entries it has already seen, the
  current one included, as long as the entries behind it stay a list.
\<close>

lemma hlist_walk_safe_path:
  assumes "hpath (links s) p xs None" and "I s"
    and "\<And>q x ys s s'. I s \<Longrightarrow> hpath (links s) q (x # ys) None \<Longrightarrow> x \<in> set xs \<Longrightarrow> body x s = Some s' \<Longrightarrow>
      I s' \<and> (\<exists>q'. hpath (links s') q' ys None \<and> deref q' (links s') = deref (Next x) (links s))"
  shows "hlist_walk_safe links body (deref p (links s)) s = run_nodes body xs s"
  using assms
proof (induction xs arbitrary: p s)
  case Nil
  then show ?case by (simp add: hlist_walk_safe.simps)
next
  case (Cons x xs)
  show ?case
  proof (cases "body x s")
    case None
    then show ?thesis using Cons.prems(1) by (subst hlist_walk_safe.simps) (simp add: Let_def)
  next
    case (Some s')
    then obtain q' where q': "I s'" "hpath (links s') q' xs None" "deref q' (links s') = deref (Next x) (links s)"
      using Cons.prems(3) [OF Cons.prems(2,1)] by auto
    have "hlist_walk_safe links body (deref q' (links s')) s' = run_nodes body xs s'"
      by (rule Cons.IH [OF q'(2,1)]) (use Cons.prems(3) in \<open>auto intro: list.set_intros(2)\<close>)
    then show ?thesis using Cons.prems(1) Some q'(3)
      by (subst hlist_walk_safe.simps) (simp add: slots)
  qed
qed


lemma hlist_for_each_safe_all:
  assumes "hlist (links s) h xs" and "I s"
    and "\<And>q x ys s s'. I s \<Longrightarrow> hpath (links s) q (x # ys) None \<Longrightarrow> x \<in> set xs \<Longrightarrow> body x s = Some s' \<Longrightarrow>
      I s' \<and> (\<exists>q'. hpath (links s') q' ys None \<and> deref q' (links s') = deref (Next x) (links s))"
  shows "hlist_for_each_safe links h body s = run_nodes body xs s"
  unfolding hlist_for_each_safe_def slots
  by (rule hlist_walk_safe_path [where I = I]) (fact assms(1) [unfolded hlist_def], fact assms(2), fact assms(3))

text \<open>Emptying a list: the safe loop takes every entry off, the plain one stops behind the first.\<close>

lemma del_init_next: "hlist_del_init x s = Some s' \<Longrightarrow> \<not> hlist_unhashed x s \<Longrightarrow> hnext s' x = None"
  by (auto simp: hlist_del_init_def INIT_HLIST_NODE_def slots split: Option.bind_splits)

lemma run_del_init:
  "hshape s f \<Longrightarrow> f h = xs \<Longrightarrow> \<exists>s'. run_nodes hlist_del_init xs s = Some s' \<and> hshape s' (f(h := []))"
proof (induction xs arbitrary: s f)
  case Nil
  then have "f(h := []) = f" by auto
  with Nil show ?case by simp
next
  case (Cons x xs)
  obtain t where t: "hlist_del_init x s = Some t" "hshape t (f(h := xs))"
    using hshape_unlink [OF Cons.prems(1), of h "[]" x xs] Cons.prems(2) by auto
  from Cons.IH [OF t(2)] have "\<exists>s'. run_nodes hlist_del_init xs t = Some s' \<and> hshape s' (f(h := []))"
    by (simp only: fun_upd_same fun_upd_upd simp_thms)
  then show ?case using t(1) by (metis bind.bind_lunit run_nodes.simps(2))
qed


lemma hlist_del_init_keeps_rest:
  assumes "hpath s q (x # ys) None" and "hlist_del_init x s = Some s'"
  shows "hpath s' q ys None"
proof -
  obtain t where t: "hlist_del_raw x s = Some t" "hpath t q ys None"
    using hpath_unlink [of s q "[]" x ys] assms(1) by auto
  have s': "s' = INIT_HLIST_NODE x t"
    using assms(1,2) t(1) by (auto simp: hlist_del_init_def hlist_unhashed_def)
  have "x \<notin> set ys" using hpath_distinct [OF assms(1)] by simp
  then have "hpath s' q ys None = hpath t q ys None"
    unfolding s' using hpath_start [OF assms(1)] by (intro hpath_cong) (auto simp: INIT_HLIST_NODE_def)
  with t(2) show ?thesis by simp
qed


lemma hlist_for_each_safe_del_init:
  assumes "hlist s h xs"
  shows "hlist_for_each_safe (\<lambda>s. s) h hlist_del_init s = run_nodes hlist_del_init xs s"
proof (rule hlist_for_each_safe_all [where I = "\<lambda>_. True"])
  fix q x ys s s'
  assume p: "hpath s q (x # ys) None" and d: "hlist_del_init x s = Some s'"
  have rest: "hpath s' q ys None" by (rule hlist_del_init_keeps_rest [OF p d])
  moreover have "hpath s (Next x) ys None" using p by simp
  ultimately have "deref q s' = deref (Next x) s" by (cases ys) auto
  with rest show "True \<and> (\<exists>q'. hpath s' q' ys None \<and> deref q' s' = deref (Next x) s)" by blast
qed (use assms in simp_all)

lemma hlist_for_each_del_init:
  assumes "hlist s h (x # xs)"
  shows "hlist_for_each (\<lambda>s. s) h hlist_del_init s = hlist_del_init x s"
proof -
  have "hfirst s h = Some x" "\<not> hlist_unhashed x s"
    using assms by (auto simp: hlist_def slots hlist_unhashed_def)
  then show ?thesis
    using del_init_next [of x s]
    by (cases "hlist_del_init x s") (simp_all add: hlist_for_each_def hlist_walk.simps)
qed

text \<open>\<open>hlist_del\<close> unlinks the same way; the entry keeps the two poison addresses.\<close>

lemma hlist_del_unlinks:
  assumes "hlist s h (xs @ x # ys)"
  shows "\<exists>s'. hlist_del LIST_POISON1 LIST_POISON2 x s = Some s' \<and> hlist s' h (xs @ ys) \<and>
    hnext s' x = Some LIST_POISON1 \<and> hpprev s' x = Some LIST_POISON2 \<and> \<not> hlist_unhashed x s'"
proof -
  obtain t where t: "hlist_del_raw x s = Some t" "hpath t (First h) (xs @ ys) None"
    using hpath_unlink assms unfolding hlist_def by metis
  let ?s = "set_pprev x (Some LIST_POISON2) (assign (Next x) (Some LIST_POISON1) t)"
  have "x \<notin> set (xs @ ys)" using hpath_distinct [OF assms [unfolded hlist_def]] by auto
  then have "hpath ?s (First h) (xs @ ys) None = hpath t (First h) (xs @ ys) None"
    by (intro hpath_cong) auto
  with t show ?thesis by (auto simp: hlist_del_def hlist_def hlist_unhashed_def slots)
qed

text \<open>An entry that was made to look linked can be taken off like any other.\<close>

lemma hlist_add_fake_del:
  "\<not> hlist_unhashed n (hlist_add_fake n s) \<and> (\<exists>s'. hlist_del_init n (hlist_add_fake n s) = Some s' \<and> hlist_unhashed n s')"
  by (auto simp: hlist_unhashed_def hlist_add_fake_def hlist_del_init_def hlist_del_raw_def INIT_HLIST_NODE_def Let_def)


section \<open>Properties\<close>

text \<open>A loop body that only writes down where it has been.\<close>

definition note_node :: "'n \<Rightarrow> 's \<times> 'n list \<Rightarrow> ('s \<times> 'n list) option" where
  "note_node x sa = Some (fst sa, snd sa @ [x])"

lemma run_note_node: "run_nodes note_node xs (s, as) = Some (s, as @ xs)"
  by (induction xs arbitrary: as) (simp_all add: note_node_def)

lemma hlist_for_each_notes: "hlist s h xs \<Longrightarrow> hlist_for_each fst h note_node (s, []) = Some (s, xs)"
  using hlist_for_each_all [of fst "(s, [])" h xs note_node]
  by (auto simp: run_note_node) (auto simp: note_node_def)

text \<open>
  C26: after any sequence of linking, unlinking and moving that a program may do, the hash lists hold the
  entries of the abstract lists: a loop visits them in order, the tests tell the empty heads and the
  entries that are in no list, and the loop that is safe against removal empties a list.
\<close>

theorem hash_lists_refined:
  assumes "hlist_specs cs (\<lambda>_. []) = Some f"
  shows "\<exists>s. hlist_steps cs hlist_blank = Some s \<and>
    (\<forall>h. hlist_for_each fst h note_node (s, []) = Some (s, f h) \<and>
       (hlist_empty h s \<longleftrightarrow> f h = []) \<and>
       (\<exists>t. hlist_for_each_safe (\<lambda>s. s) h hlist_del_init s = Some t \<and> hlist_empty h t)) \<and>
    (\<forall>x. hlist_unhashed x s \<longleftrightarrow> (\<forall>h. x \<notin> set (f h)))"
proof -
  obtain s where s: "hlist_steps cs hlist_blank = Some s" "hshape s f"
    using hlist_steps_refine [OF hshape_blank assms] by blast
  have "\<exists>t. hlist_for_each_safe (\<lambda>s. s) h hlist_del_init s = Some t \<and> hlist_empty h t" for h
    using run_del_init [OF s(2) refl, of h] hlist_for_each_safe_del_init [OF hshape_hlist [OF s(2)], of h]
      hlist_empty_iff hshape_hlist by (metis fun_upd_same)
  then show ?thesis
    using s hlist_for_each_notes [OF hshape_hlist [OF s(2)]] hlist_empty_iff [OF hshape_hlist [OF s(2)]]
      hshape_unhashed [OF s(2)] by (auto simp: hlinked_def)
qed

lemma hlinked_bool: "hlinked f x \<longleftrightarrow> x \<in> set (f False) \<or> x \<in> set (f True)"
  by (auto simp: hlinked_def) (metis (full_types))

theorem hash_lists_refined_witness:
  "\<exists>s. hlist_steps [Add_Head 1 False, Add_Behind 2 1, Add_Before 3 (2 :: nat), Move_List False True, Del_Init 1]
      hlist_blank = Some s \<and>
    hlist_for_each fst True note_node (s, []) = Some (s, [3, 2]) \<and> hlist_unhashed 1 s"
proof -
  let ?cs = "[Add_Head 1 False, Add_Behind 2 1, Add_Before 3 (2 :: nat), Move_List False True, Del_Init 1]"
  obtain f where f: "hlist_specs ?cs (\<lambda>_. []) = Some f" "f True = [3, 2]" "\<forall>h. 1 \<notin> set (f h)"
    by (simp add: hlinked_bool all_bool_eq)
  show ?thesis using hash_lists_refined [OF f(1)] f(2,3) by metis
qed

end
