(* ===== verification/List_Loops.thy ===== *)
theory List_Loops
  imports Linked_List
begin

text \<open>
  The loops of \<open>include/ndlcom/list.h\<close> over circular lists: forwards and backwards, from the head or from
  an entry, and the variants that read the next position before the body so that the body may take
  the current entry off. The address of an entry and the address of its links are taken as one, so
  the loops over entries and those over links are the same. The contract of a direction is the locale
  \<open>direction\<close>; both directions provide it.
\<close>

section \<open>The code\<close>

definition list_first_entry :: "'n links \<Rightarrow> 'n \<Rightarrow> 'n" where
  "list_first_entry l head = lnext l head"

definition list_last_entry :: "'n links \<Rightarrow> 'n \<Rightarrow> 'n" where
  "list_last_entry l head = lprev l head"

definition list_first_entry_or_null :: "'n links \<Rightarrow> 'n \<Rightarrow> 'n option" where
  "list_first_entry_or_null l head = (let pos = lnext l head in if pos \<noteq> head then Some pos else None)"

definition list_next_entry :: "'n links \<Rightarrow> 'n \<Rightarrow> 'n" where
  "list_next_entry l pos = lnext l pos"

definition list_prev_entry :: "'n links \<Rightarrow> 'n \<Rightarrow> 'n" where
  "list_prev_entry l pos = lprev l pos"

text \<open>The two loops that the macros have in common, over the way \<open>step\<close> to the next position.\<close>

partial_function (option) list_walk ::
  "('n links \<Rightarrow> 'n \<Rightarrow> 'n) \<Rightarrow> ('s \<Rightarrow> 'n links) \<Rightarrow> 'n \<Rightarrow> ('n \<Rightarrow> 's \<Rightarrow> 's option) \<Rightarrow> 'n \<Rightarrow> 's \<Rightarrow> 's option" where
  "list_walk step links head body pos s =
     (if pos = head then Some s
      else do { s \<leftarrow> body pos s; list_walk step links head body (step (links s) pos) s })"

partial_function (option) list_walk_safe ::
  "('n links \<Rightarrow> 'n \<Rightarrow> 'n) \<Rightarrow> ('s \<Rightarrow> 'n links) \<Rightarrow> 'n \<Rightarrow> ('n \<Rightarrow> 's \<Rightarrow> 's option) \<Rightarrow> 'n \<Rightarrow> 'n \<Rightarrow> 's \<Rightarrow> 's option" where
  "list_walk_safe step links head body pos n s =
     (if pos = head then Some s
      else do { s \<leftarrow> body pos s; list_walk_safe step links head body n (step (links s) n) s })"

definition list_for_each :: "('s \<Rightarrow> 'n links) \<Rightarrow> 'n \<Rightarrow> ('n \<Rightarrow> 's \<Rightarrow> 's option) \<Rightarrow> 's \<Rightarrow> 's option" where
  "list_for_each links head body s = list_walk lnext links head body (lnext (links s) head) s"

definition list_for_each_prev :: "('s \<Rightarrow> 'n links) \<Rightarrow> 'n \<Rightarrow> ('n \<Rightarrow> 's \<Rightarrow> 's option) \<Rightarrow> 's \<Rightarrow> 's option" where
  "list_for_each_prev links head body s = list_walk lprev links head body (lprev (links s) head) s"

definition list_for_each_safe :: "('s \<Rightarrow> 'n links) \<Rightarrow> 'n \<Rightarrow> ('n \<Rightarrow> 's \<Rightarrow> 's option) \<Rightarrow> 's \<Rightarrow> 's option" where
  "list_for_each_safe links head body s =
     (let pos = lnext (links s) head; n = lnext (links s) pos
      in list_walk_safe lnext links head body pos n s)"

definition list_for_each_prev_safe :: "('s \<Rightarrow> 'n links) \<Rightarrow> 'n \<Rightarrow> ('n \<Rightarrow> 's \<Rightarrow> 's option) \<Rightarrow> 's \<Rightarrow> 's option" where
  "list_for_each_prev_safe links head body s =
     (let pos = lprev (links s) head; n = lprev (links s) pos
      in list_walk_safe lprev links head body pos n s)"

definition list_for_each_entry_reverse :: "('s \<Rightarrow> 'n links) \<Rightarrow> 'n \<Rightarrow> ('n \<Rightarrow> 's \<Rightarrow> 's option) \<Rightarrow> 's \<Rightarrow> 's option" where
  "list_for_each_entry_reverse links head body s =
     list_walk list_prev_entry links head body (list_last_entry (links s) head) s"

definition list_prepare_entry :: "'n option \<Rightarrow> 'n \<Rightarrow> 'n" where
  "list_prepare_entry pos head = (case pos of Some x \<Rightarrow> x | None \<Rightarrow> head)"

definition list_for_each_entry_continue ::
  "('s \<Rightarrow> 'n links) \<Rightarrow> 'n \<Rightarrow> ('n \<Rightarrow> 's \<Rightarrow> 's option) \<Rightarrow> 'n \<Rightarrow> 's \<Rightarrow> 's option" where
  "list_for_each_entry_continue links head body pos s =
     list_walk list_next_entry links head body (list_next_entry (links s) pos) s"

definition list_for_each_entry_continue_reverse ::
  "('s \<Rightarrow> 'n links) \<Rightarrow> 'n \<Rightarrow> ('n \<Rightarrow> 's \<Rightarrow> 's option) \<Rightarrow> 'n \<Rightarrow> 's \<Rightarrow> 's option" where
  "list_for_each_entry_continue_reverse links head body pos s =
     list_walk list_prev_entry links head body (list_prev_entry (links s) pos) s"

definition list_for_each_entry_from ::
  "('s \<Rightarrow> 'n links) \<Rightarrow> 'n \<Rightarrow> ('n \<Rightarrow> 's \<Rightarrow> 's option) \<Rightarrow> 'n \<Rightarrow> 's \<Rightarrow> 's option" where
  "list_for_each_entry_from links head body pos s = list_walk list_next_entry links head body pos s"

text \<open>The macro itself; \<open>Linked_List\<close> has the loop together with the check that the bridge puts into its body.\<close>

definition list_for_each_entry_safe_plain ::
  "('s \<Rightarrow> 'n links) \<Rightarrow> 'n \<Rightarrow> ('n \<Rightarrow> 's \<Rightarrow> 's option) \<Rightarrow> 's \<Rightarrow> 's option" where
  "list_for_each_entry_safe_plain links head body s =
     (let pos = list_first_entry (links s) head; n = list_next_entry (links s) pos
      in list_walk_safe list_next_entry links head body pos n s)"

definition list_for_each_entry_safe_continue ::
  "('s \<Rightarrow> 'n links) \<Rightarrow> 'n \<Rightarrow> ('n \<Rightarrow> 's \<Rightarrow> 's option) \<Rightarrow> 'n \<Rightarrow> 's \<Rightarrow> 's option" where
  "list_for_each_entry_safe_continue links head body pos s =
     (let pos = list_next_entry (links s) pos; n = list_next_entry (links s) pos
      in list_walk_safe list_next_entry links head body pos n s)"

definition list_for_each_entry_safe_from ::
  "('s \<Rightarrow> 'n links) \<Rightarrow> 'n \<Rightarrow> ('n \<Rightarrow> 's \<Rightarrow> 's option) \<Rightarrow> 'n \<Rightarrow> 's \<Rightarrow> 's option" where
  "list_for_each_entry_safe_from links head body pos s =
     (let n = list_next_entry (links s) pos
      in list_walk_safe list_next_entry links head body pos n s)"

definition list_for_each_entry_safe_reverse ::
  "('s \<Rightarrow> 'n links) \<Rightarrow> 'n \<Rightarrow> ('n \<Rightarrow> 's \<Rightarrow> 's option) \<Rightarrow> 's \<Rightarrow> 's option" where
  "list_for_each_entry_safe_reverse links head body s =
     (let pos = list_last_entry (links s) head; n = list_prev_entry (links s) pos
      in list_walk_safe list_prev_entry links head body pos n s)"

definition list_safe_reset_next :: "'n links \<Rightarrow> 'n \<Rightarrow> 'n" where
  "list_safe_reset_next l pos = list_next_entry l pos"

lemma entry_steps [simp]: "list_next_entry = lnext" "list_prev_entry = lprev"
  "list_first_entry = lnext" "list_last_entry = lprev"
  by (simp_all add: fun_eq_iff list_next_entry_def list_prev_entry_def list_first_entry_def list_last_entry_def)

section \<open>A direction\<close>

text \<open>
  \<open>seen l h xs\<close>: in this direction the entries behind the head \<open>h\<close> come in the order \<open>xs\<close>, and the last of
  them leads back to the head.
\<close>

locale direction =
  fixes step :: "'n links \<Rightarrow> 'n \<Rightarrow> 'n"
    and seen :: "'n links \<Rightarrow> 'n \<Rightarrow> 'n list \<Rightarrow> bool"
  assumes step_head: "seen l h xs \<Longrightarrow> step l h = hd (xs @ [h])"
    and step_entry: "seen l h (xs @ x # ys) \<Longrightarrow> step l x = hd (ys @ [h])"
    and seen_distinct: "seen l h xs \<Longrightarrow> distinct (h # xs)"
begin

lemma walk_suffix:
  assumes "seen (links s) h (xs @ ys)"
    and "\<And>y s s'. y \<in> set ys \<Longrightarrow> body y s = Some s' \<Longrightarrow> links s' = links s"
  shows "list_walk step links h body (hd (ys @ [h])) s = run_entries body ys s"
  using assms
proof (induction ys arbitrary: xs s)
  case Nil
  then show ?case by (simp add: list_walk.simps)
next
  case (Cons y ys)
  have y: "y \<noteq> h" using seen_distinct [OF Cons.prems(1)] by auto
  show ?case
  proof (cases "body y s")
    case None
    then show ?thesis using y by (subst list_walk.simps) simp
  next
    case (Some s')
    then have same: "links s' = links s" using Cons.prems(2) by auto
    have "step (links s) y = hd (ys @ [h])" using Cons.prems(1) by (rule step_entry)
    then show ?thesis
      using Cons.IH [of s' "xs @ [y]"] Cons.prems same Some y by (subst list_walk.simps) auto
  qed
qed

text \<open>
  The safe loop: the body may change the list up to and including the current entry, which it may take off;
  the entries behind it must still follow.
\<close>

lemma walk_safe_suffix:
  assumes "seen (links s) h (xs @ ys)" and "I s"
    and "\<And>us y vs s s'. I s \<Longrightarrow> seen (links s) h (us @ y # vs) \<Longrightarrow> y \<in> set ys \<Longrightarrow> body y s = Some s' \<Longrightarrow>
      I s' \<and> (\<exists>us'. seen (links s') h (us' @ vs))"
  shows "list_walk_safe step links h body (hd (ys @ [h])) (step (links s) (hd (ys @ [h]))) s =
    run_entries body ys s"
  using assms
proof (induction ys arbitrary: xs s)
  case Nil
  then show ?case by (simp add: list_walk_safe.simps)
next
  case (Cons y ys)
  have y: "y \<noteq> h" using seen_distinct [OF Cons.prems(1)] by auto
  have n: "step (links s) y = hd (ys @ [h])" using Cons.prems(1) by (rule step_entry)
  show ?case
  proof (cases "body y s")
    case None
    then show ?thesis using y by (subst list_walk_safe.simps) simp
  next
    case (Some s')
    then obtain us' where after: "I s'" "seen (links s') h (us' @ ys)"
      using Cons.prems(3) [OF Cons.prems(2,1)] by auto
    have "list_walk_safe step links h body (hd (ys @ [h])) (step (links s') (hd (ys @ [h]))) s' =
        run_entries body ys s'"
      by (rule Cons.IH [OF after(2,1)]) (use Cons.prems(3) in \<open>blast intro: list.set_intros(2)\<close>)
    then show ?thesis using y n Some by (subst list_walk_safe.simps) simp
  qed
qed

lemma walk_all:
  assumes "seen (links s) h xs" and "\<And>y s s'. y \<in> set xs \<Longrightarrow> body y s = Some s' \<Longrightarrow> links s' = links s"
  shows "list_walk step links h body (step (links s) h) s = run_entries body xs s"
  using walk_suffix [of links s h "[]" xs body] step_head [OF assms(1)] assms by simp

lemma walk_behind:
  assumes "seen (links s) h (xs @ x # ys)"
    and "\<And>y s s'. y \<in> set ys \<Longrightarrow> body y s = Some s' \<Longrightarrow> links s' = links s"
  shows "list_walk step links h body (step (links s) x) s = run_entries body ys s"
  using walk_suffix [of links s h "xs @ [x]" ys body] step_entry [OF assms(1)] assms by simp

lemma walk_safe_all:
  assumes "seen (links s) h xs" and "I s"
    and "\<And>us y vs s s'. I s \<Longrightarrow> seen (links s) h (us @ y # vs) \<Longrightarrow> y \<in> set xs \<Longrightarrow> body y s = Some s' \<Longrightarrow>
      I s' \<and> (\<exists>us'. seen (links s') h (us' @ vs))"
  shows "list_walk_safe step links h body (step (links s) h) (step (links s) (step (links s) h)) s =
    run_entries body xs s"
  using walk_safe_suffix [of links s h "[]" xs I body] step_head [OF assms(1)] assms by simp

text \<open>A plain loop whose body takes its entry off stays at it: the entry then leads to itself.\<close>

lemma walk_stuck:
  assumes "x \<noteq> h" and "I s" and "\<And>s. I s \<Longrightarrow> \<exists>s'. body x s = Some s' \<and> I s' \<and> step (links s') x = x"
  shows "list_walk step links h body x s = None"
proof -
  have "\<not> (step' = step \<and> links' = links \<and> h' = h \<and> body' = body \<and> pos = x \<and> I t)"
    if "list_walk step' links' h' body' pos t = Some r" for step' links' h' body' pos t r
    using that
  proof (induction step' links' h' body' pos t r rule: list_walk.raw_induct [rotated, consumes 1])
    case (1 f step' links' h' body' pos t r)
    show ?case
    proof
      assume args: "step' = step \<and> links' = links \<and> h' = h \<and> body' = body \<and> pos = x \<and> I t"
      then obtain t' where "body x t = Some t'" "I t'" "step (links t') x = x" using assms(3) by blast
      with args have "f step links h body x t' = Some r" using 1(2) assms(1) by simp
      with 1(1) [of step links h body x t' r] \<open>I t'\<close> show False by simp
    qed
  qed
  with assms(2) show ?thesis by (cases "list_walk step links h body x s") blast+
qed

end

interpretation forwards: direction lnext dlist
  by unfold_locales (rule dlist_first dlist_entry_next dlist_distinct; assumption)+

interpretation backwards: direction lprev "\<lambda>l h xs. dlist l h (rev xs)"
proof
  fix l :: "'n links" and h x xs ys
  show "dlist l h (rev xs) \<Longrightarrow> lprev l h = hd (xs @ [h])"
    using dlist_last [of l h "rev xs"] by (cases xs) simp_all
  show "dlist l h (rev (xs @ x # ys)) \<Longrightarrow> lprev l x = hd (ys @ [h])"
    using dlist_entry_prev [of l h "rev ys" x "rev xs"] by (cases ys) simp_all
  show "dlist l h (rev xs) \<Longrightarrow> distinct (h # xs)"
    using dlist_distinct [of l h "rev xs"] by simp
qed


section \<open>Where the loops go\<close>

definition note_entry :: "'n \<Rightarrow> 's \<times> 'n list \<Rightarrow> ('s \<times> 'n list) option" where
  "note_entry x sa = Some (fst sa, snd sa @ [x])"

lemma run_note_entry: "run_entries note_entry xs (s, as) = Some (s, as @ xs)"
  by (induction xs arbitrary: as) (simp_all add: note_entry_def)

lemma note_entry_keeps: "note_entry x sa = Some sa' \<Longrightarrow> fst sa' = fst sa"
  by (auto simp: note_entry_def)

lemma hd_rev_snoc: "hd (rev ys @ [h]) = last (h # ys)"
  by (cases ys rule: rev_cases) simp_all

lemma note_forwards: "dlist l h (xs @ ys) \<Longrightarrow>
    list_walk lnext fst h note_entry (hd (ys @ [h])) (l, []) = Some (l, ys)"
  using forwards.walk_suffix [of fst "(l, [])" h xs ys note_entry, OF _ note_entry_keeps]
  by (simp add: run_note_entry)

lemma note_backwards: "dlist l h (ys @ xs) \<Longrightarrow>
    list_walk lprev fst h note_entry (last (h # ys)) (l, []) = Some (l, rev ys)"
  using backwards.walk_suffix [of fst "(l, [])" h "rev xs" "rev ys" note_entry, OF _ note_entry_keeps]
  by (simp add: run_note_entry hd_rev_snoc)

text \<open>
  The loops of the list header visit what their names say: all entries of a list in order or in the
  reverse order, those behind a given entry, those before it backwards, or those from it on.
\<close>

theorem list_loops_visit:
  assumes "dlist l h (xs @ x # ys)"
  shows "list_for_each fst h note_entry (l, []) = Some (l, xs @ x # ys) \<and>
    list_for_each_prev fst h note_entry (l, []) = Some (l, rev (xs @ x # ys)) \<and>
    list_for_each_entry_reverse fst h note_entry (l, []) = Some (l, rev (xs @ x # ys)) \<and>
    list_for_each_entry_continue fst h note_entry x (l, []) = Some (l, ys) \<and>
    list_for_each_entry_continue_reverse fst h note_entry x (l, []) = Some (l, rev xs) \<and>
    list_for_each_entry_from fst h note_entry x (l, []) = Some (l, x # ys)"
proof -
  note head = dlist_first [OF assms] dlist_last [OF assms]
  note at = dlist_entry_next [OF assms] dlist_entry_prev [OF assms]
  have "list_walk lnext fst h note_entry (lnext l h) (l, []) = Some (l, xs @ x # ys)"
    using note_forwards [of l h "[]" "xs @ x # ys"] assms head by simp
  moreover have "list_walk lprev fst h note_entry (lprev l h) (l, []) = Some (l, rev (xs @ x # ys))"
    using note_backwards [of l h "xs @ x # ys" "[]"] assms head by simp
  moreover have "list_walk lnext fst h note_entry (lnext l x) (l, []) = Some (l, ys)"
    using note_forwards [of l h "xs @ [x]" ys] assms at by simp
  moreover have "list_walk lprev fst h note_entry (lprev l x) (l, []) = Some (l, rev xs)"
    using note_backwards [of l h xs "x # ys"] assms at by simp
  moreover have "list_walk lnext fst h note_entry x (l, []) = Some (l, x # ys)"
    using note_forwards [of l h xs "x # ys"] assms by simp
  ultimately show ?thesis
    by (simp add: list_for_each_def list_for_each_prev_def list_for_each_entry_reverse_def
        list_for_each_entry_continue_def list_for_each_entry_continue_reverse_def list_for_each_entry_from_def)
qed

definition three_entries :: "nat links" where
  "three_entries = list_add_tail 3 0 (list_add_tail 2 0 (list_add 1 0 (INIT_LIST_HEAD 0 \<lparr>lnext = id, lprev = id\<rparr>)))"

lemma three_entries_list: "dlist three_entries 0 ([1] @ 2 # [3])"
proof -
  have "dlist (list_add 1 0 (INIT_LIST_HEAD 0 \<lparr>lnext = id, lprev = id\<rparr>)) (0 :: nat) [1]"
    by (rule dlist_add [OF dlist_INIT]) simp
  from dlist_add_tail [OF this, of 2] have "dlist (list_add_tail 2 0 (list_add 1 0 (INIT_LIST_HEAD 0 \<lparr>lnext = id, lprev = id\<rparr>))) (0 :: nat) [1, 2]"
    by simp
  from dlist_add_tail [OF this, of 3] show ?thesis by (simp add: three_entries_def)
qed

theorem list_loops_visit_witness:
  "list_for_each_entry_continue fst 0 note_entry 2 (three_entries, []) = Some (three_entries, [3]) \<and>
   list_for_each_entry_continue_reverse fst 0 note_entry 2 (three_entries, []) = Some (three_entries, [1])"
  using list_loops_visit [OF three_entries_list] by (simp only: rev.simps append_Nil simp_thms)

section \<open>Taking entries off inside a loop\<close>

lemma run_del_entries: "run_entries (\<lambda>x l. Some (list_del_init x l)) xs l = Some (fold list_del_init xs l)"
  by (induction xs arbitrary: l) simp_all

lemma fold_del_init:
  assumes "dlist l h zs" and "set xs \<subseteq> set zs" and "distinct xs" and "\<forall>y \<in> D. dlist l y [] \<and> y \<notin> set (h # zs)"
  shows "dlist (fold list_del_init xs l) h (filter (\<lambda>y. y \<notin> set xs) zs) \<and>
    (\<forall>y \<in> D \<union> set xs. dlist (fold list_del_init xs l) y [])"
  using assms
proof (induction xs arbitrary: l zs D)
  case (Cons x xs)
  obtain us vs where zs: "zs = us @ x # vs" using Cons.prems(2) by (auto dest!: split_list)
  let ?l = "list_del_init x l"
  note d = Cons.prems(1) [unfolded zs]
  have dist: "distinct (h # us @ x # vs)" by (rule dlist_distinct [OF d])
  have "dlist ?l y [] \<and> y \<notin> set (h # us @ vs)" if "y \<in> insert x D" for y
  proof (cases "y = x")
    case True
    then show ?thesis using dlist_del_init(2) [OF d] dist by auto
  next
    case False
    then have y: "dlist l y []" "y \<notin> set (h # us @ x # vs)" using that Cons.prems(4) zs by auto
    have "dlist ?l y []"
      by (rule dlist_frame [OF y(1)]) (use list_del_init_untouched [OF d y(2)] in auto)
    then show ?thesis using y(2) by auto
  qed
  moreover have "set xs \<subseteq> set (us @ vs)" using Cons.prems(2,3) zs by auto
  ultimately have "dlist (fold list_del_init xs ?l) h (filter (\<lambda>y. y \<notin> set xs) (us @ vs)) \<and>
      (\<forall>y \<in> insert x D \<union> set xs. dlist (fold list_del_init xs ?l) y [])"
    using Cons.prems(3) by (intro Cons.IH dlist_del_init(1) [OF d]) auto
  moreover have "filter (\<lambda>y. y \<notin> set (x # xs)) zs = filter (\<lambda>y. y \<notin> set xs) (us @ vs)"
    using dist unfolding zs by (auto intro!: arg_cong2 [where f = append] filter_cong)
  ultimately show ?case by simp
qed simp

lemma emptied:
  assumes "dlist l h zs" and "set xs = set zs" and "distinct xs"
  shows "dlist (fold list_del_init xs l) h []" and "\<forall>x \<in> set zs. dlist (fold list_del_init xs l) x []"
  using fold_del_init [OF assms(1), of xs "{}"] assms(2,3) by (simp_all add: filter_empty_conv)

lemma walk_safe_del_init:
  assumes "dlist l h xs"
  shows "list_for_each_safe (\<lambda>l. l) h (\<lambda>x l. Some (list_del_init x l)) l = Some (fold list_del_init xs l)"
    and "list_for_each_prev_safe (\<lambda>l. l) h (\<lambda>x l. Some (list_del_init x l)) l = Some (fold list_del_init (rev xs) l)"
proof -
  show "list_for_each_safe (\<lambda>l. l) h (\<lambda>x l. Some (list_del_init x l)) l = Some (fold list_del_init xs l)"
    unfolding list_for_each_safe_def Let_def run_del_entries [symmetric]
    by (rule forwards.walk_safe_all [where I = "\<lambda>_. True"]) (use assms in \<open>auto dest: dlist_del_init(1)\<close>)
  show "list_for_each_prev_safe (\<lambda>l. l) h (\<lambda>x l. Some (list_del_init x l)) l = Some (fold list_del_init (rev xs) l)"
    unfolding list_for_each_prev_safe_def Let_def run_del_entries [symmetric]
  proof (rule backwards.walk_safe_all [where I = "\<lambda>_. True"])
    fix us y vs and s s' :: "'a links"
    assume "dlist s h (rev (us @ y # vs))" and "Some (list_del_init y s) = Some s'"
    then have "dlist s' h (rev (us @ vs))" using dlist_del_init(1) [of s h "rev vs" y "rev us"] by simp
    then show "True \<and> (\<exists>us'. dlist s' h (rev (us' @ vs)))" by blast
  qed (use assms in simp_all)
qed

lemma walk_del_init_stuck:
  assumes "x \<noteq> h"
  shows "list_walk lnext (\<lambda>l. l) h (\<lambda>x l. Some (list_del_init x l)) x l = None"
    and "list_walk lprev (\<lambda>l. l) h (\<lambda>x l. Some (list_del_init x l)) x l = None"
proof -
  have "lnext (list_del_init x l) x = x \<and> lprev (list_del_init x l) x = x" for l
    by (simp add: list_del_init_def INIT_LIST_HEAD_def ptr_simps)
  then show "list_walk lnext (\<lambda>l. l) h (\<lambda>x l. Some (list_del_init x l)) x l = None"
    and "list_walk lprev (\<lambda>l. l) h (\<lambda>x l. Some (list_del_init x l)) x l = None"
    by (intro forwards.walk_stuck [where I = "\<lambda>_. True"] backwards.walk_stuck [where I = "\<lambda>_. True"] assms; simp)+
qed

text \<open>
  Taking every entry off with \<open>list_del_init\<close> inside a loop ends in the safe loops, forwards and
  backwards, with an empty list and every entry initialised; in a plain loop over a list with an entry it
  never ends.
\<close>

theorem only_safe_loops_empty_a_list:
  assumes "dlist l h xs"
  shows "(\<exists>l'. list_for_each_safe (\<lambda>l. l) h (\<lambda>x l. Some (list_del_init x l)) l = Some l' \<and>
      dlist l' h [] \<and> (\<forall>x \<in> set xs. dlist l' x [])) \<and>
    (\<exists>l'. list_for_each_prev_safe (\<lambda>l. l) h (\<lambda>x l. Some (list_del_init x l)) l = Some l' \<and>
      dlist l' h [] \<and> (\<forall>x \<in> set xs. dlist l' x [])) \<and>
    (xs \<noteq> [] \<longrightarrow> list_for_each (\<lambda>l. l) h (\<lambda>x l. Some (list_del_init x l)) l = None \<and>
      list_for_each_prev (\<lambda>l. l) h (\<lambda>x l. Some (list_del_init x l)) l = None)"
proof (intro conjI impI)
  have dist: "distinct xs" "distinct (rev xs)" using dlist_distinct [OF assms] by simp_all
  show "\<exists>l'. list_for_each_safe (\<lambda>l. l) h (\<lambda>x l. Some (list_del_init x l)) l = Some l' \<and>
      dlist l' h [] \<and> (\<forall>x \<in> set xs. dlist l' x [])"
    using walk_safe_del_init(1) [OF assms] emptied [OF assms refl dist(1)] by simp
  show "\<exists>l'. list_for_each_prev_safe (\<lambda>l. l) h (\<lambda>x l. Some (list_del_init x l)) l = Some l' \<and>
      dlist l' h [] \<and> (\<forall>x \<in> set xs. dlist l' x [])"
    using walk_safe_del_init(2) [OF assms] emptied [OF assms set_rev dist(2)] by simp
  assume "xs \<noteq> []"
  then have "lnext l h \<noteq> h" "lprev l h \<noteq> h"
    using dlist_first [OF assms] dlist_last [OF assms] dlist_distinct [OF assms]
    by (cases xs; cases xs rule: rev_cases; auto)+
  then show "list_for_each (\<lambda>l. l) h (\<lambda>x l. Some (list_del_init x l)) l = None"
    and "list_for_each_prev (\<lambda>l. l) h (\<lambda>x l. Some (list_del_init x l)) l = None"
    by (simp_all add: list_for_each_def list_for_each_prev_def walk_del_init_stuck)
qed

theorem only_safe_loops_empty_a_list_witness:
  "(\<exists>l'. list_for_each_safe (\<lambda>l. l) 0 (\<lambda>x l. Some (list_del_init x l)) three_entries = Some l' \<and> dlist l' 0 []) \<and>
   list_for_each (\<lambda>l. l) 0 (\<lambda>x l. Some (list_del_init x l)) three_entries = None"
  using only_safe_loops_empty_a_list [OF three_entries_list] by auto

end
