(* ===== verification/Cpp_Streams.thy ===== *)
theory Cpp_Streams
  imports Link Cpp_Properties
begin

text \<open>
  Reading an interface of the C++ classes: what the wrappers of \<open>ExternalInterfaceBase\<close> pass on, what the
  C code finds in it, and what an exception of a handler leaves undone.
\<close>

section \<open>What an interface object reads\<close>

text \<open>Handlers of classes outside of the library that leave the lists and the interfaces alone.\<close>

definition outsiders_leave_interfaces :: "'d virtual_functions \<Rightarrow> bool" where
  "outsiders_leave_interfaces vf \<longleftrightarrow>
     (\<forall>k header payload origin w w'. other_handle vf k header payload origin w = Some w' \<longrightarrow>
        links w' = links w \<and> ifaces w' = ifaces w)"

lemma cpp_handlers_leave:
  "outsiders_leave_interfaces vf \<Longrightarrow> handlers_leave_lists (cpp_callbacks cfg vf)"
  unfolding handlers_leave_lists_def outsiders_leave_interfaces_def
  by (auto simp: cpp_callbacks_def handleWrapper_def put_object_def
      split: handler_object.splits sum.splits option.splits prod.splits)

text \<open>
  C24: reading an interface object of the C++ classes. Handlers may throw. If none does, all bytes
  that the device delivered are used, and exactly the packets in them are handled, one after the other. If one
  does, the messages before the one it was called for have been handled completely. A
  paused interface handles nothing, and only the bytes that it passes on are counted as received.
\<close>

theorem interface_object_reads_packets:
  assumes "outsiders_leave_interfaces vf" and "bridge_ok cfg w ids hs" and "i \<in> set ids" and "ei_io (ifaces w i) = i"
    and "readEscapedBytes vf i (NDLCOM_BRIDGE_TEMPORARY_RXBUFFER_SIZE cfg) (outside (env w)) = (delivered, d')"
    and "length delivered \<le> NDLCOM_BRIDGE_TEMPORARY_RXBUFFER_SIZE cfg"
    and "parser_abs cfg (ei_parser (ifaces w i)) d"
    and "bytes = (if paused (interface_objects (env w) i) then [] else delivered)"
    and "e = noteIncomingBytes i (length bytes) ((env w)\<lparr>outside := d'\<rparr>)"
  shows "case ndlcomBridgeProcessExternalInterface cfg (cpp_callbacks cfg vf) i w of
      None \<Rightarrow> stops_at_message cfg (cpp_callbacks cfg vf) i ids hs (fst (packets cfg d bytes)) (w\<lparr>env := e\<rparr>)
    | Some (n, w') \<Rightarrow> n = length bytes \<and>
        message_steps cfg (cpp_callbacks cfg vf) i ids hs (fst (packets cfg d bytes)) (w\<lparr>env := e\<rparr>) w' \<and>
        bridge_ok cfg w' ids hs \<and> parser_abs cfg (ei_parser (ifaces w' i)) (snd (packets cfg d bytes))"
proof -
  have read: "cb_read (cpp_callbacks cfg vf) (ei_io (ifaces w i)) (NDLCOM_BRIDGE_TEMPORARY_RXBUFFER_SIZE cfg) (env w) = (bytes, e)"
    using assms(4,5,8,9) by (simp add: cpp_callbacks_def readWrapper_def Let_def)
  have len: "length bytes \<le> NDLCOM_BRIDGE_TEMPORARY_RXBUFFER_SIZE cfg" using assms(6,8) by simp
  from process_interface_run [OF cpp_handlers_leave [OF assms(1)] assms(2,3) read len assms(7)]
  show ?thesis by auto
qed


definition quiet_functions :: "u8 list virtual_functions" where
  "quiet_functions = \<lparr>writeEscapedBytes = (\<lambda>i bytes d. d), readEscapedBytes = (\<lambda>i count d. (take count d, drop count d)),
     other_handle = (\<lambda>k header payload origin w. None)\<rparr>"

definition objects_reading :: "u8 list \<Rightarrow> u8 list objects" where
  "objects_reading bytes =
     \<lparr>interface_objects = (\<lambda>_. \<lparr>if_label = [], paused = False, rawBytesTx = 0, rawBytesRx = 0\<rparr>),
      handler_objects = (\<lambda>_. Other_object), handler_labels = (\<lambda>_. []), node_labels = (\<lambda>_. []), std_cerr = [], outside = bytes\<rparr>"

lemma interface_object_reads_packets_witness:
  "\<exists>w'. ndlcomBridgeProcessExternalInterface default_config (cpp_callbacks default_config quiet_functions) 0
      (small_world default_config (objects_reading [0x7e])) = Some (1, w') \<and>
    bridge_ok default_config w' [0, 2] [Handler_of_node 0, Free_handler 0]"
proof -
  let ?w = "small_world default_config (objects_reading [0x7e])"
  let ?d = "\<lparr>df_escape = False, df_phase = Collect [], df_fails = 0\<rparr>"
  have vf: "outsiders_leave_interfaces quiet_functions"
    by (simp add: outsiders_leave_interfaces_def quiet_functions_def)
  have size: "1 \<le> NDLCOM_BRIDGE_TEMPORARY_RXBUFFER_SIZE default_config"
    by (simp add: NDLCOM_BRIDGE_TEMPORARY_RXBUFFER_SIZE_def size_defs default_config_def)
  have io: "ei_io (ifaces ?w 0) = 0" and p: "parser_abs default_config (ei_parser (ifaces ?w 0)) ?d"
    and in_list: "0 \<in> set [0 :: nat, 2]"
    by (simp_all add: parser_abs_blank default_config_def)
  have rd: "readEscapedBytes quiet_functions 0 (NDLCOM_BRIDGE_TEMPORARY_RXBUFFER_SIZE default_config) (outside (env ?w)) =
      ([0x7e], [])"
    using size by (simp add: quiet_functions_def objects_reading_def)
  have len: "length [0x7e :: u8] \<le> NDLCOM_BRIDGE_TEMPORARY_RXBUFFER_SIZE default_config" using size by simp
  have np: "paused (interface_objects (env ?w) 0) = False" by (simp add: objects_reading_def)
  have pk: "fst (packets default_config ?d [0x7e]) = []" using packets_flag [of default_config ?d "[]"] by (simp add: NDLCOM_START_STOP_FLAG_def)
  show ?thesis
    using interface_object_reads_packets [OF vf small_world_ok in_list io rd len p refl refl]
    unfolding np if_False pk by (auto simp: stops_at_message_def split: option.splits)
qed

end
