(* ===== verification/Transport.thy ===== *)
theory Transport
  imports Link Pipe_Io Packet_Stream
begin

text \<open>
  From the frames of one bridge through a device to the messages of another: named pipes, CAN and
  TCP are channels, however many reads it takes to empty them.
\<close>

section \<open>Named pipes\<close>

definition pipe_read :: "nat \<Rightarrow> string \<Rightarrow> (u8 list \<times> string) option" where
  "pipe_read count s = (case ExternalInterfacePipe_readEscapedBytes count s of Returns r \<Rightarrow> Some r | _ \<Rightarrow> None)"

text \<open>The text in a pipe: numbers with white space around them.\<close>

inductive pipe_holds :: "string \<Rightarrow> u8 list \<Rightarrow> bool" where
  only_blank: "blank ws \<Longrightarrow> pipe_holds ws []"
| number: "blank ws \<Longrightarrow> pipe_holds t bs \<Longrightarrow> pipe_holds (ws @ print_byte b @ t) (b # bs)"

lemma blank_append: "blank (xs @ ys) \<longleftrightarrow> blank xs \<and> blank ys"
  by (auto simp: blank_def)

lemma pipe_holds_blank: "pipe_holds t bs \<Longrightarrow> blank ws \<Longrightarrow> pipe_holds (ws @ t) bs"
proof (induction rule: pipe_holds.cases)
  case (number ws' t' bs' b)
  then show ?case using pipe_holds.number [of "ws @ ws'" t' bs' b] by (simp add: blank_append)
qed (simp add: blank_append pipe_holds.only_blank)

lemma pipe_holds_bytes: "pipe_holds t cs \<Longrightarrow> pipe_holds (concat (map print_byte bs) @ t) (bs @ cs)"
  by (induction bs) (use pipe_holds.number [of "[]"] in \<open>auto simp: blank_def\<close>)

lemma pipe_holds_messages: "pipe_holds (concat (map ExternalInterfacePipe_writeEscapedBytes msgs)) (concat msgs)"
proof (induction msgs)
  case (Cons m msgs)
  have "blank endl" by (simp add: blank_def endl_def isspace_def)
  from pipe_holds_bytes [OF pipe_holds_blank [OF Cons.IH this], of m] show ?case
    by (simp add: ExternalInterfacePipe_writeEscapedBytes_def)
qed (simp add: pipe_holds.only_blank blank_def)

inductive_simps pipe_holds_Nil: "pipe_holds s []"
inductive_cases pipe_holds_ConsE: "pipe_holds s (b # bs)"

lemma pipe_read_loop_holds:
  assumes "pipe_holds s bytes" and "length buf \<le> count"
  shows "\<exists>t. pipe_read_loop count buf s = Returns (buf @ take (count - length buf) bytes, t) \<and>
    pipe_holds t (drop (count - length buf) bytes)"
  using assms
proof (induction bytes arbitrary: buf s rule: list.induct)
  case Nil
  then have ws: "blank s" by (auto simp: pipe_holds_Nil)
  then have "dropWhile isspace s = []" by (simp add: blank_def)
  then have "scan s = (Scan_eof, [])" by (simp add: scan_def del: dropWhile_eq_Nil_conv)
  then show ?case
    using ws pipe_holds.only_blank [of s] pipe_holds.only_blank [of "[]"]
    by (subst pipe_read_loop.simps) (simp add: blank_def)
next
  case (Cons b bs)
  from Cons.prems(1) obtain ws t where s: "s = ws @ print_byte b @ t" "blank ws" "pipe_holds t bs"
    by (rule pipe_holds_ConsE)
  show ?case
  proof (cases "length buf < count")
    case True
    have t: "pipe_holds ('' '' @ t) bs" using s(3) by (rule pipe_holds_blank) (simp add: blank_def isspace_def)
    have step: "pipe_read_loop count buf s = pipe_read_loop count (buf @ [b]) ('' '' @ t)"
      using True scan_print_byte [OF s(2), of b t] unfolding s(1) by (subst pipe_read_loop.simps) simp
    obtain k where "count - length buf = Suc k" "count - Suc (length buf) = k" using True by (cases "count - length buf") auto
    then show ?thesis using Cons.IH [OF t, of "buf @ [b]"] True unfolding step by simp
  next
    case False
    then show ?thesis using Cons.prems by (subst pipe_read_loop.simps) simp
  qed
qed

interpretation pipe: channel pipe_read pipe_holds "\<lambda>count. 0 < count"
proof
  fix s bytes and count :: nat
  assume s: "pipe_holds s bytes" "bytes \<noteq> []" "0 < count"
  obtain t where t: "pipe_read count s = Some (take count bytes, t)" "pipe_holds t (drop count bytes)"
    using pipe_read_loop_holds [OF s(1), of "[]" count]
    by (auto simp: pipe_read_def ExternalInterfacePipe_readEscapedBytes_def)
  then show "\<exists>xs ys m'. pipe_read count s = Some (xs, m') \<and> xs \<noteq> [] \<and> bytes = xs @ ys \<and> length xs \<le> count \<and> pipe_holds m' ys"
    using s(2,3) by (intro exI [of _ "take count bytes"] exI [of _ "drop count bytes"] exI [of _ t]) auto
qed

section \<open>TCP\<close>

text \<open>The answers of \<open>recv\<close>: chunks of at most \<open>most\<close> bytes, and interruptions.\<close>

inductive tcp_holds :: "nat \<Rightarrow> recv_answer list \<Rightarrow> u8 list \<Rightarrow> bool"
  for most where
  nothing: "tcp_holds most answers []"
| chunk: "chunk \<noteq> [] \<Longrightarrow> length chunk \<le> most \<Longrightarrow> tcp_holds most answers bs \<Longrightarrow>
    tcp_holds most (Received chunk # answers) (chunk @ bs)"
| interrupted: "tcp_holds most answers bs \<Longrightarrow> tcp_holds most (Recv_error EINTR # answers) bs"

definition tcp_read :: "nat \<Rightarrow> recv_answer list \<Rightarrow> (u8 list \<times> recv_answer list) option" where
  "tcp_read count answers =
     (case ExternalInterfaceTcpClient_readEscapedBytes answers of Returns r \<Rightarrow> Some r | _ \<Rightarrow> None)"

lemma tcp_read_holds:
  "tcp_holds most answers bytes \<Longrightarrow> bytes \<noteq> [] \<Longrightarrow>
    \<exists>xs ys m'. tcp_read count answers = Some (xs, m') \<and> xs \<noteq> [] \<and> bytes = xs @ ys \<and> length xs \<le> most \<and> tcp_holds most m' ys"
  by (induction rule: tcp_holds.induct) (auto simp: tcp_read_def)

interpretation tcp: channel tcp_read "tcp_holds most" "\<lambda>count. most \<le> count"
proof
  fix answers bytes and count :: nat
  assume a: "tcp_holds most answers bytes" "bytes \<noteq> []" "most \<le> count"
  from tcp_read_holds [OF a(1,2), of count] obtain xs ys m' where r: "tcp_read count answers = Some (xs, m')" "xs \<noteq> []"
    "bytes = xs @ ys" "length xs \<le> most" "tcp_holds most m' ys" by blast
  have "length xs \<le> count" using r(4) a(3) by simp
  with r show "\<exists>xs ys m'. tcp_read count answers = Some (xs, m') \<and> xs \<noteq> [] \<and> bytes = xs @ ys \<and> length xs \<le> count \<and> tcp_holds most m' ys"
    by blast
qed

section \<open>CAN\<close>

text \<open>Frames with data, and then nothing more for now.\<close>

definition can_holds :: "can_answer list \<Rightarrow> u8 list \<Rightarrow> bool" where
  "can_holds answers bytes \<longleftrightarrow> bytes = [] \<or>
     (\<exists>n fs. answers = map (Can_frame n) fs @ [Can_error EAGAIN] \<and> bytes = concat (map can_payload fs) \<and>
        (n = sizeof_can_frame \<or> n = sizeof_canfd_frame) \<and>
        (\<forall>f \<in> set fs. length (frame_data f) = 64 \<and> 0 < unat (frame_len f) \<and> unat (frame_len f) \<le> 64))"

definition can_read :: "nat \<Rightarrow> can_answer list \<Rightarrow> (u8 list \<times> can_answer list) option" where
  "can_read count answers =
     (case ExternalInterfaceCan_readEscapedBytes (replicate count 0) answers of
        Returns (n, buf, answers) \<Rightarrow> Some (take n buf, answers) | _ \<Rightarrow> None)"

lemma can_read_some_frames:
  assumes "length buf < 2 ^ 64" and "a \<le> length buf" and "64 < length buf"
    and "\<forall>f \<in> set fs. length (frame_data f) = 64 \<and> 0 < unat (frame_len f) \<and> unat (frame_len f) \<le> 64"
    and "n = sizeof_can_frame \<or> n = sizeof_canfd_frame"
  shows "\<exists>buf' gs rest answers. can_read_loop (length buf) buf a (map (Can_frame n) fs @ [Can_error EAGAIN]) =
      Returns (a + length (concat (map can_payload gs)), buf', answers) \<and> fs = gs @ rest \<and>
    length buf' = length buf \<and> a + length (concat (map can_payload gs)) \<le> length buf \<and>
    take (a + length (concat (map can_payload gs))) buf' = take a buf @ concat (map can_payload gs) \<and>
    (rest = [] \<or> answers = map (Can_frame n) rest @ [Can_error EAGAIN]) \<and> (gs = [] \<longrightarrow> fs = [] \<or> length buf \<le> a + 64)"
  using assms
proof (induction fs arbitrary: buf a)
  case Nil
  show ?case
    using Nil by (subst can_read_loop.simps) (auto simp: size_t_minus_le sizeof_frame_data_def intro!: exI [of _ "[]"])
next
  case (Cons f fs)
  show ?case
  proof (cases "a < length buf - 64")
    case False
    then have "can_read_loop (length buf) buf a (map (Can_frame n) (f # fs) @ [Can_error EAGAIN]) =
        Returns (a, buf, map (Can_frame n) (f # fs) @ [Can_error EAGAIN])"
      using Cons.prems(1,3) by (subst can_read_loop.simps) (simp add: size_t_minus_le sizeof_frame_data_def)
    with False Cons.prems(2) show ?thesis
      by - (rule exI [of _ buf], rule exI [of _ "[]"], rule exI [of _ "f # fs"],
          rule exI [of _ "map (Can_frame n) (f # fs) @ [Can_error EAGAIN]"], simp)
  next
    case True
    have f: "length (frame_data f) = 64" "unat (frame_len f) \<le> 64" and room: "a + 64 < length buf" using Cons.prems(4) True by simp_all
    have p: "length (can_payload f) = unat (frame_len f)" using f by (simp add: can_payload_def)
    obtain buf1 where buf1: "length buf1 = length buf" "take (a + unat (frame_len f)) buf1 = take a buf @ can_payload f"
      "\<And>answers. can_read_loop (length buf) buf a (Can_frame n f # answers) =
        can_read_loop (length buf1) buf1 (a + unat (frame_len f)) answers"
      using can_read_one_frame [OF Cons.prems(1) room f Cons.prems(5)] by metis
    have "length buf1 < 2 ^ 64" "a + unat (frame_len f) \<le> length buf1" "64 < length buf1"
      "\<forall>f \<in> set fs. length (frame_data f) = 64 \<and> 0 < unat (frame_len f) \<and> unat (frame_len f) \<le> 64"
      using Cons.prems(1,3,4) room f buf1(1) by simp_all
    from Cons.IH [OF this Cons.prems(5)] obtain buf' gs rest answers where r:
      "can_read_loop (length buf1) buf1 (a + unat (frame_len f)) (map (Can_frame n) fs @ [Can_error EAGAIN]) =
        Returns (a + unat (frame_len f) + length (concat (map can_payload gs)), buf', answers)" "fs = gs @ rest"
      "length buf' = length buf1" "a + unat (frame_len f) + length (concat (map can_payload gs)) \<le> length buf1"
      "take (a + unat (frame_len f) + length (concat (map can_payload gs))) buf' =
        take (a + unat (frame_len f)) buf1 @ concat (map can_payload gs)"
      "rest = [] \<or> answers = map (Can_frame n) rest @ [Can_error EAGAIN]" by blast
    then show ?thesis
      by - (rule exI [of _ buf'], rule exI [of _ "f # gs"], rule exI [of _ rest], rule exI [of _ answers],
          simp add: buf1 p add.assoc)
  qed
qed

lemma can_read_holds:
  assumes "can_holds answers bytes" and "bytes \<noteq> []" and "64 < count" and "count < 2 ^ 64"
  shows "\<exists>xs ys m'. can_read count answers = Some (xs, m') \<and> xs \<noteq> [] \<and> bytes = xs @ ys \<and> length xs \<le> count \<and> can_holds m' ys"
proof -
  obtain n fs where a: "answers = map (Can_frame n) fs @ [Can_error EAGAIN]" "bytes = concat (map can_payload fs)"
    "n = sizeof_can_frame \<or> n = sizeof_canfd_frame"
    "\<forall>f \<in> set fs. length (frame_data f) = 64 \<and> 0 < unat (frame_len f) \<and> unat (frame_len f) \<le> 64"
    using assms(1,2) by (auto simp: can_holds_def)
  have buf: "length (replicate count (0 :: u8)) < 2 ^ 64" "0 \<le> length (replicate count (0 :: u8))"
    "64 < length (replicate count (0 :: u8))" using assms(3,4) by simp_all
  from can_read_some_frames [OF buf a(4,3)] obtain buf' gs rest answers' where g:
    "can_read_loop (length (replicate count (0 :: u8))) (replicate count 0) 0 (map (Can_frame n) fs @ [Can_error EAGAIN]) =
      Returns (0 + length (concat (map can_payload gs)), buf', answers')"
    "fs = gs @ rest" "0 + length (concat (map can_payload gs)) \<le> length (replicate count (0 :: u8))"
    "take (0 + length (concat (map can_payload gs))) buf' = take 0 (replicate count 0) @ concat (map can_payload gs)"
    "rest = [] \<or> answers' = map (Can_frame n) rest @ [Can_error EAGAIN]"
    "gs = [] \<longrightarrow> fs = [] \<or> length (replicate count (0 :: u8)) \<le> 0 + 64"
    by (elim exE conjE) (rule that)
  note r = g(1) [folded a(1), unfolded length_replicate add_0] g(2) g(3,4) [unfolded length_replicate add_0 take_0 append_Nil] g(5)
    g(6) [unfolded length_replicate add_0]
  have "gs \<noteq> []" using r(6) assms(2,3) a(2) by auto
  then have "concat (map can_payload gs) \<noteq> []"
    using a(4) r(2) by (cases gs) (auto simp: can_payload_def)
  moreover have "can_holds answers' (concat (map can_payload rest))"
    using r(5) a(3,4) r(2) by (auto simp: can_holds_def)
  ultimately show ?thesis
    using r a(2) by (intro exI [of _ "concat (map can_payload gs)"] exI [of _ "concat (map can_payload rest)"] exI [of _ answers'])
      (simp add: can_read_def ExternalInterfaceCan_readEscapedBytes_def)
qed


interpretation can: channel can_read can_holds "\<lambda>count. 64 < count \<and> count < 2 ^ 64"
  by unfold_locales (use can_read_holds in blast)


section \<open>Messages over a channel\<close>

context channel
begin

lemma messages_cross:
  assumes "handlers_return cb ids" and "bridge_ok cfg w ids hs" and "i \<in> set ids"
    and "reads_channel read chan (ei_io (ifaces w i)) (NDLCOM_BRIDGE_TEMPORARY_RXBUFFER_SIZE cfg) cb"
    and "enough (NDLCOM_BRIDGE_TEMPORARY_RXBUFFER_SIZE cfg)"
    and "\<forall>m \<in> set ms. sendable cfg m" and "\<not> big_endian cfg'"
    and "holds (chan (env w)) (concat (map (\<lambda>(h, pl). frame cfg' h pl) ms))"
  shows "\<exists>k w'. read_calls cfg cb i k w = Some (concat (map (\<lambda>(h, pl). frame cfg' h pl) ms), w') \<and>
    reads_handled cfg cb i ids hs ms w w' \<and> bridge_ok cfg w' ids hs \<and> holds (chan (env w')) []"
proof -
  obtain k w' where w': "read_calls cfg cb i k w = Some (concat (map (\<lambda>(h, pl). frame cfg' h pl) ms), w')"
    "holds (chan (env w')) []"
    using read_calls_drain [OF assms(1-5,8)] by blast
  obtain d where d: "parser_abs cfg (ei_parser (ifaces w i)) d"
    using assms(2,3) by (auto simp: bridge_ok_def parser_wf_def)
  from read_calls_handled [OF handlers_return_leave [OF assms(1)] assms(2,3) d w'(1)] show ?thesis
    using w' unfolding packets_frames [OF assms(6,7)] by auto
qed

end

text \<open>
  C9: messages cross a pipe. Messages that were written as frames into a named pipe, each by
  one call of the write function, are handled by the bridge that reads the pipe at the other end: exactly these
  messages, in their order, however many reads of its buffer this takes; and then nothing is left to read.
\<close>

theorem messages_cross_a_pipe:
  assumes "handlers_return cb ids" and "bridge_ok cfg w ids hs" and "i \<in> set ids"
    and "reads_channel pipe_read chan (ei_io (ifaces w i)) (NDLCOM_BRIDGE_TEMPORARY_RXBUFFER_SIZE cfg) cb"
    and "\<forall>m \<in> set ms. sendable cfg m" and "\<not> big_endian cfg'"
    and "chan (env w) = concat (map (\<lambda>(h, pl). ExternalInterfacePipe_writeEscapedBytes (frame cfg' h pl)) ms)"
  shows "\<exists>k w'. read_calls cfg cb i k w = Some (concat (map (\<lambda>(h, pl). frame cfg' h pl) ms), w') \<and>
    reads_handled cfg cb i ids hs ms w w' \<and> bridge_ok cfg w' ids hs \<and> blank (chan (env w'))"
proof -
  have size: "0 < NDLCOM_BRIDGE_TEMPORARY_RXBUFFER_SIZE cfg"
    by (simp add: NDLCOM_BRIDGE_TEMPORARY_RXBUFFER_SIZE_def size_defs)
  have "pipe_holds (chan (env w)) (concat (map (\<lambda>(h, pl). frame cfg' h pl) ms))"
    using pipe_holds_messages [of "map (\<lambda>(h, pl). frame cfg' h pl) ms"] unfolding assms(7)
    by (simp add: comp_def case_prod_unfold)
  from pipe.messages_cross [OF assms(1-4) size assms(5,6) this] show ?thesis
    by (auto simp: pipe_holds_Nil)
qed

text \<open>A bridge whose endpoint 0 is a pipe; the environment is the text in it.\<close>

definition pipe_callbacks :: "string callbacks" where
  "pipe_callbacks =
     \<lparr>cb_write = (\<lambda>io bytes e. e),
      cb_read = (\<lambda>io n e. if io = 0 then (case pipe_read n e of Some r \<Rightarrow> r | None \<Rightarrow> ([], e)) else ([], e)),
      cb_handler = (\<lambda>k header payload origin w. Some w)\<rparr>"

lemma pipe_callbacks_read: "reads_channel pipe_read (\<lambda>e. e) 0 count pipe_callbacks"
  by (auto simp: reads_channel_def pipe_callbacks_def handlers_preserve_def)

lemma messages_cross_a_pipe_witness:
  "\<exists>k w'. read_calls default_config pipe_callbacks 0 k (small_world default_config
      (concat (map ExternalInterfacePipe_writeEscapedBytes (replicate 100 (frame default_config
        \<lparr>mReceiverId = 5, mSenderId = 9, mCounter = 0, mDataLen = 2\<rparr> [0x7e, 1]))))) =
    Some (concat (replicate 100 (frame default_config \<lparr>mReceiverId = 5, mSenderId = 9, mCounter = 0, mDataLen = 2\<rparr> [0x7e, 1])), w')"
proof -
  let ?m = "(\<lparr>mReceiverId = 5, mSenderId = 9, mCounter = 0, mDataLen = 2\<rparr>, [0x7e, 1 :: u8])"
  let ?e = "concat (map (\<lambda>(h, pl). ExternalInterfacePipe_writeEscapedBytes (frame default_config h pl)) (replicate 100 ?m))"
  have keep: "handlers_keep_lists pipe_callbacks" by (simp add: handlers_keep_lists_def pipe_callbacks_def)
  have io: "ei_io (ifaces (small_world default_config ?e) 0) = 0" and in_list: "0 \<in> set [0 :: nat, 2]" by simp_all
  have rd: "reads_channel pipe_read (\<lambda>e. e) (ei_io (ifaces (small_world default_config ?e) 0))
      (NDLCOM_BRIDGE_TEMPORARY_RXBUFFER_SIZE default_config) pipe_callbacks"
    unfolding io by (rule pipe_callbacks_read)
  have ok: "\<forall>m \<in> set (replicate 100 ?m). sendable default_config m" "\<not> big_endian default_config"
    by (simp_all add: sendable_def default_config_def)
  show ?thesis
    using messages_cross_a_pipe [OF handlers_keep_return [OF keep] small_world_ok in_list rd ok] by auto
qed

text \<open>
  C10: messages cross a CAN bus. Messages whose frames were cut into CAN frames, of 8 or 64 bytes, by
  calls of the write function that returned, are handled by the bridge that reads these frames at the other end:
  exactly these messages, in their order, if its buffer has more than 64 bytes.
\<close>

theorem messages_cross_a_can_bus:
  assumes "handlers_return cb ids" and "bridge_ok cfg w ids hs" and "i \<in> set ids"
    and "reads_channel can_read chan (ei_io (ifaces w i)) (NDLCOM_BRIDGE_TEMPORARY_RXBUFFER_SIZE cfg) cb"
    and "64 < NDLCOM_BRIDGE_TEMPORARY_RXBUFFER_SIZE cfg" and "NDLCOM_BRIDGE_TEMPORARY_RXBUFFER_SIZE cfg < 2 ^ 64"
    and "\<forall>m \<in> set ms. sendable cfg m" and "\<not> big_endian cfg'"
    and "mtu = 8 \<or> mtu = 64" and "length junk = 64" and "n = sizeof_can_frame \<or> n = sizeof_canfd_frame"
    and "list_all2 (\<lambda>(h, pl) fs. \<exists>answers.
      ExternalInterfaceCan_writeEscapedBytes mtu junk (frame cfg' h pl) answers = Returns fs) ms sent"
    and "chan (env w) = map (Can_frame n) (concat sent) @ [Can_error EAGAIN]"
  shows "\<exists>k w'. read_calls cfg cb i k w = Some (concat (map (\<lambda>(h, pl). frame cfg' h pl) ms), w') \<and>
    reads_handled cfg cb i ids hs ms w w' \<and> bridge_ok cfg w' ids hs"
proof -
  have one: "concat (map can_payload fs) = frame cfg' h pl \<and> (\<forall>f \<in> set fs. can_chunk mtu f)"
    if "ExternalInterfaceCan_writeEscapedBytes mtu junk (frame cfg' h pl) answers = Returns fs" for h pl fs answers
  proof -
    have "can_sent_ok mtu (frame cfg' h pl) (length (frame cfg' h pl) - 0) answers (Returns fs)"
      using can_write_loop_sent [where m = mtu and a = 0 and buf = "frame cfg' h pl" and
          frame = "\<lparr>frame_len = of_nat mtu, frame_data = junk\<rparr>" and sent = "[]" and answers = answers]
        that assms(9,10) by (auto simp: unat_of_nat ExternalInterfaceCan_writeEscapedBytes_def)
    then show ?thesis by (auto simp: can_sent_ok_def)
  qed
  have all: "concat (map can_payload (concat sent)) = concat (map (\<lambda>(h, pl). frame cfg' h pl) ms) \<and>
      (\<forall>f \<in> set (concat sent). can_chunk mtu f)"
    using assms(12) by (induction rule: list_all2_induct) (auto dest!: one)
  then have "can_holds (chan (env w)) (concat (map (\<lambda>(h, pl). frame cfg' h pl) ms))"
    using assms(9,11,13) by (fastforce simp: can_holds_def can_chunk_def)
  from can.messages_cross [OF assms(1-4) conjI [OF assms(5,6)] assms(7,8) this] show ?thesis by blast
qed


lemma messages_cross_a_can_bus_witness:
  "\<exists>k w'. read_calls default_config
      \<lparr>cb_write = (\<lambda>io bytes e. e), cb_read = (\<lambda>io n e. if io = 0 then (case can_read n e of Some r \<Rightarrow> r | None \<Rightarrow> ([], e)) else ([], e)),
       cb_handler = (\<lambda>k header payload origin w. Some w)\<rparr> 0 k
      (small_world default_config (map (Can_frame 16) (case ExternalInterfaceCan_writeEscapedBytes 8 (replicate 64 0)
          (frame default_config \<lparr>mReceiverId = 5, mSenderId = 9, mCounter = 0, mDataLen = 2\<rparr> [0x7e, 1])
          [None, Some EINTR, None, None] of Returns fs \<Rightarrow> fs | _ \<Rightarrow> []) @ [Can_error EAGAIN])) =
    Some (frame default_config \<lparr>mReceiverId = 5, mSenderId = 9, mCounter = 0, mDataLen = 2\<rparr> [0x7e, 1], w')"
proof -
  let ?h = "\<lparr>mReceiverId = 5, mSenderId = 9, mCounter = 0, mDataLen = 2\<rparr>"
  let ?cb = "\<lparr>cb_write = (\<lambda>io bytes e. e),
      cb_read = (\<lambda>io n e. if io = (0 :: nat) then (case can_read n e of Some r \<Rightarrow> r | None \<Rightarrow> ([], e)) else ([], e)),
      cb_handler = (\<lambda>k header payload origin w. Some w)\<rparr>"
  let ?f = "frame default_config ?h [0x7e, 1]"
  let ?r = "ExternalInterfaceCan_writeEscapedBytes 8 (replicate 64 0) ?f [None, Some EINTR, None, None]"
  have "length ?f \<le> 24" using length_frame_le [of default_config ?h "[0x7e, 1]"] by simp
  then have "accepts 8 (length ?f - 0) [None, Some EINTR, None, None]" by (simp add: accepts_def)
  then obtain fs where fs: "?r = Returns fs"
    using can_write_loop_sent [where m = 8 and a = 0 and buf = ?f and
        frame = "\<lparr>frame_len = of_nat 8, frame_data = replicate 64 0\<rparr>" and sent = "[]" and answers = "[None, Some EINTR, None, None]"]
    by (auto simp: can_sent_ok_def ExternalInterfaceCan_writeEscapedBytes_def)
  let ?e = "map (Can_frame 16) (concat [fs]) @ [Can_error EAGAIN]"
  have keep: "handlers_keep_lists ?cb" by (simp add: handlers_keep_lists_def)
  have in_list: "0 \<in> set [0 :: nat, 2]" by simp
  have rd: "reads_channel can_read (\<lambda>e. e) (ei_io (ifaces (small_world default_config ?e) 0))
      (NDLCOM_BRIDGE_TEMPORARY_RXBUFFER_SIZE default_config) ?cb"
    by (auto simp: reads_channel_def handlers_preserve_def)
  have size: "64 < NDLCOM_BRIDGE_TEMPORARY_RXBUFFER_SIZE default_config" "NDLCOM_BRIDGE_TEMPORARY_RXBUFFER_SIZE default_config < 2 ^ 64"
    by (simp_all add: NDLCOM_BRIDGE_TEMPORARY_RXBUFFER_SIZE_def size_defs default_config_def)
  have ok: "\<forall>m \<in> set [(?h, [0x7e, 1])]. sendable default_config m" "\<not> big_endian default_config"
    by (simp_all add: sendable_def default_config_def)
  have mtu: "(8 :: nat) = 8 \<or> (8 :: nat) = 64" "length (replicate 64 (0 :: u8)) = 64" "16 = sizeof_can_frame \<or> 16 = sizeof_canfd_frame"
    by (simp_all add: sizeof_can_frame_def)
  have sent: "list_all2 (\<lambda>(h, pl) fs. \<exists>answers. ExternalInterfaceCan_writeEscapedBytes 8 (replicate 64 0)
      (frame default_config h pl) answers = Returns fs) [(?h, [0x7e, 1])] [fs]"
    using fs by auto
  show ?thesis
    using messages_cross_a_can_bus [OF handlers_keep_return [OF keep] small_world_ok in_list rd size ok mtu sent] fs by auto
qed

end
