(* ===== verification/World_Types.thy ===== *)
theory World_Types
  imports Process_Keeps Example_World
begin

text \<open>
  The sizes of the arrays. In C the size of an array is part of its type; here the arrays are lists,
  and \<open>world_typed\<close> says that they have the sizes of the types, and that the fill counts of the parsers stay
  within them. Every function of the library keeps this, in whatever order they are called.
\<close>

section \<open>Typed worlds\<close>

definition world_typed :: "config \<Rightarrow> 'e world \<Rightarrow> bool" where
  "world_typed cfg w \<longleftrightarrow> routing_wf cfg (routingTable w) \<and>
     (\<forall>i. parser_wf cfg (ei_parser (ifaces w i))) \<and>
     (\<forall>n. length (mCounterForReceiver (headerConfig (nodes w n))) = NDLCOM_MAX_NUMBER_OF_DEVICES cfg)"

text \<open>The calls of the C interface of the library. An interface of the application may act in between.\<close>

inductive api_call :: "config \<Rightarrow> 'e callbacks \<Rightarrow> 'e world \<Rightarrow> 'e world \<Rightarrow> bool" for cfg cb where
  iface_init: "api_call cfg cb w (ndlcomExternalInterfaceInit cfg i io flags w)"
| iface_flags: "api_call cfg cb w (ndlcomExternalInterfaceSetFlags i flags w)"
| iface_route: "api_call cfg cb w (ndlcomExternalInterfaceSetRoutingForDeviceId cfg i deviceId w)"
| handler_init: "api_call cfg cb w (ndlcomBridgeHandlerInit h f flags w)"
| handler_flags: "api_call cfg cb w (ndlcomBridgeHandlerSetFlags h flags w)"
| node_handler_init: "api_call cfg cb w (ndlcomNodeHandlerInit k f flags w)"
| node_handler_flags: "api_call cfg cb w (ndlcomNodeHandlerSetFlags k flags w)"
| bridge_init: "api_call cfg cb w (ndlcomBridgeInit cfg w)"
| bridge_flags: "api_call cfg cb w (ndlcomBridgeSetFlags flags w)"
| bridge_route: "api_call cfg cb w (ndlcomBridgeAddRoutingInformationForDeviceId cfg deviceId i w)"
| bridge_mark: "api_call cfg cb w (ndlcomBridgeMarkDeviceIdAsInternal cfg deviceId w)"
| bridge_clear: "api_call cfg cb w (ndlcomBridgeClearInternalDeviceId cfg deviceId w)"
| register_handler: "ndlcomBridgeRegisterBridgeHandler h w = Some w' \<Longrightarrow> api_call cfg cb w w'"
| deregister_handler: "ndlcomBridgeDeregisterBridgeHandler h w = Some w' \<Longrightarrow> api_call cfg cb w w'"
| register_iface: "ndlcomBridgeRegisterExternalInterface i w = Some w' \<Longrightarrow> api_call cfg cb w w'"
| deregister_iface: "ndlcomBridgeDeregisterExternalInterface cfg i w = Some w' \<Longrightarrow> api_call cfg cb w w'"
| node_init: "api_call cfg cb w (ndlcomNodeInit n ownSenderId w)"
| register_node: "ndlcomNodeRegister cfg n w = Some w' \<Longrightarrow> api_call cfg cb w w'"
| deregister_node: "ndlcomNodeDeregister cfg n w = Some w' \<Longrightarrow> api_call cfg cb w w'"
| node_id: "ndlcomNodeSetOwnSenderId cfg n ownSenderId w = Some w' \<Longrightarrow> api_call cfg cb w w'"
| register_node_handler: "api_call cfg cb w (ndlcomNodeRegisterNodeHandler n k w)"
| deregister_node_handler: "api_call cfg cb w (ndlcomNodeDeregisterNodeHandler n k w)"
| node_send: "ndlcomNodeSend cfg cb junk n receiverId payload payloadSize w = Some w' \<Longrightarrow> api_call cfg cb w w'"
| send_raw: "ndlcomBridgeSendRaw cfg cb header payload w = Some w' \<Longrightarrow> api_call cfg cb w w'"
| process_iface: "ndlcomBridgeProcessExternalInterface cfg cb i w = Some (k, w') \<Longrightarrow> api_call cfg cb w w'"
| process_once: "ndlcomBridgeProcessOnce cfg cb w = Some (k, w') \<Longrightarrow> api_call cfg cb w w'"
| process: "ndlcomBridgeProcess cfg cb w = Some (k, w') \<Longrightarrow> api_call cfg cb w w'"
| outside: "api_call cfg cb w (w\<lparr>env := e\<rparr>)"

section \<open>Every call keeps the types\<close>

lemma parser_wf_destroyed: "parser_wf cfg p \<Longrightarrow> parser_wf cfg (ndlcomParserDestroyPacket p)"
  using parser_abs_destroyed [of p cfg] parser_abs_lengths [of cfg p] by (auto simp: parser_wf_def)

lemma parser_wf_created:
  assumes "parser_wf cfg p" and "ndlcomParserCreate cfg (Some p) size_of = Some p'"
  shows "parser_wf cfg p'"
proof -
  have "length (mHeader_raw p) = 4 \<and> length (mpData p) = NDLCOM_MAX_PAYLOAD_SIZE cfg"
    using assms(1) parser_abs_lengths by (auto simp: parser_wf_def)
  then have "parser_abs cfg (ndlcomParserResetNumberOfCRCFails (ndlcomParserDestroyPacket p))
      \<lparr>df_escape = False, df_phase = Collect [], df_fails = 0\<rparr>"
    by (simp add: parser_abs_def ndlcomParserResetNumberOfCRCFails_def ndlcomParserDestroyPacket_def collecting_def)
  then show ?thesis using assms(2) by (auto simp: ndlcomParserCreate_def parser_wf_def split: if_splits)
qed

lemma parser_wf_received:
  assumes "parser_wf cfg p" and "ndlcomParserReceive cfg p bytes = Some (p', n)"
  shows "parser_wf cfg p'"
  using receive_loop_wf [OF assms(1), of 0 bytes] assms(2) by (simp add: ndlcomParserReceive_def)

lemma typed_upd [simp]:
  "world_typed cfg (upd_links g w) = world_typed cfg w"
  "world_typed cfg (upd_handler h gh w) = world_typed cfg w"
  "world_typed cfg (upd_nodeHandler k gk w) = world_typed cfg w"
  "world_typed cfg (w\<lparr>env := e\<rparr>) = world_typed cfg w"
  "world_typed cfg (w\<lparr>bridge_flags := f\<rparr>) = world_typed cfg w"
  "world_typed cfg (iface_write cb i bytes w) = world_typed cfg w"
  by (simp_all add: world_typed_def upd_defs iface_write_def)

lemma typed_parser: "world_typed cfg w \<Longrightarrow> parser_wf cfg (g (ei_parser (ifaces w i))) \<Longrightarrow>
    world_typed cfg (upd_iface i (ei_parser_update g) w)"
  by (simp add: world_typed_def upd_iface_def)

lemma typed_iface: "world_typed cfg w \<Longrightarrow> (\<And>x. ei_parser (g x) = ei_parser x) \<Longrightarrow> world_typed cfg (upd_iface i g w)"
  by (simp add: world_typed_def upd_iface_def)

lemma typed_node: "world_typed cfg w \<Longrightarrow>
    length (mCounterForReceiver (headerConfig (g (nodes w n)))) = NDLCOM_MAX_NUMBER_OF_DEVICES cfg \<Longrightarrow>
    world_typed cfg (upd_node n g w)"
  by (simp add: world_typed_def upd_node_def)

lemma typed_table: "world_typed cfg w \<Longrightarrow> routing_wf cfg t \<Longrightarrow> world_typed cfg (w\<lparr>routingTable := t\<rparr>)"
  by (simp add: world_typed_def)

lemma typed_parts:
  "world_typed cfg w \<Longrightarrow> parser_wf cfg (ei_parser (ifaces w i))"
  "world_typed cfg w \<Longrightarrow> routing_wf cfg (routingTable w)"
  "world_typed cfg w \<Longrightarrow> length (mCounterForReceiver (headerConfig (nodes w n))) = NDLCOM_MAX_NUMBER_OF_DEVICES cfg"
  by (simp_all add: world_typed_def)

lemma typed_learn: "world_typed cfg w \<Longrightarrow> world_typed cfg (learn_sender cfg i header w)"
  by (simp add: learn_sender_def typed_table typed_parts rt.wf_learn)

lemma typed_run: "handlers_preserve cb (world_typed cfg) \<Longrightarrow> run_invariant cfg cb (world_typed cfg)"
  unfolding run_invariant_def message_invariant_def
  by (auto intro: typed_learn typed_parser parser_wf_received parser_wf_destroyed typed_parts)

lemma typed_prepared: "world_typed cfg w \<Longrightarrow>
    world_typed cfg (upd_node n (headerConfig_update (\<lambda>c. ndlcomHeaderPrepareInit c ownSenderId)) w)"
  by (rule typed_node) (simp_all add: ndlcomHeaderPrepareInit_def typed_parts memset_def)

lemma typed_routes:
  assumes "world_typed cfg w"
  shows "world_typed cfg (ndlcomBridgeAddRoutingInformationForDeviceId cfg deviceId i w)"
    and "world_typed cfg (ndlcomBridgeMarkDeviceIdAsInternal cfg deviceId w)"
    and "world_typed cfg (ndlcomBridgeClearInternalDeviceId cfg deviceId w)"
  using assms
  by (simp_all add: ndlcomBridgeAddRoutingInformationForDeviceId_def ndlcomBridgeMarkDeviceIdAsInternal_def
      ndlcomBridgeClearInternalDeviceId_def typed_table typed_parts rt.wf_learn)

lemma typed_registered:
  "ndlcomBridgeRegisterBridgeHandler h w = Some w' \<Longrightarrow> world_typed cfg w \<Longrightarrow> world_typed cfg w'"
  "ndlcomBridgeDeregisterBridgeHandler h w = Some w' \<Longrightarrow> world_typed cfg w \<Longrightarrow> world_typed cfg w'"
  "ndlcomBridgeRegisterExternalInterface i w = Some w' \<Longrightarrow> world_typed cfg w \<Longrightarrow> world_typed cfg w'"
  "ndlcomBridgeDeregisterExternalInterface cfg i w = Some w' \<Longrightarrow> world_typed cfg w \<Longrightarrow> world_typed cfg w'"
  by (auto simp: ndlcomBridgeRegisterBridgeHandler_def ndlcomBridgeDeregisterBridgeHandler_def
      ndlcomBridgeRegisterExternalInterface_def ndlcomBridgeDeregisterExternalInterface_def Let_def
      split: if_splits Option.bind_splits intro!: typed_iface typed_table rt.wf_forget intro: typed_parts)

lemma typed_send:
  assumes "ndlcomNodeSend cfg cb junk n receiverId payload payloadSize w = Some w'" and "world_typed cfg w"
    and "run_invariant cfg cb (world_typed cfg)"
  shows "world_typed cfg w'"
proof -
  obtain c header where c: "ndlcomHeaderPrepare cfg (headerConfig (nodes w n)) junk receiverId (of_nat payloadSize) = (c, header)"
    by fastforce
  have "length (mCounterForReceiver c) = NDLCOM_MAX_NUMBER_OF_DEVICES cfg"
    using c typed_parts(3) [OF assms(2), of n] by (auto simp: ndlcomHeaderPrepare_def Let_def split: if_splits)
  then have "world_typed cfg (upd_node n (headerConfig_update (\<lambda>_. c)) w)" by (intro typed_node assms(2)) simp
  then show ?thesis
    using assms(1) decoded_message_keeps [where Q = "world_typed cfg", OF _ _ run_invariantD(1) [OF assms(3)]]
    by (auto simp: ndlcomNodeSend_def c Let_def ndlcomBridgeSendRaw_def split: if_splits)
qed

lemma typed_iface_init: "world_typed cfg w \<Longrightarrow> world_typed cfg (ndlcomExternalInterfaceInit cfg i io flags w)"
proof -
  assume w: "world_typed cfg w"
  let ?w = "ndlcomExternalInterfaceSetFlags i flags (upd_iface i (\<lambda>ei. ei\<lparr>ei_io := io, ei_bridge := Null\<rparr>) w)"
  have t: "world_typed cfg ?w" unfolding ndlcomExternalInterfaceSetFlags_def by (intro typed_iface w) simp_all
  then have "world_typed cfg (upd_iface i (ei_parser_update (\<lambda>_. p)) ?w)"
    if "ndlcomParserCreate cfg (Some (ei_parser (ifaces ?w i))) (NDLCOM_PARSER_MIN_BUFFER_SIZE cfg) = Some p" for p
    using parser_wf_created [OF typed_parts(1) that] by (intro typed_parser)
  with t show ?thesis by (simp add: ndlcomExternalInterfaceInit_def Let_def split: option.split)
qed

lemma api_call_typed:
  assumes "api_call cfg cb w w'" and "world_typed cfg w" and "handlers_preserve cb (world_typed cfg)"
  shows "world_typed cfg w'"
  using assms(1)
proof cases
  case (node_send junk n receiverId payload payloadSize)
  then show ?thesis using typed_send [OF _ assms(2) typed_run [OF assms(3)]] by blast
next
  case (send_raw header payload)
  then show ?thesis
    using decoded_message_keeps [OF _ assms(2) run_invariantD(1) [OF typed_run [OF assms(3)]]] by (simp add: ndlcomBridgeSendRaw_def)
next
  case (process_iface i k)
  then show ?thesis using process_interface_keeps [OF _ assms(2) typed_run [OF assms(3)]] by force
next
  case (process_once k)
  then show ?thesis using process_once_keeps [OF _ assms(2) typed_run [OF assms(3)]] by force
next
  case (process k)
  then show ?thesis
    using process_until_idle_keeps [OF _ assms(2) typed_run [OF assms(3)]] by (force simp: ndlcomBridgeProcess_def)
next
  case (iface_init i io flags)
  then show ?thesis using typed_iface_init [OF assms(2)] by simp
next
  case (node_init n ownSenderId)
  then show ?thesis using assms(2)
    by (simp add: ndlcomNodeInit_def Let_def typed_prepared ndlcomBridgeHandlerInit_def ndlcomBridgeHandlerSetFlags_def)
next
  case (register_node n)
  then show ?thesis using assms(2)
    by (auto simp: ndlcomNodeRegister_def split: Option.bind_splits if_splits intro: typed_routes typed_registered)
next
  case (deregister_node n)
  then show ?thesis using assms(2)
    by (auto simp: ndlcomNodeDeregister_def split: if_splits intro: typed_routes typed_registered)
next
  case (node_id n ownSenderId)
  then show ?thesis using assms(2) by (auto simp: ndlcomNodeSetOwnSenderId_def Let_def typed_routes typed_prepared split: if_splits)
qed (use assms(2) in \<open>auto simp: typed_routes ndlcomExternalInterfaceSetFlags_def ndlcomExternalInterfaceSetRoutingForDeviceId_def
    ndlcomBridgeHandlerInit_def ndlcomBridgeHandlerSetFlags_def ndlcomNodeHandlerInit_def ndlcomNodeHandlerSetFlags_def
    ndlcomBridgeInit_def ndlcomBridgeSetFlags_def ndlcomNodeRegisterNodeHandler_def ndlcomNodeDeregisterNodeHandler_def Let_def
    intro!: typed_iface typed_table rt.wf_init intro: typed_parts typed_registered\<close>)


section \<open>Property\<close>

lemma api_calls_typed:
  "(api_call cfg cb)\<^sup>*\<^sup>* w w' \<Longrightarrow> world_typed cfg w \<Longrightarrow> handlers_preserve cb (world_typed cfg) \<Longrightarrow> world_typed cfg w'"
  by (induction rule: rtranclp_induct) (auto intro: api_call_typed)

lemma parser_wf_getters:
  assumes "parser_wf cfg p" and "ndlcomParserHasPacket p"
  shows "\<exists>header payload. ndlcomParserGetHeader p = Some header \<and> ndlcomParserGetPacket p = Some payload \<and>
    unat (mDataLen header) \<le> length payload"
proof -
  obtain d where d: "parser_abs cfg p d" using assms(1) by (auto simp: parser_wf_def)
  then obtain h pl where h: "df_phase d = Packet_ready h pl"
    using parser_abs_ready [OF d] assms(2) by (cases "df_phase d") auto
  from parser_abs_getters [OF d h] d h show ?thesis
    by (auto simp: parser_abs_def ndlcomParserGetPacket_def split: if_splits)
qed


lemma blank_world_typed: "world_typed cfg (blank_world cfg e)"
  by (simp add: world_typed_def blank_world_def routing_wf_def parser_wf_blank)


end
