(* ===== verification/Answering.thy ===== *)
theory Answering
  imports Process_Keeps Example_World
begin

text \<open>
  Handlers that send. A bridge handler may answer a message from inside of its method \<open>handle\<close>, by
  \<open>sendRaw\<close> (\<open>src/InternalHandler.cpp\<close>). The bridge then handles the answer like any message that comes from
  inside, and calls the handlers again, so that the calls nest. Here the depth of the calls
  that fit on the stack is bounded, and it is shown when a bound is enough.
\<close>

section \<open>Answers\<close>

text \<open>
  Which handler answers, and what, is a parameter. All other handlers do what they do. With a depth
  of 0 there is no space left for another call.
\<close>

type_synonym answers = "nat \<Rightarrow> (NDLComHeader \<Rightarrow> u8 list \<Rightarrow> NDLComHeader \<times> u8 list) option"

primrec answering :: "config \<Rightarrow> 'e callbacks \<Rightarrow> answers \<Rightarrow> nat \<Rightarrow> 'e callbacks" where
  "answering cfg cb reply 0 =
     cb\<lparr>cb_handler := \<lambda>k header payload origin w.
       case reply k of None \<Rightarrow> cb_handler cb k header payload origin w | Some answer \<Rightarrow> None\<rparr>"
| "answering cfg cb reply (Suc depth) =
     cb\<lparr>cb_handler := \<lambda>k header payload origin w.
       case reply k of
         None \<Rightarrow> cb_handler cb k header payload origin w
       | Some answer \<Rightarrow>
           (case answer header payload of (h, p) \<Rightarrow> BridgeHandler_sendRaw cfg (answering cfg cb reply depth) h p w)\<rparr>"

lemma answering_write [simp]: "iface_write (answering cfg cb reply n) = iface_write cb"
  by (cases n) (simp_all add: iface_write_def fun_eq_iff)

lemma answering_write_all [simp]: "write_all (answering cfg cb reply n) = write_all cb"
  by (simp add: write_all_def fun_eq_iff)

lemma answering_other: "reply k = None \<Longrightarrow> cb_handler (answering cfg cb reply n) k = cb_handler cb k"
  by (cases n) (simp_all add: fun_eq_iff)

section \<open>What the handlers leave alone\<close>

text \<open>The other handlers return, and leave the lists and the structures of the library as they are.\<close>

definition keeps_structures :: "'e callbacks \<Rightarrow> bool" where
  "keeps_structures cb \<longleftrightarrow>
     (\<forall>k header payload origin w. \<exists>w'. cb_handler cb k header payload origin w = Some w' \<and>
        links w' = links w \<and> ifaces w' = ifaces w \<and> handlers w' = handlers w)"

definition same_structures :: "'e world \<Rightarrow> 'e world \<Rightarrow> bool" where
  "same_structures w v \<longleftrightarrow> links v = links w \<and> ifaces v = ifaces w \<and> handlers v = handlers w"

lemma same_structures_refl [simp]: "same_structures w w"
  and same_structures_write: "same_structures w v \<Longrightarrow> same_structures w (iface_write cb j bytes v)"
  and same_structures_trans: "same_structures u v \<Longrightarrow> same_structures v w \<Longrightarrow> same_structures u w"
  by (simp_all add: same_structures_def)

lemma keeps_structuresE:
  assumes "keeps_structures cb"
  obtains w' where "cb_handler cb k header payload origin w = Some w'" "same_structures w w'"
  using assms unfolding keeps_structures_def same_structures_def by blast

lemma keeps_structures_same:
  "keeps_structures cb \<Longrightarrow> cb_handler cb k header payload origin w = Some w' \<Longrightarrow> same_structures w w'"
  by (metis keeps_structuresE option.inject)

lemma answering_preserves:
  assumes "keeps_structures cb"
  shows "handlers_preserve (answering cfg cb reply n) (same_structures u)"
proof (induction n)
  case 0
  have "same_structures u w'"
    if "same_structures u w" "cb_handler (answering cfg cb reply 0) k header payload origin w = Some w'"
    for k header payload origin w w'
    using that by (cases "reply k") (auto intro: same_structures_trans keeps_structures_same [OF assms])
  then show ?case unfolding handlers_preserve_def by blast
next
  case (Suc n)
  have inv: "message_invariant (answering cfg cb reply n) (same_structures u)"
    using Suc by (simp add: message_invariant_def same_structures_write)
  have "same_structures u w'"
    if "same_structures u w" "cb_handler (answering cfg cb reply (Suc n)) k header payload origin w = Some w'"
    for k header payload origin w w'
  proof (cases "reply k")
    case None
    then show ?thesis using that by (auto intro: same_structures_trans keeps_structures_same [OF assms])
  next
    case (Some answer)
    then show ?thesis
      using that(2) decoded_message_keeps [OF _ that(1) inv]
      by (cases "answer header payload") (simp add: BridgeHandler_sendRaw_def ndlcomBridgeSendRaw_def)
  qed
  then show ?case unfolding handlers_preserve_def by blast
qed

lemma answering_leaves:
  "keeps_structures cb \<Longrightarrow> handlers_leave_lists (answering cfg cb reply n)"
  unfolding handlers_leave_lists_def
  using answering_preserves [unfolded handlers_preserve_def] same_structures_refl unfolding same_structures_def by blast

text \<open>A bridge whose handlers are all objects with a method of their own.\<close>

definition calls_objects :: "'e world \<Rightarrow> handler_id list \<Rightarrow> bool" where
  "calls_objects w hs \<longleftrightarrow> (\<forall>h \<in> set hs. \<exists>k. bh_handler (handlers w h) = User_handler k)"

text \<open>The handlers that answer and that want to see messages from inside.\<close>

definition answers_itself :: "answers \<Rightarrow> 'e world \<Rightarrow> handler_id \<Rightarrow> bool" where
  "answers_itself reply w h \<longleftrightarrow> \<not> ignores_internal (handlers w h) \<and>
     (\<exists>k. bh_handler (handlers w h) = User_handler k \<and> reply k \<noteq> None)"

text \<open>The payload of an answer is as long as its header says, if that of the message was.\<close>

definition proper_answers :: "answers \<Rightarrow> bool" where
  "proper_answers reply \<longleftrightarrow>
     (\<forall>k answer header payload h p. reply k = Some answer \<longrightarrow> answer header payload = (h, p) \<longrightarrow>
        unat (mDataLen header) \<le> length payload \<longrightarrow> unat (mDataLen h) \<le> length p)"

lemma registered_structures: "same_structures w v \<Longrightarrow> registered v is hs = registered w is hs"
  by (rule registered_cong) (simp add: same_structures_def)

lemma answering_message:
  assumes "keeps_structures cb" and "registered w is hs" and "unat (mDataLen header) \<le> length payload"
  shows "\<exists>v. same_structures w v \<and>
    ndlcomBridgeProcessDecodedMessage cfg (answering cfg cb reply n) header payload origin w =
      deliver_bridge (answering cfg cb reply n) header payload origin hs v"
proof -
  let ?v = "write_all cb (frame cfg header (take (unat (mDataLen header)) payload))
      (message_targets cfg w header origin is) w"
  have "same_structures w ?v" by (simp add: same_structures_def world_frame)
  then show ?thesis
    using process_decoded_effect [OF answering_leaves [OF assms(1)], of w "is" hs header payload cfg cfg reply n origin] assms(2,3)
    by (auto simp: registered_def)
qed

section \<open>Answers without end\<close>

text \<open>A run over the handlers that comes to one that fails does not return.\<close>

lemma run_entries_fails:
  assumes "x \<in> set xs" and "Q s" and "\<And>s. Q s \<Longrightarrow> body x s = None"
    and "\<And>y s s'. y \<in> set xs \<Longrightarrow> Q s \<Longrightarrow> body y s = Some s' \<Longrightarrow> Q s'"
  shows "run_entries body xs s = None"
  using assms
proof (induction xs arbitrary: s)
  case (Cons y ys)
  show ?case
  proof (cases "body y s")
    case (Some s')
    have q: "Q s'" by (rule Cons.prems(4) [OF _ Cons.prems(2) Some]) simp
    have "x \<noteq> y" using Some Cons.prems(2,3) by fastforce
    then have "x \<in> set ys" using Cons.prems(1) by simp
    from Cons.IH [OF this q Cons.prems(3)] have "run_entries body ys s' = None"
      using Cons.prems(4) by (meson list.set_intros(2))
    then show ?thesis using Some by simp
  qed simp
qed simp

text \<open>Calling the handlers fails when one of them answers and cannot return.\<close>

lemma deliver_answers_fails:
  assumes "keeps_structures cb" and "registered w is hs" and "h \<in> set hs" and "answers_itself reply w h"
    and "\<And>k v. bh_handler (handlers w h) = User_handler k \<Longrightarrow> same_structures w v \<Longrightarrow>
      cb_handler (answering cfg cb reply n) k header payload (if origin = Bridge_ptr then Null else origin) v = None"
  shows "deliver_bridge (answering cfg cb reply n) header payload origin hs w = None"
proof -
  let ?cb = "answering cfg cb reply n"
  obtain k where k: "bh_handler (handlers w h) = User_handler k" "\<not> ignores_internal (handlers w h)"
    using assms(4) by (auto simp: answers_itself_def)
  have inv: "message_invariant ?cb (same_structures w)"
    using answering_preserves [OF assms(1)] by (simp add: message_invariant_def same_structures_write)
  have keep: "same_structures w s'"
    if "same_structures w s" "map_option fst (bridge_handler_body ?cb header payload origin y s) = Some s'" for y s s'
    using that call_handler_preserves [OF _ that(1) message_invariantD(1) [OF inv]]
    by (auto simp: bridge_handler_body_def split: if_splits Option.bind_splits)
  have fails: "map_option fst (bridge_handler_body ?cb header payload origin (Handler_list h) s) = None"
    if "same_structures w s" for s
  proof -
    have "handlers s h = handlers w h" using that by (simp add: same_structures_def)
    then show ?thesis using k assms(5) [OF k(1) that] by (simp add: bridge_handler_body_def call_handler_def)
  qed
  show ?thesis unfolding deliver_bridge_def
    by (rule run_entries_fails [where Q = "same_structures w" and x = "Handler_list h"]) (use assms(3) fails keep in simp_all)
qed

lemma answers_itself_same: "same_structures w v \<Longrightarrow> answers_itself reply v h = answers_itself reply w h"
  by (simp add: same_structures_def answers_itself_def)

lemma answers_do_not_end:
  assumes "keeps_structures cb" and "proper_answers reply" and "registered w is hs" and "h \<in> set hs"
    and "answers_itself reply w h" and "unat (mDataLen header) \<le> length payload"
  shows "ndlcomBridgeProcessDecodedMessage cfg (answering cfg cb reply n) header payload origin w = None"
  using assms(3,5,6)
proof (induction n arbitrary: w header payload origin)
  case 0
  obtain v where v: "same_structures w v" "ndlcomBridgeProcessDecodedMessage cfg (answering cfg cb reply 0) header payload origin w =
      deliver_bridge (answering cfg cb reply 0) header payload origin hs v"
    using answering_message [OF assms(1) 0(1,3)] by blast
  note at_v = registered_structures [OF v(1), THEN iffD2, OF 0(1)] answers_itself_same [OF v(1), THEN iffD2, OF 0(2)]
  show ?case unfolding v(2)
    by (rule deliver_answers_fails [OF assms(1) at_v(1) assms(4) at_v(2)])
      (use at_v(2) in \<open>auto simp: answers_itself_def\<close>)
next
  case (Suc n)
  obtain v where v: "same_structures w v" "ndlcomBridgeProcessDecodedMessage cfg (answering cfg cb reply (Suc n)) header payload origin w =
      deliver_bridge (answering cfg cb reply (Suc n)) header payload origin hs v"
    using answering_message [OF assms(1) Suc.prems(1,3)] by blast
  note at_v = registered_structures [OF v(1), THEN iffD2, OF Suc.prems(1)] answers_itself_same [OF v(1), THEN iffD2, OF Suc.prems(2)]
  have "cb_handler (answering cfg cb reply (Suc n)) k header payload (if origin = Bridge_ptr then Null else origin) u = None"
    if k: "bh_handler (handlers v h) = User_handler k" and u: "same_structures v u" for k u
  proof -
    obtain answer a p where answer: "reply k = Some answer" "answer header payload = (a, p)"
      using at_v(2) k by (cases "reply k"; cases "the (reply k) header payload") (auto simp: answers_itself_def)
    have "unat (mDataLen a) \<le> length p" using assms(2) answer Suc.prems(3) unfolding proper_answers_def by blast
    then have "ndlcomBridgeProcessDecodedMessage cfg (answering cfg cb reply n) a p Bridge_ptr u = None"
      using registered_structures [OF u] answers_itself_same [OF u] at_v by (intro Suc.IH) simp_all
    then show ?thesis using answer by (simp add: BridgeHandler_sendRaw_def ndlcomBridgeSendRaw_def)
  qed
  then show ?case unfolding v(2) by (rule deliver_answers_fails [OF assms(1) at_v(1) assms(4) at_v(2)])
qed

section \<open>Answers that end\<close>

text \<open>A handler that is called returns if it does not answer, or if what it answers is handled.\<close>

lemma call_returns:
  assumes "keeps_structures cb" and "\<And>answer. reply k = Some answer \<Longrightarrow>
      \<exists>w'. cb_handler (answering cfg cb reply n) k header payload origin w = Some w'"
  shows "\<exists>w'. cb_handler (answering cfg cb reply n) k header payload origin w = Some w' \<and> same_structures w w'"
proof -
  have "\<exists>w'. cb_handler (answering cfg cb reply n) k header payload origin w = Some w'"
    using assms(2) keeps_structuresE [OF assms(1)] by (cases "reply k") (auto simp: answering_other, metis)
  then show ?thesis
    using answering_preserves [OF assms(1), unfolded handlers_preserve_def] same_structures_refl by blast
qed

lemma deliver_answers_returns:
  assumes "keeps_structures cb" and "calls_objects w hs"
    and "\<And>h k v. h \<in> set hs \<Longrightarrow> bh_handler (handlers w h) = User_handler k \<Longrightarrow> reply k \<noteq> None \<Longrightarrow> same_structures w v \<Longrightarrow>
      ignores_internal (handlers w h) \<and> origin = Bridge_ptr \<or>
      (\<exists>w'. cb_handler (answering cfg cb reply n) k header payload (if origin = Bridge_ptr then Null else origin) v = Some w')"
  shows "\<exists>w'. deliver_bridge (answering cfg cb reply n) header payload origin hs w = Some w'"
proof -
  let ?cb = "answering cfg cb reply n" and ?o = "if origin = Bridge_ptr then Null else origin"
  have step: "\<exists>s'. map_option fst (bridge_handler_body ?cb header payload origin x s) = Some s' \<and> same_structures w s'"
    if x: "x \<in> set (map Handler_list hs)" and s: "same_structures w s" for x s
  proof -
    obtain h k where h: "x = Handler_list h" "h \<in> set hs" "bh_handler (handlers w h) = User_handler k" "handlers s = handlers w"
      using x s assms(2) by (auto simp: calls_objects_def same_structures_def)
    show ?thesis
    proof (cases "ignores_internal (handlers w h) \<and> origin = Bridge_ptr")
      case True
      then show ?thesis using h s by (simp add: bridge_handler_body_def)
    next
      case False
      have "\<exists>s'. cb_handler ?cb k header payload ?o s = Some s' \<and> same_structures s s'"
        by (rule call_returns [OF assms(1)]) (use assms(3) [OF h(2,3) _ s] False in auto)
      then show ?thesis using h s False same_structures_trans
        by (auto simp: bridge_handler_body_def call_handler_def ex_bool_eq)
    qed
  qed
  have "\<exists>w'. run_entries (\<lambda>y v. map_option fst (bridge_handler_body ?cb header payload origin y v)) (map Handler_list hs) w = Some w' \<and>
      same_structures w w'"
    by (rule run_entries_returns [OF step]) simp_all
  then show ?thesis by (auto simp: deliver_bridge_def)
qed

lemma calls_objects_same: "same_structures w v \<Longrightarrow> calls_objects v hs = calls_objects w hs"
  by (simp add: same_structures_def calls_objects_def)

text \<open>Messages from inside reach no handler that answers.\<close>

lemma internal_answers_end:
  assumes "keeps_structures cb" and "registered w is hs" and "calls_objects w hs" and "\<forall>h \<in> set hs. \<not> answers_itself reply w h"
    and "unat (mDataLen header) \<le> length payload"
  shows "\<exists>w'. ndlcomBridgeProcessDecodedMessage cfg (answering cfg cb reply n) header payload Bridge_ptr w = Some w'"
proof -
  obtain v where v: "same_structures w v" "ndlcomBridgeProcessDecodedMessage cfg (answering cfg cb reply n) header payload Bridge_ptr w =
      deliver_bridge (answering cfg cb reply n) header payload Bridge_ptr hs v"
    using answering_message [OF assms(1,2,5)] by blast
  have "ignores_internal (handlers v h)" if "h \<in> set hs" "bh_handler (handlers v h) = User_handler k" "reply k \<noteq> None" for h k
    using that v(1) assms(4) by (auto simp: answers_itself_def same_structures_def)
  then show ?thesis unfolding v(2)
    by (intro deliver_answers_returns [OF assms(1)] disjI1) (use v(1) assms(3) in \<open>simp_all add: calls_objects_same\<close>)
qed

lemma answers_end:
  assumes "keeps_structures cb" and "proper_answers reply" and "registered w is hs" and "calls_objects w hs"
    and "\<forall>h \<in> set hs. \<not> answers_itself reply w h" and "unat (mDataLen header) \<le> length payload"
  shows "\<exists>w'. ndlcomBridgeProcessDecodedMessage cfg (answering cfg cb reply (Suc n)) header payload origin w = Some w'"
proof -
  obtain v where v: "same_structures w v" "ndlcomBridgeProcessDecodedMessage cfg (answering cfg cb reply (Suc n)) header payload origin w =
      deliver_bridge (answering cfg cb reply (Suc n)) header payload origin hs v"
    using answering_message [OF assms(1,3,6)] by blast
  have "\<exists>w'. cb_handler (answering cfg cb reply (Suc n)) k header payload o' u = Some w'"
    if k: "reply k \<noteq> None" and u: "same_structures w u" for k o' u
  proof -
    obtain answer a p where answer: "reply k = Some answer" "answer header payload = (a, p)"
      using k by (cases "the (reply k) header payload") auto
    have "unat (mDataLen a) \<le> length p" using assms(2,6) answer unfolding proper_answers_def by blast
    then have "\<exists>w'. ndlcomBridgeProcessDecodedMessage cfg (answering cfg cb reply n) a p Bridge_ptr u = Some w'"
      using assms(3-5) registered_structures [OF u] answers_itself_same [OF u] calls_objects_same [OF u]
      by (intro internal_answers_end [OF assms(1)]) simp_all
    then show ?thesis using answer by (simp add: BridgeHandler_sendRaw_def ndlcomBridgeSendRaw_def)
  qed
  then show ?thesis unfolding v(2)
    by (intro deliver_answers_returns [OF assms(1)] disjI2)
      (use assms(4) in \<open>simp_all del: answering.simps add: calls_objects_same [OF v(1)] same_structures_trans [OF v(1)]\<close>)
qed

text \<open>
  C31: handlers that answer. If every bridge handler is an object whose method returns, or
  answers each message by \<open>sendRaw\<close>, the handling of a message returns if and only if each handler that
  answers has the flag that keeps messages from inside away from it. Without the flag it answers its own
  answers, however deep the calls may nest; with it, one nested call is enough.
\<close>

theorem answers_need_the_flag:
  assumes "keeps_structures cb" and "proper_answers reply" and "registered w is hs" and "calls_objects w hs"
    and "unat (mDataLen header) \<le> length payload" and "0 < depth"
  shows "(\<exists>w'. ndlcomBridgeProcessDecodedMessage cfg (answering cfg cb reply depth) header payload origin w = Some w') \<longleftrightarrow>
    (\<forall>h \<in> set hs. \<forall>k. bh_handler (handlers w h) = User_handler k \<and> reply k \<noteq> None \<longrightarrow> ignores_internal (handlers w h))"
proof -
  have "(\<forall>h \<in> set hs. \<forall>k. bh_handler (handlers w h) = User_handler k \<and> reply k \<noteq> None \<longrightarrow> ignores_internal (handlers w h)) \<longleftrightarrow>
      (\<forall>h \<in> set hs. \<not> answers_itself reply w h)"
    by (auto simp: answers_itself_def)
  then show ?thesis
    using answers_end [OF assms(1-4) _ assms(5)] answers_do_not_end [OF assms(1-3) _ _ assms(5)] assms(6)
    by (metis gr0_implies_Suc option.distinct(1))
qed

text \<open>A handler that sends back each message that it sees, with and without the flag.\<close>

definition echo :: answers where
  "echo k = Some (\<lambda>header payload. (header, payload))"

definition one_handler :: "u8 \<Rightarrow> line world" where
  "one_handler flags =
     ndlcomBridgeHandlerSetFlags (Free_handler 0) flags
       (upd_links (list_add (Handler_list (Free_handler 0)) BridgeHandlerList) (two_ifaces default_config ([], [])))"

lemma one_handler_registered: "registered (one_handler flags) [0, 2] [Free_handler 0]"
proof -
  have "world_lists (upd_links (list_add (Handler_list (Free_handler 0)) BridgeHandlerList) (two_ifaces default_config e))
      (UNIV - {Iface_list 2} - {Iface_list 0} - {Handler_list (Free_handler 0)})
      ((\<lambda>_. [])(ExternalInterfaceList := [Iface_list 0, Iface_list 2],
        BridgeHandlerList := [Handler_list (Free_handler 0)]))" for e :: line
    using world_lists_add [OF two_ifaces_lists, of "Handler_list (Free_handler 0)" BridgeHandlerList]
    by (simp add: list_entries_def)
  from world_lists_registered [OF this] have
    "registered (upd_links (list_add (Handler_list (Free_handler 0)) BridgeHandlerList) (two_ifaces default_config e))
      [0, 2] [Free_handler 0]" for e :: line by simp
  then show ?thesis by (simp add: one_handler_def ndlcomBridgeHandlerSetFlags_def registered_def node_lists_def upd_handler_def)
qed

lemma answers_need_the_flag_witness:
  "let message = ndlcomBridgeProcessDecodedMessage default_config (answering default_config line_callbacks echo 5)
     \<lparr>mReceiverId = 5, mSenderId = 9, mCounter = 0, mDataLen = 0\<rparr> [] (Iface_ptr 0)
   in message (one_handler 0) = None \<and>
     (\<exists>w'. message (one_handler NDLCOM_BRIDGE_HANDLER_FLAGS_NO_MESSAGES_FROM_INTERNAL) = Some w')"
proof -
  let ?h = "\<lparr>mReceiverId = 5, mSenderId = 9, mCounter = 0, mDataLen = 0\<rparr>"
  have keep: "keeps_structures line_callbacks" and proper: "proper_answers echo"
    by (simp_all add: keeps_structures_def line_callbacks_def proper_answers_def echo_def)
  have object: "bh_handler (handlers (one_handler flags) (Free_handler 0)) = User_handler 0"
    "bh_flags (handlers (one_handler flags) (Free_handler 0)) = flags" for flags
    by (simp_all add: one_handler_def two_ifaces_def blank_world_def ndlcomBridgeHandlerSetFlags_def upd_defs)
  have objects: "calls_objects (one_handler flags) [Free_handler 0]" for flags
    using object by (simp add: calls_objects_def)
  have length: "unat (mDataLen ?h) \<le> length []" and depth: "(0::nat) < 5" by simp_all
  note flagged = answers_need_the_flag [OF keep proper one_handler_registered objects length depth, of default_config "Iface_ptr 0"]
  have seen: "\<not> (\<forall>k. 0 < k \<or> echo k = None)" by (auto simp: echo_def intro!: exI [of _ 0])
  show ?thesis
    using flagged [of 0] flagged [of NDLCOM_BRIDGE_HANDLER_FLAGS_NO_MESSAGES_FROM_INTERNAL] seen
    by (simp add: object ignores_internal_def NDLCOM_BRIDGE_HANDLER_FLAGS_NO_MESSAGES_FROM_INTERNAL_def Let_def)
qed

end
