(* ===== verification/Set_Up.thy ===== *)
theory Set_Up
  imports World_Types Ownership
begin

text \<open>
  What the functions that set up interfaces, nodes and handlers do to the structures, for the programs that call them.
\<close>

section \<open>Structures\<close>

text \<open>The functions that initialise interfaces and nodes.\<close>

lemma interface_init_fields:
  "routingTable (ndlcomExternalInterfaceInit cfg i io flags w) = routingTable w"
  "handlers (ndlcomExternalInterfaceInit cfg i io flags w) = handlers w"
  "nodes (ndlcomExternalInterfaceInit cfg i io flags w) = nodes w"
  "env (ndlcomExternalInterfaceInit cfg i io flags w) = env w"
  "ei_flags (ifaces (ndlcomExternalInterfaceInit cfg i io flags w) i) = flags"
  by (simp_all add: ndlcomExternalInterfaceInit_def ndlcomExternalInterfaceSetFlags_def Let_def upd_defs split: option.split)

lemma interface_init_no_packet:
  "\<not> ndlcomParserHasPacket (ei_parser (ifaces (ndlcomExternalInterfaceInit cfg i io flags w) i))"
  by (simp add: ndlcomExternalInterfaceInit_def ndlcomExternalInterfaceSetFlags_def Let_def upd_defs ndlcomParserCreate_def
      ndlcomParserHasPacket_def ndlcomParserResetNumberOfCRCFails_def ndlcomParserDestroyPacket_def split: option.split)

lemma node_struct_eq: "(n :: NDLComNode) = m \<longleftrightarrow>
    mCounterForReceiver (headerConfig n) = mCounterForReceiver (headerConfig m) \<and> mOwnSenderId (headerConfig n) = mOwnSenderId (headerConfig m)"
  by (cases n; cases m; cases "headerConfig n"; cases "headerConfig m") simp

lemma node_init_fields:
  "routingTable (ndlcomNodeInit n own w) = routingTable w" "ifaces (ndlcomNodeInit n own w) = ifaces w"
  "nodeHandlers (ndlcomNodeInit n own w) = nodeHandlers w" "env (ndlcomNodeInit n own w) = env w"
  "handlers (ndlcomNodeInit n own w) = (handlers w)(Handler_of_node n :=
     \<lparr>bh_bridge = Null, bh_flags = 0, bh_handler = Node_message_handler n\<rparr>)"
  "nodes (ndlcomNodeInit n own w) = (nodes w)(n := \<lparr>headerConfig =
     \<lparr>mCounterForReceiver = replicate (length (mCounterForReceiver (headerConfig (nodes w n)))) 0, mOwnSenderId = own\<rparr>\<rparr>)"
  by (simp_all add: ndlcomNodeInit_def ndlcomBridgeHandlerInit_def ndlcomBridgeHandlerSetFlags_def Let_def upd_defs
      ndlcomHeaderPrepareInit_def memset_def NDLCOM_BRIDGE_HANDLER_FLAGS_DEFAULT_def fun_eq_iff node_struct_eq)

lemma node_handler_fields:
  "routingTable (ndlcomNodeRegisterNodeHandler n k (ndlcomNodeHandlerInit k g flags w)) = routingTable w"
  "ifaces (ndlcomNodeRegisterNodeHandler n k (ndlcomNodeHandlerInit k g flags w)) = ifaces w"
  "handlers (ndlcomNodeRegisterNodeHandler n k (ndlcomNodeHandlerInit k g flags w)) = handlers w"
  "nodes (ndlcomNodeRegisterNodeHandler n k (ndlcomNodeHandlerInit k g flags w)) = nodes w"
  "env (ndlcomNodeRegisterNodeHandler n k (ndlcomNodeHandlerInit k g flags w)) = env w"
  "nodeHandlers (ndlcomNodeRegisterNodeHandler n k (ndlcomNodeHandlerInit k g flags w)) =
     (nodeHandlers w)(k := \<lparr>nh_node = Some n, nh_flags = flags, nh_handler = g\<rparr>)"
  by (simp_all add: ndlcomNodeRegisterNodeHandler_def ndlcomNodeHandlerInit_def ndlcomNodeHandlerSetFlags_def Let_def upd_defs fun_eq_iff)

definition fresh_node :: "config \<Rightarrow> u8 \<Rightarrow> NDLComNode" where
  "fresh_node cfg deviceId = \<lparr>headerConfig =
     \<lparr>mCounterForReceiver = replicate (NDLCOM_MAX_NUMBER_OF_DEVICES cfg) 0, mOwnSenderId = deviceId\<rparr>\<rparr>"

lemma node_set_up:
  assumes "holds w r" and "Handler_of_node n \<notin> set (reg_handlers r)" and "reg_node_handlers r n = []"
    and "length (mCounterForReceiver (headerConfig (nodes w n))) = NDLCOM_MAX_NUMBER_OF_DEVICES cfg"
  shows "\<exists>w'. ndlcomNodeRegister cfg n (ndlcomNodeInit n deviceId w) = Some w' \<and>
    holds w' (r\<lparr>reg_handlers := Handler_of_node n # reg_handlers r\<rparr>) \<and>
    routingTable w' = ndlcomRoutingTableUpdate cfg (routingTable w) deviceId Bridge_ptr \<and> ifaces w' = ifaces w \<and>
    handlers w' = (handlers w)(Handler_of_node n :=
      \<lparr>bh_bridge = Bridge_ptr, bh_flags = 0, bh_handler = Node_message_handler n\<rparr>) \<and>
    nodes w' = (nodes w)(n := fresh_node cfg deviceId) \<and> nodeHandlers w' = nodeHandlers w \<and> env w' = env w"
proof -
  let ?v = "ndlcomNodeInit n deviceId w"
  have "holds ?v r" by (rule node_init_holds [OF assms(1-3)])
  from node_register_holds [OF this assms(2), of cfg] obtain w' where w': "ndlcomNodeRegister cfg n ?v = Some w'"
    "holds w' (r\<lparr>reg_handlers := Handler_of_node n # reg_handlers r\<rparr>)"
    "w' = (upd_handler (Handler_of_node n) (bh_bridge_update (\<lambda>_. Bridge_ptr)) ?v)\<lparr>links := links w',
      routingTable := ndlcomRoutingTableUpdate cfg (routingTable ?v) (node_own_id n ?v) Bridge_ptr\<rparr>" by blast
  show ?thesis
    using w'(1,2) arg_cong [OF w'(3), of routingTable] arg_cong [OF w'(3), of ifaces] arg_cong [OF w'(3), of handlers]
      arg_cong [OF w'(3), of nodes] arg_cong [OF w'(3), of nodeHandlers] arg_cong [OF w'(3), of env]
    by (intro exI [of _ w']) (simp add: upd_handler_def node_init_fields node_own_id_def assms(4) fresh_node_def)
qed

lemma node_handler_set_up:
  assumes "holds w r" and "\<And>m. k \<notin> set (reg_node_handlers r m)"
  shows "holds (ndlcomNodeRegisterNodeHandler n k (ndlcomNodeHandlerInit k g flags w)) (with_node_handlers r n (k # reg_node_handlers r n))"
  by (intro register_node_handler_holds node_handler_init_holds assms)

lemma interface_init_others:
  "j \<noteq> i \<Longrightarrow> ifaces (ndlcomExternalInterfaceInit cfg i io fl w) j = ifaces w j"
  "nodeHandlers (ndlcomExternalInterfaceInit cfg i io fl w) = nodeHandlers w"
  by (simp_all add: ndlcomExternalInterfaceInit_def ndlcomExternalInterfaceSetFlags_def Let_def upd_defs split: option.split)

lemma register_interface_fields:
  assumes "ndlcomBridgeRegisterExternalInterface i w = Some w'"
  shows "env w' = env w" "handlers w' = handlers w" "nodes w' = nodes w" "nodeHandlers w' = nodeHandlers w"
    "ei_parser (ifaces w' j) = ei_parser (ifaces w j)"
  using assms by (auto simp: ndlcomBridgeRegisterExternalInterface_def upd_defs split: Option.bind_splits if_splits)

lemma register_handler_fields:
  assumes "ndlcomBridgeRegisterBridgeHandler h w = Some w'"
  shows "env w' = env w" "nodes w' = nodes w" "nodeHandlers w' = nodeHandlers w" "ifaces w' = ifaces w"
  using assms by (auto simp: ndlcomBridgeRegisterBridgeHandler_def upd_defs split: Option.bind_splits if_splits)

lemma register_node_fields:
  assumes "ndlcomNodeRegister cfg n w = Some w'"
  shows "env w' = env w" "nodes w' = nodes w" "nodeHandlers w' = nodeHandlers w" "ifaces w' = ifaces w"
  using assms
  by (auto simp: ndlcomNodeRegister_def ndlcomBridgeMarkDeviceIdAsInternal_def dest: register_handler_fields
      split: Option.bind_splits if_splits)

lemma bridge_handler_init_fields:
  "env (ndlcomBridgeHandlerInit h f fl w) = env w" "nodeHandlers (ndlcomBridgeHandlerInit h f fl w) = nodeHandlers w"
  "ifaces (ndlcomBridgeHandlerInit h f fl w) = ifaces w"
  by (simp_all add: ndlcomBridgeHandlerInit_def ndlcomBridgeHandlerSetFlags_def Let_def upd_defs)

section \<open>Sizes\<close>

text \<open>While a program sets up its objects no callback is called.\<close>

definition idle_callbacks :: "'e callbacks" where
  "idle_callbacks = \<lparr>cb_write = (\<lambda>i bytes e. e), cb_read = (\<lambda>i n e. ([], e)), cb_handler = (\<lambda>k header payload origin w. Some w)\<rparr>"

lemma idle_preserve: "handlers_preserve idle_callbacks Q"
  by (simp add: handlers_preserve_def idle_callbacks_def)

lemmas set_up_typed = api_call_typed [OF _ _ idle_preserve]

lemma typed_upd_env [simp]: "world_typed cfg (upd_env g w) = world_typed cfg w"
  by (simp add: world_typed_def)

end
