(* ===== verification/Minimal_Example.thy ===== *)
theory Minimal_Example
  imports Set_Up
begin

text \<open>
  The example program in C, \<open>tools/minimalExample.c\<close>: one interface that reads nothing and prints what it is
  asked to write, two nodes, and a handler in each that prints the messages it gets. Until a key is pressed,
  every fifth turn one node sends a broadcast and the other one a message to the first. The environment is
  what the program has printed.
\<close>

section \<open>The program\<close>

record MetaData =
  meta_a :: int
  meta_b :: int

definition idA :: u8 where "idA = 82"

definition idB :: u8 where "idB = 83"

text \<open>The context pointer of a handler is the number of the handler.\<close>

definition ctx :: "nat \<Rightarrow> MetaData" where
  "ctx k = (if k = 0 then \<lparr>meta_a = 1, meta_b = 2\<rparr> else \<lparr>meta_a = 3, meta_b = 4\<rparr>)"

definition printf :: "string \<Rightarrow> string world \<Rightarrow> string world" where
  "printf s w = upd_env (\<lambda>printed. printed @ s) w"

definition readFun :: "nat \<Rightarrow> nat \<Rightarrow> string \<Rightarrow> u8 list \<times> string" where
  "readFun context count printed = ([], printed)"

definition writeFun :: "nat \<Rightarrow> u8 list \<Rightarrow> string \<Rightarrow> string" where
  "writeFun context buf printed = printed @ ''writeFun would write '' @ dec (length buf) @ '' bytes'' @ endl"

definition someHandler ::
  "nat \<Rightarrow> NDLComHeader \<Rightarrow> u8 list \<Rightarrow> ptr \<Rightarrow> string world \<Rightarrow> string world option" where
  "someHandler k header payload origin w =
     Some (printf (''node got message from '' @ dec (unat (mSenderId header)) @
       '': ctx.a = '' @ show_int (meta_a (ctx k)) @ '' -- ctx.b = '' @ show_int (meta_b (ctx k)) @ endl) w)"

definition example_callbacks :: "string callbacks" where
  "example_callbacks = \<lparr>cb_write = writeFun, cb_read = readFun, cb_handler = someHandler\<rparr>"

text \<open>The interface and the node \<open>A\<close> with its handler have the number 0, node \<open>B\<close> and its handler have 1.\<close>

definition example_setup :: "config \<Rightarrow> string world \<Rightarrow> string world option" where
  "example_setup cfg w = do {
     let w = ndlcomBridgeInit cfg w;
     let w = ndlcomExternalInterfaceInit cfg 0 0 NDLCOM_EXTERNAL_INTERFACE_FLAGS_DEFAULT w;
     w \<leftarrow> ndlcomBridgeRegisterExternalInterface 0 w;
     let w = ndlcomNodeInit 0 idA w;
     w \<leftarrow> ndlcomNodeRegister cfg 0 w;
     let w = ndlcomNodeInit 1 idB w;
     w \<leftarrow> ndlcomNodeRegister cfg 1 w;
     let w = ndlcomNodeHandlerInit 0 0 NDLCOM_NODE_HANDLER_FLAGS_DEFAULT w;
     let w = ndlcomNodeRegisterNodeHandler 0 0 w;
     let w = ndlcomNodeHandlerInit 1 1 NDLCOM_NODE_HANDLER_FLAGS_DEFAULT w;
     let w = ndlcomNodeRegisterNodeHandler 1 1 w;
     Some (printf (''setup done, press any key to exit'' @ endl) w)
   }"

text \<open>One turn of the loop; an \<open>int\<close> that counts too far is undefined.\<close>

definition example_turn ::
  "config \<Rightarrow> NDLComHeader \<Rightarrow> int \<times> string world \<Rightarrow> (int \<times> string world) option" where
  "example_turn cfg junk s = do {
     let (cnt, w) = s;
     let w = printf (''entering loop '' @ show_int cnt @ endl) w;
     (_, w) \<leftarrow> ndlcomBridgeProcess cfg example_callbacks w;
     if cnt \<ge> 2 ^ 31 - 1 then None
     else do {
       let cnt = cnt + 1;
       if cnt mod 5 = 0 then do {
         w \<leftarrow> ndlcomNodeSend cfg example_callbacks junk 0 NDLCOM_ADDR_BROADCAST [] 0 w;
         w \<leftarrow> ndlcomNodeSend cfg example_callbacks junk 1 idA [] 0 w;
         Some (cnt, w)
       }
       else Some (cnt, w)
     }
   }"

text \<open>The parameter is how often \<open>select\<close> finds nothing to read before a key is pressed, or before it fails.\<close>

primrec example_loop ::
  "config \<Rightarrow> NDLComHeader \<Rightarrow> nat \<Rightarrow> int \<times> string world \<Rightarrow> (int \<times> string world) option" where
  "example_loop cfg junk 0 s = Some s"
| "example_loop cfg junk (Suc turns) s = do { s \<leftarrow> example_turn cfg junk s; example_loop cfg junk turns s }"

definition example_main :: "config \<Rightarrow> NDLComHeader \<Rightarrow> nat \<Rightarrow> string world \<Rightarrow> string world option" where
  "example_main cfg junk turns w = do {
     w \<leftarrow> example_setup cfg w;
     (_, w) \<leftarrow> example_loop cfg junk turns (0, w);
     let w = printf (''cleaning up'' @ endl) w;
     let w = ndlcomNodeDeregisterNodeHandler 0 0 w;
     let w = ndlcomNodeDeregisterNodeHandler 1 1 w;
     w \<leftarrow> ndlcomNodeDeregister cfg 0 w;
     ndlcomNodeDeregister cfg 1 w
   }"

section \<open>The state of its loop\<close>

definition example_registry :: registry where
  "example_registry = \<lparr>reg_interfaces = [0], reg_handlers = [Handler_of_node 1, Handler_of_node 0],
     reg_node_handlers = (\<lambda>_. [])(0 := [0], 1 := [1])\<rparr>"

lemma example_registry_simps [simp]:
  "reg_interfaces example_registry = [0]" "reg_handlers example_registry = [Handler_of_node 1, Handler_of_node 0]"
  "reg_node_handlers example_registry 0 = [0]" "reg_node_handlers example_registry (Suc 0) = [1]"
  by (simp_all add: example_registry_def)

definition node_ready :: "config \<Rightarrow> nat \<Rightarrow> u8 \<Rightarrow> string world \<Rightarrow> bool" where
  "node_ready cfg n deviceId w \<longleftrightarrow>
     handlers w (Handler_of_node n) = \<lparr>bh_bridge = Bridge_ptr, bh_flags = 0, bh_handler = Node_message_handler n\<rparr> \<and>
     nodeHandlers w n = \<lparr>nh_node = Some n, nh_flags = 0, nh_handler = n\<rparr> \<and>
     node_own_id n w = deviceId \<and> length (mCounterForReceiver (headerConfig (nodes w n))) = NDLCOM_MAX_NUMBER_OF_DEVICES cfg \<and>
     ndlcomRoutingGetDestination cfg (routingTable w) deviceId = Bridge_ptr"

definition looping :: "config \<Rightarrow> u8 \<Rightarrow> string world \<Rightarrow> bool" where
  "looping cfg sent w \<longleftrightarrow> holds w example_registry \<and> routing_wf cfg (routingTable w) \<and>
     ndlcomRoutingGetDestination cfg (routingTable w) NDLCOM_ADDR_BROADCAST = Null \<and>
     parser_wf cfg (ei_parser (ifaces w 0)) \<and> \<not> ndlcomParserHasPacket (ei_parser (ifaces w 0)) \<and>
     \<not> is_mirror (ifaces w 0) \<and> node_ready cfg 0 idA w \<and> node_ready cfg 1 idB w \<and>
     mCounterForReceiver (headerConfig (nodes w 0)) ! unat NDLCOM_ADDR_BROADCAST = sent"

lemma printf_frame [simp]:
  "links (printf s w) = links w" "routingTable (printf s w) = routingTable w" "ifaces (printf s w) = ifaces w"
  "handlers (printf s w) = handlers w" "nodes (printf s w) = nodes w" "nodeHandlers (printf s w) = nodeHandlers w"
  "bridge_flags (printf s w) = bridge_flags w" "env (printf s w) = env w @ s" "holds (printf s w) r = holds w r"
  "node_own_id n (printf s w) = node_own_id n w" "node_bridge n (printf s w) = node_bridge n w"
  by (simp_all add: printf_def node_own_id_def)

lemma node_ready_printf [simp]: "node_ready cfg n i (printf s w) = node_ready cfg n i w"
  and looping_printf [simp]: "looping cfg sent (printf s w) = looping cfg sent w"
  by (simp_all add: node_ready_def looping_def)

lemma printf_printf [simp]: "printf t (printf s w) = printf (s @ t) w"
  by (simp add: printf_def upd_env_def)

section \<open>Its interface and its handlers\<close>

lemma example_keeps: "handlers_keep_lists example_callbacks"
  by (simp add: handlers_keep_lists_def example_callbacks_def someHandler_def)

lemmas example_leaves = handlers_keep_leave [OF example_keeps]

lemma example_write: "iface_write example_callbacks i bytes w =
    printf (''writeFun would write '' @ dec (length bytes) @ '' bytes'' @ endl) w"
  by (simp add: iface_write_def example_callbacks_def writeFun_def printf_def upd_env_def)

lemma looping_ok: "looping cfg sent w \<Longrightarrow> bridge_ok cfg w [0] [Handler_of_node 1, Handler_of_node 0]"
  using holds_registered [of w example_registry] by (simp add: looping_def bridge_ok_def)

text \<open>As nothing can be read, processing changes nothing.\<close>

lemma example_process:
  assumes "looping cfg sent w"
  shows "ndlcomBridgeProcess cfg example_callbacks w = Some (0, w)"
proof -
  have "ndlcomBridgeProcessExternalInterface cfg example_callbacks 0 w = Some (0, w)"
    by (simp add: ndlcomBridgeProcessExternalInterface_def iface_read_def example_callbacks_def readFun_def)
  then have "ndlcomBridgeProcessOnce cfg example_callbacks w = Some (0, w)"
    using process_once_unroll [OF example_leaves looping_ok [OF assms]] by (simp add: process_once_body_def)
  then show ?thesis by (simp add: ndlcomBridgeProcess_def, subst process_until_idle.simps, simp)
qed

definition handler_line :: "u8 \<Rightarrow> nat \<Rightarrow> string" where
  "handler_line sender k = ''node got message from '' @ dec (unat sender) @
     '': ctx.a = '' @ show_int (meta_a (ctx k)) @ '' -- ctx.b = '' @ show_int (meta_b (ctx k)) @ endl"

lemma example_node:
  assumes "holds w example_registry" and "node_ready cfg n deviceId w" and "n \<in> {0, 1}"
  shows "ndlcomNodeMessageHandler example_callbacks n header payload origin w =
    Some (if mReceiverId header \<in> {deviceId, NDLCOM_ADDR_BROADCAST} then printf (handler_line (mSenderId header) n) w else w)"
proof -
  have "dlist (links w) (NodeHandlerList n) (map Node_handler_list [n])"
    using holds_dlist(3) [OF assms(1), of n] assms(3) by auto
  note run = node_message_handler_effect [OF example_leaves this, of header payload origin]
  have "node_handler_body example_callbacks header payload origin (Node_handler_list n) w =
      Some (printf (handler_line (mSenderId header) n) w)"
    using assms(2) by (simp add: node_handler_body_def node_ready_def node_handler_ignores_internal_def
        example_callbacks_def someHandler_def handler_line_def)
  then show ?thesis using assms(2) by (simp add: run deliver_node_def node_ready_def node_own_id_def)
qed

lemma example_deliver:
  assumes "holds w example_registry" and "node_ready cfg 0 idA w" and "node_ready cfg 1 idB w"
  shows "deliver_bridge example_callbacks header payload origin [Handler_of_node 1, Handler_of_node 0] w =
    Some (printf ((if mReceiverId header \<in> {idB, NDLCOM_ADDR_BROADCAST} then handler_line (mSenderId header) 1 else []) @
      (if mReceiverId header \<in> {idA, NDLCOM_ADDR_BROADCAST} then handler_line (mSenderId header) 0 else [])) w)"
proof -
  have call: "bridge_handler_body example_callbacks header payload origin (Handler_list (Handler_of_node n)) v =
      map_option (\<lambda>v. (v, True)) (ndlcomNodeMessageHandler example_callbacks n header payload
        (if origin = Bridge_ptr then Null else origin) v)"
    if "node_ready cfg n i v" for n i v
    using that by (cases "ndlcomNodeMessageHandler example_callbacks n header payload
        (if origin = Bridge_ptr then Null else origin) v")
      (simp_all add: bridge_handler_body_def call_handler_def node_ready_def ignores_internal_def)
  let ?v = "printf (if mReceiverId header \<in> {idB, NDLCOM_ADDR_BROADCAST} then handler_line (mSenderId header) 1 else []) w"
  have nothing: "printf [] v = v" for v by (simp add: printf_def upd_env_def)
  have B: "ndlcomNodeMessageHandler example_callbacks 1 header payload (if origin = Bridge_ptr then Null else origin) w = Some ?v"
    using example_node [OF assms(1,3), of header payload] by (simp add: nothing)
  have "ndlcomNodeMessageHandler example_callbacks 0 header payload (if origin = Bridge_ptr then Null else origin) ?v =
      Some (printf (if mReceiverId header \<in> {idA, NDLCOM_ADDR_BROADCAST} then handler_line (mSenderId header) 0 else []) ?v)"
    using example_node [of ?v cfg 0 idA header payload] assms(1,2) by (simp add: nothing)
  then show ?thesis using call [OF assms(3)] call [of 0 idA ?v] assms(2) B by (simp add: deliver_bridge_def)
qed

section \<open>Its loop\<close>

definition write_line :: "config \<Rightarrow> u8 \<Rightarrow> string" where
  "write_line cfg counter = ''writeFun would write '' @
     dec (length (frame cfg \<lparr>mReceiverId = 0xff, mSenderId = 82, mCounter = counter, mDataLen = 0\<rparr> [])) @ '' bytes'' @ endl"

text \<open>Counting a packet that is sent.\<close>

definition counted :: "nat \<Rightarrow> u8 \<Rightarrow> u8 \<Rightarrow> string world \<Rightarrow> string world" where
  "counted n receiver c w =
     upd_node n (headerConfig_update (\<lambda>h. h\<lparr>mCounterForReceiver := (mCounterForReceiver h)[unat receiver := c]\<rparr>)) w"

lemma counted_frame [simp]:
  "links (counted n i c w) = links w" "routingTable (counted n i c w) = routingTable w" "ifaces (counted n i c w) = ifaces w"
  "handlers (counted n i c w) = handlers w" "nodeHandlers (counted n i c w) = nodeHandlers w"
  "bridge_flags (counted n i c w) = bridge_flags w" "env (counted n i c w) = env w" "holds (counted n i c w) r = holds w r"
  "node_own_id m (counted n i c w) = node_own_id m w" "node_bridge m (counted n i c w) = node_bridge m w"
  by (simp_all add: counted_def upd_node_def node_own_id_def node_bridge_def holds_def world_lists_def)

lemma node_ready_counted [simp]: "node_ready cfg m deviceId (counted n i c w) = node_ready cfg m deviceId w"
  by (simp add: node_ready_def) (simp add: counted_def upd_node_def)

lemma looping_counted:
  assumes "looping cfg sent w" and "255 < NDLCOM_MAX_NUMBER_OF_DEVICES cfg"
  shows "looping cfg c (counted 0 NDLCOM_ADDR_BROADCAST c w)" and "looping cfg sent (counted 1 i d w)"
  using assms by (simp_all add: looping_def) (simp_all add: counted_def upd_node_def node_ready_def NDLCOM_ADDR_BROADCAST_def)

text \<open>The broadcast is written and seen by both nodes, the sender included; the last node is called first.\<close>

lemma send_broadcast:
  assumes "looping cfg sent w" and "255 < NDLCOM_MAX_NUMBER_OF_DEVICES cfg"
  shows "ndlcomNodeSend cfg example_callbacks junk 0 NDLCOM_ADDR_BROADCAST [] 0 w =
    Some (printf (write_line cfg sent @ handler_line idA 1 @ handler_line idA 0)
      (counted 0 NDLCOM_ADDR_BROADCAST (sent + 1) w))"
proof -
  let ?w = "counted 0 NDLCOM_ADDR_BROADCAST (sent + 1) w"
  let ?h = "\<lparr>mReceiverId = NDLCOM_ADDR_BROADCAST, mSenderId = node_own_id 0 w,
      mCounter = mCounterForReceiver (headerConfig (nodes w 0)) ! unat NDLCOM_ADDR_BROADCAST, mDataLen = of_nat 0\<rparr>"
  have ready: "looping cfg (sent + 1) ?w" by (rule looping_counted [OF assms])
  have own: "node_own_id 0 w = 82" "mCounterForReceiver (headerConfig (nodes w 0)) ! unat NDLCOM_ADDR_BROADCAST = sent"
    using assms(1) by (simp_all add: looping_def node_ready_def idA_def)
  have count: "upd_node 0 (headerConfig_update (\<lambda>c. c\<lparr>mCounterForReceiver := (mCounterForReceiver c)
      [unat NDLCOM_ADDR_BROADCAST := mCounterForReceiver c ! unat NDLCOM_ADDR_BROADCAST + 1]\<rparr>)) w = ?w"
    using own(2) by (cases "nodes w 0") (simp add: counted_def upd_node_def)
  have targets: "message_targets cfg ?w ?h Bridge_ptr [0] = [0]"
    using ready by (simp add: looping_def message_targets_def mirror_targets_def routed_targets_def Let_def)
  have "ndlcomNodeSend cfg example_callbacks junk 0 NDLCOM_ADDR_BROADCAST [] 0 w =
      deliver_bridge example_callbacks ?h [] Bridge_ptr [Handler_of_node 1, Handler_of_node 0]
        (write_all example_callbacks (frame cfg ?h []) (message_targets cfg ?w ?h Bridge_ptr [0]) ?w)"
    using node_send_effect [OF example_leaves holds_registered [of w example_registry] _ _ _ refl refl,
        of 0 NDLCOM_ADDR_BROADCAST cfg 0 "[]" junk] assms
    unfolding count by (simp add: looping_def node_ready_def node_bridge_def NDLCOM_ADDR_BROADCAST_def)
  also have "\<dots> = deliver_bridge example_callbacks ?h [] Bridge_ptr [Handler_of_node 1, Handler_of_node 0] (printf (write_line cfg sent) ?w)"
    unfolding targets by (simp add: own example_write write_line_def) (simp add: NDLCOM_ADDR_BROADCAST_def)
  also have "\<dots> = Some (printf (write_line cfg sent @ handler_line idA 1 @ handler_line idA 0) ?w)"
    using example_deliver [of "printf (write_line cfg sent) ?w" cfg ?h] ready own(1) by (simp add: looping_def idA_def)
  finally show ?thesis .
qed

text \<open>The message to the other node is not written to the interface, as its id is used in here.\<close>

lemma send_to_other:
  assumes "looping cfg sent w" and "255 < NDLCOM_MAX_NUMBER_OF_DEVICES cfg"
  shows "\<exists>c. ndlcomNodeSend cfg example_callbacks junk 1 idA [] 0 w = Some (printf (handler_line idB 0) (counted 1 idA c w))"
proof -
  let ?c = "mCounterForReceiver (headerConfig (nodes w 1)) ! unat idA + 1"
  let ?w = "counted 1 idA ?c w"
  let ?h = "\<lparr>mReceiverId = idA, mSenderId = node_own_id 1 w,
      mCounter = mCounterForReceiver (headerConfig (nodes w 1)) ! unat idA, mDataLen = of_nat 0\<rparr>"
  have ready: "looping cfg sent ?w" by (rule looping_counted [OF assms])
  have own: "node_own_id 1 w = idB" using assms(1) by (simp add: looping_def node_ready_def)
  have count: "upd_node 1 (headerConfig_update (\<lambda>c. c\<lparr>mCounterForReceiver := (mCounterForReceiver c)
      [unat idA := mCounterForReceiver c ! unat idA + 1]\<rparr>)) w = ?w"
    by (cases "nodes w 1") (simp add: counted_def upd_node_def)
  have targets: "message_targets cfg ?w ?h Bridge_ptr [0] = []"
    using ready by (simp add: looping_def node_ready_def message_targets_def mirror_targets_def routed_targets_def Let_def)
  have "ndlcomNodeSend cfg example_callbacks junk 1 idA [] 0 w =
      deliver_bridge example_callbacks ?h [] Bridge_ptr [Handler_of_node 1, Handler_of_node 0]
        (write_all example_callbacks (frame cfg ?h []) (message_targets cfg ?w ?h Bridge_ptr [0]) ?w)"
    using node_send_effect [OF example_leaves holds_registered [of w example_registry] _ _ _ refl refl, of 1 idA cfg 0 "[]" junk] assms
    unfolding count by (simp add: looping_def node_ready_def node_bridge_def idA_def)
  also have "\<dots> = Some (printf (handler_line idB 0) ?w)"
    using example_deliver [of ?w cfg ?h] ready own unfolding targets
    by (simp add: looping_def idA_def idB_def NDLCOM_ADDR_BROADCAST_def)
  finally show ?thesis by blast
qed

definition turn_text :: "config \<Rightarrow> nat \<Rightarrow> string" where
  "turn_text cfg cnt = ''entering loop '' @ dec cnt @ endl @
     (if Suc cnt mod 5 = 0 then write_line cfg (of_nat (cnt div 5)) @ handler_line 82 1 @ handler_line 82 0 @ handler_line 83 0
      else [])"

lemma example_turn_effect:
  assumes "looping cfg (of_nat (cnt div 5)) w" and "255 < NDLCOM_MAX_NUMBER_OF_DEVICES cfg" and "cnt < 2 ^ 31 - 1"
  shows "\<exists>w'. example_turn cfg junk (int cnt, w) = Some (int (Suc cnt), w') \<and>
    looping cfg (of_nat (Suc cnt div 5)) w' \<and> env w' = env w @ turn_text cfg cnt"
proof -
  let ?v = "printf (''entering loop '' @ dec cnt @ endl) w"
  have shown: "show_int (int cnt) = dec cnt" by (simp add: show_int_def)
  have "int (Suc cnt) mod 5 = 0 \<longleftrightarrow> Suc cnt mod 5 = 0" by presburger
  then have fifth: "(int cnt + 1) mod 5 = 0 \<longleftrightarrow> Suc cnt mod 5 = 0" by (simp add: add.commute)
  have small: "\<not> 2 ^ 31 - 1 \<le> int cnt" using assms(3) by simp
  have v: "looping cfg (of_nat (cnt div 5)) ?v" using assms(1) by simp
  show ?thesis
  proof (cases "Suc cnt mod 5 = 0")
    case True
    have succ: "of_nat (cnt div 5) + 1 = (of_nat (Suc cnt div 5) :: u8)" using True by (simp add: div_Suc)
    have sent: "looping cfg (of_nat (Suc cnt div 5))
        (printf (write_line cfg (of_nat (cnt div 5)) @ handler_line idA 1 @ handler_line idA 0)
          (counted 0 NDLCOM_ADDR_BROADCAST (of_nat (Suc cnt div 5)) ?v))"
      using looping_counted(1) [OF v assms(2)] by simp
    obtain c where c: "ndlcomNodeSend cfg example_callbacks junk 1 idA [] 0
        (printf (write_line cfg (of_nat (cnt div 5)) @ handler_line idA 1 @ handler_line idA 0)
          (counted 0 NDLCOM_ADDR_BROADCAST (of_nat (Suc cnt div 5)) ?v)) =
      Some (printf (handler_line idB 0) (counted 1 idA c
        (printf (write_line cfg (of_nat (cnt div 5)) @ handler_line idA 1 @ handler_line idA 0)
          (counted 0 NDLCOM_ADDR_BROADCAST (of_nat (Suc cnt div 5)) ?v))))"
      using send_to_other [OF sent assms(2)] by blast
    show ?thesis
      using example_process [OF v] send_broadcast [OF v assms(2), of junk] c looping_counted(2) [OF sent assms(2)] fifth small True
      unfolding succ by (simp add: example_turn_def shown turn_text_def idA_def idB_def add.commute)
  next
    case False
    then have "Suc cnt div 5 = cnt div 5" by (simp add: div_Suc)
    then show ?thesis
      using example_process [OF v] fifth small False assms(1)
      by (simp add: example_turn_def shown turn_text_def add.commute)
  qed
qed

lemma example_loop_effect:
  assumes "looping cfg (of_nat (cnt div 5)) w" and "255 < NDLCOM_MAX_NUMBER_OF_DEVICES cfg" and "cnt + turns < 2 ^ 31"
  shows "\<exists>w'. example_loop cfg junk turns (int cnt, w) = Some (int (cnt + turns), w') \<and>
    looping cfg (of_nat ((cnt + turns) div 5)) w' \<and> env w' = env w @ concat (map (turn_text cfg) [cnt..<cnt + turns])"
  using assms(1,3)
proof (induction turns arbitrary: cnt w)
  case (Suc turns)
  have "cnt < 2 ^ 31 - 1" using Suc.prems(2) by simp
  then obtain v where v: "example_turn cfg junk (int cnt, w) = Some (int (Suc cnt), v)"
    "looping cfg (of_nat (Suc cnt div 5)) v" "env v = env w @ turn_text cfg cnt"
    using example_turn_effect [OF Suc.prems(1) assms(2)] by blast
  have "Suc cnt + turns < 2 ^ 31" using Suc.prems(2) by simp
  from Suc.IH [OF v(2) this] obtain w' where w': "example_loop cfg junk turns (int (Suc cnt), v) = Some (int (Suc cnt + turns), w')"
    "looping cfg (of_nat ((Suc cnt + turns) div 5)) w'"
    "env w' = env v @ concat (map (turn_text cfg) [Suc cnt..<Suc cnt + turns])" by blast
  have "[cnt..<cnt + Suc turns] = cnt # [Suc cnt..<Suc cnt + turns]" by (simp add: upt_conv_Cons)
  then show ?case using v(1,3) w' by (intro exI [of _ w']) simp
qed simp

section \<open>Setting up and cleaning up\<close>

text \<open>The structures after both nodes have been set up.\<close>

lemma looping_start:
  assumes "holds w example_registry" and "routing_wf cfg t" and "255 < NDLCOM_MAX_NUMBER_OF_DEVICES cfg"
    and "routingTable w = ndlcomRoutingTableUpdate cfg (ndlcomRoutingTableUpdate cfg (ndlcomRoutingTableInit cfg t) idA Bridge_ptr) idB Bridge_ptr"
    and "parser_wf cfg (ei_parser (ifaces w 0))" and "\<not> ndlcomParserHasPacket (ei_parser (ifaces w 0))" and "\<not> is_mirror (ifaces w 0)"
    and "\<And>n. n \<in> {0, 1} \<Longrightarrow> handlers w (Handler_of_node n) =
      \<lparr>bh_bridge = Bridge_ptr, bh_flags = 0, bh_handler = Node_message_handler n\<rparr> \<and>
      nodeHandlers w n = \<lparr>nh_node = Some n, nh_flags = 0, nh_handler = n\<rparr>"
    and "nodes w 0 = fresh_node cfg idA" and "nodes w 1 = fresh_node cfg idB"
  shows "looping cfg 0 w"
proof -
  have routes: "routing_wf cfg (routingTable w)" "ndlcomRoutingGetDestination cfg (routingTable w) i =
      (if i \<in> {idA, idB} then Bridge_ptr else Null)" for i
    using assms(2,3) by (simp_all add: assms(4) rt.wf_init rt.wf_learn rt.lookup_init rt.lookup_learn idA_def idB_def)
  have "node_ready cfg 0 idA w" "node_ready cfg 1 idB w"
    using assms(8) [of 0] assms(8) [of 1] assms(9,10) routes(2) by (simp_all add: node_ready_def node_own_id_def fresh_node_def)
  then show ?thesis
    using assms(1,3,5-7,9) routes by (simp add: looping_def fresh_node_def NDLCOM_ADDR_BROADCAST_def idA_def idB_def)
qed

lemma interface_set_up:
  assumes "holds w no_registry"
  shows "\<exists>w2. ndlcomBridgeRegisterExternalInterface 0
      (ndlcomExternalInterfaceInit cfg 0 0 NDLCOM_EXTERNAL_INTERFACE_FLAGS_DEFAULT (ndlcomBridgeInit cfg w)) = Some w2 \<and>
    holds w2 (no_registry\<lparr>reg_interfaces := [0]\<rparr>) \<and> routingTable w2 = ndlcomRoutingTableInit cfg (routingTable w) \<and>
    ifaces w2 0 = (ifaces (ndlcomExternalInterfaceInit cfg 0 0 NDLCOM_EXTERNAL_INTERFACE_FLAGS_DEFAULT (ndlcomBridgeInit cfg w)) 0)
      \<lparr>ei_bridge := Bridge_ptr\<rparr> \<and> nodes w2 = nodes w \<and> env w2 = env w"
proof -
  let ?w1 = "ndlcomExternalInterfaceInit cfg 0 0 NDLCOM_EXTERNAL_INTERFACE_FLAGS_DEFAULT (ndlcomBridgeInit cfg w)"
  have "holds (ndlcomBridgeInit cfg w) no_registry"
    unfolding ndlcomBridgeInit_def Let_def by (simp add: assms(1) holds_INIT)
  then have h1: "holds ?w1 no_registry" by (intro interface_init_holds) simp_all
  obtain w2 where w2: "ndlcomBridgeRegisterExternalInterface 0 ?w1 = Some w2"
    "holds w2 (no_registry\<lparr>reg_interfaces := [0]\<rparr>)"
    "w2 = (upd_iface 0 (ei_bridge_update (\<lambda>_. Bridge_ptr)) ?w1)\<lparr>links := links w2\<rparr>"
    using register_interface_holds [OF h1, of 0] by auto
  have f2: "routingTable w2 = ndlcomRoutingTableInit cfg (routingTable w)" "ifaces w2 0 = (ifaces ?w1 0)\<lparr>ei_bridge := Bridge_ptr\<rparr>"
    "nodes w2 = nodes w" "env w2 = env w"
    using arg_cong [OF w2(3), of routingTable] arg_cong [OF w2(3), of ifaces] arg_cong [OF w2(3), of nodes] arg_cong [OF w2(3), of env]
    by (simp_all add: upd_iface_def interface_init_fields) (simp_all add: ndlcomBridgeInit_def upd_links_def)
  show ?thesis using w2(1,2) f2 by blast
qed

lemma example_setup_effect:
  assumes "holds w no_registry" and "world_typed cfg w" and "255 < NDLCOM_MAX_NUMBER_OF_DEVICES cfg"
  shows "\<exists>w'. example_setup cfg w = Some w' \<and> looping cfg 0 w' \<and>
    env w' = env w @ ''setup done, press any key to exit'' @ endl"
proof -
  let ?w1 = "ndlcomExternalInterfaceInit cfg 0 0 NDLCOM_EXTERNAL_INTERFACE_FLAGS_DEFAULT (ndlcomBridgeInit cfg w)"
  note typed = typed_parts [OF assms(2)]
  obtain w2 where w2: "ndlcomBridgeRegisterExternalInterface 0 ?w1 = Some w2" "holds w2 (no_registry\<lparr>reg_interfaces := [0]\<rparr>)"
    and f2: "routingTable w2 = ndlcomRoutingTableInit cfg (routingTable w)" "ifaces w2 0 = (ifaces ?w1 0)\<lparr>ei_bridge := Bridge_ptr\<rparr>"
      "nodes w2 = nodes w" "env w2 = env w"
    using interface_set_up [OF assms(1), of cfg] by blast
  obtain w3 where w3: "ndlcomNodeRegister cfg 0 (ndlcomNodeInit 0 idA w2) = Some w3"
    "holds w3 (no_registry\<lparr>reg_interfaces := [0], reg_handlers := [Handler_of_node 0]\<rparr>)"
    "routingTable w3 = ndlcomRoutingTableUpdate cfg (routingTable w2) idA Bridge_ptr" "ifaces w3 = ifaces w2" "env w3 = env w2"
    "handlers w3 = (handlers w2)(Handler_of_node 0 := \<lparr>bh_bridge = Bridge_ptr, bh_flags = 0, bh_handler = Node_message_handler 0\<rparr>)"
    "nodes w3 = (nodes w2)(0 := fresh_node cfg idA)"
    using node_set_up [OF w2(2), of 0 cfg idA] typed(3) f2(3) by auto
  obtain w4 where w4: "ndlcomNodeRegister cfg 1 (ndlcomNodeInit 1 idB w3) = Some w4"
    "holds w4 (no_registry\<lparr>reg_interfaces := [0], reg_handlers := [Handler_of_node 1, Handler_of_node 0]\<rparr>)"
    "routingTable w4 = ndlcomRoutingTableUpdate cfg (routingTable w3) idB Bridge_ptr" "ifaces w4 = ifaces w3" "env w4 = env w3"
    "handlers w4 = (handlers w3)(Handler_of_node 1 := \<lparr>bh_bridge = Bridge_ptr, bh_flags = 0, bh_handler = Node_message_handler 1\<rparr>)"
    "nodes w4 = (nodes w3)(1 := fresh_node cfg idB)"
    using node_set_up [OF w3(2), of 1 cfg idB] typed(3) f2(3) w3(7) by auto
  let ?w5 = "ndlcomNodeRegisterNodeHandler 0 0 (ndlcomNodeHandlerInit 0 0 NDLCOM_NODE_HANDLER_FLAGS_DEFAULT w4)"
  let ?w6 = "ndlcomNodeRegisterNodeHandler 1 1 (ndlcomNodeHandlerInit 1 1 NDLCOM_NODE_HANDLER_FLAGS_DEFAULT ?w5)"
  have h5: "holds ?w5 (no_registry\<lparr>reg_interfaces := [0], reg_handlers := [Handler_of_node 1, Handler_of_node 0],
      reg_node_handlers := (\<lambda>_. [])(0 := [0])\<rparr>)"
    using node_handler_set_up [OF w4(2), of 0 0] by (simp add: no_registry_def)
  have h6: "holds ?w6 example_registry"
    using node_handler_set_up [OF h5, of 1 1] by (simp add: example_registry_def no_registry_def)
  have set_up: "example_setup cfg w = Some (printf (''setup done, press any key to exit'' @ endl) ?w6)"
    using w2(1) w3(1) w4(1) by (simp add: example_setup_def Let_def)
  have "world_typed cfg ?w1"
    by (intro typed_iface_init api_call_typed [where cb = example_callbacks, OF api_call.bridge_init assms(2)])
      (auto simp: handlers_preserve_def example_callbacks_def someHandler_def world_typed_def)
  then have parser: "parser_wf cfg (ei_parser (ifaces w4 0))" "\<not> ndlcomParserHasPacket (ei_parser (ifaces w4 0))" "\<not> is_mirror (ifaces w4 0)"
    using typed_parts(1) [of cfg ?w1 0]
    by (simp_all add: interface_init_no_packet interface_init_fields f2 w3(4) w4(4) is_mirror_def NDLCOM_EXTERNAL_INTERFACE_FLAGS_DEFAULT_def)
  have "looping cfg 0 ?w6"
    by (rule looping_start [where t = "routingTable w", OF h6 _ assms(3)])
      (use parser typed(2) in \<open>auto simp: node_handler_fields f2 w3(3-7) w4(3-7) NDLCOM_NODE_HANDLER_FLAGS_DEFAULT_def\<close>)
  moreover have "env ?w6 = env w" by (simp add: node_handler_fields f2 w3(5) w4(5))
  ultimately show ?thesis using set_up by simp
qed

definition after_cleanup :: registry where
  "after_cleanup = no_registry\<lparr>reg_interfaces := [0]\<rparr>"

lemma example_cleanup:
  assumes "looping cfg sent w"
  shows "\<exists>v u. ndlcomNodeDeregister cfg 0 (ndlcomNodeDeregisterNodeHandler 1 1 (ndlcomNodeDeregisterNodeHandler 0 0 w)) = Some v \<and>
    ndlcomNodeDeregister cfg 1 v = Some u \<and> holds u after_cleanup \<and> env u = env w \<and>
    (\<forall>deviceId \<in> {idA, idB}. ndlcomRoutingGetDestination cfg (routingTable u) deviceId = Null)"
proof -
  let ?w1 = "ndlcomNodeDeregisterNodeHandler 0 0 w"
  let ?w2 = "ndlcomNodeDeregisterNodeHandler 1 1 ?w1"
  have w: "holds w example_registry" and wf: "routing_wf cfg (routingTable w)" and ready: "node_ready cfg 0 idA w" "node_ready cfg 1 idB w"
    using assms by (simp_all add: looping_def)
  have "holds ?w1 (with_node_handlers example_registry 0 [])" using deregister_node_handler_holds [OF w, of 0 0] by simp
  from deregister_node_handler_holds [OF this, of 1 1]
  have h2: "holds ?w2 (no_registry\<lparr>reg_interfaces := [0], reg_handlers := [Handler_of_node 1, Handler_of_node 0]\<rparr>)"
    by (simp add: example_registry_def no_registry_def fun_upd_idem)
  have same: "handlers ?w2 = handlers w" "nodes ?w2 = nodes w" "routingTable ?w2 = routingTable w" "env ?w2 = env w"
    by (simp_all add: ndlcomNodeDeregisterNodeHandler_def upd_defs)
  have nb: "node_bridge n ?w2 \<noteq> Null" if "n \<in> {0, 1}" for n
    using ready that same by (auto simp: node_bridge_def node_ready_def)
  obtain v where v: "ndlcomNodeDeregister cfg 0 ?w2 = Some v" "holds v (no_registry\<lparr>reg_interfaces := [0], reg_handlers := [Handler_of_node 1]\<rparr>)"
    "v = (upd_handler (Handler_of_node 0) (bh_bridge_update (\<lambda>_. Null)) ?w2)\<lparr>links := links v,
      routingTable := ndlcomRoutingTableUpdate cfg (routingTable ?w2) (node_own_id 0 ?w2) NDLCOM_ROUTING_ALL_INTERFACES\<rparr>"
    using node_deregister_holds [OF h2 _ nb, of 0 cfg] by auto
  have fv: "handlers v (Handler_of_node 1) = handlers w (Handler_of_node 1)" "nodes v = nodes w" "env v = env w"
    "routingTable v = ndlcomRoutingTableUpdate cfg (routingTable w) idA Null"
    using arg_cong [OF v(3), of handlers] arg_cong [OF v(3), of nodes] arg_cong [OF v(3), of env] arg_cong [OF v(3), of routingTable] same ready(1)
    by (simp_all add: upd_handler_def node_own_id_def node_ready_def NDLCOM_ROUTING_ALL_INTERFACES_def)
  have nv: "node_bridge 1 v \<noteq> Null" using ready(2) fv(1) by (simp add: node_bridge_def node_ready_def)
  obtain u where u: "ndlcomNodeDeregister cfg 1 v = Some u" "holds u after_cleanup"
    "u = (upd_handler (Handler_of_node 1) (bh_bridge_update (\<lambda>_. Null)) v)\<lparr>links := links u,
      routingTable := ndlcomRoutingTableUpdate cfg (routingTable v) (node_own_id 1 v) NDLCOM_ROUTING_ALL_INTERFACES\<rparr>"
    using node_deregister_holds [OF v(2) _ nv, of cfg] by (auto simp: after_cleanup_def no_registry_def)
  have fu: "env u = env w" "routingTable u = ndlcomRoutingTableUpdate cfg (ndlcomRoutingTableUpdate cfg (routingTable w) idA Null) idB Null"
    using arg_cong [OF u(3), of env] arg_cong [OF u(3), of routingTable] fv ready(2)
    by (simp_all add: upd_handler_def node_own_id_def node_ready_def NDLCOM_ROUTING_ALL_INTERFACES_def)
  have "ndlcomRoutingGetDestination cfg (routingTable u) deviceId = Null" if "deviceId \<in> {idA, idB}" for deviceId
    using that by (auto simp: fu rt.wf_learn rt.lookup_learn wf ndlcomRoutingGetDestination_def NDLCOM_ROUTING_ALL_INTERFACES_def
        ndlcomRoutingTableUpdate_def nth_list_update wf [unfolded routing_wf_def])
  then show ?thesis using v(1) u(1,2) fu(1) by blast
qed



end
