(* ===== verification/Process_Agree.thy ===== *)
theory Process_Agree
  imports Process_Keeps
begin

text \<open>
  Callbacks that agree. Two sets of callbacks may differ in states that never come up: when they agree wherever a
  property of worlds holds, and every step of a run keeps this property, a run with the one set that returns
  is a run with the other one, too. So a fact about simple callbacks is one about those of a program.
\<close>

section \<open>Loops\<close>

lemma list_for_each_entry_agrees:
  assumes "list_for_each_entry lk head body pos s = Some s'" and "Q s"
    and "\<And>pos s s'. Q s \<Longrightarrow> body pos s = Some s' \<Longrightarrow> Q s' \<and> body' pos s = Some s'"
  shows "list_for_each_entry lk head body' pos s = Some s'"
  using assms
proof (induction lk head body pos s s' rule: list_for_each_entry.raw_induct [rotated, consumes 1])
  case (1 f lk head body pos s s')
  show ?case
  proof (cases "pos = head")
    case True
    then show ?thesis using 1(2) by (subst list_for_each_entry.simps) simp
  next
    case False
    then obtain v where v: "body pos s = Some v" "f lk head body (lnext (lk v) pos) v = Some s'"
      using 1(2) by (auto split: Option.bind_splits)
    have q: "Q v" and b: "body' pos s = Some v" using 1(4) [OF 1(3) v(1)] by simp_all
    show ?thesis using 1(1) [OF v(2) q 1(4)] False b by (subst list_for_each_entry.simps) simp
  qed
qed

lemma list_for_each_entry_safe_agrees:
  assumes "list_for_each_entry_safe lk head body pos n s = Some s'" and "Q s"
    and "\<And>pos s r. Q s \<Longrightarrow> body pos s = Some r \<Longrightarrow> Q (fst r) \<and> body' pos s = Some r"
  shows "list_for_each_entry_safe lk head body' pos n s = Some s'"
  using assms
proof (induction lk head body pos n s s' rule: list_for_each_entry_safe.raw_induct [rotated, consumes 1])
  case (1 f lk head body pos n s s')
  show ?case
  proof (cases "pos = head")
    case True
    then show ?thesis using 1(2) by (subst list_for_each_entry_safe.simps) simp
  next
    case False
    obtain r where r: "body pos s = Some r" using 1(2) False by (cases "body pos s") simp_all
    have q: "Q (fst r)" and b: "body' pos s = Some r" using 1(4) [OF 1(3) r] by simp_all
    show ?thesis
      using 1(1) [OF _ q 1(4)] 1(2) False r b
      by (subst list_for_each_entry_safe.simps) (cases r, auto simp: Let_def split: if_splits)
  qed
qed

section \<open>The bridge\<close>

definition callbacks_agree :: "('e world \<Rightarrow> bool) \<Rightarrow> 'e callbacks \<Rightarrow> 'e callbacks \<Rightarrow> bool" where
  "callbacks_agree Q cb cb' \<longleftrightarrow> cb_write cb' = cb_write cb \<and>
     (\<forall>w. Q w \<longrightarrow> (\<forall>io n. cb_read cb' io n (env w) = cb_read cb io n (env w)) \<and>
        (\<forall>k header payload origin. cb_handler cb' k header payload origin w = cb_handler cb k header payload origin w))"

lemma callbacks_agreeD:
  assumes "callbacks_agree Q cb cb'"
  shows "cb_write cb' = cb_write cb" and "Q w \<Longrightarrow> cb_read cb' io n (env w) = cb_read cb io n (env w)"
    and "Q w \<Longrightarrow> cb_handler cb' k header payload origin w = cb_handler cb k header payload origin w"
  using assms unfolding callbacks_agree_def by blast+

lemma outgoing_agrees:
  assumes "cb_write cb' = cb_write cb"
  shows "ndlcomBridgeProcessOutgoingMessage cfg cb' header payload origin w = ndlcomBridgeProcessOutgoingMessage cfg cb header payload origin w"
proof -
  have same: "iface_write cb' = iface_write cb" using assms by (simp add: iface_write_def fun_eq_iff)
  then have "write_unless_origin cb' = write_unless_origin cb" by (simp add: write_unless_origin_def fun_eq_iff cong: if_cong)
  with same show ?thesis by (simp only: ndlcomBridgeProcessOutgoingMessage_def)
qed

lemma call_handler_agrees:
  assumes "call_handler cb f header payload origin w = Some w'" and "Q w" and "handlers_preserve cb Q" and "callbacks_agree Q cb cb'"
  shows "call_handler cb' f header payload origin w = Some w'"
proof (cases f)
  case (User_handler k)
  then show ?thesis using assms(1) callbacks_agreeD(3) [OF assms(4,2)] by (simp add: call_handler_def)
next
  case (Node_message_handler n)
  have body: "Q v' \<and> node_handler_body cb' header payload origin pos v = Some v'"
    if "Q v" "node_handler_body cb header payload origin pos v = Some v'" for pos v v'
    using that callbacks_agreeD(3) [OF assms(4) that(1)] assms(3) unfolding handlers_preserve_def
    by (auto simp: node_handler_body_def split: if_splits Option.bind_splits)
  have "list_for_each_entry links head (node_handler_body cb' header payload origin) pos w = Some w'"
    if "list_for_each_entry links head (node_handler_body cb header payload origin) pos w = Some w'" for head pos
    by (rule list_for_each_entry_agrees [where Q = Q, OF that assms(2) body])
  then show ?thesis
    using assms(1) Node_message_handler by (auto simp: call_handler_def ndlcomNodeMessageHandler_def split: if_splits)
qed

lemma decoded_message_agrees:
  assumes "ndlcomBridgeProcessDecodedMessage cfg cb header payload origin w = Some w'" and "Q w" and "message_invariant cb Q"
    and "callbacks_agree Q cb cb'"
  shows "ndlcomBridgeProcessDecodedMessage cfg cb' header payload origin w = Some w'"
proof -
  obtain v where v: "ndlcomBridgeProcessOutgoingMessage cfg cb header payload origin w = Some v"
    "list_for_each_entry_safe links BridgeHandlerList (bridge_handler_body cb header payload origin)
       (lnext (links v) BridgeHandlerList) (lnext (links v) (lnext (links v) BridgeHandlerList)) v = Some w'"
    using assms(1) by (auto simp: ndlcomBridgeProcessDecodedMessage_def split: Option.bind_splits)
  note keep = message_invariantD(1) [OF assms(3)]
  have body: "Q (fst r) \<and> bridge_handler_body cb' header payload origin pos s = Some r"
    if "Q s" "bridge_handler_body cb header payload origin pos s = Some r" for pos s r
    using that call_handler_agrees [OF _ that(1) keep assms(4)] call_handler_preserves [OF _ that(1) keep]
    by (auto simp: bridge_handler_body_def split: if_splits Option.bind_splits)
  have "list_for_each_entry_safe links BridgeHandlerList (bridge_handler_body cb' header payload origin)
      (lnext (links v) BridgeHandlerList) (lnext (links v) (lnext (links v) BridgeHandlerList)) v = Some w'"
    by (rule list_for_each_entry_safe_agrees [where Q = Q, OF v(2) outgoing_keeps [OF v(1) assms(2,3)] body])
  then show ?thesis
    using v(1) by (simp add: ndlcomBridgeProcessDecodedMessage_def outgoing_agrees [OF callbacks_agreeD(1) [OF assms(4)]])
qed

lemma process_bytes_agrees:
  assumes "process_bytes cfg cb i buf k w = Some r" and "Q w" and "run_invariant cfg cb Q" and "callbacks_agree Q cb cb'"
  shows "process_bytes cfg cb' i buf k w = Some r"
  using assms
proof (induction cfg cb i buf k w r rule: process_bytes.raw_induct [rotated, consumes 1])
  case (1 f cfg cb i buf k w r)
  note inv = run_invariantD [OF 1(4)]
  obtain p n where p: "ndlcomParserReceive cfg (ei_parser (ifaces w i)) (drop k buf) = Some (p, n)"
    using 1(2) by (auto split: Option.bind_splits)
  let ?w = "upd_iface i (ei_parser_update (\<lambda>_. p)) w"
  have q: "Q ?w" by (rule inv(3) [OF 1(3) p])
  show ?case
  proof (cases "ndlcomParserHasPacket p")
    case True
    then obtain header payload v where v: "ndlcomParserGetHeader p = Some header" "ndlcomParserGetPacket p = Some payload"
      "ndlcomBridgeProcessDecodedMessage cfg cb header payload (Iface_ptr i) (learn_sender cfg i header ?w) = Some v"
      "(if list_empty (links v) (Iface_list i) \<or> length buf = k + n
        then Some (k + n, upd_iface i (ei_parser_update ndlcomParserDestroyPacket) v)
        else f cfg cb i buf (k + n) (upd_iface i (ei_parser_update ndlcomParserDestroyPacket) v)) = Some r"
      using 1(2) by (auto simp: p Let_def upd_iface_def split: Option.bind_splits if_splits)
    let ?v = "upd_iface i (ei_parser_update ndlcomParserDestroyPacket) v"
    have same: "ndlcomBridgeProcessDecodedMessage cfg cb' header payload (Iface_ptr i) (learn_sender cfg i header ?w) = Some v"
      by (rule decoded_message_agrees [OF v(3) inv(2) [OF q] inv(1) 1(5)])
    have "Q v" by (rule decoded_message_keeps [OF v(3) inv(2) [OF q] inv(1)])
    then have qv: "Q ?v" by (rule inv(4))
    have links: "links ?v = links v" by simp
    show ?thesis
    proof (cases "list_empty (links v) (Iface_list i) \<or> length buf = k + n")
      case True
      then show ?thesis using v(1,2,4) same \<open>ndlcomParserHasPacket p\<close>
        by (subst process_bytes.simps) (auto simp: p Let_def)
    next
      case False
      then have "process_bytes cfg cb' i buf (k + n) ?v = Some r" using v(4) 1(1) [OF _ qv 1(4,5)] by simp
      then show ?thesis using v(1,2) same False \<open>ndlcomParserHasPacket p\<close>
        by (subst process_bytes.simps) (simp add: p Let_def)
    qed
  next
    case False
    show ?thesis
      using 1(1) [OF _ q 1(4,5)] 1(2) False
      by (subst process_bytes.simps) (auto simp: p Let_def split: if_splits)
  qed
qed

lemma process_interface_agrees:
  assumes "ndlcomBridgeProcessExternalInterface cfg cb i w = Some r" and "Q w" and "run_invariant cfg cb Q" and "callbacks_agree Q cb cb'"
  shows "ndlcomBridgeProcessExternalInterface cfg cb' i w = Some r"
proof -
  let ?sz = "NDLCOM_BRIDGE_TEMPORARY_RXBUFFER_SIZE cfg"
  obtain bytes e where rd: "cb_read cb (ei_io (ifaces w i)) ?sz (env w) = (bytes, e)" by fastforce
  have "Q (w\<lparr>env := e\<rparr>)" using run_invariantD(5) [OF assms(3,2), of "ei_io (ifaces w i)" ?sz] rd by simp
  moreover have "cb_read cb' (ei_io (ifaces w i)) ?sz (env w) = (bytes, e)"
    using callbacks_agreeD(2) [OF assms(4,2)] rd by simp
  ultimately show ?thesis
    using assms(1) process_bytes_agrees [OF _ _ assms(3,4)]
    by (auto simp: ndlcomBridgeProcessExternalInterface_def iface_read_def rd split: Option.bind_splits if_splits prod.splits)
qed

lemma process_once_agrees:
  assumes "ndlcomBridgeProcessOnce cfg cb w = Some r" and "Q w" and "run_invariant cfg cb Q" and "callbacks_agree Q cb cb'"
  shows "ndlcomBridgeProcessOnce cfg cb' w = Some r"
proof -
  have body: "(\<lambda>s. Q (snd s)) (fst s') \<and> process_once_body cfg cb' pos s = Some s'"
    if s: "(\<lambda>s. Q (snd s)) s" "process_once_body cfg cb pos s = Some s'" for pos s s'
  proof -
    obtain i x where i: "iface_of pos = Some i" "ndlcomBridgeProcessExternalInterface cfg cb i (snd s) = Some x"
      using s(2) by (auto simp: process_once_body_def split: Option.bind_splits)
    show ?thesis
      using s process_interface_keeps [OF i(2) s(1) assms(3)] process_interface_agrees [OF i(2) s(1) assms(3,4)] i
      by (auto simp: process_once_body_def split: prod.splits)
  qed
  have "(\<lambda>s. Q (snd s)) (0 :: nat, w)" using assms(2) by simp
  from list_for_each_entry_safe_agrees [where Q = "\<lambda>s. Q (snd s)" and body' = "process_once_body cfg cb'",
      OF assms(1) [unfolded ndlcomBridgeProcessOnce_def] this body]
  show ?thesis by (simp add: ndlcomBridgeProcessOnce_def)
qed

lemma process_until_idle_agrees:
  assumes "process_until_idle cfg cb k w = Some r" and "Q w" and "run_invariant cfg cb Q" and "callbacks_agree Q cb cb'"
  shows "process_until_idle cfg cb' k w = Some r"
  using assms
proof (induction cfg cb k w r rule: process_until_idle.raw_induct [rotated, consumes 1])
  case (1 f cfg cb k w r)
  from 1(2) obtain n v where v: "ndlcomBridgeProcessOnce cfg cb w = Some (n, v)"
    "(if n > 0 then f cfg cb (k + n) v else Some (k + n, v)) = Some r"
    by (auto split: Option.bind_splits)
  have q: "Q v" using process_once_keeps [OF v(1) 1(3,4)] by simp
  show ?case
    using 1(1) [OF _ q 1(4,5)] v(2) process_once_agrees [OF v(1) 1(3-5)]
    by (subst process_until_idle.simps) (auto split: if_splits)
qed

end
