(* ===== verification/Cpp_Example.thy ===== *)
theory Cpp_Example
  imports Bridge_Tool Minimal_Example Packet_Consumer Process_Agree
begin

text \<open>
  The example program in C++, \<open>tools/minimalExample.cpp\<close>: a bridge with an interface for udp and a pseudo
  terminal, a node, and a handler of a class of its own that prints the messages to this node. In
  each turn of its loop the bridge processes what has arrived; every fifth turn the node sends a message to
  itself, and every tenth turn the bridge sends a broadcast. The devices are parameters, and what arrives while the program
  sleeps is anything. The global bridge is the only one, so its objects have the numbers of their addresses.
\<close>

section \<open>The program\<close>

text \<open>What is outside of the process: what it has printed, and the state of the devices.\<close>

record 'x process =
  stdout :: string
  beyond :: 'x

record 'x devices =
  device_write :: "nat \<Rightarrow> u8 list \<Rightarrow> 'x \<Rightarrow> 'x"
  device_read :: "nat \<Rightarrow> nat \<Rightarrow> 'x \<Rightarrow> u8 list \<times> 'x"

definition print_line :: "string \<Rightarrow> 'x process cpp_world \<Rightarrow> 'x process cpp_world" where
  "print_line s w = upd_env (outside_update (stdout_update (\<lambda>printed. printed @ s))) w"

definition ownDeviceId :: u8 where "ownDeviceId = 82"

definition someFirstByteToListen :: u8 where "someFirstByteToListen = 0"

definition connectionUdp :: string where "connectionUdp = ''udp://localhost:34000:34001''"

definition connectionPty :: string where "connectionPty = ''pty://ptytest''"

text \<open>
  \<open>getInterfaceByOrigin\<close> gives an empty pointer for an interface that the bridge does not own; using it is
  undefined, as is reading the first byte of a payload that has none. A \<open>char\<close> is signed.
\<close>

definition ExampleHandler_handle ::
  "'x process cpp_bridge \<Rightarrow> u8 \<Rightarrow> NDLComHeader \<Rightarrow> u8 list \<Rightarrow> ptr \<Rightarrow> 'x process cpp_world \<Rightarrow> 'x process cpp_world option" where
  "ExampleHandler_handle bridge firstByteToListen header payload origin w = do {
     let said = ''message from '' @ hex2 (mSenderId header) @ '' with '' @ dec (unat (mDataLen header)) @ '' bytes'';
     w \<leftarrow> (if origin \<noteq> Null then
           map_option (\<lambda>i. print_line (said @ '' from '' @ if_label (interface_objects (env w) i) @ endl) w)
             (getInterfaceByOrigin origin (bridge\<lparr>c_bridge := w\<rparr>))
         else Some (print_line (said @ '' from internal'' @ endl) w));
     if mDataLen header > 0 then
       case payload of
         [] \<Rightarrow> None
       | r0 # _ \<Rightarrow> Some (if sint r0 = uint firstByteToListen
           then print_line (''specially marked message with first byte: '' @ hex2 firstByteToListen @ endl) w else w)
     else Some w
   }"

text \<open>The virtual functions of the program's objects. While the bridge processes messages its objects stay the same.\<close>

definition example_functions :: "'x devices \<Rightarrow> 'x process cpp_bridge \<Rightarrow> 'x process virtual_functions" where
  "example_functions dev bridge =
     \<lparr>writeEscapedBytes = (\<lambda>i bytes. beyond_update (device_write dev i bytes)),
      readEscapedBytes = (\<lambda>i count p. let (bytes, x) = device_read dev i count (beyond p) in (bytes, p\<lparr>beyond := x\<rparr>)),
      other_handle = (\<lambda>k. ExampleHandler_handle bridge someFirstByteToListen)\<rparr>"

text \<open>\<open>Inl\<close> is the exception of an interface that is not created, which nobody catches.\<close>

definition create_example_node :: "config \<Rightarrow> 'x process cpp_bridge \<Rightarrow> 'x process cpp_bridge option" where
  "create_example_node cfg b =
     map_option (createNodeHandler 0 0 ''ExampleHandler'' Other_object) (createNode cfg 0 ownDeviceId b)"

definition create_example_interfaces ::
  "config \<Rightarrow> (interface_config \<Rightarrow> bool) \<Rightarrow> 'x process cpp_bridge \<Rightarrow> (cpp_exception + 'x process cpp_bridge) option" where
  "create_example_interfaces cfg opens b = do {
     (made, b) \<leftarrow> createInterface cfg opens 0 connectionUdp NDLCOM_EXTERNAL_INTERFACE_FLAGS_DEFAULT b;
     case made of Inl e \<Rightarrow> Some (Inl e) | Inr _ \<Rightarrow> do {
       (made, b) \<leftarrow> createInterface cfg opens 1 connectionPty NDLCOM_EXTERNAL_INTERFACE_FLAGS_DEFAULT b;
       Some (case made of Inl e \<Rightarrow> Inl e | Inr _ \<Rightarrow> Inr b)
     }
   }"

text \<open>The message that the bridge sends, and what the loop does in one turn. An \<open>int\<close> that counts too far is undefined.\<close>

definition broadcast_header :: NDLComHeader where
  "broadcast_header = \<lparr>mReceiverId = NDLCOM_ADDR_BROADCAST, mSenderId = ownDeviceId, mCounter = 0, mDataLen = 5\<rparr>"

definition print_on :: "string \<Rightarrow> 'x process cpp_bridge \<Rightarrow> 'x process cpp_bridge" where
  "print_on s b = b\<lparr>c_bridge := print_line s (c_bridge b)\<rparr>"

definition every_tenth ::
  "config \<Rightarrow> 'x devices \<Rightarrow> int \<Rightarrow> 'x process cpp_bridge \<Rightarrow> 'x process cpp_bridge option" where
  "every_tenth cfg dev cnt b =
     (if cnt mod 10 = 0 then
        map_option (print_on (''bridge sent raw broadcast message'' @ endl))
          (Bridge_sendMessageRaw_header cfg (example_functions dev b) broadcast_header [0, 0, 0, 0, 0] b)
      else Some b)"

definition every_fifth ::
  "config \<Rightarrow> 'x devices \<Rightarrow> NDLComHeader \<Rightarrow> int \<Rightarrow> 'x process cpp_bridge \<Rightarrow> 'x process cpp_bridge option" where
  "every_fifth cfg dev junk cnt b =
     (if cnt mod 5 = 0 then
        map_option (print_on (''node sent message at myself'' @ endl))
          (Node_send_bytes cfg (example_functions dev b) junk 0 ownDeviceId [] 0 b)
      else Some b)"

definition usleep :: "('x \<Rightarrow> 'x) \<Rightarrow> 'x process cpp_bridge \<Rightarrow> 'x process cpp_bridge" where
  "usleep arrives b = b\<lparr>c_bridge := upd_env (outside_update (beyond_update arrives)) (c_bridge b)\<rparr>"

definition cpp_example_turn ::
  "config \<Rightarrow> 'x devices \<Rightarrow> NDLComHeader \<Rightarrow> ('x \<Rightarrow> 'x) \<Rightarrow> int \<times> 'x process cpp_bridge \<Rightarrow> (int \<times> 'x process cpp_bridge) option" where
  "cpp_example_turn cfg dev junk arrives s =
     (let (cnt, b) = s in
      if cnt \<ge> 2 ^ 31 - 1 then None
      else do {
        let cnt = cnt + 1;
        let b = usleep arrives (print_on (''entering loop '' @ show_int cnt @ endl) b);
        b \<leftarrow> Bridge_process cfg (example_functions dev b) b;
        b \<leftarrow> every_tenth cfg dev cnt b;
        b \<leftarrow> every_fifth cfg dev junk cnt b;
        Some (cnt, b)
      })"

text \<open>
  Before each turn a \<open>SIGINT\<close> may have arrived, after which the loop ends; otherwise the turn has what
  arrives in it. The parameter lists the turns; behind the last one the program goes on.
\<close>

datatype 'x cpp_turn = Interrupted | Arrives "'x \<Rightarrow> 'x"

datatype 'b program_end = Returned 'b | Goes_on 'b | Throws cpp_exception | Crashes

fun cpp_example_loop ::
  "config \<Rightarrow> 'x devices \<Rightarrow> NDLComHeader \<Rightarrow> 'x cpp_turn list \<Rightarrow> int \<times> 'x process cpp_bridge \<Rightarrow> 'x process cpp_bridge program_end" where
  "cpp_example_loop cfg dev junk [] s = Goes_on (snd s)"
| "cpp_example_loop cfg dev junk (Interrupted # turns) s =
     (case Bridge_destructor cfg (snd s) of None \<Rightarrow> Crashes | Some b \<Rightarrow> Returned b)"
| "cpp_example_loop cfg dev junk (Arrives g # turns) s =
     (case cpp_example_turn cfg dev junk g s of None \<Rightarrow> Crashes | Some s \<Rightarrow> cpp_example_loop cfg dev junk turns s)"

definition cpp_example_main ::
  "config \<Rightarrow> 'x devices \<Rightarrow> (interface_config \<Rightarrow> bool) \<Rightarrow> NDLComHeader \<Rightarrow> 'x process cpp_world \<Rightarrow> 'x cpp_turn list \<Rightarrow>
    'x process cpp_bridge program_end" where
  "cpp_example_main cfg dev opens junk w turns =
     (case Option.bind (create_example_node cfg (Bridge_new cfg [] w)) (create_example_interfaces cfg opens) of
        None \<Rightarrow> Crashes
      | Some (Inl e) \<Rightarrow> Throws e
      | Some (Inr b) \<Rightarrow> cpp_example_loop cfg dev junk turns (0, b\<lparr>out := out b @ Bridge_printStatus cfg b\<rparr>))"

section \<open>Its handler and its devices\<close>

lemma print_line_frame [simp]:
  "links (print_line s w) = links w" "routingTable (print_line s w) = routingTable w" "ifaces (print_line s w) = ifaces w"
  "handlers (print_line s w) = handlers w" "nodes (print_line s w) = nodes w" "nodeHandlers (print_line s w) = nodeHandlers w"
  "bridge_flags (print_line s w) = bridge_flags w" "env (print_line s w) = outside_update (stdout_update (\<lambda>printed. printed @ s)) (env w)"
  "print_line t (print_line s w) = print_line (s @ t) w" "print_line [] w = w"
  by (simp_all add: print_line_def upd_env_def)

text \<open>Whatever the handler gets, it only prints; and for the calls that happen it returns.\<close>

lemma example_handler_prints:
  "ExampleHandler_handle bridge first header payload origin w = Some w' \<Longrightarrow> \<exists>s. w' = print_line s w"
  by (auto simp: ExampleHandler_handle_def Let_def split: Option.bind_splits if_splits list.splits)

lemma origin_found:
  assumes "origin \<in> Iface_ptr ` set (externalInterfaces b)"
  shows "\<exists>i. getInterfaceByOrigin origin b = Some i"
proof -
  have "getInterfaceByOrigin origin b \<noteq> None" using assms unfolding getInterfaceByOrigin_def find_None_iff by auto
  then show ?thesis by blast
qed

lemma example_handler_returns:
  assumes "origin = Null \<or> origin \<in> Iface_ptr ` set (externalInterfaces bridge)" and "unat (mDataLen header) \<le> length payload"
  shows "ExampleHandler_handle bridge first header payload origin w \<noteq> None"
proof -
  have "origin \<noteq> Null \<Longrightarrow> \<exists>i. getInterfaceByOrigin origin (bridge\<lparr>c_bridge := w\<rparr>) = Some i"
    using assms(1) by (intro origin_found) simp
  moreover have "mDataLen header > 0 \<Longrightarrow> payload \<noteq> []" using assms(2) by (auto simp: word_gt_0 unat_eq_0)
  ultimately show ?thesis
    by (auto simp: ExampleHandler_handle_def Let_def split: list.splits)
qed

text \<open>Devices whose data runs out.\<close>

definition devices_drain :: "'x devices \<Rightarrow> ('x \<Rightarrow> nat) \<Rightarrow> bool" where
  "devices_drain dev pending \<longleftrightarrow>
     (\<forall>i n x. length (fst (device_read dev i n x)) \<le> n \<and>
        (fst (device_read dev i n x) = [] \<longrightarrow> snd (device_read dev i n x) = x) \<and>
        (fst (device_read dev i n x) \<noteq> [] \<longrightarrow> pending (snd (device_read dev i n x)) < pending x)) \<and>
     (\<forall>i bytes x. pending (device_write dev i bytes x) \<le> pending x)"

lemma devices_drainD:
  assumes "devices_drain dev pending"
  shows "length (fst (device_read dev i n x)) \<le> n"
    and "fst (device_read dev i n x) = [] \<Longrightarrow> snd (device_read dev i n x) = x"
    and "fst (device_read dev i n x) \<noteq> [] \<Longrightarrow> pending (snd (device_read dev i n x)) < pending x"
    and "pending (device_write dev i bytes x) \<le> pending x"
  using assms unfolding devices_drain_def by simp_all

text \<open>
  The callbacks of the program when all handlers are the one of the example and no interface is paused;
  under this condition they are those of the library.
\<close>

definition plain :: "'x process cpp_world \<Rightarrow> bool" where
  "plain w \<longleftrightarrow> (\<forall>k. handler_objects (env w) k = Other_object) \<and> (\<forall>i. \<not> paused (interface_objects (env w) i))"

definition plain_callbacks :: "'x devices \<Rightarrow> 'x process cpp_bridge \<Rightarrow> 'x process objects callbacks" where
  "plain_callbacks dev bridge =
     \<lparr>cb_write = writeWrapper (example_functions dev bridge),
      cb_read = (\<lambda>i n e. let (buf, x) = device_read dev i n (beyond (outside e))
        in (buf, noteIncomingBytes i (length buf) (e\<lparr>outside := (outside e)\<lparr>beyond := x\<rparr>\<rparr>))),
      cb_handler = (\<lambda>k. ExampleHandler_handle bridge someFirstByteToListen)\<rparr>"

lemma plain_agree: "callbacks_agree plain (plain_callbacks dev bridge) (cpp_callbacks cfg (example_functions dev bridge))"
  by (auto simp: callbacks_agree_def plain_callbacks_def cpp_callbacks_def plain_def handleWrapper_def example_functions_def
      readWrapper_def Let_def split: prod.split)

lemma plain_print [simp]: "plain (print_line s w) = plain w"
  by (simp add: plain_def)

lemma plain_noted:
  "plain (w\<lparr>env := noteIncomingBytes i n ((env w)\<lparr>outside := p\<rparr>)\<rparr>) = plain w"
  "plain (w\<lparr>env := noteOutgoingBytes i n ((env w)\<lparr>outside := p\<rparr>)\<rparr>) = plain w"
  by (auto simp: plain_def noteIncomingBytes_def noteOutgoingBytes_def upd_interface_object_def)

lemma plain_run: "run_invariant cfg (plain_callbacks dev bridge) plain"
proof -
  have "handlers_preserve (plain_callbacks dev bridge) plain"
    unfolding handlers_preserve_def by (auto simp: plain_callbacks_def dest!: example_handler_prints)
  moreover have "plain w \<Longrightarrow> plain (iface_write (plain_callbacks dev bridge) j bytes w)" for j bytes w
    by (cases "paused (interface_objects (env w) (ei_io (ifaces w j)))")
      (simp_all add: iface_write_def plain_callbacks_def writeWrapper_def plain_noted)
  moreover have "plain w \<Longrightarrow> plain (w\<lparr>env := snd (cb_read (plain_callbacks dev bridge) io n (env w))\<rparr>)" for io n w
    by (simp add: plain_callbacks_def case_prod_beta Let_def plain_noted)
  moreover have "plain w \<Longrightarrow> plain (learn_sender cfg i header w)" "plain w \<Longrightarrow> plain (upd_iface i g w)"
    for i header g and w :: "'a process cpp_world"
    by (simp_all add: plain_def world_frame upd_iface_def)
  ultimately show ?thesis unfolding run_invariant_def message_invariant_def by blast
qed

lemma plain_returns:
  assumes "set ids = set (externalInterfaces bridge)"
  shows "handlers_return (plain_callbacks dev bridge) ids"
  unfolding handlers_return_def handlers_leave_lists_def
proof (intro conjI allI impI)
  fix k origin w and header :: NDLComHeader and payload :: "u8 list"
  assume "origin = Null \<or> origin \<in> Iface_ptr ` set ids" and "unat (mDataLen header) \<le> length payload"
  from example_handler_returns [OF this(1) [unfolded assms] this(2)]
  show "cb_handler (plain_callbacks dev bridge) k header payload origin w \<noteq> None" by (simp add: plain_callbacks_def)
qed (auto simp: plain_callbacks_def dest!: example_handler_prints)

lemma objects_same: "noteIncomingBytes i 0 e = e"
  by (cases "interface_objects e i") (simp add: noteIncomingBytes_def upd_interface_object_def fun_upd_idem)

lemma plain_drains:
  assumes "devices_drain dev pending"
  shows "drains (plain_callbacks dev bridge) (\<lambda>e. pending (beyond (outside e)))"
proof -
  note d = devices_drainD [OF assms]
  have noted: "outside (noteIncomingBytes i n e) = outside e" "outside (noteOutgoingBytes i n e) = outside e"
    for i n and e :: "'x process objects"
    by (simp_all add: noteIncomingBytes_def noteOutgoingBytes_def upd_interface_object_def)
  show ?thesis
    unfolding drains_def
    by (auto simp: plain_callbacks_def case_prod_beta Let_def writeWrapper_def example_functions_def noted objects_same d(1,3,4)
        dest!: d(2) example_handler_prints)
qed

section \<open>Its state\<close>

definition printed :: "'x process cpp_world \<Rightarrow> string" where
  "printed w = stdout (outside (env w))"

lemma printed_print [simp]: "printed (print_line s w) = printed w @ s"
  by (simp add: printed_def)

text \<open>The structures of the node and its handler.\<close>

definition wired :: "'x process cpp_world \<Rightarrow> bool" where
  "wired w \<longleftrightarrow> handlers w (Handler_of_node 0) = \<lparr>bh_bridge = Bridge_ptr, bh_flags = 0, bh_handler = Node_message_handler 0\<rparr> \<and>
     nodeHandlers w 0 = \<lparr>nh_node = Some 0, nh_flags = 0, nh_handler = 0\<rparr> \<and> node_own_id 0 w = ownDeviceId"

lemma wired_cong:
  "handlers w = handlers v \<Longrightarrow> nodeHandlers w = nodeHandlers v \<Longrightarrow> node_own_id 0 w = node_own_id 0 v \<Longrightarrow> wired w = wired v"
  by (simp add: wired_def)

text \<open>The state between two turns: the bridge owns what the program made, and can be processed.\<close>

definition owns_example :: "nat list \<Rightarrow> 'x process cpp_bridge \<Rightarrow> bool" where
  "owns_example js b \<longleftrightarrow> (\<exists>r. owns b r) \<and> externalInterfaces b = js \<and> bridgeHandler b = [] \<and> cpp_nodes b = [0] \<and>
     allHandler b 0 = [0] \<and> plain (c_bridge b) \<and> wired (c_bridge b)"

definition ready :: "config \<Rightarrow> 'x process cpp_bridge \<Rightarrow> bool" where
  "ready cfg b \<longleftrightarrow> owns_example [0, 1] b \<and>
     (\<forall>i \<in> {0, 1}. parser_wf cfg (ei_parser (ifaces (c_bridge b) i)) \<and> \<not> ndlcomParserHasPacket (ei_parser (ifaces (c_bridge b) i)))"

lemma readyD:
  assumes "ready cfg b"
  shows "\<exists>r. owns b r" "externalInterfaces b = [0, 1]" "bridgeHandler b = []" "cpp_nodes b = [0]" "allHandler b 0 = [0]"
    "plain (c_bridge b)" "wired (c_bridge b)"
    "i \<in> {0, 1} \<Longrightarrow> parser_wf cfg (ei_parser (ifaces (c_bridge b) i)) \<and> \<not> ndlcomParserHasPacket (ei_parser (ifaces (c_bridge b) i))"
  using assms by (auto simp: ready_def owns_example_def)

lemma distinct_singleton: "set xs = {x} \<Longrightarrow> distinct xs \<Longrightarrow> xs = [x]"
  by (cases xs; cases "tl xs") auto

lemma readyE:
  assumes "ready cfg b"
  obtains r where "owns b r" and "bridge_ok cfg (c_bridge b) [1, 0] [Handler_of_node 0]"
    and "dlist (links (c_bridge b)) (NodeHandlerList 0) (map Node_handler_list [0])"
proof -
  note c = readyD [OF assms]
  obtain r where r: "owns b r" using c(1) by blast
  have e: "reg_interfaces r = [1, 0]" and n: "reg_node_handlers r 0 = [0]" using ownsD(2,4) [OF r] c(2,5) by simp_all
  have "set (reg_handlers r) = {Handler_of_node 0}" using ownsD(3) [OF r] c(3,4) by simp
  moreover have "distinct (reg_handlers r)" by (rule holds_distinct(2) [OF ownsD(1) [OF r]])
  ultimately have h: "reg_handlers r = [Handler_of_node 0]" by (rule distinct_singleton)
  have "bridge_ok cfg (c_bridge b) [1, 0] [Handler_of_node 0]"
    using holds_registered [OF ownsD(1) [OF r]] c(8) by (simp add: bridge_ok_def e h)
  moreover have "dlist (links (c_bridge b)) (NodeHandlerList 0) (map Node_handler_list [0])"
    using holds_dlist(3) [OF ownsD(1) [OF r], of 0] by (simp add: n)
  ultimately show ?thesis by (rule that [OF r])
qed

lemma owns_example_next:
  assumes "owns_example js b" and "links w = links (c_bridge b)" and "handlers w = handlers (c_bridge b)"
    and "plain w" and "wired w"
  shows "owns_example js (b\<lparr>c_bridge := w\<rparr>)"
proof -
  obtain r where "owns b r" using assms(1) by (auto simp: owns_example_def)
  from owns_elsewhere [OF this assms(2,3)] show ?thesis using assms by (simp add: owns_example_def)
qed

lemma ready_next:
  assumes "ready cfg b" and "links w = links (c_bridge b)" and "handlers w = handlers (c_bridge b)"
    and "ifaces w = ifaces (c_bridge b)" and "plain w" and "wired w"
  shows "ready cfg (b\<lparr>c_bridge := w\<rparr>)"
  using owns_example_next [OF _ assms(2,3,5,6)] assms(1,4) by (simp add: ready_def)

lemma ready_print_on: "ready cfg b \<Longrightarrow> ready cfg (print_on s b)"
  unfolding print_on_def by (rule ready_next) (use readyD(6,7) [of cfg b] in \<open>simp_all add: wired_def node_own_id_def\<close>)

lemma ready_usleep: "ready cfg b \<Longrightarrow> ready cfg (usleep arrives b)"
  unfolding usleep_def by (rule ready_next) (use readyD(6,7) [of cfg b] in \<open>simp_all add: plain_def wired_def node_own_id_def upd_env_def\<close>)

lemma ready_out [simp]: "ready cfg (b\<lparr>out := s\<rparr>) = ready cfg b"
  by (simp add: ready_def owns_example_def)

lemma ready_interfaces: "ready cfg b \<Longrightarrow> set [1, 0] = set (externalInterfaces b)"
  by (auto simp: readyD(2))

section \<open>Processing\<close>

text \<open>What processing and sending keep: the structures of the node; what was printed is only extended.\<close>

lemma of_structure_wired: "of_structure wired"
  by (simp add: of_structure_def wired_def node_own_id_def)

lemma plain_callbacks_preserve:
  assumes "\<And>s w. Q w \<Longrightarrow> Q (print_line s w)"
  shows "handlers_preserve (plain_callbacks dev bridge) Q"
  using assms by (auto simp: handlers_preserve_def plain_callbacks_def dest!: example_handler_prints)

lemma wired_run: "run_invariant cfg (plain_callbacks dev bridge) wired"
  by (rule of_structure_run_invariant [OF of_structure_wired plain_callbacks_preserve]) (simp add: wired_def node_own_id_def)

lemma printed_write: "printed (iface_write (plain_callbacks dev bridge) j bytes w) = printed w"
  by (simp add: printed_def iface_write_def plain_callbacks_def writeWrapper_def example_functions_def noteOutgoingBytes_def
      upd_interface_object_def)

lemma printed_run: "run_invariant cfg (plain_callbacks dev bridge) (\<lambda>v. \<exists>s. printed v = t @ s)"
proof -
  have "handlers_preserve (plain_callbacks dev bridge) (\<lambda>v. \<exists>s. printed v = t @ s)"
    by (rule plain_callbacks_preserve) auto
  moreover have "printed (w\<lparr>env := snd (cb_read (plain_callbacks dev bridge) io n (env w))\<rparr>) = printed w" for io n w
    by (simp add: printed_def plain_callbacks_def case_prod_beta Let_def noteIncomingBytes_def upd_interface_object_def)
  moreover have "printed (learn_sender cfg i header w) = printed w" "printed (upd_iface i g w) = printed w"
    for i header g and w :: "'a process cpp_world"
    by (simp_all add: printed_def world_frame upd_iface_def)
  ultimately show ?thesis unfolding run_invariant_def message_invariant_def by (simp add: printed_write)
qed

text \<open>As data runs out, processing returns.\<close>

lemma ready_process:
  assumes "ready cfg b" and "devices_drain dev pending"
  shows "\<exists>b' s. Bridge_process cfg (example_functions dev b) b = Some b' \<and> ready cfg b' \<and>
    printed (c_bridge b') = printed (c_bridge b) @ s"
proof -
  let ?cb = "plain_callbacks dev b" and ?vf = "example_functions dev b"
  note c = readyD [OF assms(1)]
  obtain r where r: "owns b r" "bridge_ok cfg (c_bridge b) [1, 0] [Handler_of_node 0]" by (rule readyE [OF assms(1)])
  obtain n w where w: "process_until_idle cfg ?cb 0 (c_bridge b) = Some (n, w)" "bridge_ok cfg w [1, 0] [Handler_of_node 0]"
    using process_until_idle_effect [OF plain_returns [OF ready_interfaces [OF assms(1)]] plain_drains [OF assms(2)] r(2), of 0] by auto
  note keeps = process_until_idle_keeps [OF w(1)]
  have kept: "plain w" "wired w" "\<exists>s. printed w = printed (c_bridge b) @ s"
    using keeps [OF c(6) plain_run] keeps [OF c(7) wired_run]
      keeps [where Q = "\<lambda>v. \<exists>s. printed v = printed (c_bridge b) @ s", OF _ printed_run] by auto
  have "ndlcomBridgeProcess cfg (cpp_callbacks cfg ?vf) (c_bridge b) = Some (n, w)"
    unfolding ndlcomBridgeProcess_def by (rule process_until_idle_agrees [OF w(1) c(6) plain_run plain_agree])
  then have run: "Bridge_process cfg ?vf b = Some (b\<lparr>c_bridge := w\<rparr>)" by (simp add: Bridge_process_def)
  have "outsiders_keep_lists ?vf"
    by (auto simp: outsiders_keep_lists_def example_functions_def dest!: example_handler_prints)
  from Bridge_process_owns [OF run this r(1)] obtain r' where "owns (b\<lparr>c_bridge := w\<rparr>) r'" by blast
  then have "ready cfg (b\<lparr>c_bridge := w\<rparr>)" using c(2-5) kept(1,2) w(2) by (auto simp: ready_def owns_example_def bridge_ok_def)
  then show ?thesis using run kept(3) by auto
qed

text \<open>The lines for a message of the program itself.\<close>

definition internal_line :: "u8 \<Rightarrow> NDLComHeader \<Rightarrow> u8 list \<Rightarrow> string" where
  "internal_line first header payload =
     ''message from '' @ hex2 (mSenderId header) @ '' with '' @ dec (unat (mDataLen header)) @ '' bytes from internal'' @ endl @
     (if mDataLen header > 0 \<and> sint (hd payload) = uint first
      then ''specially marked message with first byte: '' @ hex2 first @ endl else [])"

lemma handle_internal:
  assumes "unat (mDataLen header) \<le> length payload"
  shows "ExampleHandler_handle bridge first header payload Null w = Some (print_line (internal_line first header payload) w)"
proof -
  have "mDataLen header > 0 \<Longrightarrow> payload \<noteq> []" using assms by (auto simp: word_gt_0 unat_eq_0)
  then show ?thesis by (auto simp: ExampleHandler_handle_def internal_line_def Let_def split: list.splits)
qed

lemma deliver_internal:
  assumes "dlist (links w) (NodeHandlerList 0) (map Node_handler_list [0])" and "wired w"
    and "unat (mDataLen header) \<le> length payload" and "mReceiverId header \<in> {ownDeviceId, NDLCOM_ADDR_BROADCAST}"
  shows "deliver_bridge (plain_callbacks dev bridge) header payload Bridge_ptr [Handler_of_node 0] w =
    Some (print_line (internal_line someFirstByteToListen header payload) w)"
proof -
  have "handlers_leave_lists (plain_callbacks dev bridge)"
    by (auto simp: handlers_leave_lists_def plain_callbacks_def dest!: example_handler_prints)
  from node_message_handler_effect [OF this assms(1), of header payload Null]
  have "ndlcomNodeMessageHandler (plain_callbacks dev bridge) 0 header payload Null w =
      deliver_node (plain_callbacks dev bridge) header payload Null [0] w"
    using assms(2,4) by (auto simp: wired_def node_own_id_def)
  also have "\<dots> = Some (print_line (internal_line someFirstByteToListen header payload) w)"
    using assms(2) by (simp add: deliver_node_def node_handler_body_def wired_def node_handler_ignores_internal_def
        plain_callbacks_def handle_internal [OF assms(3)])
  finally show ?thesis
    using assms(2) by (simp add: deliver_bridge_def bridge_handler_body_def call_handler_def wired_def ignores_internal_def)
qed

text \<open>Such a message is written to interfaces and delivered to the handler.\<close>

lemma write_all_keeps: "Q w \<Longrightarrow> message_invariant cb Q \<Longrightarrow> Q (write_all cb bytes is w)"
  by (induction "is" arbitrary: w) (simp_all add: message_invariantD(2))

lemma ready_decoded:
  assumes "ready cfg (b\<lparr>c_bridge := w\<rparr>)" and "unat (mDataLen header) \<le> length payload"
    and "mReceiverId header \<in> {ownDeviceId, NDLCOM_ADDR_BROADCAST}"
  shows "\<exists>w'. ndlcomBridgeProcessDecodedMessage cfg (cpp_callbacks cfg (example_functions dev b)) header payload Bridge_ptr w = Some w' \<and>
    ready cfg (b\<lparr>c_bridge := w'\<rparr>) \<and> printed w' = printed w @ internal_line someFirstByteToListen header payload"
proof -
  let ?cb = "plain_callbacks dev b"
  have ok: "bridge_ok cfg w [1, 0] [Handler_of_node 0]" and nh: "dlist (links w) (NodeHandlerList 0) (map Node_handler_list [0])"
    by (rule readyE [OF assms(1)], simp)+
  have c: "plain w" "wired w" using readyD(6,7) [OF assms(1)] by simp_all
  have "set [1, 0] = set (externalInterfaces b)" using ready_interfaces [OF assms(1)] by simp
  note leave = handlers_return_leave [OF plain_returns [OF this, where dev = dev]]
  let ?v = "write_all ?cb (frame cfg header (take (unat (mDataLen header)) payload)) (message_targets cfg w header Bridge_ptr [1, 0]) w"
  let ?w = "print_line (internal_line someFirstByteToListen header payload) ?v"
  note inv = run_invariantD(1) [OF plain_run, of dev b]
  have "plain ?v" and wired: "wired ?v"
    using write_all_keeps [OF c(1) inv] write_all_keeps [OF c(2) run_invariantD(1) [OF wired_run]] by blast+
  have same: "links ?v = links w" "handlers ?v = handlers w" "ifaces ?v = ifaces w" by (simp_all add: world_frame)
  have "printed (write_all ?cb bytes is u) = printed u" for bytes "is" u
    by (induction "is" arbitrary: u) (simp_all add: printed_write)
  then have lines: "printed ?w = printed w @ internal_line someFirstByteToListen header payload" by simp
  have run: "ndlcomBridgeProcessDecodedMessage cfg ?cb header payload Bridge_ptr w = Some ?w"
    using process_decoded_effect [OF leave _ _ _ assms(2), of w "[1, 0]" "[Handler_of_node 0]"] ok nh wired
      deliver_internal [of ?v header payload dev b] assms(2,3)
    by (simp add: bridge_ok_def registered_def world_frame)
  have "ready cfg (b\<lparr>c_bridge := ?w\<rparr>)"
    using ready_next [OF assms(1), of ?w] \<open>plain ?v\<close> wired same by (simp add: wired_def node_own_id_def)
  then show ?thesis using decoded_message_agrees [OF run c(1) inv plain_agree] lines by blast
qed

end
