(* ===== verification/Cpp_Example_Run.thy ===== *)
theory Cpp_Example_Run
  imports Cpp_Example
begin

text \<open>
  The run of the example program in C++: what a turn of its loop prints, how the loop ends, how the program sets
  up its objects, and the property of the whole program.
\<close>

section \<open>A turn of its loop\<close>

definition tenth_lines :: string where
  "tenth_lines = ''message from 0x52 with 5 bytes from internal'' @ endl @ ''specially marked message with first byte: 0x00'' @ endl @
     ''bridge sent raw broadcast message'' @ endl"

definition fifth_lines :: string where
  "fifth_lines = ''message from 0x52 with 0 bytes from internal'' @ endl @ ''node sent message at myself'' @ endl"

lemma own_lines:
  "internal_line someFirstByteToListen broadcast_header [0, 0, 0, 0, 0] @ ''bridge sent raw broadcast message'' @ endl = tenth_lines"
  "mSenderId header = ownDeviceId \<Longrightarrow> mDataLen header = 0 \<Longrightarrow>
    internal_line someFirstByteToListen header [] @ ''node sent message at myself'' @ endl = fifth_lines"
proof -
  have texts: "hex2 0x52 = ''0x52''" "hex2 0 = ''0x00''" "dec 5 = ''5''" "dec 0 = ''0''" by code_simp+
  show "internal_line someFirstByteToListen broadcast_header [0, 0, 0, 0, 0] @ ''bridge sent raw broadcast message'' @ endl = tenth_lines"
    "mSenderId header = ownDeviceId \<Longrightarrow> mDataLen header = 0 \<Longrightarrow>
      internal_line someFirstByteToListen header [] @ ''node sent message at myself'' @ endl = fifth_lines"
    by (simp_all add: internal_line_def broadcast_header_def ownDeviceId_def someFirstByteToListen_def texts [simplified]
        tenth_lines_def fifth_lines_def)
qed

lemma printed_on [simp]: "printed (c_bridge (print_on s b)) = printed (c_bridge b) @ s"
  by (simp add: print_on_def)

lemma printed_usleep [simp]: "printed (c_bridge (usleep arrives b)) = printed (c_bridge b)"
  by (simp add: usleep_def printed_def)

lemma ready_every_tenth:
  assumes "ready cfg b"
  shows "\<exists>b'. every_tenth cfg dev cnt b = Some b' \<and> ready cfg b' \<and>
    printed (c_bridge b') = printed (c_bridge b) @ (if cnt mod 10 = 0 then tenth_lines else [])"
proof -
  have b: "ready cfg (b\<lparr>c_bridge := c_bridge b\<rparr>)" using assms by simp
  have len: "unat (mDataLen broadcast_header) \<le> length [0, 0, 0, 0, 0 :: u8]"
    and to: "mReceiverId broadcast_header \<in> {ownDeviceId, NDLCOM_ADDR_BROADCAST}" by (simp_all add: broadcast_header_def)
  from ready_decoded [OF b len to, of dev] assms own_lines(1) show ?thesis
    by (auto simp: every_tenth_def Bridge_sendMessageRaw_header_def ndlcomBridgeSendRaw_def intro: ready_print_on)
qed

lemma ready_every_fifth:
  assumes "ready cfg b"
  shows "\<exists>b'. every_fifth cfg dev junk cnt b = Some b' \<and> ready cfg b' \<and>
    printed (c_bridge b') = printed (c_bridge b) @ (if cnt mod 5 = 0 then fifth_lines else [])"
proof -
  note c = readyD [OF assms]
  obtain k header where prep: "ndlcomHeaderPrepare cfg (headerConfig (nodes (c_bridge b) 0)) junk ownDeviceId (of_nat 0) = (k, header)"
    by fastforce
  then have header: "mDataLen header = 0" "mReceiverId header = ownDeviceId" "mSenderId header = ownDeviceId"
    and own: "mOwnSenderId k = ownDeviceId"
    using c(7) by (auto simp: wired_def node_own_id_def ndlcomHeaderPrepare_def Let_def split: if_splits)
  let ?w = "upd_node 0 (headerConfig_update (\<lambda>_. k)) (c_bridge b)"
  have "node_own_id 0 ?w = ownDeviceId" by (simp add: node_own_id_def upd_node_def own)
  then have b: "ready cfg (b\<lparr>c_bridge := ?w\<rparr>)"
    using c(6,7) by (intro ready_next [OF assms]) (simp_all add: plain_def wired_def upd_node_def)
  have len: "unat (mDataLen header) \<le> length ([] :: u8 list)" and to: "mReceiverId header \<in> {ownDeviceId, NDLCOM_ADDR_BROADCAST}"
    by (simp_all add: header)
  obtain w' where w': "ndlcomBridgeProcessDecodedMessage cfg (cpp_callbacks cfg (example_functions dev b)) header [] Bridge_ptr ?w = Some w'"
    "ready cfg (b\<lparr>c_bridge := w'\<rparr>)" "printed w' = printed ?w @ internal_line someFirstByteToListen header []"
    using ready_decoded [OF b len to, of dev] by auto
  have "node_bridge 0 ?w \<noteq> Null" using c(7) by (simp add: wired_def node_bridge_def upd_node_def)
  then have "ndlcomNodeSend cfg (cpp_callbacks cfg (example_functions dev b)) junk 0 ownDeviceId [] 0 (c_bridge b) = Some w'"
    using prep w'(1) by (simp add: ndlcomNodeSend_def ndlcomBridgeSendRaw_def)
  moreover have "printed ?w = printed (c_bridge b)" by (simp add: printed_def upd_node_def)
  ultimately show ?thesis
    using assms w'(2,3) own_lines(2) [OF header(3,1)]
    by (auto simp: every_fifth_def Node_send_bytes_def intro: ready_print_on)
qed

text \<open>What a turn prints; \<open>received\<close> are the lines for what it received.\<close>

definition turn_lines :: "nat \<Rightarrow> string \<Rightarrow> string" where
  "turn_lines cnt received = ''entering loop '' @ dec cnt @ endl @ received @
     (if cnt mod 10 = 0 then tenth_lines else []) @ (if cnt mod 5 = 0 then fifth_lines else [])"

lemma ready_turn:
  assumes "ready cfg b" and "devices_drain dev pending" and "cnt < 2 ^ 31 - 1"
  shows "\<exists>b' received. cpp_example_turn cfg dev junk arrives (int cnt, b) = Some (int (Suc cnt), b') \<and> ready cfg b' \<and>
    printed (c_bridge b') = printed (c_bridge b) @ turn_lines (Suc cnt) received"
proof -
  let ?b = "usleep arrives (print_on (''entering loop '' @ dec (Suc cnt) @ endl) b)"
  have shown: "show_int (int cnt + 1) = dec (Suc cnt)" by (simp add: show_int_def nat_add_distrib)
  have mods: "(int cnt + 1) mod 10 = 0 \<longleftrightarrow> Suc cnt mod 10 = 0" "(int cnt + 1) mod 5 = 0 \<longleftrightarrow> Suc cnt mod 5 = 0" by presburger+
  have "ready cfg ?b" by (intro ready_usleep ready_print_on assms(1))
  from ready_process [OF this assms(2)] obtain b1 s where b1: "Bridge_process cfg (example_functions dev ?b) ?b = Some b1" "ready cfg b1"
    "printed (c_bridge b1) = printed (c_bridge b) @ ''entering loop '' @ dec (Suc cnt) @ endl @ s" by auto
  obtain b2 where b2: "every_tenth cfg dev (int cnt + 1) b1 = Some b2" "ready cfg b2"
    "printed (c_bridge b2) = printed (c_bridge b1) @ (if Suc cnt mod 10 = 0 then tenth_lines else [])"
    using ready_every_tenth [OF b1(2), of dev "int cnt + 1"] mods(1) by auto
  obtain b3 where b3: "every_fifth cfg dev junk (int cnt + 1) b2 = Some b3" "ready cfg b3"
    "printed (c_bridge b3) = printed (c_bridge b2) @ (if Suc cnt mod 5 = 0 then fifth_lines else [])"
    using ready_every_fifth [OF b2(2), of dev junk "int cnt + 1"] mods(2) by auto
  have "printed (c_bridge b3) = printed (c_bridge b) @ turn_lines (Suc cnt) s" by (simp add: b1(3) b2(3) b3(3) turn_lines_def)
  moreover have "cpp_example_turn cfg dev junk arrives (int cnt, b) = Some (int (Suc cnt), b3)"
    using b1(1) b2(1) b3(1) assms(3) by (simp add: cpp_example_turn_def Let_def shown [unfolded add.commute [of _ 1]] add.commute)
  ultimately show ?thesis using b3(2) by blast
qed

section \<open>Its loop\<close>

definition interrupts :: "'x cpp_turn list \<Rightarrow> bool" where
  "interrupts turns \<longleftrightarrow> Interrupted \<in> set turns"

definition turns_before :: "'x cpp_turn list \<Rightarrow> nat" where
  "turns_before turns = length (takeWhile (\<lambda>t. t \<noteq> Interrupted) turns)"

lemma turn_list_simps [simp]:
  "turns_before [] = 0" "turns_before (Interrupted # turns) = 0" "turns_before (Arrives g # turns) = Suc (turns_before turns)"
  "\<not> interrupts []" "interrupts (Interrupted # turns)" "interrupts (Arrives g # turns) = interrupts turns"
  by (simp_all add: turns_before_def interrupts_def)

text \<open>The program goes on until it is interrupted, and then leaves nothing behind; what it printed for \<open>n\<close> turns is \<open>s\<close>.\<close>

definition loop_ends :: "config \<Rightarrow> bool \<Rightarrow> string \<Rightarrow> 'x process cpp_bridge program_end \<Rightarrow> bool" where
  "loop_ends cfg stopped s x \<longleftrightarrow> (case x of
      Returned b \<Rightarrow> stopped \<and> printed (c_bridge b) = s \<and> externalInterfaces b = [] \<and> bridgeHandler b = [] \<and> cpp_nodes b = [] \<and>
        (\<forall>n. allHandler b n = []) \<and> list_empty (links (c_bridge b)) ExternalInterfaceList \<and>
        list_empty (links (c_bridge b)) BridgeHandlerList
    | Goes_on b \<Rightarrow> \<not> stopped \<and> printed (c_bridge b) = s \<and> ready cfg b
    | Throws e \<Rightarrow> False
    | Crashes \<Rightarrow> False)"

definition lines_from :: "(nat \<Rightarrow> string) \<Rightarrow> nat \<Rightarrow> nat \<Rightarrow> string" where
  "lines_from received cnt n = concat (map (\<lambda>k. turn_lines (Suc k) (received k)) [cnt..<cnt + n])"

lemma lines_from_simps:
  "lines_from received cnt 0 = []"
  "lines_from (received(cnt := s)) cnt (Suc n) = turn_lines (Suc cnt) s @ lines_from received (Suc cnt) n"
proof -
  have "[cnt..<cnt + Suc n] = cnt # [Suc cnt..<Suc cnt + n]" by (simp add: upt_conv_Cons)
  then show "lines_from (received(cnt := s)) cnt (Suc n) = turn_lines (Suc cnt) s @ lines_from received (Suc cnt) n"
    unfolding lines_from_def by (auto intro!: arg_cong [where f = concat])
qed (simp add: lines_from_def)

lemma ready_loop:
  assumes "ready cfg b" and "devices_drain dev pending" and "cnt + length turns < 2 ^ 31"
  shows "\<exists>received. loop_ends cfg (interrupts turns) (printed (c_bridge b) @ lines_from received cnt (turns_before turns))
    (cpp_example_loop cfg dev junk turns (int cnt, b))"
  using assms(1,3)
proof (induction turns arbitrary: cnt b)
  case Nil
  then show ?case by (simp add: loop_ends_def lines_from_simps)
next
  case (Cons tn turns)
  show ?case
  proof (cases tn)
    case Interrupted
    obtain r where "owns b r" using readyD(1) [OF Cons.prems(1)] by blast
    from destructor_effect [OF this, of cfg] show ?thesis
      using Interrupted by (auto simp: loop_ends_def lines_from_simps unchanged_streams_def printed_def)
  next
    case (Arrives g)
    have "cnt < 2 ^ 31 - 1" using Cons.prems(2) by simp
    from ready_turn [OF Cons.prems(1) assms(2) this] obtain b' s where b':
      "cpp_example_turn cfg dev junk g (int cnt, b) = Some (int (Suc cnt), b')" "ready cfg b'"
      "printed (c_bridge b') = printed (c_bridge b) @ turn_lines (Suc cnt) s" by blast
    have "Suc cnt + length turns < 2 ^ 31" using Cons.prems(2) by simp
    from Cons.IH [OF b'(2) this] obtain received where
      "loop_ends cfg (interrupts turns) (printed (c_bridge b') @ lines_from received (Suc cnt) (turns_before turns))
        (cpp_example_loop cfg dev junk turns (int (Suc cnt), b'))" by blast
    moreover have loop: "cpp_example_loop cfg dev junk (tn # turns) (int cnt, b) = cpp_example_loop cfg dev junk turns (int (Suc cnt), b')"
      unfolding Arrives by (simp only: cpp_example_loop.simps b'(1) option.case)
    moreover have lines: "printed (c_bridge b) @ lines_from (received(cnt := s)) cnt (turns_before (tn # turns)) =
        printed (c_bridge b') @ lines_from received (Suc cnt) (turns_before turns)"
      by (simp only: Arrives turn_list_simps lines_from_simps b'(3) append_assoc)
    moreover have stop: "interrupts (tn # turns) = interrupts turns" by (simp add: Arrives)
    ultimately have ends: "loop_ends cfg (interrupts (tn # turns))
        (printed (c_bridge b) @ lines_from (received(cnt := s)) cnt (turns_before (tn # turns)))
        (cpp_example_loop cfg dev junk (tn # turns) (int cnt, b))" by (simp only: loop lines stop)
    show ?thesis by (rule exI [where x = "received(cnt := s)"]) (rule ends)
  qed
qed

section \<open>Setting up\<close>

text \<open>The state while the program makes its objects; \<open>js\<close> are the interfaces it has.\<close>

definition making :: "config \<Rightarrow> nat list \<Rightarrow> 'x process cpp_bridge \<Rightarrow> bool" where
  "making cfg js b \<longleftrightarrow> owns_example js b \<and> world_typed cfg (c_bridge b) \<and>
     (\<forall>i \<in> set js. \<not> ndlcomParserHasPacket (ei_parser (ifaces (c_bridge b) i)))"

lemma making_ready: "making cfg [0, 1] b \<Longrightarrow> ready cfg b"
  by (simp add: making_def ready_def typed_parts)

lemma made_node:
  assumes "holds w no_registry" and "world_typed cfg w" and "plain w"
  shows "\<exists>b. create_example_node cfg (Bridge_new cfg s w) = Some b \<and> making cfg [] b \<and> printed (c_bridge b) = printed w"
proof -
  let ?b = "Bridge_new cfg s w"
  note start = new_bridge_owns [OF assms(1), of cfg s]
  let ?v = "upd_env (\<lambda>e. e\<lparr>node_labels := (node_labels e)(0 := ''Node-'' @ dec (unat ownDeviceId))\<rparr>) (c_bridge ?b)"
  have new: "world_typed cfg ?v" "holds ?v no_registry"
    using set_up_typed [OF api_call.bridge_init assms(2)] ownsD(1) [OF start] by (simp_all add: Bridge_new_def)
  have env: "env (c_bridge ?b) = env w" by (simp add: Bridge_new_def ndlcomBridgeInit_def upd_links_def)
  obtain w1 where w1: "ndlcomNodeRegister cfg 0 (ndlcomNodeInit 0 ownDeviceId ?v) = Some w1" "env w1 = env ?v"
    "handlers w1 (Handler_of_node 0) = \<lparr>bh_bridge = Bridge_ptr, bh_flags = 0, bh_handler = Node_message_handler 0\<rparr>"
    "nodes w1 0 = fresh_node cfg ownDeviceId"
    using node_set_up [OF new(2) _ _ typed_parts(3) [OF new(1)], of 0 ownDeviceId] by auto
  obtain b1 r1 where b1: "createNode cfg 0 ownDeviceId ?b = Some b1" "owns b1 r1" "externalInterfaces b1 = []" "bridgeHandler b1 = []"
    "cpp_nodes b1 = [0]" "allHandler b1 = (\<lambda>_. [])"
    using create_node_owns [OF start, of 0 cfg ownDeviceId] by (auto simp: Bridge_new_def)
  have c1: "c_bridge b1 = w1" using b1(1) w1(1) by (auto simp: createNode_def Node_new_def)
  have t1: "world_typed cfg w1"
    by (rule set_up_typed [OF api_call.register_node [OF w1(1)] set_up_typed [OF api_call.node_init new(1)]])
  let ?b2 = "createNodeHandler 0 0 ''ExampleHandler'' Other_object b1"
  have c2: "c_bridge ?b2 = ndlcomNodeRegisterNodeHandler 0 0 (put_object 0 Other_object (ndlcomNodeHandlerInit 0 0 NDLCOM_NODE_HANDLER_FLAGS_DEFAULT
      (upd_env (\<lambda>e. e\<lparr>handler_labels := (handler_labels e)(0 := ''ExampleHandler'')\<rparr>) w1)))"
    by (simp add: createNodeHandler_def NodeHandler_new_def c1)
  have t2: "world_typed cfg (c_bridge ?b2)"
    unfolding c2 put_object_def
    by (simp add: t1 set_up_typed [OF api_call.node_handler_init] set_up_typed [OF api_call.register_node_handler])
  have f2: "handlers (c_bridge ?b2) = handlers w1" "nodes (c_bridge ?b2) = nodes w1"
    "nodeHandlers (c_bridge ?b2) 0 = \<lparr>nh_node = Some 0, nh_flags = 0, nh_handler = 0\<rparr>"
    "env (c_bridge ?b2) = (env w1)\<lparr>handler_labels := (handler_labels (env w1))(0 := ''ExampleHandler''), handler_objects := (handler_objects (env w1))(0 := Other_object)\<rparr>"
    unfolding c2 put_object_def
    by (simp_all add: ndlcomNodeRegisterNodeHandler_def ndlcomNodeHandlerInit_def ndlcomNodeHandlerSetFlags_def Let_def upd_defs
        NDLCOM_NODE_HANDLER_FLAGS_DEFAULT_def)
  have "wired (c_bridge ?b2)" using w1(3,4) by (simp add: wired_def f2 node_own_id_def fresh_node_def)
  moreover have "plain (c_bridge ?b2)" using assms(3) by (simp add: plain_def f2 w1(2) env)
  moreover obtain r2 where "owns ?b2 r2" using create_node_handler_owns [OF b1(2), of 0 0] b1(5,6) by auto
  ultimately have "owns_example [] ?b2"
    using b1(3-6) unfolding owns_example_def by (auto simp: createNodeHandler_def)
  moreover have "printed (c_bridge ?b2) = printed w" by (simp add: printed_def f2 w1(2) env)
  ultimately show ?thesis using b1(1) t2 by (simp add: create_example_node_def making_def)
qed

text \<open>An interface whose uri has no ids.\<close>

lemma no_routes: "\<exists>text. setRoutingByString cfg i [] w = (None, put_cerr text w)"
proof -
  obtain said where "convertStringToIds (splitStringIntoStrings [] CHR '','') (std_cerr (env w)) = (Inr [], said)"
    using split_joined_ids [of "[]"] stoi_no_exception_dec [of "[]" "std_cerr (env w)"] by auto
  then show ?thesis by (auto simp: setRoutingByString_def)
qed

lemma plain_put_cerr [simp]: "plain (put_cerr g w) = plain w"
  by (simp add: plain_def put_cerr_def)

lemma made_interface:
  assumes "making cfg js b" and "i \<notin> set js" and "createInterfaceByMatch all_interface_classes s = Some (T, m)"
    and "constructor_arguments T m = Inr c" and "\<not> refused fl c" and "opens c" and "m_last m = []"
  shows "\<exists>b'. createInterface cfg opens i s fl b = Some (Inr i, b') \<and> making cfg (js @ [i]) b' \<and>
    printed (c_bridge b') = printed (c_bridge b)"
proof -
  have o: "owns_example js b" using assms(1) by (simp add: making_def)
  then obtain r where r: "owns b r" by (auto simp: owns_example_def)
  have unused: "i \<notin> set (externalInterfaces b)" using o assms(2) by (simp add: owns_example_def)
  let ?w = "ExternalInterfaceBase_new cfg i (interface_label c) fl (c_bridge b)"
  obtain b1 r1 where b1: "createExternalInterface cfg i (interface_label c) fl b = Some b1" "owns b1 r1"
    "externalInterfaces b1 = js @ [i]" "bridgeHandler b1 = []" "cpp_nodes b1 = [0]" "allHandler b1 0 = [0]"
    using create_interface_owns [OF r unused, of cfg "interface_label c" fl] o by (auto simp: owns_example_def)
  obtain w1 where w1: "ndlcomBridgeRegisterExternalInterface i ?w = Some w1" "c_bridge b1 = w1"
    using b1(1) by (auto simp: createExternalInterface_def split: Option.bind_splits)
  note f1 = register_interface_fields [OF w1(1)]
  have "world_typed cfg ?w" using assms(1) by (simp add: making_def ExternalInterfaceBase_new_def typed_iface_init)
  then have t: "world_typed cfg w1" by (rule set_up_typed [OF api_call.register_iface [OF w1(1)]])
  have p: "plain w1" "wired w1" "printed w1 = printed (c_bridge b)"
    using o by (simp_all add: f1 owns_example_def plain_def wired_def printed_def node_own_id_def ExternalInterfaceBase_new_def
        interface_init_fields interface_init_others upd_interface_object_def)
  have "\<not> ndlcomParserHasPacket (ei_parser (ifaces w1 j))" if "j \<in> set (js @ [i])" for j
    using that assms(1,2)
    by (cases "j = i") (auto simp: f1 making_def ExternalInterfaceBase_new_def interface_init_no_packet interface_init_others)
  then have np: "\<forall>j \<in> set (js @ [i]). \<not> ndlcomParserHasPacket (ei_parser (ifaces w1 j))" by blast
  obtain said where said: "setRoutingByString cfg i [] w1 = (None, put_cerr said w1)" using no_routes by blast
  let ?b = "b1\<lparr>c_bridge := put_cerr said w1\<rparr>"
  have "owns_example (js @ [i]) b1" using b1(2-6) p(1,2) w1(2) by (auto simp: owns_example_def)
  then have "owns_example (js @ [i]) ?b"
    by (rule owns_example_next) (use p w1(2) in \<open>simp_all add: put_cerr_def wired_def node_own_id_def upd_env_def plain_def\<close>)
  then have "making cfg (js @ [i]) ?b" using t np by (simp add: making_def) (simp add: put_cerr_def)
  moreover have "printed (c_bridge ?b) = printed (c_bridge b)" using p(3) by (simp add: printed_def put_cerr_def)
  moreover have "createInterface cfg opens i s fl b = Some (Inr i, ?b)"
    using b1(1) said assms(3-7) w1(2) by (simp add: createInterface_def)
  ultimately show ?thesis by blast
qed

text \<open>The two uris of the program.\<close>

lemma example_matches:
  "createInterfaceByMatch all_interface_classes connectionUdp =
     Some (InterfaceUdp, \<lparr>m_name = ''localhost'', m_numbers = [''34000'', ''34001'', []], m_last = []\<rparr>)"
  "createInterfaceByMatch all_interface_classes connectionPty =
     Some (InterfacePty, \<lparr>m_name = ''ptytest'', m_numbers = [], m_last = []\<rparr>)"
  by code_simp+

definition udp_config :: interface_config where "udp_config = Udp_socket ''localhost'' 34000 34001 0"

definition pty_config :: interface_config where "pty_config = Pseudo_terminal ''ptytest''"

lemma example_arguments:
  "constructor_arguments InterfaceUdp \<lparr>m_name = ''localhost'', m_numbers = [''34000'', ''34001'', []], m_last = []\<rparr> = Inr udp_config"
  "constructor_arguments InterfacePty \<lparr>m_name = ''ptytest'', m_numbers = [], m_last = []\<rparr> = Inr pty_config"
  "\<not> refused fl udp_config" "\<not> refused fl pty_config"
proof -
  have "dec 34000 = ''34000''" "dec 34001 = ''34001''" by (simp_all add: dec.simps digit_def char_of_eq_iff)
  then have "stoi ''34000'' = Inr 34000" "stoi ''34001'' = Inr 34001" using stoi_dec [of 34000] stoi_dec [of 34001] by simp_all
  then show "constructor_arguments InterfaceUdp \<lparr>m_name = ''localhost'', m_numbers = [''34000'', ''34001'', []], m_last = []\<rparr> = Inr udp_config"
    by (simp add: udp_config_def ExternalInterfaceUdp_of_match_def number_or_def)
qed (simp_all add: udp_config_def pty_config_def ExternalInterfacePty_of_match_def ExternalInterfaceUdp_refuses_def
    ExternalInterfacePty_refuses_def)

lemma made_interfaces:
  assumes "making cfg [] b" and "opens udp_config" and "opens pty_config"
  shows "\<exists>b'. create_example_interfaces cfg opens b = Some (Inr b') \<and> ready cfg b' \<and> printed (c_bridge b') = printed (c_bridge b)"
proof -
  obtain b1 where b1: "createInterface cfg opens 0 connectionUdp NDLCOM_EXTERNAL_INTERFACE_FLAGS_DEFAULT b = Some (Inr 0, b1)" "making cfg [0] b1"
    "printed (c_bridge b1) = printed (c_bridge b)"
    using made_interface [where opens = opens, OF assms(1) _ example_matches(1) example_arguments(1,3) assms(2), of 0] by auto
  obtain b2 where b2: "createInterface cfg opens 1 connectionPty NDLCOM_EXTERNAL_INTERFACE_FLAGS_DEFAULT b1 = Some (Inr 1, b2)" "making cfg [0, 1] b2"
    "printed (c_bridge b2) = printed (c_bridge b1)"
    using made_interface [where opens = opens, OF b1(2) _ example_matches(2) example_arguments(2,4) assms(3), of 1] by auto
  show ?thesis using b1(1,3) b2(1,3) making_ready [OF b2(2)] by (simp add: create_example_interfaces_def)
qed

section \<open>The program runs until it is interrupted\<close>


text \<open>Devices that stay silent.\<close>

definition silent_devices :: "unit devices" where
  "silent_devices = \<lparr>device_write = (\<lambda>i bytes x. x), device_read = (\<lambda>i n x. ([], x))\<rparr>"

definition nothing_printed :: "unit process objects" where
  "nothing_printed = \<lparr>interface_objects = (\<lambda>_. \<lparr>if_label = [], paused = False, rawBytesTx = 0, rawBytesRx = 0\<rparr>),
     handler_objects = (\<lambda>_. Other_object), handler_labels = (\<lambda>_. []), node_labels = (\<lambda>_. []), std_cerr = [],
     outside = \<lparr>stdout = [], beyond = ()\<rparr>\<rparr>"


end
