(* ===== verification/Tool_Survives.thy ===== *)
theory Tool_Survives
  imports Bridge_Tool Set_Up Process_Agree
begin

text \<open>
  The bridge program does not crash. With the number of devices that ids can have, all handlers of the library
  return whatever message they get; so processing returns as long as the devices run dry, and no option, message or
  key can bring the program down, except for an interface that cannot be made.
\<close>

section \<open>Its handlers return\<close>

definition no_other_classes :: "'d virtual_functions \<Rightarrow> bool" where
  "no_other_classes vf \<longleftrightarrow> (\<forall>k header payload origin w. other_handle vf k header payload origin w = Some w)"

text \<open>No interface is paused, and handlers that ask for the id of their node have one.\<close>

definition intact :: "'d cpp_world \<Rightarrow> bool" where
  "intact w \<longleftrightarrow> (\<forall>i. \<not> paused (interface_objects (env w) i)) \<and>
     (\<forall>k. handler_objects (env w) k = PrintOwnId_object \<longrightarrow> nh_node (nodeHandlers w k) \<noteq> None)"

lemma miss_events_return:
  assumes "NDLCOM_MAX_NUMBER_OF_DEVICES cfg = 256"
  shows "\<exists>d t. isMiss cfg header s = Inr (d, t)"
proof (cases "mSenderId header = NDLCOM_ADDR_BROADCAST")
  case True
  then show ?thesis by (simp add: isMiss_def)
next
  case False
  show ?thesis using isMiss_default [OF assms False, of s] by (simp add: Let_def split: if_splits)
qed

text \<open>A handler changes what it has counted and prints.\<close>

definition handled :: "'d objects \<Rightarrow> 'd objects \<Rightarrow> bool" where
  "handled e e' \<longleftrightarrow> interface_objects e' = interface_objects e \<and> outside e' = outside e \<and>
     (\<forall>k. handler_objects e' k = PrintOwnId_object \<longleftrightarrow> handler_objects e k = PrintOwnId_object)"

lemma handled_by_wrapper:
  assumes "handleWrapper cfg vf k header payload origin w = Some w'" and "no_other_classes vf"
  shows "\<exists>e. w' = w\<lparr>env := e\<rparr> \<and> handled (env w) e"
proof -
  have "w' = w\<lparr>env := env w'\<rparr> \<and> handled (env w) (env w')"
    using assms
    by (auto simp: handleWrapper_def handled_def no_other_classes_def put_cerr_def put_object_def upd_env_def
        split: handler_object.splits sum.splits option.splits prod.splits if_splits)
  then show ?thesis by blast
qed

lemma wrapper_returns:
  assumes "NDLCOM_MAX_NUMBER_OF_DEVICES cfg = 256" and "no_other_classes vf" and "intact w"
  shows "handleWrapper cfg vf k header payload origin w \<noteq> None"
proof -
  have "\<exists>s. BridgeMissEvents_handle cfg header t = Inr s" "\<exists>s. BridgePrintMissEvents_handle cfg header (t, said) = Inr s" for t said
    using miss_events_return [OF assms(1), of header t] by (auto simp: BridgeMissEvents_handle_def BridgePrintMissEvents_handle_def)
  moreover have "handler_objects (env w) k = PrintOwnId_object \<Longrightarrow> getOwnDeviceId k w \<noteq> None"
    using assms(3) by (simp add: intact_def getOwnDeviceId_def)
  ultimately show ?thesis
    using assms(2)
    by (cases "handler_objects (env w) k")
      (auto simp: handleWrapper_def no_other_classes_def split: sum.splits prod.splits option.splits, (metis sum.distinct(1))+)
qed

lemma intact_handled: "intact w \<Longrightarrow> handled (env w) e \<Longrightarrow> intact (w\<lparr>env := e\<rparr>)"
  by (simp add: intact_def handled_def)

section \<open>Processing returns\<close>

text \<open>The callbacks of the program in states where no interface is paused, with handlers that always return.\<close>

definition total_callbacks :: "config \<Rightarrow> 'd virtual_functions \<Rightarrow> 'd objects callbacks" where
  "total_callbacks cfg vf =
     \<lparr>cb_write = writeWrapper vf,
      cb_read = (\<lambda>i n e. let (buf, d) = readEscapedBytes vf i n (outside e) in (buf, noteIncomingBytes i (length buf) (e\<lparr>outside := d\<rparr>))),
      cb_handler = (\<lambda>k header payload origin w.
        case handleWrapper cfg vf k header payload origin w of None \<Rightarrow> Some w | Some w' \<Rightarrow> Some w')\<rparr>"

lemma total_handler:
  assumes "no_other_classes vf"
  shows "\<exists>e. cb_handler (total_callbacks cfg vf) k header payload origin w = Some (w\<lparr>env := e\<rparr>) \<and> handled (env w) e"
proof (cases "handleWrapper cfg vf k header payload origin w")
  case None
  then show ?thesis by (intro exI [of _ "env w"]) (simp add: total_callbacks_def handled_def)
next
  case (Some w')
  then show ?thesis using handled_by_wrapper [OF Some assms] by (simp add: total_callbacks_def)
qed

lemma total_returns:
  assumes "no_other_classes vf"
  shows "handlers_return (total_callbacks cfg vf) ids"
  unfolding handlers_return_def handlers_leave_lists_def
proof (intro conjI allI impI)
  fix k header payload origin w w'
  assume "cb_handler (total_callbacks cfg vf) k header payload origin w = Some w'"
  then show "links w' = links w" "ifaces w' = ifaces w"
    using total_handler [OF assms, of cfg k header payload origin w] by auto
next
  fix k header payload origin w
  show "cb_handler (total_callbacks cfg vf) k header payload origin w \<noteq> None"
    using total_handler [OF assms, of cfg k header payload origin w] by auto
qed

lemma total_agree:
  assumes "NDLCOM_MAX_NUMBER_OF_DEVICES cfg = 256" and "no_other_classes vf"
  shows "callbacks_agree intact (total_callbacks cfg vf) (cpp_callbacks cfg vf)"
proof -
  have "cb_handler (total_callbacks cfg vf) k header payload origin w = handleWrapper cfg vf k header payload origin w"
    if "intact w" for k header payload origin w
    using wrapper_returns [OF assms that, of k header payload origin] by (auto simp: total_callbacks_def split: option.split)
  then show ?thesis
    by (auto simp: callbacks_agree_def cpp_callbacks_def intact_def) 
      (simp_all add: total_callbacks_def readWrapper_def Let_def split: prod.split)
qed

lemma total_preserve:
  assumes "no_other_classes vf" and "\<And>w e. Q w \<Longrightarrow> handled (env w) e \<Longrightarrow> Q (w\<lparr>env := e\<rparr>)"
  shows "handlers_preserve (total_callbacks cfg vf) Q"
  unfolding handlers_preserve_def
proof (intro allI impI)
  fix k header payload origin w w'
  assume "cb_handler (total_callbacks cfg vf) k header payload origin w = Some w'" and "Q w"
  then show "Q w'" using total_handler [OF assms(1), of cfg k header payload origin w] assms(2) by auto
qed

lemma intact_noted:
  "intact (w\<lparr>env := noteIncomingBytes i n ((env w)\<lparr>outside := p\<rparr>)\<rparr>) = intact w"
  "intact (w\<lparr>env := noteOutgoingBytes i n ((env w)\<lparr>outside := p\<rparr>)\<rparr>) = intact w"
  by (auto simp: intact_def noteIncomingBytes_def noteOutgoingBytes_def upd_interface_object_def)

lemma intact_run:
  assumes "no_other_classes vf"
  shows "run_invariant cfg (total_callbacks cfg vf) intact"
proof -
  have "handlers_preserve (total_callbacks cfg vf) intact" by (rule total_preserve [where Q = intact, OF assms intact_handled])
  moreover have "intact w \<Longrightarrow> intact (iface_write (total_callbacks cfg vf) j bytes w)" for j bytes w
    by (cases "paused (interface_objects (env w) (ei_io (ifaces w j)))")
      (simp_all add: iface_write_def total_callbacks_def writeWrapper_def intact_noted)
  moreover have "intact w \<Longrightarrow> intact (w\<lparr>env := snd (cb_read (total_callbacks cfg vf) io n (env w))\<rparr>)" for io n w
    by (simp add: total_callbacks_def case_prod_beta Let_def intact_noted)
  moreover have "intact w \<Longrightarrow> intact (learn_sender cfg i header w)" "intact w \<Longrightarrow> intact (upd_iface i g w)"
    for i header g and w :: "'a cpp_world"
    by (simp_all add: intact_def learn_sender_def upd_iface_def)
  ultimately show ?thesis unfolding run_invariant_def message_invariant_def by blast
qed

lemma typed_run_total:
  assumes "no_other_classes vf"
  shows "run_invariant cfg (total_callbacks cfg vf) (world_typed cfg)"
  by (intro typed_run total_preserve [OF assms]) simp

text \<open>Devices whose data runs out.\<close>

definition functions_drain :: "'d virtual_functions \<Rightarrow> ('d \<Rightarrow> nat) \<Rightarrow> bool" where
  "functions_drain vf pending \<longleftrightarrow>
     (\<forall>i n d. length (fst (readEscapedBytes vf i n d)) \<le> n \<and>
        (fst (readEscapedBytes vf i n d) = [] \<longrightarrow> snd (readEscapedBytes vf i n d) = d) \<and>
        (fst (readEscapedBytes vf i n d) \<noteq> [] \<longrightarrow> pending (snd (readEscapedBytes vf i n d)) < pending d)) \<and>
     (\<forall>i bytes d. pending (writeEscapedBytes vf i bytes d) \<le> pending d)"

lemma functions_drainD:
  assumes "functions_drain vf pending"
  shows "length (fst (readEscapedBytes vf i n d)) \<le> n"
    and "fst (readEscapedBytes vf i n d) = [] \<Longrightarrow> snd (readEscapedBytes vf i n d) = d"
    and "fst (readEscapedBytes vf i n d) \<noteq> [] \<Longrightarrow> pending (snd (readEscapedBytes vf i n d)) < pending d"
    and "pending (writeEscapedBytes vf i bytes d) \<le> pending d"
  using assms unfolding functions_drain_def by simp_all

lemma total_drains:
  assumes "functions_drain vf pending" and "no_other_classes vf"
  shows "drains (total_callbacks cfg vf) (\<lambda>e. pending (outside e))"
proof -
  note d = functions_drainD [OF assms(1)]
  have noted: "outside (noteIncomingBytes i n e) = outside e" "outside (noteOutgoingBytes i n e) = outside e"
    "noteIncomingBytes i 0 e = e" for i n and e :: "'a objects"
    by (simp_all add: noteIncomingBytes_def noteOutgoingBytes_def upd_interface_object_def fun_upd_idem)
  have "pending (outside (env w')) \<le> pending (outside (env w))"
    if "cb_handler (total_callbacks cfg vf) k header payload origin w = Some w'" for k header payload origin w w'
    using that total_handler [OF assms(2), of cfg k header payload origin w] by (auto simp: handled_def)
  then show ?thesis
    unfolding drains_def
    by (auto simp: total_callbacks_def case_prod_beta Let_def writeWrapper_def noted d(1,3,4) dest!: d(2))
qed

section \<open>The state of the program\<close>

definition sound :: "config \<Rightarrow> nat set \<Rightarrow> 'd cpp_world \<Rightarrow> bool" where
  "sound cfg is w \<longleftrightarrow> world_typed cfg w \<and> intact w \<and> (\<forall>i \<in> is. \<not> ndlcomParserHasPacket (ei_parser (ifaces w i)))"

definition bridge_sound :: "config \<Rightarrow> 'd cpp_bridge \<Rightarrow> bool" where
  "bridge_sound cfg b \<longleftrightarrow> sound cfg (set (externalInterfaces b)) (c_bridge b)"

definition tool_sound :: "config \<Rightarrow> ('d, 'f) bridge_tool \<Rightarrow> bool" where
  "tool_sound cfg t \<longleftrightarrow> tool_ok t \<and> bridge_sound cfg (tool_bridge t)"

lemma sound_same:
  assumes "sound cfg is w" and "world_typed cfg w'" and "interface_objects (env w') = interface_objects (env w)"
    and "handler_objects (env w') = handler_objects (env w)" and "nodeHandlers w' = nodeHandlers w"
    and "\<And>i. ei_parser (ifaces w' i) = ei_parser (ifaces w i)"
  shows "sound cfg is w'"
  using assms by (simp add: sound_def intact_def)

lemma sound_put_cerr: "sound cfg is w \<Longrightarrow> sound cfg is (put_cerr g w)"
  by (simp add: sound_def intact_def put_cerr_def)

text \<open>As data runs out, processing returns.\<close>

lemma sound_process:
  assumes "owns b r" and "bridge_sound cfg b" and "NDLCOM_MAX_NUMBER_OF_DEVICES cfg = 256" and "no_other_classes vf"
    and "functions_drain vf pending"
  shows "\<exists>b'. Bridge_process cfg vf b = Some b' \<and> bridge_sound cfg b'"
proof -
  let ?cb = "total_callbacks cfg vf" and ?is = "rev (externalInterfaces b)"
  have s: "world_typed cfg (c_bridge b)" "intact (c_bridge b)"
    "\<forall>i \<in> set ?is. \<not> ndlcomParserHasPacket (ei_parser (ifaces (c_bridge b) i))"
    using assms(2) by (simp_all add: bridge_sound_def sound_def)
  have ok: "bridge_ok cfg (c_bridge b) ?is (reg_handlers r)"
    using holds_registered [OF ownsD(1) [OF assms(1)]] ownsD(2) [OF assms(1)] s by (simp add: bridge_ok_def typed_parts)
  obtain n w where w: "process_until_idle cfg ?cb 0 (c_bridge b) = Some (n, w)" "bridge_ok cfg w ?is (reg_handlers r)"
    using process_until_idle_effect [OF total_returns [OF assms(4)] total_drains [OF assms(5,4)] ok, where k = 0] by blast
  note keeps = process_until_idle_keeps [OF w(1)]
  have "world_typed cfg w" "intact w"
    using keeps [OF s(1) typed_run_total [OF assms(4)]] keeps [OF s(2) intact_run [OF assms(4)]] by simp_all
  then have "bridge_sound cfg (b\<lparr>c_bridge := w\<rparr>)" using w(2) by (simp add: bridge_sound_def sound_def bridge_ok_def)
  moreover have "ndlcomBridgeProcess cfg (cpp_callbacks cfg vf) (c_bridge b) = Some (n, w)"
    unfolding ndlcomBridgeProcess_def
    by (rule process_until_idle_agrees [OF w(1) s(2) intact_run [OF assms(4)] total_agree [OF assms(3,4)]])
  ultimately show ?thesis by (simp add: Bridge_process_def)
qed

section \<open>Options keep it\<close>

lemma sound_routes: "sound cfg is w \<Longrightarrow> sound cfg is (snd (setRoutingByString cfg i conn w))"
proof -
  assume w: "sound cfg is w"
  have step: "sound cfg is (set_route cfg i d v)" if "sound cfg is v" for d v
  proof (rule sound_same [OF that])
    show "world_typed cfg (set_route cfg i d v)"
      using that by (simp add: set_route_def setRoutingForDeviceId_def put_cerr_def sound_def set_up_typed [OF api_call.iface_route])
  qed (simp_all add: set_route_def setRoutingForDeviceId_def ndlcomExternalInterfaceSetRoutingForDeviceId_def
      ndlcomBridgeAddRoutingInformationForDeviceId_def put_cerr_def)
  have folds: "sound cfg is (fold (set_route cfg i) ds v)" if "sound cfg is v" for ds v
    using that by (induction ds arbitrary: v) (simp_all add: step)
  show ?thesis by (simp add: setRoutingByString_def Let_def w sound_put_cerr folds split: prod.split sum.split)
qed

lemma sound_interface:
  assumes "createExternalInterface cfg i label fl b = Some b'" and "bridge_sound cfg b"
  shows "bridge_sound cfg b'"
proof -
  let ?w = "ExternalInterfaceBase_new cfg i label fl (c_bridge b)"
  have s: "sound cfg (set (externalInterfaces b)) (c_bridge b)" using assms(2) by (simp add: bridge_sound_def)
  have "world_typed cfg ?w" using s by (simp add: sound_def ExternalInterfaceBase_new_def typed_iface_init)
  moreover have "intact ?w"
    using s by (simp add: sound_def intact_def ExternalInterfaceBase_new_def interface_init_fields interface_init_others upd_interface_object_def)
  moreover have "\<not> ndlcomParserHasPacket (ei_parser (ifaces ?w j))" if "j \<in> insert i (set (externalInterfaces b))" for j
    using that s by (cases "j = i") (auto simp: sound_def ExternalInterfaceBase_new_def interface_init_no_packet interface_init_others)
  ultimately have new: "sound cfg (insert i (set (externalInterfaces b))) ?w" by (simp add: sound_def)
  obtain w' where w': "ndlcomBridgeRegisterExternalInterface i ?w = Some w'" "b' = b\<lparr>c_bridge := w', externalInterfaces := externalInterfaces b @ [i]\<rparr>"
    using assms(1) by (auto simp: createExternalInterface_def split: Option.bind_splits)
  have "sound cfg (insert i (set (externalInterfaces b))) w'"
    by (rule sound_same [OF new]) (use new in \<open>simp_all add: register_interface_fields [OF w'(1)] sound_def set_up_typed [OF api_call.register_iface [OF w'(1)]]\<close>)
  then show ?thesis by (simp add: bridge_sound_def w'(2))
qed

lemma sound_created:
  assumes "createInterface cfg opens i uri_text fl b = Some (Inr k, b')" and "bridge_sound cfg b"
  shows "bridge_sound cfg b'"
proof -
  obtain T m c where "createInterfaceByMatch all_interface_classes uri_text = Some (T, m)" "constructor_arguments T m = Inr c"
    using assms(1) by (auto simp: createInterface_def split: option.splits prod.splits sum.splits)
  then obtain b1 where b1: "createExternalInterface cfg i (interface_label c) fl b = Some b1"
    "b' = b1\<lparr>c_bridge := snd (setRoutingByString cfg i (m_last m) (c_bridge b1))\<rparr>"
    using assms(1) by (auto simp: createInterface_def case_prod_beta Let_def split: option.splits if_splits Option.bind_splits)
  show ?thesis
    using sound_interface [OF b1(1) assms(2)] by (simp add: b1(2) bridge_sound_def sound_routes)
qed

lemma sound_bridge_handler:
  assumes "createBridgeHandler k label s b = Some b'" and "bridge_sound cfg b" and "s \<noteq> PrintOwnId_object"
  shows "bridge_sound cfg b'"
proof -
  let ?w = "BridgeHandler_new k label s (c_bridge b)"
  have new: "sound cfg (set (externalInterfaces b)) ?w"
    using assms(2,3)
    by (simp add: bridge_sound_def sound_def intact_def BridgeHandler_new_def put_object_def bridge_handler_init_fields
        set_up_typed [OF api_call.handler_init])
  obtain w' where w': "ndlcomBridgeRegisterBridgeHandler (Free_handler k) ?w = Some w'"
    "b' = b\<lparr>c_bridge := w', bridgeHandler := bridgeHandler b @ [k]\<rparr>"
    using assms(1) by (auto simp: createBridgeHandler_def split: Option.bind_splits)
  have "sound cfg (set (externalInterfaces b)) w'"
    by (rule sound_same [OF new])
      (use new in \<open>simp_all add: register_handler_fields [OF w'(1)] sound_def set_up_typed [OF api_call.register_handler [OF w'(1)]]\<close>)
  then show ?thesis by (simp add: bridge_sound_def w'(2))
qed

lemma sound_node:
  assumes "createNode cfg n i b = Some b'" and "bridge_sound cfg b"
  shows "bridge_sound cfg b'"
proof -
  let ?w = "c_bridge (Node_new n i b)"
  have new: "sound cfg (set (externalInterfaces b)) ?w"
    using assms(2) by (simp add: bridge_sound_def sound_def intact_def Node_new_def node_init_fields set_up_typed [OF api_call.node_init])
  obtain w' where w': "ndlcomNodeRegister cfg n ?w = Some w'" "c_bridge b' = w'" "externalInterfaces b' = externalInterfaces b"
    using assms(1) by (auto simp: createNode_def Let_def Node_new_def split: Option.bind_splits)
  have "sound cfg (set (externalInterfaces b)) w'"
    by (rule sound_same [OF new])
      (use new in \<open>simp_all add: register_node_fields [OF w'(1)] sound_def set_up_typed [OF api_call.register_node [OF w'(1)]]\<close>)
  then show ?thesis by (simp add: bridge_sound_def w'(2,3))
qed

lemma sound_node_handler: "bridge_sound cfg b \<Longrightarrow> bridge_sound cfg (createNodeHandler n k label s b)"
proof -
  assume b: "bridge_sound cfg b"
  let ?v = "upd_env (\<lambda>e. e\<lparr>handler_labels := (handler_labels e)(k := label)\<rparr>) (c_bridge b)"
  let ?w = "ndlcomNodeRegisterNodeHandler n k (put_object k s (ndlcomNodeHandlerInit k k NDLCOM_NODE_HANDLER_FLAGS_DEFAULT ?v))"
  have "world_typed cfg ?w"
    using b by (simp add: bridge_sound_def sound_def put_object_def set_up_typed [OF api_call.node_handler_init]
        set_up_typed [OF api_call.register_node_handler])
  moreover have "intact ?w" "ifaces ?w = ifaces (c_bridge b)"
    using b by (simp_all add: bridge_sound_def sound_def intact_def put_object_def ndlcomNodeRegisterNodeHandler_def
        ndlcomNodeHandlerInit_def ndlcomNodeHandlerSetFlags_def Let_def upd_defs)
  ultimately show ?thesis
    using b by (simp add: bridge_sound_def sound_def createNodeHandler_def NodeHandler_new_def)
qed

lemma sound_enableOwnId:
  "enableOwnId cfg n k i print b = Some b' \<Longrightarrow> bridge_sound cfg b \<Longrightarrow> bridge_sound cfg b'"
  by (auto simp: enableOwnId_def sound_node_handler dest: sound_node split: Option.bind_splits if_splits)

lemma sound_prints: "bridge_sound cfg (tool_bridge (tool_prints message t)) = bridge_sound cfg (tool_bridge t)"
  by (simp add: tool_prints_def bridge_sound_def sound_def intact_def put_cerr_def)

lemma sound_option:
  assumes "bridge_option cfg rates opens realtime name junk t opt = Inr t'" and "bridge_sound cfg (tool_bridge t)"
  shows "bridge_sound cfg (tool_bridge t')"
proof -
  obtain c optarg where opt: "opt = (c, optarg)" by (cases opt)
  have iface: "bridge_sound cfg (tool_bridge t')" if "interface_option cfg opens flags optarg t = Inr t'" for flags
    using that assms(2) sound_created
    by (auto simp: interface_option_def with_new_object_def split: option.splits prod.splits sum.splits if_splits)
  have node: "bridge_sound cfg (tool_bridge t')" if "with_new_object t (enableOwnId cfg n k i print (tool_bridge t)) = Inr t'" for n k i print
    using that assms(2) sound_enableOwnId by (auto simp: with_new_object_def split: option.splits)
  have handler: "bridge_sound cfg (tool_bridge t')"
    if "with_new_object t (createBridgeHandler k label s (tool_bridge t)) = Inr t'" "s \<noteq> PrintOwnId_object" for k label s
    using that assms(2) sound_bridge_handler by (auto simp: with_new_object_def split: option.splits)
  show ?thesis
    using assms(1) iface node handler assms(2)
    unfolding opt bridge_option_def enablePrintAll_def enablePrintMiss_def
    by (auto simp: Let_def sound_prints split: if_splits option.splits)
qed

section \<open>The loop goes on\<close>

definition asks_to_stop :: "'d turn \<Rightarrow> bool" where
  "asks_to_stop tn \<longleftrightarrow> interrupted tn \<or> entered tn = Some ''q''"

lemma no_other_classes_keep: "no_other_classes vf \<Longrightarrow> outsiders_keep_lists vf"
  by (auto simp: no_other_classes_def outsiders_keep_lists_def)

lemma handleInput_sound:
  assumes "tool_ok t" and "handleInput cfg line t = Some t'" and "bridge_sound cfg (tool_bridge t)"
  shows "bridge_sound cfg (tool_bridge t')"
proof -
  obtain r where r: "owns (tool_bridge t) r" using assms(1) by (auto simp: tool_ok_def)
  have out: "bridge_sound cfg (b\<lparr>out := s\<rparr>) = bridge_sound cfg b" for b :: "'a cpp_bridge" and s
    by (simp add: bridge_sound_def)
  show ?thesis
    using assms(2,3) printRoutingTable_prints [OF r, of cfg] by (auto simp: handleInput_def Let_def out split: option.splits if_splits)
qed

lemma sleep_sound: "bridge_sound cfg (tool_bridge (sleep_until arrives t)) = bridge_sound cfg (tool_bridge t)"
  by (simp add: sleep_until_def bridge_sound_def sound_def intact_def)

lemma loop_survives:
  assumes "tool_ok t" and "bridge_sound cfg (tool_bridge t)" and "NDLCOM_MAX_NUMBER_OF_DEVICES cfg = 256" and "no_other_classes vf"
    and "functions_drain vf pending"
  shows "\<exists>t'. main_loop cfg vf turns t = Some t' \<and> (stopMainLoop t' \<longleftrightarrow> stopMainLoop t \<or> (\<exists>tn \<in> set turns. asks_to_stop tn))"
  using assms(1,2)
proof (induction turns arbitrary: t)
  case (Cons tn turns)
  show ?case
  proof (cases "stopMainLoop t")
    case False
    obtain r where r: "owns (tool_bridge t) r" using Cons.prems(1) by (auto simp: tool_ok_def)
    obtain b where b: "Bridge_process cfg vf (tool_bridge t) = Some b" "bridge_sound cfg b"
      using sound_process [OF r Cons.prems(2) assms(3-5)] by blast
    have ok: "tool_ok (t\<lparr>tool_bridge := b\<rparr>)" by (rule Bridge_process_tool_ok [OF b(1) no_other_classes_keep [OF assms(4)] Cons.prems(1)])
    obtain t1 where t1: "handleInput cfg (entered tn) (t\<lparr>tool_bridge := b\<rparr>) = Some t1" "tool_ok t1"
      "stopMainLoop t1 \<longleftrightarrow> entered tn = Some ''q''"
      using handleInput_ok [OF ok, of cfg "entered tn"] False by auto
    have s1: "bridge_sound cfg (tool_bridge t1)" using handleInput_sound [OF ok t1(1)] b(2) by simp
    let ?t = "let t = sleep_until (meanwhile tn) t1 in if interrupted tn then t\<lparr>stopMainLoop := True\<rparr> else t"
    have "tool_ok ?t" "bridge_sound cfg (tool_bridge ?t)" using tool_ok_sleep [OF t1(2)] s1 by (simp_all add: Let_def sleep_sound)
    from Cons.IH [OF this] obtain t' where "main_loop cfg vf turns ?t = Some t'"
      "stopMainLoop t' \<longleftrightarrow> stopMainLoop ?t \<or> (\<exists>tn \<in> set turns. asks_to_stop tn)" by blast
    moreover have "stopMainLoop ?t \<longleftrightarrow> asks_to_stop tn" using t1(3) by (auto simp: asks_to_stop_def sleep_until_def Let_def)
    ultimately show ?thesis using False b(1) t1(1) by (simp add: Let_def)
  qed simp
qed simp

text \<open>Only options that ask for an interface throw.\<close>

lemma option_throws:
  assumes "bridge_option cfg rates opens realtime name junk t opt = Inl (e, t')" and "e \<noteq> Failure" and "tool_ok t"
  shows "fst opt = CHR ''u'' \<or> fst opt = CHR ''m''"
proof (rule ccontr)
  assume other: "\<not> ?thesis"
  obtain c optarg where opt: "opt = (c, optarg)" by (cases opt)
  obtain r where r: "owns (tool_bridge t) r" using assms(3) by (auto simp: tool_ok_def)
  note new = tool_okD [OF assms(3)]
  obtain b1 b2 where "createBridgeHandler (new_object t) ''BridgePrintAll'' PrintAll_object (tool_bridge t) = Some b1"
    "createBridgeHandler (new_object t) ''BridgeMissEvents'' (PrintMissEvents_object BridgeMissEvents_init) (tool_bridge t) = Some b2"
    using create_handler_grows [OF r new(2)] by metis
  moreover have "enableOwnId cfg (new_object t) (new_object t) i print (tool_bridge t) \<noteq> None" for i print
    using enableOwnId_owns [OF r new(3,4), of cfg i print] by auto
  ultimately show False
    using assms(1,2) other unfolding opt bridge_option_def enablePrintAll_def enablePrintMiss_def
    by (auto simp: with_new_object_def Let_def split: if_splits option.splits) (metis option.distinct(1))+
qed

lemma options_end:
  assumes "tool_ok t" and "bridge_sound cfg (tool_bridge t)"
  shows "case each_option (bridge_option cfg rates opens realtime name junk) opts t of
      Inl (e, t') \<Rightarrow> e \<noteq> Failure \<longrightarrow> (\<exists>optarg. (CHR ''u'', optarg) \<in> set opts \<or> (CHR ''m'', optarg) \<in> set opts)
    | Inr t' \<Rightarrow> tool_ok t' \<and> bridge_sound cfg (tool_bridge t') \<and> stopMainLoop t' = stopMainLoop t"
  using assms
proof (induction opts arbitrary: t)
  case (Cons opt opts)
  show ?case
  proof (cases "bridge_option cfg rates opens realtime name junk t opt")
    case (Inl x)
    then show ?thesis using option_throws [of cfg rates opens realtime name junk t opt] Cons.prems(1)
      by (cases x; cases opt) fastforce
  next
    case (Inr t1)
    have "tool_ok t1" using bridge_option_ok [OF Cons.prems(1), of cfg rates opens realtime name junk opt] by (simp add: Inr option_ok_def)
    moreover have "bridge_sound cfg (tool_bridge t1)" by (rule sound_option [OF Inr Cons.prems(2)])
    moreover have "stopMainLoop t1 = stopMainLoop t"
      using Inr by (cases opt) (auto simp: bridge_option_def interface_option_def with_new_object_def tool_prints_def Let_def
          split: if_splits option.splits sum.splits prod.splits)
    ultimately show ?thesis using Cons.IH [of t1] by (auto simp: Inr split: sum.splits prod.splits)
  qed
qed simp

section \<open>The program survives\<close>

definition survives :: "option_arg list \<Rightarrow> 'd turn list \<Rightarrow> ('d, 'f) bridge_end \<Rightarrow> bool" where
  "survives opts turns x \<longleftrightarrow> (case x of
      Quit status b \<Rightarrow> externalInterfaces b = [] \<and> bridgeHandler b = [] \<and> cpp_nodes b = [] \<and> (\<forall>n. allHandler b n = []) \<and>
        list_empty (links (c_bridge b)) ExternalInterfaceList \<and> list_empty (links (c_bridge b)) BridgeHandlerList \<and>
        (status = Failure \<or>
         status = Success \<and> (\<exists>said. std_cerr (env (c_bridge b)) = said @ ''quitting'' @ endl) \<and>
           (\<exists>tn \<in> set turns. interrupted tn \<or> entered tn = Some ''q''))
    | Running t \<Rightarrow> (\<exists>r. owns (tool_bridge t) r) \<and> \<not> (\<exists>tn \<in> set turns. interrupted tn \<or> entered tn = Some ''q'')
    | Ended e \<Rightarrow> e = Uncaught \<and> (\<exists>optarg. (CHR ''u'', optarg) \<in> set opts \<or> (CHR ''m'', optarg) \<in> set opts))"

lemma failure_survives:
  assumes "tool_ok t"
  shows "survives opts turns (exit_program cfg Failure t)"
proof -
  obtain b where b: "exit_program cfg Failure t = Quit Failure b" using exit_program_tears_down [OF assms] by blast
  show ?thesis using exit_ends_cleanly(1) [OF assms, of cfg] by (simp add: b survives_def ends_cleanly_def)
qed

lemma main_loop_survives:
  assumes "tool_ok t" and "bridge_sound cfg (tool_bridge t)" and "\<not> stopMainLoop t" and "NDLCOM_MAX_NUMBER_OF_DEVICES cfg = 256"
    and "no_other_classes vf" and "functions_drain vf pending"
  shows "survives opts turns (case main_loop cfg vf turns t of
      None \<Rightarrow> Ended Bad_access
    | Some t \<Rightarrow> if \<not> stopMainLoop t then Running t else exit_program cfg Success (tool_prints (''quitting'' @ endl) t))"
proof -
  note keep = no_other_classes_keep [OF assms(5)]
  obtain v where v: "main_loop cfg vf turns t = Some v" "stopMainLoop v \<longleftrightarrow> (\<exists>tn \<in> set turns. asks_to_stop tn)"
    using loop_survives [OF assms(1,2,4-6), of turns] assms(3) by auto
  have ok: "tool_ok v" by (rule main_loop_ok [OF v(1) keep assms(1)])
  note clean = main_loop_ends_cleanly [OF assms(1) keep, of cfg turns, unfolded v(1) option.case]
  show ?thesis
  proof (cases "stopMainLoop v")
    case True
    obtain b where b: "exit_program cfg Success (tool_prints (''quitting'' @ endl) v) = Quit Success b"
      using exit_program_tears_down [OF tool_ok_prints [OF ok]] by blast
    have "ends_cleanly cfg vf (exit_program cfg Success (tool_prints (''quitting'' @ endl) v))" using clean True by simp
    then show ?thesis unfolding v(1) option.case b using True v(2) by (auto simp: survives_def ends_cleanly_def asks_to_stop_def b)
  next
    case False
    have "ends_cleanly cfg vf (Running v)" using clean False by simp
    then show ?thesis using v False by (auto simp: survives_def ends_cleanly_def asks_to_stop_def)
  qed
qed

lemma start_sound:
  assumes "world_typed cfg w" and "intact w"
  shows "bridge_sound cfg (Bridge_new cfg s w)"
proof -
  have "env (ndlcomBridgeInit cfg w) = env w" "nodeHandlers (ndlcomBridgeInit cfg w) = nodeHandlers w"
    by (simp_all add: ndlcomBridgeInit_def Let_def upd_defs)
  then show ?thesis
    using set_up_typed [OF api_call.bridge_init assms(1)] assms(2) by (simp add: bridge_sound_def sound_def intact_def Bridge_new_def)
qed

lemma bridge_main_survives:
  assumes "holds w no_registry" and "world_typed cfg w" and "intact w" and "NDLCOM_MAX_NUMBER_OF_DEVICES cfg = 256"
    and "no_other_classes vf" and "functions_drain vf pending"
  shows "survives opts turns (bridge_main cfg rates vf opens realtime name junk w opts more_args turns)"
proof -
  let ?start = "\<lparr>tool_bridge = Bridge_new cfg [] w, new_object = 0, stopMainLoop = False, mainLoopFrequency_hz = initial_rate rates\<rparr>"
  have start: "tool_ok ?start" "bridge_sound cfg (tool_bridge ?start)"
    using tool_start_ok [OF assms(1)] start_sound [OF assms(2,3)] by simp_all
  note ends = options_end [OF start, where rates = rates and opens = opens and realtime = realtime and name = name and junk = junk and opts = opts]
  note ok = bridge_options_ok [OF assms(1), of cfg rates opens realtime name junk opts "[]" "initial_rate rates"]
  show ?thesis
  proof (cases "each_option (bridge_option cfg rates opens realtime name junk) opts ?start")
    case (Inl x)
    obtain e t where x: "x = (e, t)" by (cases x)
    then have "tool_ok t \<and> e = Failure \<or> e = Uncaught" using ok by (simp add: Inl option_ok_def)
    then show ?thesis
      using ends failure_survives [of t opts turns cfg] by (auto simp: bridge_main_def Inl x survives_def)
  next
    case (Inr t)
    have t: "tool_ok t" "bridge_sound cfg (tool_bridge t)" "\<not> stopMainLoop t" using ends by (simp_all add: Inr)
    let ?t = "tool_prints (''using update rate of '' @ rate_text rates (mainLoopFrequency_hz t) @ endl @ endl) t"
    let ?u = "?t\<lparr>tool_bridge := (tool_bridge ?t)\<lparr>out := out (tool_bridge ?t) @ Bridge_printStatus cfg (tool_bridge ?t)\<rparr>\<rparr>"
    have "tool_ok ?u" unfolding tool_ok_out by (rule tool_ok_prints [OF t(1)])
    moreover have "bridge_sound cfg (tool_bridge ?u)" using t(2) sound_prints [of cfg _ t] by (simp add: bridge_sound_def)
    moreover have "\<not> stopMainLoop ?u" using t(3) by (simp add: tool_prints_def)
    ultimately have "survives opts turns (case main_loop cfg vf turns ?u of None \<Rightarrow> Ended Bad_access
      | Some t \<Rightarrow> if \<not> stopMainLoop t then Running t else exit_program cfg Success (tool_prints (''quitting'' @ endl) t))"
      by (rule main_loop_survives [OF _ _ _ assms(4-6)])
    moreover have "survives opts turns (exit_program cfg Failure (tool_prints (help_text name) t))"
      by (rule failure_survives [OF tool_ok_prints [OF t(1)]])
    ultimately show ?thesis unfolding bridge_main_def Inr Let_def sum.case by simp
  qed
qed



end
