(* ===== verification/Spec2Isabelle.thy ===== *)
theory Spec2Isabelle
  imports Bridge_Properties Link Handlers Device_Io Pipe_Io Uri Devices Cpp_Properties Consumer_Properties
    Bridge_Tool Hash_List List_Loops Cpp_Streams Transport World_Types Answering Minimal_Example
    Cpp_Example_Run Tool_Survives
begin

text \<open>
  NDLCom: node-level data link communication.

  The program moves packets between devices. A packet has a header of four bytes (receiver, sender,
  counter, length of the payload), a payload and a checksum; on the line it is a frame between two
  flag bytes in which flag and escape bytes are escaped. A bridge connects external interfaces (a
  serial line, a socket, ...) with handlers inside of a process. It decodes what the interfaces
  receive, learns behind which interface a sender lives, writes each message to the interfaces that
  lead to its receiver and hands it to the handlers. A node is a handler with a device id of its own,
  which passes on the messages for this id and numbers the messages it sends.

  The theories, in the order of the imports:

    \<^item> \<open>Ndl_Prelude\<close>: word sizes and general lemmas.
    \<^item> \<open>Crc16\<close> (src/Crc.c, include/ndlcom/Crc.h, test/printTable.c): the table-driven checksum step, shown
      to be a division by a polynomial; which errors it finds.
    \<^item> \<open>Packet\<close> (include/ndlcom/Types.h): headers, their bytes and the sizes of messages. The two numbers
      fixed when the library is built, the number of devices and the largest payload, are the record
      \<open>config\<close>, together with the byte order of the machine.
    \<^item> \<open>Encoder\<close> (src/Encoder.c): \<open>ndlcomEncode\<close> and \<open>ndlcomEncodeVar\<close> on a buffer of given size.
    \<^item> \<open>Parser\<close> (src/Parser.c): the state machine \<open>ndlcomParserReceive\<close>, with the fill counts of its arrays.
      A write outside of an array is \<open>None\<close>. It is compared with an abstract deframer.
    \<^item> \<open>Header_Prepare\<close> (src/HeaderPrepare.c) and \<open>Routing\<close> (src/Routing.c): the counters and the table.
    \<^item> \<open>Linked_List\<close> (include/ndlcom/list.h): the circular lists as two functions from addresses to addresses,
      their operations pointer by pointer, and the relation to abstract lists. \<open>List_Loops\<close> has the loops
      of this header, each shown to visit the list it should, and which of them survive that entries are
      removed; \<open>Hash_List\<close> has its hash lists, where an entry points back to the slot it hangs on.
    \<^item> \<open>World\<close>, \<open>Bridge\<close>, \<open>Node\<close> (src/Bridge.c, src/Node.c, src/ExternalInterface.c, src/BridgeHandler.c,
      src/NodeHandler.c): one record \<open>world\<close> holds the structures of the C code by address: the bridge, its
      interfaces, handlers and nodes, and the links of the lists. The functions of the user that the library
      calls are the record \<open>callbacks\<close>, a parameter, and what they act on is the field \<open>env\<close>. A handler may
      fail; a message it fails at is where processing stops. \<open>Example_World\<close> is a concrete world for the witnesses,
      and \<open>Bridge_Properties\<close> holds the properties of bridge and node. \<open>Link\<close> puts the two ends of a line together.
      \<open>World_Types\<close> shows that no sequence of calls changes the sizes of the arrays.
    \<^item> \<open>Cpp_Text\<close>: what the C++ code uses of strings and streams.
    \<^item> \<open>Handlers\<close> (src/BridgeHandler.cpp, src/NodeHandler.cpp): printers, miss counter and statistics.
    \<^item> \<open>Device_Io\<close>, \<open>Pipe_Io\<close> (src/ExternalInterface.cpp): the loops around the system calls. The answers of
      the system are lists, consumed one per call; a loop that has no answer left is \<open>Waiting\<close>.
    \<^item> \<open>Uri\<close> (src/ExternalInterface.cpp, src/Bridge.cpp, include/ndlcom/Bridge.hpp): how the text that describes
      an interface is understood.
    \<^item> \<open>Descriptors\<close>, \<open>Device_Open\<close>, \<open>Device_Files\<close> (src/ExternalInterface.cpp, include/ndlcom/ExternalInterface.hpp): the
      objects, constructors and destructors of the devices. Which system calls succeed is a parameter; what they
      change, the open descriptors, the settings of a port and the files of pipes and pseudo terminals, is the
      state. \<open>Devices\<close> puts them together and shows what remains of devices that are made and destroyed in any order.
    \<^item> \<open>Registry\<close>: the lists of bridge and nodes as a record of what is registered, and what each function
      of the C code that changes a list does to this record.
    \<^item> \<open>Cpp_Objects\<close> (src/ExternalInterfaceBase.cpp, src/InternalHandler.cpp, src/Payload.cpp): the C++ objects
      as part of the environment of the C world, and their wrappers as its callbacks.
    \<^item> \<open>Cpp_Bridge\<close> (src/Bridge.cpp, src/Node.cpp and their headers): creation, ownership and destruction of
      objects, interfaces from uris, status texts. \<open>Ownership\<close> shows that the vectors of the objects and the
      C lists always agree, \<open>Process_Keeps\<close> what processing leaves alone even when handlers throw,
      \<open>Process_Agree\<close> that callbacks which differ only in states that never come up do the same, and \<open>Cpp_Properties\<close> holds the properties of the C++ layer. \<open>Cpp_Streams\<close> shows what an interface object makes of the bytes it reads,
      also when a handler throws, and \<open>Answering\<close> when handlers that send from inside of their method return.
    \<^item> \<open>Packet_Stream\<close>, \<open>Transport\<close>: a channel that delivers the bytes written into it in pieces, as a locale, and that
      messages cross it; the pipe, the TCP connection and the CAN bus are such channels.
    \<^item> \<open>Command_Line\<close>, \<open>Packet_Producer\<close>, \<open>Packet_Consumer\<close>, \<open>Bridge_Tool\<close> (tools/): the programs, from their parsed
      options to how they end. \<open>Consumer_Properties\<close> has what the consumer prints, alone and behind the producer.
      \<open>Bridge_Help\<close> has the help text of the bridge program, whose examples are uris that it understands, and
      \<open>Tool_Survives\<close> shows that this program goes on until it is asked to stop. \<open>Set_Up\<close> has what setting up a bridge
      keeps, for all programs.
      \<open>Minimal_Example\<close> (tools/minimalExample.c) is the example in C, with all that it prints.
      \<open>Cpp_Example\<close> (tools/minimalExample.cpp) is the one in C++: its handler, its set-up and its loop; \<open>Cpp_Example_Run\<close>
      shows what it prints and that it runs until it is interrupted. Its devices are a parameter, and what arrives while it sleeps is anything.

  Bounds. Loops of the C code are structural recursion, except for the loop over a list during which
  handlers may change the list, and the main loop of the bridge: these are partial functions, where
  \<open>None\<close> means that they do not return or touch memory they must not, and that they return is a theorem.

  Not modelled: the help texts of producer and consumer, floating-point numbers and how long
  the turns of the main loops take; the tests; \<open>container_of\<close>, as an entry and the list head
  inside of it have one address; threads, which the program does not have.
\<close>

end
